(* ===== verification/Tally_Prelude.thy ===== *)
theory Tally_Prelude
  imports
    Main
    "HOL-Library.Word"
    "HOL-Library.Char_ord"
    "HOL-Library.List_Lexorder"
    "HOL-Library.Product_Lexorder"
    "HOL-Library.Multiset"
    "HOL-Library.AList"
begin

text \<open>
  Shared vocabulary of the development: Rust's fixed-width integers and their checked
  arithmetic, Rust strings as lists of UTF-8 bytes together with the character classes the
  sources test, the iterator functions of the standard library that several components use
  (\<open>position\<close>, \<open>min_by\<close>, \<open>remove\<close>, \<open>split\<close>), and decimal formatting.

  A Rust \<open>String\<close> is a \<^typ>\<open>string\<close> whose elements are its UTF-8 bytes, so that
  \<^const>\<open>length\<close> is Rust's \<open>len()\<close> and the lexicographic order of
  \<open>List_Lexorder\<close> over \<open>Char_ord\<close> is Rust's \<open>Ord\<close> for strings.
\<close>

named_theorems checked_simps \<open>facts about checked machine arithmetic\<close>
named_theorems frame_simps \<open>fields an operation leaves unchanged\<close>

type_synonym u8 = "8 word"
type_synonym u32 = "32 word"
type_synonym u64 = "64 word"

section \<open>Checked machine arithmetic\<close>

definition checked_add :: "u64 \<Rightarrow> u64 \<Rightarrow> u64 option" where
  "checked_add a b = (if unat a + unat b < 2 ^ 64 then Some (a + b) else None)"

lemma checked_add_eq_Some [checked_simps]:
  "checked_add a b = Some c \<longleftrightarrow> unat c = unat a + unat b"
proof
  assume "checked_add a b = Some c"
  then show "unat c = unat a + unat b"
    by (auto simp: checked_add_def unat_word_ariths split: if_splits)
next
  assume c: "unat c = unat a + unat b"
  then have "unat a + unat b < 2 ^ 64"
    using unsigned_less [of c, where 'a = nat] by simp
  moreover from this have "unat (a + b) = unat c"
    by (simp add: c unat_word_ariths)
  ultimately show "checked_add a b = Some c"
    by (simp add: checked_add_def unsigned_word_eqI)
qed

lemma checked_add_eq_None [checked_simps]:
  "checked_add a b = None \<longleftrightarrow> 2 ^ 64 \<le> unat a + unat b"
  by (simp add: checked_add_def)

text \<open>For evaluation: the sum overflows exactly when the wrapped sum is smaller.\<close>

lemma checked_add_code [code]:
  "checked_add a b = (if a \<le> a + b then Some (a + b) else None)"
  using no_olen_add_nat [of a b] by (simp add: checked_add_def)

text \<open>\<open>iter().try_fold(0, checked_add)\<close>, with the accumulator as an argument.\<close>

text \<open>\<open>u64::saturating_add\<close>, \<open>u64::saturating_mul\<close> and \<open>u64::saturating_sub\<close>.\<close>

definition saturating_add :: "u64 \<Rightarrow> u64 \<Rightarrow> u64" where
  "saturating_add a b = (if unat a + unat b < 2 ^ 64 then a + b else - 1)"

definition saturating_mul :: "u64 \<Rightarrow> u64 \<Rightarrow> u64" where
  "saturating_mul a b = (if unat a * unat b < 2 ^ 64 then a * b else - 1)"

definition saturating_sub :: "u64 \<Rightarrow> u64 \<Rightarrow> u64" where
  "saturating_sub a b = (if b \<le> a then a - b else 0)"

lemma unat_max_u64: "unat (- 1 :: u64) = 2 ^ 64 - 1"
  by (simp add: unsigned_minus_1_eq_mask mask_eq_exp_minus_1)

lemma saturating_add_unat: "unat (saturating_add a b) = min (unat a + unat b) (2 ^ 64 - 1)"
  by (auto simp: saturating_add_def unat_max_u64 unat_word_ariths min_def)

lemma saturating_mul_unat:
  "unat (saturating_mul a b) = (if unat a * unat b < 2 ^ 64 then unat a * unat b else 2 ^ 64 - 1)"
  by (simp add: saturating_mul_def unat_max_u64 unat_word_ariths)

lemma saturating_sub_unat: "unat (saturating_sub a b) = unat a - unat b"
  by (auto simp: saturating_sub_def word_le_nat_alt unat_sub_if')

fun checked_sum :: "u64 \<Rightarrow> u64 list \<Rightarrow> u64 option" where
  "checked_sum acc [] = Some acc"
| "checked_sum acc (x # xs) =
     (case checked_add acc x of None \<Rightarrow> None | Some acc' \<Rightarrow> checked_sum acc' xs)"

lemma checked_sum_eq_Some [checked_simps]:
  "checked_sum acc xs = Some r \<longleftrightarrow> unat r = unat acc + sum_list (map unat xs)"
proof (induction xs arbitrary: acc)
  case Nil
  then show ?case by (auto simp: word_unat_eq_iff)
next
  case (Cons x xs)
  show ?case
  proof (cases "checked_add acc x")
    case None
    then have "2 ^ 64 \<le> unat acc + unat x" by (simp add: checked_simps)
    moreover have "unat r < 2 ^ 64" using unsigned_less [of r, where 'a = nat] by simp
    ultimately show ?thesis using None by auto
  next
    case (Some acc')
    then have "unat acc' = unat acc + unat x" by (simp add: checked_simps)
    with Some Cons.IH [of acc'] show ?thesis by (simp add: add.assoc)
  qed
qed

section \<open>Lists\<close>

definition remove_nth :: "nat \<Rightarrow> 'a list \<Rightarrow> 'a list" where
  "remove_nth i xs = take i xs @ drop (Suc i) xs"

lemma length_remove_nth [simp]:
  "i < length xs \<Longrightarrow> length (remove_nth i xs) = length xs - 1"
  by (simp add: remove_nth_def)

lemma mset_remove_nth: "i < length xs \<Longrightarrow> mset xs = add_mset (xs ! i) (mset (remove_nth i xs))"
proof -
  assume "i < length xs"
  then have "xs = take i xs @ xs ! i # drop (Suc i) xs" by (rule id_take_nth_drop)
  then have "mset xs = mset (take i xs @ xs ! i # drop (Suc i) xs)" by simp
  then show ?thesis by (simp add: remove_nth_def)
qed

lemma set_remove_nth: "i < length xs \<Longrightarrow> set xs = insert (xs ! i) (set (remove_nth i xs))"
  using mset_remove_nth [of i xs] by (metis set_mset_add_mset_insert set_mset_mset)

lemma set_remove_nth_subset: "set (remove_nth i xs) \<subseteq> set xs"
  by (auto simp: remove_nth_def dest: in_set_takeD in_set_dropD)

lemma distinct_map_mset: "mset xs = mset ys \<Longrightarrow> distinct (map f xs) \<longleftrightarrow> distinct (map f ys)"
  by (metis mset_eq_imp_distinct_iff mset_map)

lemma distinct_remove_nth:
  assumes "distinct (map f xs)" and "i < length xs"
  shows "distinct (map f (remove_nth i xs))" and "f (xs ! i) \<notin> f ` set (remove_nth i xs)"
proof -
  have "mset xs = mset (xs ! i # remove_nth i xs)"
    using mset_remove_nth [OF assms(2)] by simp
  then have "distinct (map f (xs ! i # remove_nth i xs))"
    using assms(1) distinct_map_mset by blast
  then show "distinct (map f (remove_nth i xs))" and "f (xs ! i) \<notin> f ` set (remove_nth i xs)"
    by simp_all
qed

lemma sort_eq_Nil_iff [simp]: "sort xs = [] \<longleftrightarrow> xs = []"
  by (metis set_empty set_sort)

lemma sort_idem [simp]: "sort (sort xs) = sort xs"
  by (simp add: sorted_sort_id)

text \<open>\<open>Iterator::position\<close>.\<close>

fun position :: "('a \<Rightarrow> bool) \<Rightarrow> 'a list \<Rightarrow> nat option" where
  "position P [] = None"
| "position P (x # xs) = (if P x then Some 0 else map_option Suc (position P xs))"

lemma position_Some:
  "position P xs = Some i \<Longrightarrow> i < length xs \<and> P (xs ! i) \<and> (\<forall>j < i. \<not> P (xs ! j))"
proof (induction xs arbitrary: i)
  case Nil
  then show ?case by simp
next
  case (Cons x xs)
  show ?case
  proof (cases "P x")
    case True
    with Cons.prems show ?thesis by simp
  next
    case False
    with Cons.prems obtain k where k: "position P xs = Some k" "i = Suc k" by auto
    from Cons.IH [OF k(1)] False k(2) show ?thesis
      by (auto simp: less_Suc_eq_0_disj)
  qed
qed

lemma position_SomeI:
  "i < length xs \<Longrightarrow> P (xs ! i) \<Longrightarrow> \<forall>j < i. \<not> P (xs ! j) \<Longrightarrow> position P xs = Some i"
proof (induction xs arbitrary: i)
  case Nil
  then show ?case by simp
next
  case (Cons x xs)
  show ?case
  proof (cases i)
    case 0
    with Cons.prems show ?thesis by simp
  next
    case (Suc k)
    with Cons.prems(3) have "\<not> P x" and "\<forall>j < k. \<not> P (xs ! j)" by auto
    with Cons Suc show ?thesis by simp
  qed
qed

lemma position_None: "position P xs = None \<longleftrightarrow> (\<forall>x \<in> set xs. \<not> P x)"
  by (induction xs) auto

text \<open>\<open>Iterator::min_by\<close> with a key: the first element among those with the least key.\<close>

fun min_by_key :: "('a \<Rightarrow> 'k::linorder) \<Rightarrow> 'a list \<Rightarrow> 'a option" where
  "min_by_key f [] = None"
| "min_by_key f (x # xs) =
     (case min_by_key f xs of
        None \<Rightarrow> Some x
      | Some y \<Rightarrow> Some (if f x \<le> f y then x else y))"

lemma min_by_key_None [simp]: "min_by_key f xs = None \<longleftrightarrow> xs = []"
  by (cases xs) (auto split: option.splits)

lemma min_by_key_Some:
  "min_by_key f xs = Some x \<Longrightarrow> x \<in> set xs \<and> (\<forall>y \<in> set xs. f x \<le> f y)"
proof (induction xs arbitrary: x)
  case Nil
  then show ?case by simp
next
  case (Cons a xs)
  show ?case
  proof (cases "min_by_key f xs")
    case None
    with Cons.prems show ?thesis by simp
  next
    case (Some y)
    from Cons.IH [OF Some] Cons.prems Some show ?thesis
      by (auto split: if_splits)
  qed
qed

text \<open>\<open>str::split\<close> at a single ASCII character: always at least one piece.\<close>

fun split_on :: "char \<Rightarrow> string \<Rightarrow> string list" where
  "split_on c [] = [[]]"
| "split_on c (x # xs) =
     (if x = c then [] # split_on c xs
      else (case split_on c xs of [] \<Rightarrow> [[x]] | p # ps \<Rightarrow> (x # p) # ps))"

fun starts_with :: "string \<Rightarrow> string \<Rightarrow> bool" where
  "starts_with s [] = True"
| "starts_with [] (p # ps) = False"
| "starts_with (c # cs) (p # ps) = (c = p \<and> starts_with cs ps)"

lemma starts_with_iff: "starts_with s p \<longleftrightarrow> (\<exists>r. s = p @ r)"
  by (induction s p rule: starts_with.induct) auto

section \<open>Options\<close>

text \<open>\<open>Option::is_some_and\<close> and \<open>Option::is_none_or\<close>.\<close>

fun is_some_and :: "('a \<Rightarrow> bool) \<Rightarrow> 'a option \<Rightarrow> bool" where
  "is_some_and P None = False"
| "is_some_and P (Some x) = P x"

fun is_none_or :: "('a \<Rightarrow> bool) \<Rightarrow> 'a option \<Rightarrow> bool" where
  "is_none_or P None = True"
| "is_none_or P (Some x) = P x"

lemma is_some_and_iff: "is_some_and P x \<longleftrightarrow> (\<exists>y. x = Some y \<and> P y)"
  by (cases x) auto

section \<open>Character classes on UTF-8 bytes\<close>

definition byte :: "char \<Rightarrow> nat" where
  "byte c = of_char c"

definition is_ascii_digit :: "char \<Rightarrow> bool" where
  "is_ascii_digit c \<longleftrightarrow> 48 \<le> byte c \<and> byte c \<le> 57"

definition is_ascii_lowercase :: "char \<Rightarrow> bool" where
  "is_ascii_lowercase c \<longleftrightarrow> 97 \<le> byte c \<and> byte c \<le> 122"

definition is_ascii_uppercase :: "char \<Rightarrow> bool" where
  "is_ascii_uppercase c \<longleftrightarrow> 65 \<le> byte c \<and> byte c \<le> 90"

definition is_ascii_alphanumeric :: "char \<Rightarrow> bool" where
  "is_ascii_alphanumeric c \<longleftrightarrow> is_ascii_digit c \<or> is_ascii_lowercase c \<or> is_ascii_uppercase c"

lemmas ascii_defs = is_ascii_digit_def is_ascii_lowercase_def is_ascii_uppercase_def
  is_ascii_alphanumeric_def byte_def

text \<open>
  \<open>char::is_control\<close> holds for U+0000 to U+001F and U+007F to U+009F; the last range is
  encoded by the byte \<open>0xC2\<close> followed by \<open>0x80\<close> to \<open>0x9F\<close>.  In a UTF-8 string the byte
  \<open>0xC2\<close> only occurs as the first byte of such a pair.
\<close>

fun has_control :: "string \<Rightarrow> bool" where
  "has_control [] = False"
| "has_control (c # cs) =
     (byte c < 32 \<or> byte c = 127 \<or>
      (byte c = 194 \<and> (case cs of [] \<Rightarrow> False | d # _ \<Rightarrow> 128 \<le> byte d \<and> byte d \<le> 159)) \<or>
      has_control cs)"

text \<open>
  \<open>s.trim().is_empty()\<close>: every scalar of the string has the Unicode property
  \<open>White_Space\<close>.  The byte length of the white-space scalar a string starts with, 0 if none.
\<close>

definition ws_prefix :: "nat list \<Rightarrow> nat" where
  "ws_prefix bs =
     (case bs of
        [] \<Rightarrow> 0
      | b # _ \<Rightarrow>
          if (9 \<le> b \<and> b \<le> 13) \<or> b = 32 then 1
          else if take 2 bs = [194, 133] \<or> take 2 bs = [194, 160] then 2
          else if take 3 bs = [225, 154, 128] \<or> take 3 bs = [226, 129, 159] \<or>
                  take 3 bs = [227, 128, 128] \<or> take 3 bs = [226, 128, 168] \<or>
                  take 3 bs = [226, 128, 169] \<or> take 3 bs = [226, 128, 175] \<or>
                  (take 2 bs = [226, 128] \<and>
                   (case drop 2 bs of [] \<Rightarrow> False | d # _ \<Rightarrow> 128 \<le> d \<and> d \<le> 138))
          then 3 else 0)"

function blank_bytes :: "nat list \<Rightarrow> bool" where
  "blank_bytes bs =
     (if bs = [] then True
      else if ws_prefix bs = 0 then False
      else blank_bytes (drop (ws_prefix bs) bs))"
  by pat_completeness auto
termination
  by (relation "measure length") auto

declare blank_bytes.simps [simp del]

definition is_blank :: "string \<Rightarrow> bool" where
  "is_blank s = blank_bytes (map byte s)"

lemma is_blank_Nil [simp]: "is_blank []"
  by (simp add: is_blank_def blank_bytes.simps)

lemma is_blank_graphic:
  "32 < byte c \<Longrightarrow> byte c < 128 \<Longrightarrow> \<not> is_blank (c # cs)"
  by (simp add: is_blank_def blank_bytes.simps [of "byte c # map byte cs"] ws_prefix_def
      split: list.splits)

text \<open>
  \<open>str::from_utf8\<close> on a byte sequence: the well-formed sequences of the Unicode standard, without
  overlong forms and surrogates.
\<close>

definition utf8_tail :: "nat \<Rightarrow> bool" where
  "utf8_tail b \<longleftrightarrow> 128 \<le> b \<and> b \<le> 191"

definition utf8_scalar :: "nat list \<Rightarrow> nat" where
  "utf8_scalar bs =
     (case bs of
        [] \<Rightarrow> 0
      | b # cs \<Rightarrow>
          if b < 128 then 1
          else if 194 \<le> b \<and> b \<le> 223 then (case cs of c # _ \<Rightarrow> if utf8_tail c then 2 else 0 | _ \<Rightarrow> 0)
          else if 224 \<le> b \<and> b \<le> 239
          then (case cs of
                  c # d # _ \<Rightarrow>
                    if utf8_tail c \<and> utf8_tail d \<and> (b = 224 \<longrightarrow> 160 \<le> c) \<and> (b = 237 \<longrightarrow> c \<le> 159)
                    then 3 else 0
                | _ \<Rightarrow> 0)
          else if 240 \<le> b \<and> b \<le> 244
          then (case cs of
                  c # d # e # _ \<Rightarrow>
                    if utf8_tail c \<and> utf8_tail d \<and> utf8_tail e \<and>
                       (b = 240 \<longrightarrow> 144 \<le> c) \<and> (b = 244 \<longrightarrow> c \<le> 143)
                    then 4 else 0
                | _ \<Rightarrow> 0)
          else 0)"

function valid_utf8 :: "nat list \<Rightarrow> bool" where
  "valid_utf8 bs =
     (if bs = [] then True
      else if utf8_scalar bs = 0 then False
      else valid_utf8 (drop (utf8_scalar bs) bs))"
  by pat_completeness auto
termination
  by (relation "measure length") auto

declare valid_utf8.simps [simp del]

section \<open>Decimal formatting\<close>

text \<open>\<open>format!("{n}")\<close> for an unsigned integer.\<close>

fun show_nat :: "nat \<Rightarrow> string" where
  "show_nat n =
     (if n < 10 then [char_of (48 + n)] else show_nat (n div 10) @ [char_of (48 + n mod 10)])"

declare show_nat.simps [simp del]

definition read_nat :: "string \<Rightarrow> nat" where
  "read_nat s = foldl (\<lambda>acc c. acc * 10 + (byte c - 48)) 0 s"

lemma read_show_nat: "read_nat (show_nat n) = n"
proof (induction n rule: show_nat.induct)
  case (1 n)
  show ?case
  proof (cases "n < 10")
    case True
    then show ?thesis by (simp add: show_nat.simps [of n] read_nat_def byte_def)
  next
    case False
    with 1 have "read_nat (show_nat (n div 10)) = n div 10" by simp
    then have "read_nat (show_nat n) = (n div 10) * 10 + n mod 10"
      using False by (simp add: show_nat.simps [of n] read_nat_def byte_def)
    then show ?thesis by simp
  qed
qed

lemma show_nat_inject [simp]: "show_nat m = show_nat n \<longleftrightarrow> m = n"
  by (metis read_show_nat)

lemma byte_digit [simp]: "n < 10 \<Longrightarrow> byte (char_of (48 + n)) = 48 + n"
  by (simp add: byte_def)

lemma show_nat_digits: "c \<in> set (show_nat n) \<Longrightarrow> is_ascii_digit c"
proof (induction n rule: show_nat.induct)
  case (1 n)
  then show ?case
    by (auto simp: show_nat.simps [of n] is_ascii_digit_def split: if_splits)
qed

lemma show_nat_not_Nil [simp]: "show_nat n \<noteq> []"
  by (simp add: show_nat.simps [of n])

section \<open>Trimming and parsing\<close>

text \<open>
  \<open>str::trim\<close>.  In a UTF-8 string a suffix that starts inside a scalar is never blank, so the
  longest blank suffix starts at a scalar boundary.
\<close>

function trim_start :: "string \<Rightarrow> string" where
  "trim_start s =
     (if s = [] \<or> ws_prefix (map byte s) = 0 then s
      else trim_start (drop (ws_prefix (map byte s)) s))"
  by pat_completeness auto
termination
  by (relation "measure length") auto

declare trim_start.simps [simp del]

fun trim_end :: "string \<Rightarrow> string" where
  "trim_end s =
     (case s of [] \<Rightarrow> [] | c # cs \<Rightarrow> if is_blank s then [] else c # trim_end cs)"

declare trim_end.simps [simp del]

definition trim :: "string \<Rightarrow> string" where
  "trim s = trim_end (trim_start s)"

text \<open>\<open>str::parse::<u64>\<close>: an optional plus sign, at least one digit, no overflow.\<close>

definition parse_u64 :: "string \<Rightarrow> u64 option" where
  "parse_u64 s =
     (let ds = (case s of [] \<Rightarrow> [] | c # cs \<Rightarrow> if c = CHR ''+'' then cs else s)
      in if ds = [] \<or> \<not> list_all is_ascii_digit ds \<or> 2 ^ 64 \<le> read_nat ds then None
         else Some (word_of_nat (read_nat ds)))"

definition read_int :: "string \<Rightarrow> int" where
  "read_int s = foldl (\<lambda>acc c. acc * 10 + int (byte c - 48)) 0 s"

lemma read_int_nat: "read_int s = int (read_nat s)"
proof -
  have "foldl (\<lambda>acc c. acc * 10 + int (byte c - 48)) (int n) s
      = int (foldl (\<lambda>acc c. acc * 10 + (byte c - 48)) n s)" for n
  proof (induction s arbitrary: n)
    case Nil
    then show ?case by simp
  next
    case (Cons c s)
    then show ?case using Cons.IH [of "n * 10 + (byte c - 48)"] by simp
  qed
  from this [of 0] show ?thesis by (simp add: read_int_def read_nat_def)
qed

lemma parse_u64_code [code]:
  "parse_u64 s =
     (let ds = (case s of [] \<Rightarrow> [] | c # cs \<Rightarrow> if c = CHR ''+'' then cs else s)
      in if ds = [] \<or> \<not> list_all is_ascii_digit ds \<or> 0x10000000000000000 \<le> read_int ds then None
         else Some (word_of_int (read_int ds)))"
  by (simp add: parse_u64_def read_int_nat Let_def)

lemma trim_start_digit: "is_ascii_digit c \<Longrightarrow> trim_start (c # cs) = c # cs"
  by (simp add: trim_start.simps [of "c # cs"] is_ascii_digit_def ws_prefix_def)

lemma trim_end_digits:
  "list_all is_ascii_digit ds \<Longrightarrow> is_blank rest \<Longrightarrow> trim_end (ds @ rest) = ds"
proof (induction ds)
  case Nil
  then show ?case by (auto simp: trim_end.simps [of rest] split: list.split)
next
  case (Cons c ds)
  then have "\<not> is_blank (c # ds @ rest)" by (simp add: is_ascii_digit_def is_blank_graphic)
  with Cons show ?case by (simp add: trim_end.simps [of "c # ds @ rest"])
qed

lemma trim_show_nat: "is_blank rest \<Longrightarrow> trim (show_nat n @ rest) = show_nat n"
proof -
  assume blank: "is_blank rest"
  obtain c cs where c: "show_nat n = c # cs" by (cases "show_nat n") auto
  have "list_all is_ascii_digit (show_nat n)" using show_nat_digits by (auto simp: list_all_iff)
  then have "trim_start (show_nat n @ rest) = show_nat n @ rest"
    by (simp add: c trim_start_digit)
  with trim_end_digits [of "show_nat n" rest] blank show ?thesis
    using \<open>list_all is_ascii_digit (show_nat n)\<close> by (simp add: trim_def)
qed

lemma parse_show_u64: "parse_u64 (show_nat (unat w)) = Some w"
proof -
  obtain c cs where c: "show_nat (unat w) = c # cs" by (cases "show_nat (unat w)") auto
  then have "is_ascii_digit c" using show_nat_digits [of c "unat w"] by simp
  then have "c \<noteq> CHR ''+''" by (auto simp: is_ascii_digit_def byte_def)
  moreover have "list_all is_ascii_digit (c # cs)"
    using show_nat_digits [of _ "unat w"] unfolding c by (auto simp: list_all_iff)
  moreover have "read_nat (c # cs) = unat w" using read_show_nat [of "unat w"] by (simp add: c)
  moreover have "unat w < 2 ^ 64" using unsigned_less [of w, where 'a = nat] by simp
  ultimately show ?thesis by (simp add: parse_u64_def c)
qed

section \<open>Association lists\<close>

lemma map_of_filter_key:
  "map_of (filter (\<lambda>p. P (fst p)) xs) k = (if P k then map_of xs k else None)"
  by (induction xs) auto

lemma map_of_map_value:
  "map_of (map (\<lambda>p. (fst p, f (fst p) (snd p))) xs) k = map_option (f k) (map_of xs k)"
  by (induction xs) auto

lemma map_of_map_pair:
  "map_of (map (\<lambda>(k, v). (k, f k v)) xs) k = map_option (f k) (map_of xs k)"
  by (induction xs) auto

lemma map_fst_map_pair [simp]: "map fst (map (\<lambda>(k, v). (k, f k v)) xs) = map fst xs"
  by (induction xs) auto

section \<open>State machines\<close>

text \<open>
  The states a component can reach, and the contract under which an invariant holds in all
  of them.  Each stateful component provides an instance of the locale.
\<close>

inductive reachable :: "('s \<Rightarrow> bool) \<Rightarrow> ('s \<Rightarrow> 's \<Rightarrow> bool) \<Rightarrow> 's \<Rightarrow> bool"
  for init :: "'s \<Rightarrow> bool" and step :: "'s \<Rightarrow> 's \<Rightarrow> bool" where
  reach_init: "init s \<Longrightarrow> reachable init step s"
| reach_step: "reachable init step s \<Longrightarrow> step s t \<Longrightarrow> reachable init step t"

locale invariant_system =
  fixes init :: "'s \<Rightarrow> bool" and step :: "'s \<Rightarrow> 's \<Rightarrow> bool" and invar :: "'s \<Rightarrow> bool"
  assumes invar_init: "init s \<Longrightarrow> invar s"
    and invar_step: "invar s \<Longrightarrow> step s t \<Longrightarrow> invar t"
begin

lemma reachable_invar: "reachable init step s \<Longrightarrow> invar s"
  by (induction rule: reachable.induct) (auto intro: invar_init invar_step)

end

end
