(* ===== verification/Pool_Config.thy ===== *)
theory Pool_Config
  imports Tally_Prelude
begin

text \<open>
  Logical resource pools: the pool section of \<open>config.rs\<close> (priorities, resource kinds,
  admission predicates, the pool record and its derived readings), the canonical pool sets
  of \<open>poolset.rs\<close>, and the reserved campaign mutex names of \<open>lease.rs\<close>.
\<close>

section \<open>Configuration types (config.rs)\<close>

datatype Priority = Interrupt | High | Medium | Low

fun rank :: "Priority \<Rightarrow> nat" where
  "rank Interrupt = 1000"
| "rank High = 100"
| "rank Medium = 50"
| "rank Low = 10"

datatype Enforce = Cooperative

datatype ResourceKind = Vram | BuildSlot | CpuSlot | Slot | Budget | Mutex

record WindowedConsumptionPredicate =
  window_sec :: u64
  consumption_cap :: u64

datatype PoolPredicate =
    CoResidency
  | WindowedConsumption WindowedConsumptionPredicate

datatype MeterBudgetClass = Programmatic

record UsageMeterConfig =
  um_argv :: "string list"
  um_poll_interval_sec :: u64
  um_budget_class :: MeterBudgetClass

record PoolConfig =
  pc_resource :: "ResourceKind option"
  pc_capacity :: u32
  pc_budget_gb :: "u64 option"
  pc_predicate :: PoolPredicate
  pc_enforce :: Enforce
  pc_hard_preempt :: bool
  pc_auto_resume :: "bool option"
  pc_priority :: int
  pc_credentials :: "(string \<times> string) list"
  pc_usage_meter :: "UsageMeterConfig option"

definition default_pool_config :: PoolConfig where
  "default_pool_config =
     \<lparr>pc_resource = None, pc_capacity = 1, pc_budget_gb = None, pc_predicate = CoResidency,
      pc_enforce = Cooperative, pc_hard_preempt = False, pc_auto_resume = None,
      pc_priority = 0, pc_credentials = [], pc_usage_meter = None\<rparr>"

text \<open>The effective resource of a pool: an undeclared one reads as \<^const>\<open>Vram\<close>.\<close>

definition pool_resource :: "PoolConfig \<Rightarrow> ResourceKind" where
  "pool_resource c = (case pc_resource c of None \<Rightarrow> Vram | Some k \<Rightarrow> k)"

definition auto_resume_enabled :: "PoolConfig \<Rightarrow> bool" where
  "auto_resume_enabled c =
     (case pc_auto_resume c of Some b \<Rightarrow> b | None \<Rightarrow> pool_resource c = Vram)"

definition is_windowed :: "PoolConfig \<Rightarrow> bool" where
  "is_windowed c = (case pc_predicate c of WindowedConsumption _ \<Rightarrow> True | CoResidency \<Rightarrow> False)"

lemma is_windowed_simps [simp]:
  "pc_predicate c = CoResidency \<Longrightarrow> \<not> is_windowed c"
  "pc_predicate c = WindowedConsumption w \<Longrightarrow> is_windowed c"
  by (simp_all add: is_windowed_def)

section \<open>Canonical pool sets (poolset.rs)\<close>

datatype PoolSetError =
    PoolSetEmpty
  | PoolSetDuplicate string
  | PoolSetInvalidName string

text \<open>The scan of \<open>canonicalize\<close>: \<open>seen\<close> is the hash set of names met so far.\<close>

fun check_pool_names :: "string set \<Rightarrow> string list \<Rightarrow> PoolSetError option" where
  "check_pool_names seen [] = None"
| "check_pool_names seen (p # ps) =
     (if is_blank p \<or> has_control p then Some (PoolSetInvalidName p)
      else if p \<in> seen then Some (PoolSetDuplicate p)
      else check_pool_names (insert p seen) ps)"

definition canonicalize :: "string list \<Rightarrow> PoolSetError + string list" where
  "canonicalize ps =
     (if ps = [] then Inl PoolSetEmpty
      else case check_pool_names {} ps of
             Some e \<Rightarrow> Inl e
           | None \<Rightarrow> Inr (sort ps))"

definition pool_name_ok :: "string \<Rightarrow> bool" where
  "pool_name_ok p \<longleftrightarrow> \<not> is_blank p \<and> \<not> has_control p"

text \<open>What a canonical pool set is, independently of the scan.\<close>

definition canonical_pools :: "string list \<Rightarrow> bool" where
  "canonical_pools ps \<longleftrightarrow> ps \<noteq> [] \<and> sorted ps \<and> distinct ps \<and> (\<forall>p \<in> set ps. pool_name_ok p)"

lemma check_pool_names_None:
  "check_pool_names seen ps = None \<longleftrightarrow>
     distinct ps \<and> set ps \<inter> seen = {} \<and> (\<forall>p \<in> set ps. pool_name_ok p)"
  by (induction ps arbitrary: seen) (auto simp: pool_name_ok_def)

lemma canonicalize_Inr:
  "canonicalize ps = Inr qs \<longleftrightarrow>
     qs = sort ps \<and> ps \<noteq> [] \<and> distinct ps \<and> (\<forall>p \<in> set ps. pool_name_ok p)"
  using check_pool_names_None [of "{}" ps]
  by (auto simp: canonicalize_def split: option.splits)

lemma canonicalize_canonical: "canonicalize ps = Inr qs \<Longrightarrow> canonical_pools qs"
  by (auto simp: canonicalize_Inr canonical_pools_def)

lemma canonicalize_set: "canonicalize ps = Inr qs \<Longrightarrow> set qs = set ps"
  by (auto simp: canonicalize_Inr)

text \<open>
  \<open>poolset::canonicalize\<close> accepts exactly the non-empty lists of distinct, non-blank,
  control-free names; what it returns is their unique canonical form: two accepted lists
  have the same canonical form exactly when they name the same pools, and canonical
  lists are fixed points.
\<close>

lemma canonicalize_correct:
  "((\<exists>qs. canonicalize ps = Inr qs) \<longleftrightarrow>
      ps \<noteq> [] \<and> distinct ps \<and> (\<forall>p \<in> set ps. pool_name_ok p)) \<and>
   (\<forall>qs. canonicalize ps = Inr qs \<longrightarrow>
      canonical_pools qs \<and> mset qs = mset ps \<and> canonicalize qs = Inr qs) \<and>
   (\<forall>qs ps' qs'. canonicalize ps = Inr qs \<and> canonicalize ps' = Inr qs' \<longrightarrow>
      (qs = qs' \<longleftrightarrow> set ps = set ps'))"
proof (intro conjI)
  show "(\<exists>qs. canonicalize ps = Inr qs) \<longleftrightarrow>
      ps \<noteq> [] \<and> distinct ps \<and> (\<forall>p \<in> set ps. pool_name_ok p)"
    by (auto simp: canonicalize_Inr)
  show "\<forall>qs. canonicalize ps = Inr qs \<longrightarrow>
      canonical_pools qs \<and> mset qs = mset ps \<and> canonicalize qs = Inr qs"
    by (auto simp: canonicalize_Inr canonical_pools_def)
  show "\<forall>qs ps' qs'. canonicalize ps = Inr qs \<and> canonicalize ps' = Inr qs' \<longrightarrow>
      (qs = qs' \<longleftrightarrow> set ps = set ps')"
    by (metis canonicalize_Inr set_sort sorted_distinct_set_unique distinct_sort sorted_sort)
qed

section \<open>Campaign mutex pools (lease.rs)\<close>

definition safe_campaign_pool_component :: "string \<Rightarrow> bool" where
  "safe_campaign_pool_component v \<longleftrightarrow>
     v \<noteq> [] \<and> v \<noteq> ''.'' \<and> v \<noteq> ''..'' \<and>
     list_all (\<lambda>c. is_ascii_alphanumeric c \<or> c \<in> set ''_.-'') v"

definition is_campaign_pool_name :: "string \<Rightarrow> bool" where
  "is_campaign_pool_name name =
     (case split_on CHR ''/'' name of
        [a, owner, repository] \<Rightarrow>
          a = ''campaign'' \<and> safe_campaign_pool_component owner \<and>
          safe_campaign_pool_component repository
      | _ \<Rightarrow> False)"

definition CAMPAIGN_POOL_PREFIX :: string where
  "CAMPAIGN_POOL_PREFIX = ''campaign/''"

definition campaign_mutex_config :: PoolConfig where
  "campaign_mutex_config =
     default_pool_config\<lparr>pc_resource := Some Mutex, pc_capacity := 1,
                         pc_predicate := CoResidency\<rparr>"

lemma campaign_mutex_simps [simp]:
  "pc_capacity campaign_mutex_config = 1"
  "pc_predicate campaign_mutex_config = CoResidency"
  "pool_resource campaign_mutex_config = Mutex"
  "is_windowed campaign_mutex_config = False"
  by (simp_all add: campaign_mutex_config_def default_pool_config_def pool_resource_def
      is_windowed_def)

end
