(* ===== verification/Lease_Window.thy ===== *)
theory Lease_Window
  imports Pool_Config
begin

text \<open>
  The data of the lease engine (\<open>lease.rs\<close>) and its innermost layer: one runtime pool, the
  pruning of its consumption window (\<open>prune_debits\<close>) and the admission test of a single
  pool (\<open>pool_allows\<close>).

  Instants are nanoseconds since the Unix epoch (\<^typ>\<open>int\<close>), \<open>std::time::Duration\<close> values
  are nanoseconds (\<^typ>\<open>nat\<close>).  The chrono crate and the file system are parameters,
  collected in the record \<open>LeaseEnv\<close>; \<open>None\<close> stands for chrono's documented panic or error.
\<close>

section \<open>Data (lease.rs)\<close>

datatype LeaseSchedulingGroup = FlowGroup string | ParentGroup string | Standalone

record LeaseRequest =
  rq_job_id :: string
  rq_unit :: string
  rq_pools :: "string list"
  rq_priority :: Priority
  rq_admission_key :: "string option"
  rq_consumption_estimate :: "u64 option"
  rq_scheduling_group :: LeaseSchedulingGroup

record LeaseGrant =
  gr_lease_id :: string
  gr_job_id :: string
  gr_unit :: string
  gr_pools :: "string list"
  gr_priority :: Priority
  gr_epoch :: u64
  gr_granted_at :: string
  gr_admission_key :: "string option"
  gr_consumption_estimate :: "u64 option"

datatype AdmitOutcome = Granted LeaseGrant | Queued string nat

datatype HeartbeatOutcome = Alive | HolderExited

record LeaseStatus =
  ls_lease_id :: string
  ls_epoch :: u64
  ls_held :: bool
  ls_yield_requested :: bool
  ls_yield_deadline :: "string option"

record BudgetDebit =
  bd_pool :: string
  bd_amount :: u64
  bd_admitted_at :: string

datatype LeaseEventKind =
    GrantedEvent LeaseGrant "BudgetDebit list"
  | ReleasedEvent string
  | YieldRequestedEvent string string string
  | PreemptedEvent string

record LeaseEvent =
  le_schema_version :: u32
  le_observed_at :: string
  le_epoch :: u64
  le_event :: LeaseEventKind

text \<open>One constructor per message of \<open>LeaseError::InvalidRequest\<close>.\<close>

datatype RequestFault =
    EpochNotPositive
  | YieldGraceNotPositive
  | AgingThresholdNotPositive
  | ReservedCampaignNamespace string
  | ZeroCapacity string
  | MutexShape string
  | PoolSetFault PoolSetError
  | EmptyJobOrUnit
  | EstimateRequired string
  | SequenceOverflow
  | InvalidDebitTime
  | WindowSecTooLarge
  | WindowUsageOverflow string
  | RebuiltUsageOverflow
  | YieldGraceTooLarge
  | NotEligibleForPreemption string

datatype LeaseError =
    InvalidRequest RequestFault
  | UnknownPool string
  | LeaseNotFound string
  | StaleEpoch u64 u64
  | CorruptEpoch string
  | EpochOverflow
  | EventVersion u32
  | LeaseIo
  | LeaseJson
  | Liveness string
  | LeasePanic

section \<open>The environment: chrono and the event file\<close>

text \<open>
  What the file system does with one append: the line is written and synced; nothing is
  written and an error is reported; the whole line is written but \<open>sync_all\<close> reports an
  error; or the write stops inside the record, or just before its line feed.
\<close>

datatype AppendIo = Synced | NotWritten | WrittenUnsynced | TornWrite | TornAtNewline

record LeaseEnv =
  to_rfc3339 :: "int \<Rightarrow> string"
  from_rfc3339 :: "string \<Rightarrow> int option"
  delta_seconds :: "int \<Rightarrow> int option"
  delta_from_std :: "nat \<Rightarrow> int option"
  datetime_add :: "int \<Rightarrow> int \<Rightarrow> int option"
  append_io :: "nat \<Rightarrow> AppendIo"

text \<open>
  The documented behaviour of chrono the lease code relies on: a rendered instant, if it can be
  parsed back, is the instant truncated to milliseconds; durations and sums, where they exist,
  are the mathematical ones.
\<close>

definition millis :: "int \<Rightarrow> int" where
  "millis t = t - t mod 1000000"

definition chrono_laws :: "LeaseEnv \<Rightarrow> bool" where
  "chrono_laws E \<longleftrightarrow>
     (\<forall>t u. from_rfc3339 E (to_rfc3339 E t) = Some u \<longrightarrow> u = millis t) \<and>
     (\<forall>n d. delta_seconds E n = Some d \<longrightarrow> d = n * 1000000000) \<and>
     (\<forall>n d. delta_from_std E n = Some d \<longrightarrow> d = int n) \<and>
     (\<forall>t d u. datetime_add E t d = Some u \<longrightarrow> u = t + d)"

lemma millis_mono: "s \<le> t \<Longrightarrow> millis s \<le> millis t"
proof -
  assume "s \<le> t"
  then have "s div 1000000 \<le> t div 1000000" by (rule zdiv_mono1) simp
  moreover have "millis x = 1000000 * (x div 1000000)" for x
    unfolding millis_def by (rule minus_mod_eq_mult_div)
  ultimately show ?thesis by simp
qed

section \<open>A runtime pool\<close>

record RuntimePool =
  rp_config :: PoolConfig
  rp_holders :: "string list"
  rp_debits :: "BudgetDebit list"

definition new_runtime_pool :: "PoolConfig \<Rightarrow> RuntimePool" where
  "new_runtime_pool c = \<lparr>rp_config = c, rp_holders = [], rp_debits = []\<rparr>"

lemma new_runtime_pool_simps [simp]:
  "rp_config (new_runtime_pool c) = c"
  "rp_holders (new_runtime_pool c) = []"
  "rp_debits (new_runtime_pool c) = []"
  by (simp_all add: new_runtime_pool_def)

section \<open>Pruning the window (lease.rs, prune\_debits)\<close>

definition window_delta :: "LeaseEnv \<Rightarrow> WindowedConsumptionPredicate \<Rightarrow> LeaseError + int" where
  "window_delta E w =
     (if 2 ^ 63 \<le> unat (window_sec w) then Inl (InvalidRequest WindowSecTooLarge)
      else case delta_seconds E (int (unat (window_sec w))) of
             None \<Rightarrow> Inl LeasePanic
           | Some d \<Rightarrow> Inr d)"

lemma window_delta_code [code]:
  "window_delta E w =
     (if 0x8000000000000000 \<le> window_sec w then Inl (InvalidRequest WindowSecTooLarge)
      else case delta_seconds E (uint (window_sec w)) of
             None \<Rightarrow> Inl LeasePanic
           | Some d \<Rightarrow> Inr d)"
  by (simp add: window_delta_def word_le_nat_alt)

text \<open>\<open>admitted_at + window\<close> of one debit.\<close>

definition debit_expiry :: "LeaseEnv \<Rightarrow> int \<Rightarrow> BudgetDebit \<Rightarrow> LeaseError + int" where
  "debit_expiry E window d =
     (case from_rfc3339 E (bd_admitted_at d) of
        None \<Rightarrow> Inl (InvalidRequest InvalidDebitTime)
      | Some admitted_at \<Rightarrow>
          (case datetime_add E admitted_at window of
             None \<Rightarrow> Inl LeasePanic
           | Some expiry \<Rightarrow> Inr expiry))"

fun prune_loop ::
  "LeaseEnv \<Rightarrow> int \<Rightarrow> int \<Rightarrow> BudgetDebit list \<Rightarrow> (LeaseError + unit) \<times> BudgetDebit list"
where
  "prune_loop E window now [] = (Inr (), [])"
| "prune_loop E window now (d # ds) =
     (case debit_expiry E window d of
        Inl e \<Rightarrow> (Inl e, d # ds)
      | Inr expiry \<Rightarrow> if expiry \<le> now then prune_loop E window now ds else (Inr (), d # ds))"

definition prune_debits ::
  "LeaseEnv \<Rightarrow> RuntimePool \<Rightarrow> int \<Rightarrow> (LeaseError + unit) \<times> RuntimePool"
where
  "prune_debits E st now =
     (case pc_predicate (rp_config st) of
        CoResidency \<Rightarrow> (Inr (), st)
      | WindowedConsumption w \<Rightarrow>
          (case window_delta E w of
             Inl e \<Rightarrow> (Inl e, st)
           | Inr d \<Rightarrow>
               (case prune_loop E d now (rp_debits st) of
                  (r, ds) \<Rightarrow> (r, st\<lparr>rp_debits := ds\<rparr>))))"

section \<open>Admission by one pool (lease.rs, pool\_allows)\<close>

definition window_used :: "RuntimePool \<Rightarrow> u64 option" where
  "window_used st = checked_sum 0 (map bd_amount (rp_debits st))"

definition pool_allows ::
  "LeaseEnv \<Rightarrow> string \<Rightarrow> RuntimePool \<Rightarrow> LeaseRequest \<Rightarrow> int
     \<Rightarrow> (LeaseError + bool) \<times> RuntimePool"
where
  "pool_allows E pool st request now =
     (case pc_predicate (rp_config st) of
        CoResidency \<Rightarrow>
          (Inr (length (rp_holders st) < unat (pc_capacity (rp_config st))), st)
      | WindowedConsumption w \<Rightarrow>
          (case prune_debits E st now of
             (Inl e, st') \<Rightarrow> (Inl e, st')
           | (Inr _, st') \<Rightarrow>
               (case window_used st' of
                  None \<Rightarrow> (Inl (InvalidRequest (WindowUsageOverflow pool)), st')
                | Some used \<Rightarrow>
                    (let estimate = (case rq_consumption_estimate request of
                                       None \<Rightarrow> 0 | Some e \<Rightarrow> e)
                     in (Inr (case checked_add used estimate of
                                None \<Rightarrow> False
                              | Some tot \<Rightarrow> tot \<le> consumption_cap w), st')))))"

section \<open>Facts about one pool\<close>

text \<open>The total the window currently accounts for, as a mathematical number.\<close>

definition window_total :: "RuntimePool \<Rightarrow> nat" where
  "window_total st = sum_list (map (unat \<circ> bd_amount) (rp_debits st))"

lemma window_used_Some: "window_used st = Some u \<longleftrightarrow> unat u = window_total st"
  by (simp add: window_used_def window_total_def checked_simps)

lemma prune_loop_suffix:
  "prune_loop E w now ds = (r, ds') \<Longrightarrow> \<exists>pre. ds = pre @ ds'"
proof (induction ds)
  case Nil
  then show ?case by simp
next
  case (Cons d ds)
  show ?case
  proof (cases "\<exists>x. debit_expiry E w d = Inr x \<and> x \<le> now")
    case True
    with Cons obtain pre where "ds = pre @ ds'" by auto
    then have "d # ds = (d # pre) @ ds'" by simp
    then show ?thesis by blast
  next
    case False
    with Cons.prems have "ds' = d # ds" by (auto split: sum.splits if_splits)
    then show ?thesis by simp
  qed
qed

lemma prune_loop_idem:
  "prune_loop E w now ds = (Inr (), ds') \<Longrightarrow> prune_loop E w now ds' = (Inr (), ds')"
proof (induction ds)
  case Nil
  then show ?case by simp
next
  case (Cons d ds)
  from Cons.prems show ?case
    by (auto split: sum.splits if_splits dest: Cons.IH)
qed

lemma prune_debits_frame:
  assumes "prune_debits E st now = (r, st')"
  shows "rp_config st' = rp_config st" and "rp_holders st' = rp_holders st"
    and "\<exists>pre. rp_debits st = pre @ rp_debits st'"
  using assms
  by (auto simp: prune_debits_def split: PoolPredicate.splits sum.splits prod.splits
      dest: prune_loop_suffix)

lemma prune_debits_idem:
  "prune_debits E st now = (Inr (), st') \<Longrightarrow> prune_debits E st' now = (Inr (), st')"
  by (auto simp: prune_debits_def split: PoolPredicate.splits sum.splits prod.splits
      dest: prune_loop_idem)

lemma prune_debits_total:
  assumes "prune_debits E st now = (r, st')"
  shows "window_total st' \<le> window_total st"
proof -
  from prune_debits_frame(3) [OF assms] obtain pre where "rp_debits st = pre @ rp_debits st'"
    by blast
  then show ?thesis by (simp add: window_total_def)
qed

lemma pool_allows_frame:
  assumes "pool_allows E pool st rq now = (r, st')"
  shows "rp_config st' = rp_config st" and "rp_holders st' = rp_holders st"
    and "\<exists>pre. rp_debits st = pre @ rp_debits st'"
  using assms prune_debits_frame [of E st now]
  by (auto simp: pool_allows_def Let_def split: PoolPredicate.splits sum.splits prod.splits
      option.splits)

lemma pool_allows_idem:
  assumes "pool_allows E pool st rq now = (Inr b, st')"
  shows "pool_allows E pool st' rq now = (Inr b, st')"
proof (cases "pc_predicate (rp_config st)")
  case CoResidency
  with assms show ?thesis by (auto simp: pool_allows_def)
next
  case (WindowedConsumption w)
  from assms WindowedConsumption obtain st1 where st1: "prune_debits E st now = (Inr (), st1)"
    by (auto simp: pool_allows_def split: sum.splits prod.splits)
  with assms WindowedConsumption have "st' = st1"
    by (auto simp: pool_allows_def Let_def split: option.splits)
  moreover note prune_debits_idem [OF st1] prune_debits_frame(1) [OF st1]
  ultimately show ?thesis
    using assms WindowedConsumption st1 by (simp add: pool_allows_def)
qed

lemma pool_allows_coresident:
  "pc_predicate (rp_config st) = CoResidency \<Longrightarrow>
     pool_allows E pool st rq now =
       (Inr (length (rp_holders st) < unat (pc_capacity (rp_config st))), st)"
  by (simp add: pool_allows_def)

lemma pool_allows_windowed:
  assumes "pc_predicate (rp_config st) = WindowedConsumption w"
    and "pool_allows E pool st rq now = (Inr True, st')"
  shows "window_total st' + unat (case rq_consumption_estimate rq of None \<Rightarrow> 0 | Some e \<Rightarrow> e)
           \<le> unat (consumption_cap w)"
  using assms
  by (auto simp: pool_allows_def Let_def window_used_Some checked_simps word_le_nat_alt
      split: sum.splits prod.splits option.splits)

end
