(* ===== verification/Lease_Queue.thy ===== *)
theory Lease_Queue
  imports Lease_Window
begin

text \<open>
  The pending queue of the lease engine (\<open>lease.rs\<close>: \<open>effective_rank_at\<close>,
  \<open>sort_pending\<close>, \<open>refresh_aged_order\<close>): single-step aging, the braid that interleaves
  scheduling groups of equal rank, and the order the queue is kept in.
\<close>

record PendingRequest =
  pd_ticket_id :: string
  pd_sequence :: u64
  pd_admitted_at :: int
  pd_effective_rank :: nat
  pd_request :: LeaseRequest

definition effective_rank_at :: "PendingRequest \<Rightarrow> int \<Rightarrow> nat \<Rightarrow> nat" where
  "effective_rank_at p now aging_threshold =
     (let waited = now - pd_admitted_at p;
          aged = (0 \<le> waited \<and> int aging_threshold < waited)
      in if \<not> aged then rank (rq_priority (pd_request p))
         else case rq_priority (pd_request p) of
                Low \<Rightarrow> rank Medium
              | Medium \<Rightarrow> rank High
              | High \<Rightarrow> rank Interrupt
              | Interrupt \<Rightarrow> rank Interrupt)"

definition refresh_rank :: "int \<Rightarrow> nat \<Rightarrow> PendingRequest \<Rightarrow> PendingRequest" where
  "refresh_rank now th p = p\<lparr>pd_effective_rank := effective_rank_at p now th\<rparr>"

section \<open>The braid\<close>

definition group_key :: "PendingRequest \<Rightarrow> nat \<times> LeaseSchedulingGroup" where
  "group_key p = (pd_effective_rank p, rq_scheduling_group (pd_request p))"

text \<open>
  The sorted sequence numbers of one scheduling group at one rank (\<open>groups\<close>), and the pair
  \<open>braid[sequence]\<close>: the position of the request in its group and the group's oldest
  sequence number.  Sequence numbers are unique in the queue, so the entry of a request is the
  one its own group wrote.
\<close>

definition group_sequences :: "PendingRequest list \<Rightarrow> PendingRequest \<Rightarrow> u64 list" where
  "group_sequences ps p = sort (map pd_sequence (filter (\<lambda>q. group_key q = group_key p) ps))"

definition braid :: "PendingRequest list \<Rightarrow> PendingRequest \<Rightarrow> nat \<times> u64" where
  "braid ps p =
     (let sequences = group_sequences ps p
      in (length (takeWhile (\<lambda>s. s \<noteq> pd_sequence p) sequences), hd sequences))"

type_synonym queue_key = "int \<times> nat \<times> u64 \<times> u64"

definition queue_key :: "PendingRequest list \<Rightarrow> PendingRequest \<Rightarrow> queue_key" where
  "queue_key ps p =
     (- int (pd_effective_rank p), fst (braid ps p), snd (braid ps p), pd_sequence p)"

definition sort_pending :: "PendingRequest list \<Rightarrow> int \<Rightarrow> nat \<Rightarrow> PendingRequest list" where
  "sort_pending ps now aging_threshold =
     (let ps' = map (refresh_rank now aging_threshold) ps in sort_key (queue_key ps') ps')"

definition refresh_aged_order :: "PendingRequest list \<Rightarrow> int \<Rightarrow> nat \<Rightarrow> PendingRequest list" where
  "refresh_aged_order ps now aging_threshold =
     (if list_ex (\<lambda>p. pd_effective_rank p \<noteq> effective_rank_at p now aging_threshold) ps
      then sort_pending ps now aging_threshold else ps)"

section \<open>Facts\<close>

lemma refresh_rank_simps [simp]:
  "pd_ticket_id (refresh_rank now th p) = pd_ticket_id p"
  "pd_sequence (refresh_rank now th p) = pd_sequence p"
  "pd_admitted_at (refresh_rank now th p) = pd_admitted_at p"
  "pd_request (refresh_rank now th p) = pd_request p"
  "pd_effective_rank (refresh_rank now th p) = effective_rank_at p now th"
  by (simp_all add: refresh_rank_def)

lemma effective_rank_refresh [simp]:
  "effective_rank_at (refresh_rank t th' p) now th = effective_rank_at p now th"
  by (simp add: effective_rank_at_def)

lemma refresh_rank_refresh [simp]:
  "refresh_rank now th (refresh_rank t th' p) = refresh_rank now th p"
  by (simp add: refresh_rank_def effective_rank_at_def)

lemma refresh_rank_id:
  "pd_effective_rank p = effective_rank_at p now th \<Longrightarrow> refresh_rank now th p = p"
  by (simp add: refresh_rank_def)

lemma mset_sort_pending:
  "mset (sort_pending ps now th) = image_mset (refresh_rank now th) (mset ps)"
  by (simp add: sort_pending_def Let_def)

lemma set_sort_pending: "set (sort_pending ps now th) = refresh_rank now th ` set ps"
  by (simp add: sort_pending_def Let_def)

lemma length_sort_pending [simp]: "length (sort_pending ps now th) = length ps"
  by (simp add: sort_pending_def Let_def)

text \<open>
  Whatever a projection ignores the cached rank, sorting permutes it.
\<close>

lemma mset_map_sort_pending:
  assumes "\<And>p. f (refresh_rank now th p) = f p"
  shows "mset (map f (sort_pending ps now th)) = mset (map f ps)"
proof -
  have "image_mset f (image_mset (refresh_rank now th) (mset ps)) = image_mset f (mset ps)"
    unfolding multiset.map_comp by (rule image_mset_cong) (simp add: assms)
  then show ?thesis by (simp add: mset_sort_pending)
qed

lemma mset_map_refresh_aged:
  assumes "\<And>p. f (refresh_rank now th p) = f p"
  shows "mset (map f (refresh_aged_order ps now th)) = mset (map f ps)"
  using mset_map_sort_pending [of f now th ps, OF assms] by (simp add: refresh_aged_order_def)

lemma set_map_refresh_aged:
  assumes "\<And>p. f (refresh_rank now th p) = f p"
  shows "f ` set (refresh_aged_order ps now th) = f ` set ps"
  using mset_map_refresh_aged [of f now th ps, OF assms] by (metis set_map set_mset_mset)

lemma takeWhile_sorted_filter:
  fixes xs :: "'a::linorder list"
  shows "sorted xs \<Longrightarrow> distinct xs \<Longrightarrow> s \<in> set xs \<Longrightarrow>
           takeWhile (\<lambda>x. x \<noteq> s) xs = filter (\<lambda>x. x < s) xs"
proof (induction xs)
  case Nil
  then show ?case by simp
next
  case (Cons x xs)
  show ?case
  proof (cases "x = s")
    case True
    then have "filter (\<lambda>y. y < s) xs = []"
      using Cons.prems by (auto simp: filter_empty_conv)
    with True show ?thesis by simp
  next
    case False
    with Cons.prems have "x < s" by (auto simp: order_less_le)
    with False Cons show ?thesis by simp
  qed
qed

text \<open>
  The braid index counts the older members of the group; the braid depends on the queue
  as a multiset only.
\<close>

lemma braid_index:
  assumes "distinct (map pd_sequence ps)" and "p \<in> set ps"
  shows "fst (braid ps p) =
           length (filter (\<lambda>q. group_key q = group_key p \<and> pd_sequence q < pd_sequence p) ps)"
proof -
  let ?xs = "map pd_sequence (filter (\<lambda>q. group_key q = group_key p) ps)"
  have "distinct ?xs" using assms(1) by (rule distinct_map_filter)
  moreover have "pd_sequence p \<in> set ?xs" using assms(2) by auto
  ultimately have "takeWhile (\<lambda>s. s \<noteq> pd_sequence p) (sort ?xs)
      = filter (\<lambda>s. s < pd_sequence p) (sort ?xs)"
    by (intro takeWhile_sorted_filter) simp_all
  also have "length \<dots> = length (filter (\<lambda>s. s < pd_sequence p) ?xs)"
    by (simp add: filter_sort)
  also have "\<dots> =
      length (filter (\<lambda>q. group_key q = group_key p \<and> pd_sequence q < pd_sequence p) ps)"
    by (simp add: filter_map comp_def conj_commute)
  finally show ?thesis by (simp add: braid_def Let_def group_sequences_def)
qed

lemma braid_mset: "mset ps = mset qs \<Longrightarrow> braid ps = braid qs"
proof -
  assume eq: "mset ps = mset qs"
  have "group_sequences ps p = group_sequences qs p" for p
  proof -
    have "mset (map pd_sequence (filter (\<lambda>q. group_key q = group_key p) ps))
        = mset (map pd_sequence (filter (\<lambda>q. group_key q = group_key p) qs))"
      by (simp add: eq)
    then show ?thesis
      unfolding group_sequences_def by (intro properties_for_sort) simp_all
  qed
  then show ?thesis by (simp add: braid_def fun_eq_iff)
qed

lemma braid_index_strict:
  assumes "distinct (map pd_sequence ps)" and "p \<in> set ps" and "q \<in> set ps"
    and "group_key p = group_key q" and "pd_sequence p < pd_sequence q"
  shows "fst (braid ps p) < fst (braid ps q)"
proof -
  let ?P = "\<lambda>r. group_key r = group_key p \<and> pd_sequence r < pd_sequence p"
  let ?Q = "\<lambda>r. group_key r = group_key q \<and> pd_sequence r < pd_sequence q"
  have "distinct ps" using assms(1) by (simp add: distinct_map)
  then have "length (filter ?P ps) = card {r \<in> set ps. ?P r}"
    and "length (filter ?Q ps) = card {r \<in> set ps. ?Q r}"
    by (simp_all add: distinct_length_filter Int_def conj_commute)
  moreover have "{r \<in> set ps. ?P r} \<subset> {r \<in> set ps. ?Q r}"
    using assms by (auto dest: less_trans)
  then have "card {r \<in> set ps. ?P r} < card {r \<in> set ps. ?Q r}"
    by (intro psubset_card_mono) simp_all
  ultimately show ?thesis using assms by (simp add: braid_index)
qed

lemma queue_key_inj:
  "distinct (map pd_sequence ps) \<Longrightarrow> inj_on (queue_key qs) (set ps)"
  by (auto simp: inj_on_def queue_key_def distinct_map)

lemma sort_pending_distinct:
  "distinct (map pd_sequence (sort_pending ps now th)) \<longleftrightarrow> distinct (map pd_sequence ps)"
  by (metis mset_map_sort_pending mset_eq_imp_distinct_iff refresh_rank_simps(2))

text \<open>The queue a sort produces is ordered by the key computed on itself.\<close>

lemma sort_pending_sorted:
  "sorted (map (queue_key (sort_pending ps now th)) (sort_pending ps now th))"
proof -
  let ?ps = "map (refresh_rank now th) ps"
  have "mset (sort_key (queue_key ?ps) ?ps) = mset ?ps" by simp
  then have "braid (sort_key (queue_key ?ps) ?ps) = braid ?ps" by (rule braid_mset)
  then have "queue_key (sort_key (queue_key ?ps) ?ps) = queue_key ?ps"
    by (simp add: queue_key_def fun_eq_iff)
  then show ?thesis by (simp add: sort_pending_def Let_def)
qed

lemma sort_pending_fixpoint:
  assumes "sorted (map (queue_key ps) ps)"
    and "\<forall>p \<in> set ps. pd_effective_rank p = effective_rank_at p now th"
  shows "sort_pending ps now th = ps"
proof -
  have "map (refresh_rank now th) ps = ps"
    using assms(2) by (simp add: refresh_rank_id map_idI)
  then show ?thesis
    using assms(1) by (simp add: sort_pending_def Let_def sort_key_id_if_sorted)
qed

section \<open>The contract the engine relies on\<close>

text \<open>
  What a pending request is, apart from its cached rank.  Both reorderings of the queue keep
  these cores as a multiset; the engine's invariant needs no more than that.
\<close>

type_synonym pending_core = "string \<times> u64 \<times> int \<times> LeaseRequest"

definition pd_core :: "PendingRequest \<Rightarrow> pending_core" where
  "pd_core p = (pd_ticket_id p, pd_sequence p, pd_admitted_at p, pd_request p)"

lemma pd_core_refresh [simp]: "pd_core (refresh_rank now th p) = pd_core p"
  by (simp add: pd_core_def)

locale pending_order =
  fixes reorder :: "PendingRequest list \<Rightarrow> int \<Rightarrow> nat \<Rightarrow> PendingRequest list"
  assumes reorder_cores: "mset (map pd_core (reorder ps now th)) = mset (map pd_core ps)"
begin

lemma reorder_project:
  "mset (map (f \<circ> pd_core) (reorder ps now th)) = mset (map (f \<circ> pd_core) ps)"
proof -
  have "mset (map (f \<circ> pd_core) xs) = image_mset f (mset (map pd_core xs))" for xs
    by (simp add: multiset.map_comp comp_def)
  then show ?thesis by (simp only: reorder_cores)
qed

lemma reorder_length: "length (reorder ps now th) = length ps"
  by (metis length_map mset_eq_length reorder_cores)

lemma reorder_tickets:
  "mset (map pd_ticket_id (reorder ps now th)) = mset (map pd_ticket_id ps)"
  using reorder_project [of fst ps now th] by (simp add: comp_def pd_core_def)

lemma reorder_sequences:
  "mset (map pd_sequence (reorder ps now th)) = mset (map pd_sequence ps)"
  using reorder_project [of "fst \<circ> snd" ps now th] by (simp add: comp_def pd_core_def)

lemma reorder_distinct_tickets:
  "distinct (map pd_ticket_id (reorder ps now th)) \<longleftrightarrow> distinct (map pd_ticket_id ps)"
  by (rule mset_eq_imp_distinct_iff) (rule reorder_tickets)

lemma reorder_distinct_sequences:
  "distinct (map pd_sequence (reorder ps now th)) \<longleftrightarrow> distinct (map pd_sequence ps)"
  by (rule mset_eq_imp_distinct_iff) (rule reorder_sequences)

lemma reorder_set: "pd_core ` set (reorder ps now th) = pd_core ` set ps"
  using mset_eq_setD [OF reorder_cores] by simp

lemma reorder_all:
  "(\<forall>p \<in> set (reorder ps now th). P (pd_core p)) \<longleftrightarrow> (\<forall>p \<in> set ps. P (pd_core p))"
proof -
  have "(\<forall>p \<in> set xs. P (pd_core p)) \<longleftrightarrow> (\<forall>c \<in> pd_core ` set xs. P c)" for xs by simp
  then show ?thesis by (simp only: reorder_set)
qed

end

interpretation srt: pending_order sort_pending
  by unfold_locales (simp add: mset_map_sort_pending del: mset_map)

interpretation rfr: pending_order refresh_aged_order
  by unfold_locales (simp add: mset_map_refresh_aged del: mset_map)

section \<open>Order and fairness\<close>

lemma queue_key_le:
  assumes "sorted (map (queue_key q) q)" and "i \<le> j" and "j < length q"
  shows "queue_key q (q ! i) \<le> queue_key q (q ! j)"
  using sorted_nth_mono [OF assms(1,2)] assms(2,3) by simp

lemma queue_rank_index:
  assumes "sorted (map (queue_key q) q)" and "i \<le> j" and "j < length q"
  shows "pd_effective_rank (q ! j) \<le> pd_effective_rank (q ! i)"
    and "pd_effective_rank (q ! i) = pd_effective_rank (q ! j) \<Longrightarrow>
           fst (braid q (q ! i)) \<le> fst (braid q (q ! j))"
  using queue_key_le [OF assms] by (auto simp: queue_key_def less_eq_prod_def less_prod_def)

text \<open>
  The order without the braid table: how many requests of the same scheduling group and the same rank
  are older than a request, and the oldest sequence number of its group at that rank.
\<close>

definition same_group :: "PendingRequest \<Rightarrow> PendingRequest \<Rightarrow> bool" where
  "same_group x y \<longleftrightarrow>
     pd_effective_rank x = pd_effective_rank y \<and>
     rq_scheduling_group (pd_request x) = rq_scheduling_group (pd_request y)"

definition older_in_group :: "PendingRequest list \<Rightarrow> PendingRequest \<Rightarrow> nat" where
  "older_in_group q p = length (filter (\<lambda>x. same_group x p \<and> pd_sequence x < pd_sequence p) q)"

definition oldest_in_group :: "PendingRequest list \<Rightarrow> PendingRequest \<Rightarrow> u64" where
  "oldest_in_group q p = Min (pd_sequence ` {x \<in> set q. same_group x p})"

lemma same_group_key: "same_group x y \<longleftrightarrow> group_key x = group_key y"
  by (simp add: same_group_def group_key_def)

lemma braid_older:
  "distinct (map pd_sequence q) \<Longrightarrow> p \<in> set q \<Longrightarrow> fst (braid q p) = older_in_group q p"
  by (simp add: braid_index older_in_group_def same_group_key)

lemma hd_sort_Min:
  fixes xs :: "'a::linorder list"
  assumes "xs \<noteq> []"
  shows "hd (sort xs) = Min (set xs)"
proof -
  obtain a ys where e: "sort xs = a # ys" using assms by (metis list.exhaust mset.simps(1) mset_sort mset_zero_iff)
  have "a = Min (set (a # ys))"
    using sorted_sort [of xs] unfolding e by (auto intro!: Min_eqI [symmetric])
  moreover have "set (a # ys) = set xs" using set_sort [of "\<lambda>x. x" xs] unfolding e .
  ultimately show ?thesis using e by simp
qed

lemma braid_oldest:
  assumes "p \<in> set q"
  shows "snd (braid q p) = oldest_in_group q p"
proof -
  let ?xs = "map pd_sequence (filter (\<lambda>x. group_key x = group_key p) q)"
  have "?xs \<noteq> []" using assms by (auto simp: filter_empty_conv)
  then have "hd (sort ?xs) = Min (set ?xs)" by (rule hd_sort_Min)
  moreover have "set ?xs = pd_sequence ` {x \<in> set q. same_group x p}" by (auto simp: same_group_key)
  ultimately show ?thesis by (simp add: braid_def Let_def group_sequences_def oldest_in_group_def)
qed

text \<open>Two requests that agree in all three are one.\<close>

lemma group_coordinates:
  assumes "distinct (map pd_sequence q)" "x \<in> set q" "y \<in> set q"
    and "pd_effective_rank x = pd_effective_rank y" "oldest_in_group q x = oldest_in_group q y"
    and "older_in_group q x = older_in_group q y"
  shows "x = y"
proof -
  have oldest: "\<exists>z \<in> set q. same_group z p \<and> pd_sequence z = oldest_in_group q p" if "p \<in> set q" for p
  proof -
    have "oldest_in_group q p \<in> pd_sequence ` {x \<in> set q. same_group x p}"
      unfolding oldest_in_group_def using that by (intro Min_in) (auto simp: same_group_def)
    then show ?thesis by auto
  qed
  obtain a b where a: "a \<in> set q" "same_group a x" "pd_sequence a = oldest_in_group q x"
    and b: "b \<in> set q" "same_group b y" "pd_sequence b = oldest_in_group q y"
    using oldest assms(2,3) by meson
  then have "pd_sequence a = pd_sequence b" using assms(5) by simp
  then have "a = b" using assms(1) a(1) b(1) unfolding distinct_map by (blast dest: inj_onD)
  then have key: "group_key x = group_key y" using a(2) b(2) by (simp add: same_group_key)
  then show ?thesis
    using braid_index_strict [OF assms(1,2,3) key] braid_index_strict [OF assms(1,3,2) key [symmetric]] assms(1-3,6)
    by (auto simp: braid_older distinct_map dest: inj_onD intro: linorder_cases)
qed

text \<open>
  C14. \<open>sort_pending\<close> loses and invents no request and refreshes every rank. In the queue it leaves, a
  request stands before another exactly by a higher effective rank; at equal rank by fewer older
  requests of its own scheduling group, so that groups take turns; and at equal turns by the age of
  the group's oldest request. No two requests tie, so this determines the queue.
\<close>

theorem sort_pending_order:
  assumes "distinct (map pd_sequence ps)" and "q = sort_pending ps now th"
  shows "mset (map pd_core q) = mset (map pd_core ps) \<and>
         (\<forall>p \<in> set q. pd_effective_rank p = effective_rank_at p now th) \<and>
         (\<forall>j < length q. \<forall>i < j.
           pd_effective_rank (q ! j) < pd_effective_rank (q ! i) \<or>
           pd_effective_rank (q ! i) = pd_effective_rank (q ! j) \<and>
           (older_in_group q (q ! i) < older_in_group q (q ! j) \<or>
            older_in_group q (q ! i) = older_in_group q (q ! j) \<and>
            oldest_in_group q (q ! i) < oldest_in_group q (q ! j)))"
proof (intro conjI allI impI)
  have s: "sorted (map (queue_key q) q)" and d: "distinct (map pd_sequence q)"
    using assms sort_pending_sorted srt.reorder_distinct_sequences by simp_all
  show "mset (map pd_core q) = mset (map pd_core ps)"
    unfolding assms(2) by (rule srt.reorder_cores)
  show "\<forall>p \<in> set q. pd_effective_rank p = effective_rank_at p now th"
    unfolding assms(2) by (auto simp: set_sort_pending)
  fix i j
  assume j: "j < length q" "i < j"
  have neq: "q ! i \<noteq> q ! j" using d j by (auto simp: distinct_map nth_eq_iff_index_eq)
  have mem: "q ! i \<in> set q" "q ! j \<in> set q" using j by auto
  note coordinates = group_coordinates [OF d mem]
  show "pd_effective_rank (q ! j) < pd_effective_rank (q ! i) \<or>
      pd_effective_rank (q ! i) = pd_effective_rank (q ! j) \<and>
      (older_in_group q (q ! i) < older_in_group q (q ! j) \<or>
       older_in_group q (q ! i) = older_in_group q (q ! j) \<and>
       oldest_in_group q (q ! i) < oldest_in_group q (q ! j))"
    using queue_key_le [OF s, of i j] j neq coordinates
    by (auto simp: queue_key_def less_eq_prod_def less_prod_def braid_older [OF d] braid_oldest mem order_less_le)
qed

text \<open>
  A queue for the witnesses: a wide flow \<open>F\<close> that submitted three requests before a standalone
  one, and an aged low-priority request of another flow.
\<close>

definition sample_request :: "string \<Rightarrow> LeaseSchedulingGroup \<Rightarrow> Priority \<Rightarrow> LeaseRequest" where
  "sample_request job grp pr =
     \<lparr>rq_job_id = job, rq_unit = ''unit'', rq_pools = [''cpu''], rq_priority = pr,
      rq_admission_key = None, rq_consumption_estimate = None, rq_scheduling_group = grp\<rparr>"

definition sample_pending ::
  "u64 \<Rightarrow> int \<Rightarrow> string \<Rightarrow> LeaseSchedulingGroup \<Rightarrow> Priority \<Rightarrow> PendingRequest" where
  "sample_pending sq at job grp pr =
     \<lparr>pd_ticket_id = job, pd_sequence = sq, pd_admitted_at = at,
      pd_effective_rank = rank pr, pd_request = sample_request job grp pr\<rparr>"

definition sample_queue :: "PendingRequest list" where
  "sample_queue =
     [sample_pending 1 90 ''f1'' (FlowGroup ''F'') Medium,
      sample_pending 2 90 ''f2'' (FlowGroup ''F'') Medium,
      sample_pending 3 90 ''f3'' (FlowGroup ''F'') Medium,
      sample_pending 4 90 ''s1'' Standalone Medium,
      sample_pending 5 0 ''g1'' (FlowGroup ''G'') Low]"

lemma sample_queue_sorted:
  "map pd_ticket_id (sort_pending sample_queue 100 50) = [''f1'', ''s1'', ''g1'', ''f2'', ''f3'']"
  by code_simp

theorem sort_pending_order_witness:
  "distinct (map pd_sequence sample_queue) \<and>
   mset (map pd_core (sort_pending sample_queue 100 50)) = mset (map pd_core sample_queue) \<and>
   older_in_group (sort_pending sample_queue 100 50) (sort_pending sample_queue 100 50 ! 2)
     < older_in_group (sort_pending sample_queue 100 50) (sort_pending sample_queue 100 50 ! 3)"
proof -
  let ?q = "sort_pending sample_queue 100 50"
  have d: "distinct (map pd_sequence sample_queue)" by code_simp
  have l: "3 < length ?q" by code_simp
  have r: "pd_effective_rank (?q ! 2) = pd_effective_rank (?q ! 3)" by code_simp
  have n: "older_in_group ?q (?q ! 2) \<noteq> older_in_group ?q (?q ! 3)" by code_simp
  note o = sort_pending_order [OF d refl, of 100 50]
  have "older_in_group ?q (?q ! 2) < older_in_group ?q (?q ! 3)"
    using o [THEN conjunct2, THEN conjunct2, rule_format, OF l, of 2] r n by simp
  with d o show ?thesis by blast
qed

text \<open>
  Overtaking is bounded.  Among requests of one rank, those at or before a given position
  are told apart by their group and their index in it.
\<close>

definition rank_groups :: "PendingRequest list \<Rightarrow> nat \<Rightarrow> LeaseSchedulingGroup set" where
  "rank_groups q r =
     (\<lambda>p. rq_scheduling_group (pd_request p)) ` {p \<in> set q. pd_effective_rank p = r}"

lemma braid_coordinates_inj:
  assumes d: "distinct (map pd_sequence q)"
  shows "inj_on (\<lambda>i. (group_key (q ! i), fst (braid q (q ! i)))) {..<length q}"
proof (rule inj_onI)
  fix i j
  assume ij: "i \<in> {..<length q}" "j \<in> {..<length q}"
    and "(group_key (q ! i), fst (braid q (q ! i))) = (group_key (q ! j), fst (braid q (q ! j)))"
  then have "group_key (q ! i) = group_key (q ! j)"
    and "\<not> fst (braid q (q ! i)) < fst (braid q (q ! j))"
    and "\<not> fst (braid q (q ! j)) < fst (braid q (q ! i))" by simp_all
  with ij have "\<not> pd_sequence (q ! i) < pd_sequence (q ! j)"
    and "\<not> pd_sequence (q ! j) < pd_sequence (q ! i)"
    using braid_index_strict [OF d, of "q ! i" "q ! j"]
      braid_index_strict [OF d, of "q ! j" "q ! i"] by auto
  then have "map pd_sequence q ! i = map pd_sequence q ! j" using ij by simp
  with ij show "i = j" using nth_eq_iff_index_eq [OF d, of i j] by simp
qed

lemma same_rank_ahead_card:
  assumes s: "sorted (map (queue_key q) q)" and d: "distinct (map pd_sequence q)"
    and j: "j < length q"
  defines "r \<equiv> pd_effective_rank (q ! j)"
  shows "card {i. i \<le> j \<and> pd_effective_rank (q ! i) = r}
           \<le> card (rank_groups q r) * Suc (fst (braid q (q ! j)))"
proof -
  let ?A = "{i. i \<le> j \<and> pd_effective_rank (q ! i) = r}"
  let ?f = "\<lambda>i. (group_key (q ! i), fst (braid q (q ! i)))"
  let ?B = "Pair r ` rank_groups q r \<times> {..fst (braid q (q ! j))}"
  have "?A \<subseteq> {..<length q}" using j by auto
  with braid_coordinates_inj [OF d] have "inj_on ?f ?A" by (rule inj_on_subset)
  moreover have "?f ` ?A \<subseteq> ?B"
    using queue_rank_index(2) [OF s] j
    by (auto simp: r_def group_key_def rank_groups_def)
  moreover have "finite ?B" by (simp add: rank_groups_def)
  ultimately have "card ?A \<le> card ?B" by (rule card_inj_on_le)
  also have "\<dots> = card (rank_groups q r) * Suc (fst (braid q (q ! j)))"
    by (simp add: card_cartesian_product card_image inj_on_def)
  finally show ?thesis .
qed

text \<open>
  C15. Bounded overtaking: in a freshly sorted queue a request with \<open>k\<close> older requests of its own
  scheduling group and rank waits behind fewer than \<open>(k + 1) * g\<close> requests of its own rank, where \<open>g\<close>
  is the number of groups at that rank, however many requests another group has submitted.
\<close>

theorem sort_pending_fair:
  assumes "distinct (map pd_sequence ps)" and "q = sort_pending ps now th" and "j < length q"
  shows "card {i. i < j \<and> pd_effective_rank (q ! i) = pd_effective_rank (q ! j)}
           < card (rank_groups q (pd_effective_rank (q ! j))) * Suc (older_in_group q (q ! j))"
proof -
  let ?r = "pd_effective_rank (q ! j)"
  have "{i. i \<le> j \<and> pd_effective_rank (q ! i) = ?r}
      = insert j {i. i < j \<and> pd_effective_rank (q ! i) = ?r}" by auto
  then have "card {i. i \<le> j \<and> pd_effective_rank (q ! i) = ?r}
      = Suc (card {i. i < j \<and> pd_effective_rank (q ! i) = ?r})" by simp
  moreover have "sorted (map (queue_key q) q)" and "distinct (map pd_sequence q)"
    using assms sort_pending_sorted srt.reorder_distinct_sequences by simp_all
  ultimately show ?thesis using same_rank_ahead_card [of q j] braid_older [of q "q ! j"] assms(3) by simp
qed

theorem sort_pending_fair_witness:
  "let q = sort_pending sample_queue 100 50
   in card {i. i < 1 \<and> pd_effective_rank (q ! i) = pd_effective_rank (q ! 1)}
        < card (rank_groups q (pd_effective_rank (q ! 1))) * Suc (older_in_group q (q ! 1))"
proof -
  have "distinct (map pd_sequence sample_queue)" by code_simp
  moreover have "1 < length (sort_pending sample_queue 100 50)" by code_simp
  ultimately show ?thesis
    unfolding Let_def by (intro sort_pending_fair [OF _ refl])
qed

text \<open>
  C16. \<open>refresh_aged_order\<close> is \<open>sort_pending\<close> with the sort skipped when no rank has
  changed: on every queue a sort has produced, at any later or earlier instant, both give
  the same queue.
\<close>

theorem refresh_aged_order_equiv:
  "refresh_aged_order (sort_pending ps t th) now th = sort_pending (sort_pending ps t th) now th"
proof (cases "\<exists>p \<in> set (sort_pending ps t th). pd_effective_rank p \<noteq> effective_rank_at p now th")
  case True
  then show ?thesis by (simp add: refresh_aged_order_def list_ex_iff)
next
  case False
  then have "sort_pending (sort_pending ps t th) now th = sort_pending ps t th"
    using sort_pending_sorted by (intro sort_pending_fixpoint) auto
  moreover have "refresh_aged_order (sort_pending ps t th) now th = sort_pending ps t th"
    using False by (auto simp: refresh_aged_order_def list_ex_iff)
  ultimately show ?thesis by simp
qed

end
