(* ===== verification/Lease_Engine.thy ===== *)
theory Lease_Engine
  imports Lease_Queue
begin

text \<open>
  The lease engine of \<open>lease.rs\<close>: the event log, the engine record, admission, grant,
  promotion, release, cancellation, the yield-demand reconciliation, preemption ticks and
  the \<open>LocalLease\<close> back end.

  Every method takes the engine and returns its result together with the engine it leaves,
  also when the result is an error: \<open>&mut self\<close> methods keep the mutations made before an
  early return.  \<open>HashSet\<close> fields are distinct lists and \<open>HashMap\<close> fields association lists;
  their list order is one iteration order, over which the theorems quantify.
\<close>

section \<open>The event log\<close>

text \<open>
  The lines of \<open>lease-events.jsonl\<close>: a complete event, an event whose line feed is missing,
  a partial record at the end of the file, and a complete line that is not JSON.
\<close>

datatype LogLine = EventLine LeaseEvent | UnterminatedLine LeaseEvent | TornLine | BadLine

record LeaseEventLog =
  log_lines :: "LogLine list"
  log_attempts :: nat

definition line_open :: "LogLine list \<Rightarrow> bool" where
  "line_open ls =
     (case rev ls of
        [] \<Rightarrow> False
      | l # _ \<Rightarrow> (case l of EventLine _ \<Rightarrow> False | BadLine \<Rightarrow> False | _ \<Rightarrow> True))"

text \<open>Bytes written after an unterminated line extend that line, which is then not JSON.\<close>

definition write_line :: "LogLine list \<Rightarrow> LogLine \<Rightarrow> LogLine list" where
  "write_line ls l =
     (if \<not> line_open ls then ls @ [l]
      else butlast ls @ [case l of EventLine _ \<Rightarrow> BadLine | _ \<Rightarrow> TornLine])"

definition log_append ::
  "LeaseEnv \<Rightarrow> LeaseEventLog \<Rightarrow> LeaseEvent \<Rightarrow> (LeaseError + unit) \<times> LeaseEventLog" where
  "log_append E lg ev =
     (let lg' = lg\<lparr>log_attempts := Suc (log_attempts lg)\<rparr>
      in case append_io E (log_attempts lg) of
           Synced \<Rightarrow> (Inr (), lg'\<lparr>log_lines := write_line (log_lines lg) (EventLine ev)\<rparr>)
         | NotWritten \<Rightarrow> (Inl LeaseIo, lg')
         | WrittenUnsynced \<Rightarrow>
             (Inl LeaseIo, lg'\<lparr>log_lines := write_line (log_lines lg) (EventLine ev)\<rparr>)
         | TornWrite \<Rightarrow> (Inl LeaseIo, lg'\<lparr>log_lines := write_line (log_lines lg) TornLine\<rparr>)
         | TornAtNewline \<Rightarrow>
             (Inl LeaseIo, lg'\<lparr>log_lines := write_line (log_lines lg) (UnterminatedLine ev)\<rparr>))"

fun log_read :: "LogLine list \<Rightarrow> LeaseError + LeaseEvent list" where
  "log_read [] = Inr []"
| "log_read (l # ls) =
     (case (case l of EventLine ev \<Rightarrow> Some ev | UnterminatedLine ev \<Rightarrow> Some ev | _ \<Rightarrow> None) of
        None \<Rightarrow> Inl LeaseJson
      | Some ev \<Rightarrow>
          if le_schema_version ev \<noteq> 1 then Inl (EventVersion (le_schema_version ev))
          else (case log_read ls of Inl e \<Rightarrow> Inl e | Inr evs \<Rightarrow> Inr (ev # evs)))"

section \<open>The engine record\<close>

record YieldDemand =
  yd_deadline :: int
  yd_hard_reclaim :: bool
  yd_pools :: "string list"

record YieldIntent =
  yi_hard_reclaim :: bool
  yi_pools :: "string list"

record HeldLease =
  hl_grant :: LeaseGrant
  hl_yield_demands :: "(string \<times> YieldDemand) list"

record LeaseEngine =
  en_epoch :: u64
  en_yield_grace :: nat
  en_aging_threshold :: nat
  en_pools :: "string \<rightharpoonup> RuntimePool"
  en_held :: "(string \<times> HeldLease) list"
  en_pending :: "PendingRequest list"
  en_debited :: "string set"
  en_next_sequence :: u64
  en_events :: "LeaseEventLog option"

type_synonym 'a lease_result = "(LeaseError + 'a) \<times> LeaseEngine"

definition set_pool :: "LeaseEngine \<Rightarrow> string \<Rightarrow> RuntimePool \<Rightarrow> LeaseEngine" where
  "set_pool s p st = s\<lparr>en_pools := (en_pools s)(p \<mapsto> st)\<rparr>"

section \<open>Construction\<close>

text \<open>The per-pool checks of the constructor, in key order of the configuration map.\<close>

fun check_pools ::
  "(string \<times> PoolConfig) list \<Rightarrow> LeaseError + (string \<times> PoolConfig) list" where
  "check_pools [] = Inr []"
| "check_pools ((name, config) # rest) =
     (if starts_with name CAMPAIGN_POOL_PREFIX \<and> \<not> is_campaign_pool_name name
      then Inl (InvalidRequest (ReservedCampaignNamespace name))
      else
        let config = (if starts_with name CAMPAIGN_POOL_PREFIX then campaign_mutex_config
                      else config)
        in if pc_capacity config = 0 then Inl (InvalidRequest (ZeroCapacity name))
           else if pool_resource config = Mutex \<and>
                   (pc_capacity config \<noteq> 1 \<or> pc_predicate config \<noteq> CoResidency)
           then Inl (InvalidRequest (MutexShape name))
           else (case check_pools rest of
                   Inl e \<Rightarrow> Inl e
                 | Inr cs \<Rightarrow> Inr ((name, config) # cs)))"

definition new_with_aging_threshold ::
  "u64 \<Rightarrow> nat \<Rightarrow> nat \<Rightarrow> (string \<times> PoolConfig) list \<Rightarrow> LeaseEventLog option
     \<Rightarrow> LeaseError + LeaseEngine" where
  "new_with_aging_threshold epoch yield_grace aging_threshold pools events =
     (if epoch = 0 then Inl (InvalidRequest EpochNotPositive)
      else if yield_grace = 0 then Inl (InvalidRequest YieldGraceNotPositive)
      else if aging_threshold = 0 then Inl (InvalidRequest AgingThresholdNotPositive)
      else case check_pools pools of
             Inl e \<Rightarrow> Inl e
           | Inr checked \<Rightarrow>
               Inr \<lparr>en_epoch = epoch, en_yield_grace = yield_grace,
                    en_aging_threshold = aging_threshold,
                    en_pools = (\<lambda>p. map_option new_runtime_pool (map_of checked p)),
                    en_held = [], en_pending = [], en_debited = {}, en_next_sequence = 1,
                    en_events = events\<rparr>)"

section \<open>Request validation\<close>

fun validate_pools :: "LeaseEngine \<Rightarrow> LeaseRequest \<Rightarrow> string list \<Rightarrow> LeaseError option" where
  "validate_pools s rq [] = None"
| "validate_pools s rq (p # ps) =
     (case en_pools s p of
        None \<Rightarrow> if is_campaign_pool_name p then validate_pools s rq ps else Some (UnknownPool p)
      | Some st \<Rightarrow>
          if is_windowed (rp_config st) \<and> rq_consumption_estimate rq = None
          then Some (InvalidRequest (EstimateRequired p))
          else validate_pools s rq ps)"

definition validate_request :: "LeaseEngine \<Rightarrow> LeaseRequest \<Rightarrow> LeaseError option" where
  "validate_request s rq =
     (if is_blank (rq_job_id rq) \<or> is_blank (rq_unit rq)
      then Some (InvalidRequest EmptyJobOrUnit)
      else validate_pools s rq (rq_pools rq))"

definition canonicalize_request :: "LeaseEngine \<Rightarrow> LeaseRequest \<Rightarrow> LeaseError + LeaseRequest" where
  "canonicalize_request s rq =
     (case canonicalize (rq_pools rq) of
        Inl e \<Rightarrow> Inl (InvalidRequest (PoolSetFault e))
      | Inr ps \<Rightarrow>
          (let rq' = rq\<lparr>rq_pools := ps\<rparr>
           in case validate_request s rq' of Some e \<Rightarrow> Inl e | None \<Rightarrow> Inr rq'))"

definition check_epoch :: "LeaseEngine \<Rightarrow> u64 \<Rightarrow> LeaseError option" where
  "check_epoch s presented =
     (if presented = en_epoch s then None else Some (StaleEpoch presented (en_epoch s)))"

section \<open>Granting\<close>

definition already_debited :: "LeaseEngine \<Rightarrow> string option \<Rightarrow> bool" where
  "already_debited s key = (case key of None \<Rightarrow> False | Some k \<Rightarrow> k \<in> en_debited s)"

definition effective_request :: "LeaseEngine \<Rightarrow> LeaseRequest \<Rightarrow> LeaseRequest" where
  "effective_request s rq =
     (if already_debited s (rq_admission_key rq)
      then rq\<lparr>rq_consumption_estimate := Some 0\<rparr> else rq)"

fun can_grant_loop ::
  "LeaseEnv \<Rightarrow> LeaseRequest \<Rightarrow> int \<Rightarrow> string list \<Rightarrow> LeaseEngine \<Rightarrow> bool lease_result" where
  "can_grant_loop E effective now [] s = (Inr True, s)"
| "can_grant_loop E effective now (p # ps) s =
     (case en_pools s p of
        None \<Rightarrow> (Inl (UnknownPool p), s)
      | Some st \<Rightarrow>
          (case pool_allows E p st effective now of
             (Inl e, st') \<Rightarrow> (Inl e, set_pool s p st')
           | (Inr False, st') \<Rightarrow> (Inr False, set_pool s p st')
           | (Inr True, st') \<Rightarrow> can_grant_loop E effective now ps (set_pool s p st')))"

definition can_grant :: "LeaseEnv \<Rightarrow> LeaseEngine \<Rightarrow> LeaseRequest \<Rightarrow> int \<Rightarrow> bool lease_result" where
  "can_grant E s rq now = can_grant_loop E (effective_request s rq) now (rq_pools rq) s"

text \<open>
  Only grants reach the file; release, preemption and yield events are dropped here.
\<close>

definition append_event :: "LeaseEnv \<Rightarrow> LeaseEngine \<Rightarrow> int \<Rightarrow> LeaseEventKind \<Rightarrow> unit lease_result" where
  "append_event E s now event =
     (case event of
        GrantedEvent _ _ \<Rightarrow>
          (case en_events s of
             None \<Rightarrow> (Inr (), s)
           | Some lg \<Rightarrow>
               (case log_append E lg \<lparr>le_schema_version = 1, le_observed_at = to_rfc3339 E now,
                                     le_epoch = en_epoch s, le_event = event\<rparr> of
                  (r, lg') \<Rightarrow> (r, s\<lparr>en_events := Some lg'\<rparr>)))
      | _ \<Rightarrow> (Inr (), s))"

definition make_grant :: "LeaseEnv \<Rightarrow> LeaseEngine \<Rightarrow> string \<Rightarrow> LeaseRequest \<Rightarrow> int \<Rightarrow> LeaseGrant" where
  "make_grant E s lease_id rq now =
     \<lparr>gr_lease_id = lease_id, gr_job_id = rq_job_id rq, gr_unit = rq_unit rq,
      gr_pools = rq_pools rq, gr_priority = rq_priority rq, gr_epoch = en_epoch s,
      gr_granted_at = to_rfc3339 E now, gr_admission_key = rq_admission_key rq,
      gr_consumption_estimate = rq_consumption_estimate rq\<rparr>"

definition debit_for :: "LeaseEnv \<Rightarrow> LeaseGrant \<Rightarrow> int \<Rightarrow> string \<Rightarrow> BudgetDebit" where
  "debit_for E g now p =
     \<lparr>bd_pool = p, bd_amount = (case gr_consumption_estimate g of None \<Rightarrow> 0 | Some e \<Rightarrow> e),
      bd_admitted_at = to_rfc3339 E now\<rparr>"

fun grant_debits ::
  "LeaseEnv \<Rightarrow> LeaseEngine \<Rightarrow> LeaseGrant \<Rightarrow> int \<Rightarrow> string list \<Rightarrow> LeaseError + BudgetDebit list"
where
  "grant_debits E s g now [] = Inr []"
| "grant_debits E s g now (p # ps) =
     (case en_pools s p of
        None \<Rightarrow> Inl (UnknownPool p)
      | Some st \<Rightarrow>
          (case grant_debits E s g now ps of
             Inl e \<Rightarrow> Inl e
           | Inr ds \<Rightarrow>
               Inr (if \<not> already_debited s (gr_admission_key g) \<and> is_windowed (rp_config st)
                    then debit_for E g now p # ds else ds)))"

definition add_holder :: "string \<Rightarrow> string \<Rightarrow> (string \<rightharpoonup> RuntimePool) \<Rightarrow> (string \<rightharpoonup> RuntimePool)" where
  "add_holder lease_id p pools =
     (case pools p of
        None \<Rightarrow> pools
      | Some st \<Rightarrow> pools(p \<mapsto> st\<lparr>rp_holders := List.insert lease_id (rp_holders st)\<rparr>))"

definition push_debit :: "BudgetDebit \<Rightarrow> (string \<rightharpoonup> RuntimePool) \<Rightarrow> (string \<rightharpoonup> RuntimePool)" where
  "push_debit d pools =
     (case pools (bd_pool d) of
        None \<Rightarrow> pools
      | Some st \<Rightarrow> pools(bd_pool d \<mapsto> st\<lparr>rp_debits := rp_debits st @ [d]\<rparr>))"

definition commit_grant :: "LeaseEngine \<Rightarrow> LeaseGrant \<Rightarrow> BudgetDebit list \<Rightarrow> LeaseEngine" where
  "commit_grant s g debits =
     s\<lparr>en_debited :=
         (if debits \<noteq> [] then (case gr_admission_key g of
                                 None \<Rightarrow> en_debited s | Some k \<Rightarrow> insert k (en_debited s))
          else en_debited s),
       en_pools := fold push_debit debits (fold (add_holder (gr_lease_id g)) (gr_pools g) (en_pools s)),
       en_held := AList.update (gr_lease_id g) \<lparr>hl_grant = g, hl_yield_demands = []\<rparr> (en_held s)\<rparr>"

definition grant ::
  "LeaseEnv \<Rightarrow> LeaseEngine \<Rightarrow> string \<Rightarrow> LeaseRequest \<Rightarrow> int \<Rightarrow> LeaseGrant lease_result" where
  "grant E s lease_id rq now =
     (let g = make_grant E s lease_id rq now
      in case grant_debits E s g now (gr_pools g) of
           Inl e \<Rightarrow> (Inl e, s)
         | Inr debits \<Rightarrow>
             (case append_event E s now (GrantedEvent g debits) of
                (Inl e, s') \<Rightarrow> (Inl e, s')
              | (Inr _, s') \<Rightarrow> (Inr g, commit_grant s' g debits)))"

section \<open>Promotion\<close>

text \<open>The inner scan: the first index whose request can be granted.\<close>

fun select_grantable ::
  "LeaseEnv \<Rightarrow> int \<Rightarrow> nat \<Rightarrow> PendingRequest list \<Rightarrow> LeaseEngine \<Rightarrow> (nat option) lease_result" where
  "select_grantable E now i [] s = (Inr None, s)"
| "select_grantable E now i (p # ps) s =
     (case can_grant E s (pd_request p) now of
        (Inl e, s') \<Rightarrow> (Inl e, s')
      | (Inr True, s') \<Rightarrow> (Inr (Some i), s')
      | (Inr False, s') \<Rightarrow> select_grantable E now (Suc i) ps s')"

text \<open>
  Testing a request prunes windows and changes nothing else; that is also what bounds the
  promotion loop.
\<close>

definition pool_pruned :: "RuntimePool \<Rightarrow> RuntimePool \<Rightarrow> bool" where
  "pool_pruned st st' \<longleftrightarrow>
     rp_config st' = rp_config st \<and> rp_holders st' = rp_holders st \<and>
     (\<exists>pre. rp_debits st = pre @ rp_debits st')"

definition engine_pruned :: "LeaseEngine \<Rightarrow> LeaseEngine \<Rightarrow> bool" where
  "engine_pruned s s' \<longleftrightarrow>
     (\<exists>pools. s' = s\<lparr>en_pools := pools\<rparr>) \<and>
     (\<forall>p. rel_option pool_pruned (en_pools s p) (en_pools s' p))"

lemma pool_pruned_refl [simp]: "pool_pruned st st"
  by (simp add: pool_pruned_def)

lemma pool_pruned_trans: "pool_pruned a b \<Longrightarrow> pool_pruned b c \<Longrightarrow> pool_pruned a c"
  by (auto simp: pool_pruned_def)

lemma engine_pruned_refl [simp]: "engine_pruned s s"
  by (auto simp: engine_pruned_def option.rel_refl intro: exI [of _ "en_pools s"])

lemma engine_pruned_trans:
  assumes "engine_pruned a b" and "engine_pruned b c"
  shows "engine_pruned a c"
proof -
  have "rel_option pool_pruned (en_pools a p) (en_pools c p)" for p
  proof -
    have "rel_option pool_pruned (en_pools a p) (en_pools b p)"
      and "rel_option pool_pruned (en_pools b p) (en_pools c p)"
      using assms by (simp_all add: engine_pruned_def)
    then show ?thesis
      by (auto elim!: option.rel_cases intro: pool_pruned_trans)
  qed
  moreover have "\<exists>pools. c = a\<lparr>en_pools := pools\<rparr>"
    using assms unfolding engine_pruned_def by auto
  ultimately show ?thesis by (simp add: engine_pruned_def)
qed

lemma engine_pruned_frame:
  assumes "engine_pruned s s'"
  shows "en_epoch s' = en_epoch s" "en_yield_grace s' = en_yield_grace s"
    "en_aging_threshold s' = en_aging_threshold s" "en_held s' = en_held s"
    "en_pending s' = en_pending s" "en_debited s' = en_debited s"
    "en_next_sequence s' = en_next_sequence s" "en_events s' = en_events s"
proof -
  obtain f where "s' = s\<lparr>en_pools := f\<rparr>" using assms unfolding engine_pruned_def by blast
  then show "en_epoch s' = en_epoch s" "en_yield_grace s' = en_yield_grace s"
    "en_aging_threshold s' = en_aging_threshold s" "en_held s' = en_held s"
    "en_pending s' = en_pending s" "en_debited s' = en_debited s"
    "en_next_sequence s' = en_next_sequence s" "en_events s' = en_events s" by simp_all
qed

lemma engine_pruned_set_pool:
  assumes "en_pools s p = Some st" and "pool_pruned st st'"
  shows "engine_pruned s (set_pool s p st')"
  using assms by (auto simp: engine_pruned_def set_pool_def option.rel_refl intro: exI [of _ "(en_pools s)(p \<mapsto> st')"])

lemma pool_allows_pruned: "pool_allows E p st rq now = (r, st') \<Longrightarrow> pool_pruned st st'"
  using pool_allows_frame [of E p st rq now r st'] by (simp add: pool_pruned_def)

lemma can_grant_loop_pruned:
  "can_grant_loop E rq now ps s = (r, s') \<Longrightarrow> engine_pruned s s'"
proof (induction ps arbitrary: s)
  case Nil
  then show ?case by simp
next
  case (Cons p ps)
  from Cons.prems show ?case
    by (auto split: option.splits prod.splits sum.splits bool.splits
        dest!: pool_allows_pruned Cons.IH
        intro: engine_pruned_set_pool engine_pruned_trans)
qed

lemma can_grant_pruned: "can_grant E s rq now = (r, s') \<Longrightarrow> engine_pruned s s'"
  unfolding can_grant_def by (rule can_grant_loop_pruned)

lemma select_grantable_pruned:
  "select_grantable E now i ps s = (r, s') \<Longrightarrow> engine_pruned s s'"
proof (induction ps arbitrary: i s)
  case Nil
  then show ?case by simp
next
  case (Cons p ps)
  from Cons.prems show ?case
    by (auto split: prod.splits sum.splits bool.splits dest!: can_grant_pruned Cons.IH
        intro: engine_pruned_trans)
qed

lemma select_grantable_bound:
  "select_grantable E now i ps s = (Inr (Some j), s') \<Longrightarrow> i \<le> j \<and> j < i + length ps"
proof (induction ps arbitrary: i s)
  case Nil
  then show ?case by simp
next
  case (Cons p ps)
  from Cons.prems show ?case
    by (auto split: prod.splits sum.splits bool.splits dest!: Cons.IH)
qed

lemma append_event_frame:
  assumes "append_event E s now ev = (r, s')"
  obtains evs where "s' = s\<lparr>en_events := evs\<rparr>"
proof -
  have "s' = s\<lparr>en_events := en_events s'\<rparr>"
    using assms
    by (auto simp: append_event_def split: LeaseEventKind.splits option.splits prod.splits)
  then show ?thesis by (rule that)
qed

lemma append_event_not_grant:
  "(\<And>g ds. ev \<noteq> GrantedEvent g ds) \<Longrightarrow> append_event E s now ev = (Inr (), s)"
  by (cases ev) (auto simp: append_event_def)

lemma grant_pending: "grant E s l rq now = (r, s') \<Longrightarrow> en_pending s' = en_pending s"
  by (auto simp: grant_def Let_def commit_grant_def split: sum.splits prod.splits
      elim!: append_event_frame)

function promote_loop :: "LeaseEnv \<Rightarrow> int \<Rightarrow> LeaseEngine \<Rightarrow> (LeaseGrant list) lease_result" where
  "promote_loop E now s =
     (case select_grantable E now 0 (en_pending s) s of
        (Inl e, s1) \<Rightarrow> (Inl e, s1)
      | (Inr None, s1) \<Rightarrow> (Inr [], s1)
      | (Inr (Some i), s1) \<Rightarrow>
          (case grant E s1 (pd_ticket_id (en_pending s1 ! i)) (pd_request (en_pending s1 ! i)) now of
             (Inl e, s2) \<Rightarrow> (Inl e, s2)
           | (Inr g, s2) \<Rightarrow>
               (case promote_loop E now (s2\<lparr>en_pending := remove_nth i (en_pending s2)\<rparr>) of
                  (Inl e, s3) \<Rightarrow> (Inl e, s3)
                | (Inr gs, s3) \<Rightarrow> (Inr (g # gs), s3))))"
  by pat_completeness auto
termination
proof (relation "measure (\<lambda>(E, now, s). length (en_pending s))", goal_cases)
  case 1
  show ?case by simp
next
  case (2 E now s x s1 r i y s2 g)
  then have "select_grantable E now 0 (en_pending s) s = (Inr (Some i), s1)"
    and "grant E s1 (pd_ticket_id (en_pending s1 ! i)) (pd_request (en_pending s1 ! i)) now
      = (Inr g, s2)"
    by simp_all
  note this(1) grant_pending [OF this(2)]
  moreover from this(1) have "en_pending s1 = en_pending s"
    by (auto dest!: select_grantable_pruned engine_pruned_frame(5))
  ultimately show ?case by (auto dest: select_grantable_bound)
qed

declare promote_loop.simps [simp del]

text \<open>The loop by cases: the scan fails, finds nothing, the grant fails, or one round succeeds.\<close>

lemma promote_round_shorter:
  assumes "select_grantable E now 0 (en_pending s) s = (Inr (Some i), s1)"
    and "grant E s1 l rq now = (Inr g, s2)"
  shows "length (remove_nth i (en_pending s2)) < length (en_pending s)"
proof -
  have "en_pending s2 = en_pending s"
    using assms by (simp add: grant_pending select_grantable_pruned [THEN engine_pruned_frame(5)])
  moreover have "i < length (en_pending s)" using select_grantable_bound [OF assms(1)] by simp
  ultimately show ?thesis by simp
qed

lemma promote_loop_cases [consumes 1, case_names fail idle refused round]:
  assumes run: "promote_loop E now s = (r, s')"
    and fail: "\<And>s e s1. select_grantable E now 0 (en_pending s) s = (Inl e, s1) \<Longrightarrow> P s (Inl e) s1"
    and idle: "\<And>s s1. select_grantable E now 0 (en_pending s) s = (Inr None, s1) \<Longrightarrow> P s (Inr []) s1"
    and refused: "\<And>s i s1 e s2.
        select_grantable E now 0 (en_pending s) s = (Inr (Some i), s1) \<Longrightarrow>
        grant E s1 (pd_ticket_id (en_pending s1 ! i)) (pd_request (en_pending s1 ! i)) now
          = (Inl e, s2) \<Longrightarrow> P s (Inl e) s2"
    and round: "\<And>s i s1 g s2 r s3.
        select_grantable E now 0 (en_pending s) s = (Inr (Some i), s1) \<Longrightarrow>
        grant E s1 (pd_ticket_id (en_pending s1 ! i)) (pd_request (en_pending s1 ! i)) now
          = (Inr g, s2) \<Longrightarrow>
        P (s2\<lparr>en_pending := remove_nth i (en_pending s2)\<rparr>) r s3 \<Longrightarrow>
        P s (map_sum id ((#) g) r) s3"
  shows "P s r s'"
  using run
proof (induction "length (en_pending s)" arbitrary: s r s' rule: less_induct)
  case less
  obtain r1 s1 where sel: "select_grantable E now 0 (en_pending s) s = (r1, s1)" by fastforce
  note unf = less.prems [unfolded promote_loop.simps [of E now s] sel]
  consider (a) e where "r1 = Inl e" | (b) "r1 = Inr None" | (c) i where "r1 = Inr (Some i)"
    by (metis obj_sumE option.exhaust)
  then show ?case
  proof cases
    case a
    with unf fail [OF sel [unfolded a]] show ?thesis by simp
  next
    case b
    with unf idle [OF sel [unfolded b]] show ?thesis by simp
  next
    case c
    obtain r2 s2 where gr: "grant E s1 (pd_ticket_id (en_pending s1 ! i))
        (pd_request (en_pending s1 ! i)) now = (r2, s2)" by fastforce
    show ?thesis
    proof (cases r2)
      case (Inl e)
      with c gr unf refused [OF sel [unfolded c] gr [unfolded Inl]] show ?thesis by simp
    next
      case (Inr g)
      let ?t = "s2\<lparr>en_pending := remove_nth i (en_pending s2)\<rparr>"
      obtain r3 s3 where rec: "promote_loop E now ?t = (r3, s3)" by fastforce
      have "P ?t r3 s3"
        using promote_round_shorter [OF sel [unfolded c] gr [unfolded Inr]]
        by (intro less.hyps [OF _ rec]) simp
      then have "P s (map_sum id ((#) g) r3) s3"
        by (rule round [OF sel [unfolded c] gr [unfolded Inr]])
      moreover have "r = map_sum id ((#) g) r3 \<and> s' = s3"
        using c gr Inr unf rec by (auto split: sum.splits)
      ultimately show ?thesis by simp
    qed
  qed
qed

definition promote :: "LeaseEnv \<Rightarrow> LeaseEngine \<Rightarrow> int \<Rightarrow> (LeaseGrant list) lease_result" where
  "promote E s now =
     promote_loop E now
       (s\<lparr>en_pending := refresh_aged_order (en_pending s) now (en_aging_threshold s)\<rparr>)"

end
