(* ===== verification/Lease_Yield.thy ===== *)
theory Lease_Yield
  imports Lease_Engine
begin

text \<open>
  \<open>LeaseEngine::reconcile_yield_demands\<close>: which holders are asked to yield to which pending
  interrupt request, with which deadline, and whether the holder may be reclaimed by force
  once the deadline has passed.
\<close>

section \<open>The windows of an interrupt request\<close>

text \<open>
  The loop that decides \<open>windows_allow\<close>.  It tests the request as submitted, not the effective
  request that \<open>can_grant\<close> tests.
\<close>

fun windows_allow ::
  "LeaseEnv \<Rightarrow> LeaseRequest \<Rightarrow> int \<Rightarrow> string list \<Rightarrow> LeaseEngine \<Rightarrow> bool lease_result" where
  "windows_allow E rq now [] s = (Inr True, s)"
| "windows_allow E rq now (p # ps) s =
     (case en_pools s p of
        None \<Rightarrow> windows_allow E rq now ps s
      | Some st \<Rightarrow>
          if is_windowed (rp_config st)
          then (case pool_allows E p st rq now of
                  (Inl e, st') \<Rightarrow> (Inl e, set_pool s p st')
                | (Inr False, st') \<Rightarrow> (Inr False, set_pool s p st')
                | (Inr True, st') \<Rightarrow> windows_allow E rq now ps (set_pool s p st'))
          else windows_allow E rq now ps s)"

section \<open>Choosing a victim\<close>

type_synonym reservations = "string \<Rightarrow> string set"

definition eligible_holders ::
  "LeaseEngine \<Rightarrow> reservations \<Rightarrow> string \<Rightarrow> RuntimePool \<Rightarrow> HeldLease list" where
  "eligible_holders s reserved pool st =
     filter (\<lambda>h. rank (gr_priority (hl_grant h)) < rank Interrupt \<and>
                 gr_lease_id (hl_grant h) \<notin> reserved pool)
       (List.map_filter (map_of (en_held s)) (rp_holders st))"

definition asked_already :: "string \<Rightarrow> string \<Rightarrow> HeldLease \<Rightarrow> bool" where
  "asked_already ticket pool h =
     (case map_of (hl_yield_demands h) ticket of
        None \<Rightarrow> False
      | Some d \<Rightarrow> pool \<in> set (yd_pools d))"

definition yield_candidate ::
  "LeaseEngine \<Rightarrow> reservations \<Rightarrow> string \<Rightarrow> string \<Rightarrow> RuntimePool \<Rightarrow> HeldLease option" where
  "yield_candidate s reserved ticket pool st =
     (let eligible = eligible_holders s reserved pool st
      in case min_by_key (\<lambda>h. gr_lease_id (hl_grant h)) (filter (asked_already ticket pool) eligible) of
           Some h \<Rightarrow> Some h
         | None \<Rightarrow>
             min_by_key (\<lambda>h. (rank (gr_priority (hl_grant h)), gr_lease_id (hl_grant h))) eligible)"

type_synonym assignment = "string \<times> string \<times> bool"

text \<open>
  The second loop: one victim for every full co-residency pool of the request, \<open>None\<close> when some
  full pool has no eligible holder.
\<close>

fun assign_victims ::
  "LeaseEngine \<Rightarrow> reservations \<Rightarrow> string \<Rightarrow> string list \<Rightarrow> (assignment list) option" where
  "assign_victims s reserved ticket [] = Some []"
| "assign_victims s reserved ticket (p # ps) =
     (case en_pools s p of
        None \<Rightarrow> assign_victims s reserved ticket ps
      | Some st \<Rightarrow>
          if pc_predicate (rp_config st) \<noteq> CoResidency \<or>
             length (rp_holders st) < unat (pc_capacity (rp_config st))
          then assign_victims s reserved ticket ps
          else (case yield_candidate s reserved ticket p st of
                  None \<Rightarrow> None
                | Some h \<Rightarrow>
                    (case assign_victims s reserved ticket ps of
                       None \<Rightarrow> None
                     | Some rest \<Rightarrow>
                         Some ((p, gr_lease_id (hl_grant h), pc_hard_preempt (rp_config st)) # rest))))"

section \<open>The desired demands\<close>

type_synonym intents = "(string \<times> YieldIntent) list"
type_synonym desired = "(string \<times> intents) list"

definition merge_intent :: "string \<Rightarrow> bool \<Rightarrow> YieldIntent option \<Rightarrow> YieldIntent" where
  "merge_intent pool hard_preempt old =
     (case old of
        Some i \<Rightarrow> i\<lparr>yi_hard_reclaim := yi_hard_reclaim i \<and> hard_preempt,
                   yi_pools := List.insert pool (yi_pools i)\<rparr>
      | None \<Rightarrow> \<lparr>yi_hard_reclaim = hard_preempt, yi_pools = [pool]\<rparr>)"

definition add_assignment :: "string \<Rightarrow> assignment \<Rightarrow> desired \<Rightarrow> desired" where
  "add_assignment ticket a desired =
     (case a of (pool, lease_id, hard_preempt) \<Rightarrow>
        (let tickets = (case map_of desired lease_id of None \<Rightarrow> [] | Some t \<Rightarrow> t);
             intent = merge_intent pool hard_preempt (map_of tickets ticket)
         in AList.update lease_id (AList.update ticket intent tickets) desired))"

definition reserve :: "assignment \<Rightarrow> reservations \<Rightarrow> reservations" where
  "reserve a reserved =
     (case a of (pool, lease_id, _) \<Rightarrow> reserved(pool := insert lease_id (reserved pool)))"

fun plan_interrupts ::
  "LeaseEnv \<Rightarrow> int \<Rightarrow> PendingRequest list \<Rightarrow> reservations \<Rightarrow> desired \<Rightarrow> LeaseEngine
     \<Rightarrow> desired lease_result" where
  "plan_interrupts E now [] reserved desired s = (Inr desired, s)"
| "plan_interrupts E now (p # ps) reserved desired s =
     (case windows_allow E (pd_request p) now (rq_pools (pd_request p)) s of
        (Inl e, s') \<Rightarrow> (Inl e, s')
      | (Inr False, s') \<Rightarrow> plan_interrupts E now ps reserved desired s'
      | (Inr True, s') \<Rightarrow>
          (case assign_victims s' reserved (pd_ticket_id p) (rq_pools (pd_request p)) of
             None \<Rightarrow> plan_interrupts E now ps reserved desired s'
           | Some as \<Rightarrow>
               plan_interrupts E now ps (fold reserve as reserved)
                 (fold (add_assignment (pd_ticket_id p)) as desired) s'))"

section \<open>Applying the desired demands\<close>

definition yield_deadline :: "LeaseEnv \<Rightarrow> LeaseEngine \<Rightarrow> int \<Rightarrow> LeaseError + int" where
  "yield_deadline E s now =
     (case delta_from_std E (en_yield_grace s) of
        None \<Rightarrow> Inl (InvalidRequest YieldGraceTooLarge)
      | Some d \<Rightarrow> (case datetime_add E now d of None \<Rightarrow> Inl LeasePanic | Some t \<Rightarrow> Inr t))"

definition newly_requested :: "LeaseEngine \<Rightarrow> desired \<Rightarrow> (string \<times> string) list" where
  "newly_requested s desired =
     concat (map (\<lambda>(lease_id, tickets).
       map (\<lambda>(ticket, _). (lease_id, ticket))
         (filter (\<lambda>(ticket, intent).
            case map_of (en_held s) lease_id of
              None \<Rightarrow> False
            | Some h \<Rightarrow>
                (case map_of (hl_yield_demands h) ticket of
                   None \<Rightarrow> True
                 | Some d \<Rightarrow> yi_hard_reclaim intent \<and> \<not> yd_hard_reclaim d)) tickets)) desired)"

fun append_yield_requests ::
  "LeaseEnv \<Rightarrow> int \<Rightarrow> int \<Rightarrow> (string \<times> string) list \<Rightarrow> LeaseEngine \<Rightarrow> unit lease_result" where
  "append_yield_requests E now deadline [] s = (Inr (), s)"
| "append_yield_requests E now deadline ((l, t) # rest) s =
     (case append_event E s now (YieldRequestedEvent l t (to_rfc3339 E deadline)) of
        (Inl e, s') \<Rightarrow> (Inl e, s')
      | (Inr _, s') \<Rightarrow> append_yield_requests E now deadline rest s')"

definition apply_intent :: "int \<Rightarrow> string \<times> YieldIntent \<Rightarrow> (string \<times> YieldDemand) list
     \<Rightarrow> (string \<times> YieldDemand) list" where
  "apply_intent deadline ti demands =
     (case ti of (ticket, intent) \<Rightarrow>
        (case map_of demands ticket of
           None \<Rightarrow> AList.update ticket
                     \<lparr>yd_deadline = deadline, yd_hard_reclaim = yi_hard_reclaim intent,
                      yd_pools = yi_pools intent\<rparr> demands
         | Some d \<Rightarrow> AList.update ticket
                     \<lparr>yd_deadline = (if yi_hard_reclaim intent \<and> \<not> yd_hard_reclaim d
                                      then deadline else yd_deadline d),
                      yd_hard_reclaim = yi_hard_reclaim intent,
                      yd_pools = yi_pools intent\<rparr> demands))"

definition update_demands ::
  "int \<Rightarrow> intents option \<Rightarrow> (string \<times> YieldDemand) list \<Rightarrow> (string \<times> YieldDemand) list" where
  "update_demands deadline wanted demands =
     (case wanted of
        None \<Rightarrow> []
      | Some tickets \<Rightarrow>
          fold (apply_intent deadline) tickets
            (filter (\<lambda>(ticket, _). map_of tickets ticket \<noteq> None) demands))"

definition apply_desired :: "int \<Rightarrow> desired \<Rightarrow> LeaseEngine \<Rightarrow> LeaseEngine" where
  "apply_desired deadline desired s =
     s\<lparr>en_held := map (\<lambda>(lease_id, h).
         (lease_id, h\<lparr>hl_yield_demands :=
            update_demands deadline (map_of desired lease_id) (hl_yield_demands h)\<rparr>)) (en_held s)\<rparr>"

definition interrupts :: "LeaseEngine \<Rightarrow> PendingRequest list" where
  "interrupts s = filter (\<lambda>p. rq_priority (pd_request p) = Interrupt) (en_pending s)"

definition reconcile_yield_demands :: "LeaseEnv \<Rightarrow> LeaseEngine \<Rightarrow> int \<Rightarrow> unit lease_result" where
  "reconcile_yield_demands E s now =
     (let s1 = s\<lparr>en_pending := refresh_aged_order (en_pending s) now (en_aging_threshold s)\<rparr>
      in case plan_interrupts E now (interrupts s1) (\<lambda>_. {}) [] s1 of
           (Inl e, s2) \<Rightarrow> (Inl e, s2)
         | (Inr desired, s2) \<Rightarrow>
             (case yield_deadline E s2 now of
                Inl e \<Rightarrow> (Inl e, s2)
              | Inr deadline \<Rightarrow>
                  (case append_yield_requests E now deadline (newly_requested s2 desired) s2 of
                     (Inl e, s3) \<Rightarrow> (Inl e, s3)
                   | (Inr _, s3) \<Rightarrow> (Inr (), apply_desired deadline desired s3))))"

section \<open>Frame facts\<close>

lemma windows_allow_pruned: "windows_allow E rq now ps s = (r, s') \<Longrightarrow> engine_pruned s s'"
proof (induction ps arbitrary: s)
  case Nil
  then show ?case by simp
next
  case (Cons p ps)
  from Cons.prems show ?case
    by (auto split: option.splits prod.splits sum.splits bool.splits if_splits
        dest!: pool_allows_pruned Cons.IH
        intro: engine_pruned_set_pool engine_pruned_trans)
qed

lemma plan_interrupts_pruned:
  "plan_interrupts E now ps reserved desired s = (r, s') \<Longrightarrow> engine_pruned s s'"
proof (induction ps arbitrary: reserved desired s)
  case Nil
  then show ?case by simp
next
  case (Cons p ps)
  from Cons.prems show ?case
    by (auto split: option.splits prod.splits sum.splits bool.splits
        dest!: windows_allow_pruned Cons.IH intro: engine_pruned_trans)
qed

lemma append_yield_requests_id [simp]:
  "append_yield_requests E now deadline ls s = (Inr (), s)"
  by (induction ls) (auto simp: append_event_not_grant)

text \<open>
  Reconciliation reorders the queue, prunes windows and rewrites demands; grants, holders,
  pool shapes and the log are untouched.
\<close>

definition demands_changed :: "LeaseEngine \<Rightarrow> LeaseEngine \<Rightarrow> bool" where
  "demands_changed s s' \<longleftrightarrow>
     (\<exists>f. en_held s' = map (\<lambda>(l, h). (l, h\<lparr>hl_yield_demands := f l h\<rparr>)) (en_held s))"

lemma demands_changed_refl [simp]: "demands_changed s s"
proof -
  have "en_held s = map (\<lambda>(l, h). (l, h\<lparr>hl_yield_demands := hl_yield_demands h\<rparr>)) (en_held s)"
    by (rule map_idI [symmetric]) auto
  then show ?thesis unfolding demands_changed_def by (rule exI [of _ "\<lambda>l h. hl_yield_demands h"])
qed

lemma reconcile_cases:
  assumes "reconcile_yield_demands E s now = (r, s')"
  obtains s1 s2 where
    "s1 = s\<lparr>en_pending := refresh_aged_order (en_pending s) now (en_aging_threshold s)\<rparr>"
    and "engine_pruned s1 s2"
    and "s' = s2 \<or> (\<exists>deadline desired. r = Inr () \<and> s' = apply_desired deadline desired s2)"
proof -
  let ?s1 = "s\<lparr>en_pending := refresh_aged_order (en_pending s) now (en_aging_threshold s)\<rparr>"
  obtain r2 s2 where p: "plan_interrupts E now (interrupts ?s1) (\<lambda>_. {}) [] ?s1 = (r2, s2)"
    by fastforce
  with assms have "s' = s2 \<or> (\<exists>deadline desired. r = Inr () \<and> s' = apply_desired deadline desired s2)"
    by (auto simp: reconcile_yield_demands_def Let_def split: sum.splits)
  with plan_interrupts_pruned [OF p] show ?thesis by (intro that [OF refl])
qed

end
