(* ===== verification/Lease_Ops.thy ===== *)
theory Lease_Ops
  imports Lease_Yield
begin

text \<open>
  The public methods of \<open>LeaseEngine\<close> and the \<open>LocalLease\<close> back end (\<open>lease.rs\<close>): admission,
  status, release, cancellation, preemption ticks, pool readings, heartbeat.
\<close>

section \<open>Admission\<close>

definition open_campaign_pools :: "string list \<Rightarrow> LeaseEngine \<Rightarrow> LeaseEngine" where
  "open_campaign_pools ps s =
     s\<lparr>en_pools :=
         (\<lambda>p. if p \<in> set ps \<and> is_campaign_pool_name p \<and> en_pools s p = None
              then Some (new_runtime_pool campaign_mutex_config) else en_pools s p)\<rparr>"

definition lease_ticket :: "u64 \<Rightarrow> u64 \<Rightarrow> string" where
  "lease_ticket epoch sequence =
     ''lease-'' @ show_nat (unat epoch) @ ''-'' @ show_nat (unat sequence)"

definition enqueue_pending ::
  "LeaseEnv \<Rightarrow> LeaseEngine \<Rightarrow> PendingRequest \<Rightarrow> int \<Rightarrow> AdmitOutcome lease_result" where
  "enqueue_pending E s p now =
     (let s1 = s\<lparr>en_pending := sort_pending (en_pending s @ [p]) now (en_aging_threshold s)\<rparr>
      in case reconcile_yield_demands E s1 now of
           (Inl e, s2) \<Rightarrow>
             (Inl e, s2\<lparr>en_pending :=
                filter (\<lambda>q. pd_ticket_id q \<noteq> pd_ticket_id p) (en_pending s2)\<rparr>)
         | (Inr _, s2) \<Rightarrow>
             (case position (\<lambda>q. pd_ticket_id q = pd_ticket_id p) (en_pending s2) of
                None \<Rightarrow> (Inl LeasePanic, s2)
              | Some i \<Rightarrow> (Inr (Queued (pd_ticket_id p) (i + 1)), s2)))"

definition admit_at ::
  "LeaseEnv \<Rightarrow> LeaseEngine \<Rightarrow> LeaseRequest \<Rightarrow> int \<Rightarrow> AdmitOutcome lease_result" where
  "admit_at E s request now =
     (case canonicalize_request s request of
        Inl e \<Rightarrow> (Inl e, s)
      | Inr rq \<Rightarrow>
          (let s1 = open_campaign_pools (rq_pools rq) s;
               sequence = en_next_sequence s1
           in case checked_add sequence 1 of
                None \<Rightarrow> (Inl (InvalidRequest SequenceOverflow), s1)
              | Some next_sequence \<Rightarrow>
                  (let s2 = s1\<lparr>en_next_sequence := next_sequence\<rparr>;
                       ticket_id = lease_ticket (en_epoch s2) sequence
                   in case can_grant E s2 rq now of
                        (Inl e, s3) \<Rightarrow> (Inl e, s3)
                      | (Inr True, s3) \<Rightarrow>
                          (case grant E s3 ticket_id rq now of
                             (Inl e, s4) \<Rightarrow> (Inl e, s4)
                           | (Inr g, s4) \<Rightarrow> (Inr (Granted g), s4))
                      | (Inr False, s3) \<Rightarrow>
                          enqueue_pending E s3
                            \<lparr>pd_ticket_id = ticket_id, pd_sequence = sequence,
                             pd_admitted_at = now, pd_effective_rank = rank (rq_priority rq),
                             pd_request = rq\<rparr> now)))"

definition validate_admission :: "LeaseEngine \<Rightarrow> LeaseRequest \<Rightarrow> LeaseError option" where
  "validate_admission s rq =
     (case canonicalize_request s rq of Inl e \<Rightarrow> Some e | Inr _ \<Rightarrow> None)"

section \<open>Status, release, cancellation\<close>

definition lease_status ::
  "LeaseEnv \<Rightarrow> LeaseEngine \<Rightarrow> string \<Rightarrow> u64 \<Rightarrow> LeaseError + LeaseStatus" where
  "lease_status E s lease_id epoch =
     (case check_epoch s epoch of
        Some e \<Rightarrow> Inl e
      | None \<Rightarrow>
          (case map_of (en_held s) lease_id of
             Some h \<Rightarrow>
               Inr \<lparr>ls_lease_id = lease_id, ls_epoch = epoch, ls_held = True,
                    ls_yield_requested = (hl_yield_demands h \<noteq> []),
                    ls_yield_deadline =
                      map_option (to_rfc3339 E)
                        (min_by_key (\<lambda>t. t) (map (yd_deadline \<circ> snd) (hl_yield_demands h)))\<rparr>
           | None \<Rightarrow>
               if list_ex (\<lambda>p. pd_ticket_id p = lease_id) (en_pending s)
               then Inr \<lparr>ls_lease_id = lease_id, ls_epoch = epoch, ls_held = False,
                         ls_yield_requested = False, ls_yield_deadline = None\<rparr>
               else Inl (LeaseNotFound lease_id)))"

definition drop_holder :: "string \<Rightarrow> string \<Rightarrow> (string \<rightharpoonup> RuntimePool) \<Rightarrow> (string \<rightharpoonup> RuntimePool)" where
  "drop_holder lease_id p pools =
     (case pools p of
        None \<Rightarrow> pools
      | Some st \<Rightarrow> pools(p \<mapsto> st\<lparr>rp_holders := removeAll lease_id (rp_holders st)\<rparr>))"

definition remove_held :: "LeaseEngine \<Rightarrow> LeaseGrant \<Rightarrow> LeaseEngine" where
  "remove_held s g =
     s\<lparr>en_held := AList.delete (gr_lease_id g) (en_held s),
       en_pools := fold (drop_holder (gr_lease_id g)) (gr_pools g) (en_pools s)\<rparr>"

text \<open>The field \<open>verdict\<close> of \<open>ReleaseOutcome\<close> is \<open>None\<close> wherever the engine builds one.\<close>

record ReleaseOutcome =
  ro_released :: LeaseGrant
  ro_promoted :: "LeaseGrant list"

record TickOutcome =
  to_preempted :: "LeaseGrant list"
  to_promoted :: "LeaseGrant list"

definition promote_and_reconcile ::
  "LeaseEnv \<Rightarrow> LeaseEngine \<Rightarrow> int \<Rightarrow> (LeaseGrant list) lease_result" where
  "promote_and_reconcile E s now =
     (case promote E s now of
        (Inl e, s1) \<Rightarrow> (Inl e, s1)
      | (Inr promoted, s1) \<Rightarrow>
          (case reconcile_yield_demands E s1 now of
             (Inl e, s2) \<Rightarrow> (Inl e, s2)
           | (Inr _, s2) \<Rightarrow> (Inr promoted, s2)))"

definition release_at ::
  "LeaseEnv \<Rightarrow> LeaseEngine \<Rightarrow> string \<Rightarrow> u64 \<Rightarrow> int \<Rightarrow> ReleaseOutcome lease_result" where
  "release_at E s lease_id epoch now =
     (case check_epoch s epoch of
        Some e \<Rightarrow> (Inl e, s)
      | None \<Rightarrow>
          (case map_of (en_held s) lease_id of
             None \<Rightarrow> (Inl (LeaseNotFound lease_id), s)
           | Some h \<Rightarrow>
               (case append_event E s now (ReleasedEvent lease_id) of
                  (Inl e, s1) \<Rightarrow> (Inl e, s1)
                | (Inr _, s1) \<Rightarrow>
                    (case promote_and_reconcile E (remove_held s1 (hl_grant h)) now of
                       (Inl e, s2) \<Rightarrow> (Inl e, s2)
                     | (Inr promoted, s2) \<Rightarrow>
                         (Inr \<lparr>ro_released = hl_grant h, ro_promoted = promoted\<rparr>, s2)))))"

definition cancel_pending_at ::
  "LeaseEngine \<Rightarrow> string \<Rightarrow> u64 \<Rightarrow> unit lease_result" where
  "cancel_pending_at s ticket_id epoch =
     (case check_epoch s epoch of
        Some e \<Rightarrow> (Inl e, s)
      | None \<Rightarrow>
          (case position (\<lambda>p. pd_ticket_id p = ticket_id) (en_pending s) of
             None \<Rightarrow> (Inl (LeaseNotFound ticket_id), s)
           | Some i \<Rightarrow>
               (Inr (), s\<lparr>en_pending := remove_nth i (en_pending s),
                          en_held := map (\<lambda>(l, h). (l, h\<lparr>hl_yield_demands :=
                             AList.delete ticket_id (hl_yield_demands h)\<rparr>)) (en_held s)\<rparr>)))"

section \<open>Preemption\<close>

definition reclaimable :: "int \<Rightarrow> HeldLease \<Rightarrow> bool" where
  "reclaimable now h =
     list_ex (\<lambda>(_, d). yd_hard_reclaim d \<and> yd_deadline d \<le> now) (hl_yield_demands h)"

definition plan_tick :: "LeaseEnv \<Rightarrow> LeaseEngine \<Rightarrow> int \<Rightarrow> (LeaseGrant list) lease_result" where
  "plan_tick E s now =
     (case reconcile_yield_demands E s now of
        (Inl e, s1) \<Rightarrow> (Inl e, s1)
      | (Inr _, s1) \<Rightarrow>
          (Inr (map (hl_grant \<circ> snd) (filter (reclaimable now \<circ> snd) (en_held s1))), s1))"

fun preempt_all ::
  "LeaseEnv \<Rightarrow> int \<Rightarrow> string list \<Rightarrow> LeaseEngine \<Rightarrow> (LeaseGrant list) lease_result" where
  "preempt_all E now [] s = (Inr [], s)"
| "preempt_all E now (l # ls) s =
     (case map_of (en_held s) l of
        None \<Rightarrow> (Inl (LeaseNotFound l), s)
      | Some h \<Rightarrow>
          if \<not> reclaimable now h then (Inl (InvalidRequest (NotEligibleForPreemption l)), s)
          else (case append_event E s now (PreemptedEvent l) of
                  (Inl e, s1) \<Rightarrow> (Inl e, s1)
                | (Inr _, s1) \<Rightarrow>
                    (case preempt_all E now ls (remove_held s1 (hl_grant h)) of
                       (Inl e, s2) \<Rightarrow> (Inl e, s2)
                     | (Inr gs, s2) \<Rightarrow> (Inr (hl_grant h # gs), s2))))"

definition commit_preemptions ::
  "LeaseEnv \<Rightarrow> LeaseEngine \<Rightarrow> string list \<Rightarrow> int \<Rightarrow> TickOutcome lease_result" where
  "commit_preemptions E s reclaimed now =
     (case reconcile_yield_demands E s now of
        (Inl e, s1) \<Rightarrow> (Inl e, s1)
      | (Inr _, s1) \<Rightarrow>
          (case preempt_all E now reclaimed s1 of
             (Inl e, s2) \<Rightarrow> (Inl e, s2)
           | (Inr preempted, s2) \<Rightarrow>
               (case promote_and_reconcile E s2 now of
                  (Inl e, s3) \<Rightarrow> (Inl e, s3)
                | (Inr promoted, s3) \<Rightarrow>
                    (Inr \<lparr>to_preempted = preempted, to_promoted = promoted\<rparr>, s3))))"

definition tick :: "LeaseEnv \<Rightarrow> LeaseEngine \<Rightarrow> int \<Rightarrow> TickOutcome lease_result" where
  "tick E s now =
     (case plan_tick E s now of
        (Inl e, s1) \<Rightarrow> (Inl e, s1)
      | (Inr planned, s1) \<Rightarrow> commit_preemptions E s1 (map gr_lease_id planned) now)"

section \<open>Pool readings\<close>

definition held_in_pool :: "LeaseEngine \<Rightarrow> string \<Rightarrow> LeaseError + nat" where
  "held_in_pool s p =
     (case en_pools s p of
        Some st \<Rightarrow> Inr (length (rp_holders st))
      | None \<Rightarrow> if is_campaign_pool_name p then Inr 0 else Inl (UnknownPool p))"

definition queued_in_pool :: "LeaseEngine \<Rightarrow> string \<Rightarrow> LeaseError + nat" where
  "queued_in_pool s p =
     (if en_pools s p = None \<and> \<not> is_campaign_pool_name p then Inl (UnknownPool p)
      else Inr (length (filter (\<lambda>q. list_ex (\<lambda>n. n = p) (rq_pools (pd_request q))) (en_pending s))))"

definition declared_resource_kind :: "LeaseEngine \<Rightarrow> string \<Rightarrow> ResourceKind option" where
  "declared_resource_kind s p =
     (case en_pools s p of None \<Rightarrow> None | Some st \<Rightarrow> pc_resource (rp_config st))"

text \<open>The plain \<open>sum()\<close> of the amounts panics where it overflows (checked builds).\<close>

definition budget_used_at :: "LeaseEnv \<Rightarrow> LeaseEngine \<Rightarrow> string \<Rightarrow> int \<Rightarrow> u64 lease_result" where
  "budget_used_at E s p now =
     (case en_pools s p of
        None \<Rightarrow> if is_campaign_pool_name p then (Inr 0, s) else (Inl (UnknownPool p), s)
      | Some st \<Rightarrow>
          (case prune_debits E st now of
             (Inl e, st') \<Rightarrow> (Inl e, set_pool s p st')
           | (Inr _, st') \<Rightarrow>
               (case window_used st' of
                  None \<Rightarrow> (Inl LeasePanic, set_pool s p st')
                | Some u \<Rightarrow> (Inr u, set_pool s p st'))))"

definition window_reset_at ::
  "LeaseEnv \<Rightarrow> LeaseEngine \<Rightarrow> string \<Rightarrow> int \<Rightarrow> (string option) lease_result" where
  "window_reset_at E s p now =
     (case en_pools s p of
        None \<Rightarrow> if is_campaign_pool_name p then (Inr None, s) else (Inl (UnknownPool p), s)
      | Some st \<Rightarrow>
          (case prune_debits E st now of
             (Inl e, st') \<Rightarrow> (Inl e, set_pool s p st')
           | (Inr _, st') \<Rightarrow>
               (case (pc_predicate (rp_config st'), rp_debits st') of
                  (WindowedConsumption w, d # _) \<Rightarrow>
                    (case window_delta E w of
                       Inl e \<Rightarrow> (Inl e, set_pool s p st')
                     | Inr window \<Rightarrow>
                         (case debit_expiry E window d of
                            Inl e \<Rightarrow> (Inl e, set_pool s p st')
                          | Inr expiry \<Rightarrow> (Inr (Some (to_rfc3339 E expiry)), set_pool s p st')))
                | _ \<Rightarrow> (Inr None, set_pool s p st'))))"

section \<open>The local back end\<close>

text \<open>\<open>is_active\<close> is the liveness probe of systemd, a parameter.\<close>

definition heartbeat ::
  "LeaseEnv \<Rightarrow> (string \<Rightarrow> LeaseError + bool) \<Rightarrow> LeaseEngine \<Rightarrow> string \<Rightarrow> u64 \<Rightarrow> int
     \<Rightarrow> HeartbeatOutcome lease_result" where
  "heartbeat E is_active s lease_id epoch now =
     (case lease_status E s lease_id epoch of
        Inl e \<Rightarrow> (Inl e, s)
      | Inr status \<Rightarrow>
          if \<not> ls_held status then (Inl (LeaseNotFound lease_id), s)
          else (case map_of (en_held s) lease_id of
                  None \<Rightarrow> (Inl LeasePanic, s)
                | Some h \<Rightarrow>
                    (case is_active (gr_unit (hl_grant h)) of
                       Inl e \<Rightarrow> (Inl e, s)
                     | Inr True \<Rightarrow> (Inr Alive, s)
                     | Inr False \<Rightarrow>
                         (case release_at E s lease_id epoch now of
                            (Inl e, s') \<Rightarrow> (Inl e, s')
                          | (Inr _, s') \<Rightarrow> (Inr HolderExited, s')))))"

end
