(* ===== verification/Lease_Samples.thy ===== *)
theory Lease_Samples
  imports Lease_Ops
begin

text \<open>
  A concrete environment and engine, at which the witnesses of the lease theorems evaluate the
  model.  Instants are rendered in binary, least significant digit first.
\<close>

function show_bits :: "int \<Rightarrow> string" where
  "show_bits n =
     (if n \<le> 0 then [] else (if odd n then CHR ''1'' else CHR ''0'') # show_bits (n div 2))"
  by pat_completeness auto
termination
  by (relation "measure nat") auto

declare show_bits.simps [simp del]

fun read_bits :: "string \<Rightarrow> int" where
  "read_bits [] = 0"
| "read_bits (c # cs) = (if c = CHR ''1'' then 1 else 0) + 2 * read_bits cs"

lemma read_show_bits: "0 \<le> n \<Longrightarrow> read_bits (show_bits n) = n"
proof (induction n rule: show_bits.induct)
  case (1 n)
  show ?case
  proof (cases "n \<le> 0")
    case True
    with "1.prems" show ?thesis by (simp add: show_bits.simps)
  next
    case False
    with 1 have "read_bits (show_bits (n div 2)) = n div 2" by simp
    with False show ?thesis by (auto simp: show_bits.simps [of n] elim: oddE)
  qed
qed


definition sample_env :: LeaseEnv where
  "sample_env =
     \<lparr>to_rfc3339 = (\<lambda>t. if t < 0 then CHR ''-'' # show_bits (- millis t)
                       else CHR ''+'' # show_bits (millis t)),
      from_rfc3339 = (\<lambda>s. case s of [] \<Rightarrow> None
                         | c # cs \<Rightarrow> Some (if c = CHR ''-'' then - read_bits cs else read_bits cs)),
      delta_seconds = (\<lambda>n. Some (n * 1000000000)), delta_from_std = (\<lambda>n. Some (int n)),
      datetime_add = (\<lambda>t d. Some (t + d)), append_io = (\<lambda>_. Synced)\<rparr>"

lemma sample_env_laws: "chrono_laws sample_env"
proof -
  have "0 \<le> t \<Longrightarrow> 0 \<le> millis t" and "t < 0 \<Longrightarrow> 0 \<le> - millis t" for t :: int
    unfolding millis_def by (simp_all add: zmod_le_nonneg_dividend)
  then show ?thesis
    by (auto simp: chrono_laws_def sample_env_def read_show_bits split: if_splits)
qed

definition sample_pools :: "(string \<times> PoolConfig) list" where
  "sample_pools =
     [(''budget'', default_pool_config\<lparr>pc_resource := Some Budget, pc_predicate :=
         WindowedConsumption \<lparr>window_sec = 60, consumption_cap = 100\<rparr>\<rparr>),
      (''cpu'', default_pool_config\<lparr>pc_resource := Some CpuSlot, pc_hard_preempt := True\<rparr>)]"

definition sample_engine :: LeaseEngine where
  "sample_engine =
     (case new_with_aging_threshold 1 20 3600 sample_pools (Some \<lparr>log_lines = [], log_attempts = 0\<rparr>)
        of Inr s \<Rightarrow> s | Inl e \<Rightarrow> undefined)"

definition sample_admission :: LeaseRequest where
  "sample_admission = (sample_request ''job'' Standalone Medium)
     \<lparr>rq_pools := [''cpu'', ''budget''], rq_consumption_estimate := Some 40\<rparr>"

definition sample_admitted :: LeaseEngine where
  "sample_admitted = snd (admit_at sample_env sample_engine sample_admission 1000000)"

section \<open>Explicit engine states\<close>

definition budget_pool :: "string list \<Rightarrow> BudgetDebit list \<Rightarrow> RuntimePool" where
  "budget_pool hs ds =
     \<lparr>rp_config = snd (hd sample_pools), rp_holders = hs, rp_debits = ds\<rparr>"

definition cpu_pool :: "string list \<Rightarrow> RuntimePool" where
  "cpu_pool hs = \<lparr>rp_config = snd (sample_pools ! 1), rp_holders = hs, rp_debits = []\<rparr>"

definition sample_pool_map :: "string list \<Rightarrow> BudgetDebit list \<Rightarrow> string \<rightharpoonup> RuntimePool" where
  "sample_pool_map hs ds p =
     (if p = ''budget'' then Some (budget_pool hs ds)
      else if p = ''cpu'' then Some (cpu_pool hs) else None)"

definition sample_state ::
  "string list \<Rightarrow> BudgetDebit list \<Rightarrow> (string \<times> HeldLease) list \<Rightarrow> PendingRequest list \<Rightarrow> u64
     \<Rightarrow> LeaseEventLog \<Rightarrow> LeaseEngine" where
  "sample_state hs ds held pend n lg =
     \<lparr>en_epoch = 1, en_yield_grace = 20, en_aging_threshold = 3600,
      en_pools = sample_pool_map hs ds, en_held = held, en_pending = pend, en_debited = {},
      en_next_sequence = n, en_events = Some lg\<rparr>"

lemma sample_pool_map_simps:
  "sample_pool_map hs ds ''budget'' = Some (budget_pool hs ds)"
  "sample_pool_map hs ds ''cpu'' = Some (cpu_pool hs)"
  "(sample_pool_map hs ds)(''budget'' \<mapsto> budget_pool hs ds) = sample_pool_map hs ds"
  "(sample_pool_map hs ds)(''cpu'' \<mapsto> cpu_pool hs) = sample_pool_map hs ds"
  "(sample_pool_map hs ds)(''budget'' \<mapsto> budget_pool hs ds') = sample_pool_map hs ds'"
  "(sample_pool_map hs ds)(''budget'' \<mapsto> budget_pool hs' ds', ''cpu'' \<mapsto> cpu_pool hs')
     = sample_pool_map hs' ds'"
  "(sample_pool_map hs ds)(''budget'' \<mapsto> budget_pool hs' ds, ''cpu'' \<mapsto> cpu_pool hs',
     ''budget'' \<mapsto> budget_pool hs' ds') = sample_pool_map hs' ds'"
  by (simp_all add: sample_pool_map_def fun_eq_iff)

lemma sample_pool_simps:
  "rp_holders (budget_pool hs ds) = hs" "rp_debits (budget_pool hs ds) = ds"
  "rp_holders (cpu_pool hs) = hs" "is_windowed (rp_config (budget_pool hs ds))"
  "\<not> is_windowed (rp_config (cpu_pool hs))"
  "(budget_pool hs ds)\<lparr>rp_holders := hs'\<rparr> = budget_pool hs' ds"
  "(budget_pool hs ds)\<lparr>rp_debits := ds'\<rparr> = budget_pool hs ds'"
  "(cpu_pool hs)\<lparr>rp_holders := hs'\<rparr> = cpu_pool hs'"
  by (simp_all add: budget_pool_def cpu_pool_def sample_pools_def is_windowed_def default_pool_config_def)

definition sample_rq :: "string \<Rightarrow> u64 \<Rightarrow> LeaseRequest" where
  "sample_rq job n = (sample_request job Standalone Medium)
     \<lparr>rq_pools := [''budget'', ''cpu''], rq_consumption_estimate := Some n\<rparr>"

lemma sample_canonical:
  assumes "\<not> is_blank job"
  shows "canonicalize_request (sample_state hs ds held pend k lg)
      ((sample_request job Standalone Medium)
         \<lparr>rq_pools := [''cpu'', ''budget''], rq_consumption_estimate := Some n\<rparr>)
    = Inr (sample_rq job n)"
proof -
  have "canonicalize [''cpu'', ''budget''] = Inr [''budget'', ''cpu'']" by code_simp
  moreover have "\<not> is_blank ''unit''" by code_simp
  ultimately show ?thesis using assms
    by (simp add: sample_rq_def sample_request_def sample_state_def canonicalize_request_def Let_def
      validate_request_def sample_pool_map_simps sample_pool_simps)
qed

lemma sample_open: "open_campaign_pools [''budget'', ''cpu''] (sample_state hs ds held pend k lg)
  = sample_state hs ds held pend k lg"
proof -
  have "\<not> is_campaign_pool_name ''budget''" "\<not> is_campaign_pool_name ''cpu''" by code_simp+
  then show ?thesis by (auto simp: open_campaign_pools_def sample_state_def fun_eq_iff)
qed

lemma sample_can_grant:
  assumes "pool_allows sample_env ''budget'' (budget_pool hs ds) (sample_rq job n) now = (Inr b, budget_pool hs ds)"
  shows "can_grant sample_env (sample_state hs ds held pend k lg) (sample_rq job n) now
    = (Inr (b \<and> hs = []), sample_state hs ds held pend k lg)"
proof -
  have "pool_allows sample_env ''cpu'' (cpu_pool hs) (sample_rq job n) now
    = (Inr (hs = []), cpu_pool hs)"
    by (simp add: pool_allows_def cpu_pool_def sample_pools_def default_pool_config_def)
  moreover have "effective_request (sample_state hs ds held pend k lg) (sample_rq job n) = sample_rq job n"
    by (simp add: effective_request_def already_debited_def sample_rq_def sample_request_def)
  moreover have "rq_pools (sample_rq job n) = [''budget'', ''cpu'']" by (simp add: sample_rq_def)
  ultimately show ?thesis using assms
    by (simp add: can_grant_def sample_state_def sample_pool_map_simps set_pool_def split: bool.split)
qed


definition sample_log :: "LeaseEventLog \<Rightarrow> LeaseEventKind \<Rightarrow> int \<Rightarrow> LeaseEventLog" where
  "sample_log lg ev now =
     \<lparr>log_lines = write_line (log_lines lg) (EventLine
        \<lparr>le_schema_version = 1, le_observed_at = to_rfc3339 sample_env now, le_epoch = 1,
         le_event = ev\<rparr>),
      log_attempts = Suc (log_attempts lg)\<rparr>"

lemma sample_log_append:
  "log_append sample_env lg \<lparr>le_schema_version = 1, le_observed_at = to_rfc3339 sample_env now,
     le_epoch = 1, le_event = ev\<rparr> = (Inr (), sample_log lg ev now)"
  by (simp add: log_append_def sample_log_def sample_env_def Let_def)

definition sample_grant :: "string \<Rightarrow> string \<Rightarrow> u64 \<Rightarrow> int \<Rightarrow> LeaseGrant" where
  "sample_grant l job n now = make_grant sample_env (sample_state [] [] [] [] 1 \<lparr>log_lines = [], log_attempts = 0\<rparr>) l (sample_rq job n) now"

lemma sample_grant_step:
  "grant sample_env (sample_state [] ds held pend k lg) l (sample_rq job n) now =
     (let g = sample_grant l job n now; d = debit_for sample_env g now ''budget'' in
      (Inr g, sample_state [l] (ds @ [d]) (AList.update l \<lparr>hl_grant = g, hl_yield_demands = []\<rparr> held)
         pend k (sample_log lg (GrantedEvent g [d]) now)))"
proof -
  have g: "make_grant sample_env (sample_state [] ds held pend k lg) l (sample_rq job n) now = sample_grant l job n now"
    by (simp add: sample_grant_def make_grant_def sample_state_def)
  have f: "gr_pools (sample_grant l job n now) = [''budget'', ''cpu'']" "gr_admission_key (sample_grant l job n now) = None"
     "gr_lease_id (sample_grant l job n now) = l"
    by (simp_all add: sample_grant_def make_grant_def sample_rq_def sample_request_def)
  have b: "bd_pool (debit_for sample_env x now p) = p" for x p by (simp add: debit_for_def)
  show ?thesis
    unfolding grant_def g Let_def f
    by (simp add: f b sample_state_def already_debited_def append_event_def
        sample_log_append sample_pool_map_simps sample_pool_simps commit_grant_def
        add_holder_def push_debit_def)
qed

definition plain_held :: "(string \<times> HeldLease) list \<Rightarrow> bool" where
  "plain_held hs = list_all (\<lambda>(l, h). hl_yield_demands h = []) hs"

lemma sample_reconcile:
  assumes "list_all (\<lambda>p. rq_priority (pd_request p) = Medium \<and>
             pd_effective_rank p = effective_rank_at p now 3600) pend"
    and "plain_held held"
  shows "reconcile_yield_demands sample_env (sample_state hs ds held pend k lg) now
           = (Inr (), sample_state hs ds held pend k lg)"
proof -
  have "refresh_aged_order pend now 3600 = pend"
    using assms(1) by (auto simp: refresh_aged_order_def list_all_iff list_ex_iff)
  moreover have "filter (\<lambda>p. rq_priority (pd_request p) = Interrupt) pend = []"
    using assms(1) by (auto simp: filter_empty_conv list_all_iff)
  moreover have "map (\<lambda>(l, h). (l, h\<lparr>hl_yield_demands := []\<rparr>)) held = held"
    using assms(2) by (auto simp: plain_held_def list_all_iff intro!: map_idI)
  ultimately show ?thesis
    by (simp add: reconcile_yield_demands_def sample_state_def interrupts_def yield_deadline_def
        sample_env_def newly_requested_def apply_desired_def update_demands_def Let_def)
qed

definition sample_ticket :: "u64 \<Rightarrow> string \<Rightarrow> u64 \<Rightarrow> int \<Rightarrow> PendingRequest" where
  "sample_ticket k job n now =
     \<lparr>pd_ticket_id = lease_ticket 1 k, pd_sequence = k, pd_admitted_at = now,
      pd_effective_rank = 50, pd_request = sample_rq job n\<rparr>"

lemma sample_frame:
  "(sample_state hs ds held pend k lg)\<lparr>en_next_sequence := k'\<rparr>
     = sample_state hs ds held pend k' lg"
  "(sample_state hs ds held pend k lg)\<lparr>en_pending := q\<rparr> = sample_state hs ds held q k lg"
  "en_next_sequence (sample_state hs ds held pend k lg) = k"
  "en_epoch (sample_state hs ds held pend k lg) = 1"
  "en_aging_threshold (sample_state hs ds held pend k lg) = 3600"
  "en_pending (sample_state hs ds held pend k lg) = pend"
  "rq_pools (sample_rq job n) = [''budget'', ''cpu'']" "rq_priority (sample_rq job n) = Medium"
  by (simp_all add: sample_state_def sample_rq_def sample_request_def)

lemma sample_admit:
  assumes "\<not> is_blank job" and "checked_add k 1 = Some k'"
    and "pool_allows sample_env ''budget'' (budget_pool hs ds) (sample_rq job n) now
           = (Inr b, budget_pool hs ds)"
    and "\<not> (b \<and> hs = [])"
    and "sort_pending (pend @ [sample_ticket k job n now]) now 3600 = pend @ [sample_ticket k job n now]"
    and "list_all (\<lambda>p. rq_priority (pd_request p) = Medium \<and>
             pd_effective_rank p = effective_rank_at p now 3600) (pend @ [sample_ticket k job n now])"
    and "plain_held held"
  shows "snd (admit_at sample_env (sample_state hs ds held pend k lg)
      ((sample_request job Standalone Medium)\<lparr>rq_pools := [''cpu'', ''budget''], rq_consumption_estimate := Some n\<rparr>) now)
    = sample_state hs ds held (pend @ [sample_ticket k job n now]) k' lg"
proof -
  have tk: "sample_ticket k job n now = \<lparr>pd_ticket_id = lease_ticket 1 k, pd_sequence = k, pd_admitted_at = now,
      pd_effective_rank = 50, pd_request = sample_rq job n\<rparr>" by (rule sample_ticket_def)
  have gr: "(Inr (b \<and> hs = []), t) = (Inr False, t)" for t :: LeaseEngine using assms(4) by simp
  show ?thesis
    unfolding admit_at_def sample_canonical [OF assms(1)]
    by (simp add: Let_def sample_open sample_frame assms(2) sample_can_grant [OF assms(3)] gr
      enqueue_pending_def tk [symmetric] assms(5) sample_reconcile [OF assms(6,7)] split: option.split)
qed

definition sample_held :: "(string \<times> HeldLease) list" where
  "sample_held =
     [(''lease-1-1'', \<lparr>hl_grant = sample_grant ''lease-1-1'' ''job'' 40 1000000,
                      hl_yield_demands = []\<rparr>)]"

definition sample_debit :: BudgetDebit where
  "sample_debit =
     debit_for sample_env (sample_grant ''lease-1-1'' ''job'' 40 1000000) 1000000 ''budget''"

definition sample_event_log :: LeaseEventLog where
  "sample_event_log = sample_log \<lparr>log_lines = [], log_attempts = 0\<rparr>
     (GrantedEvent (sample_grant ''lease-1-1'' ''job'' 40 1000000) [sample_debit]) 1000000"

text \<open>One lease is held, two requests wait; the older one does not fit the consumption window.\<close>

definition sample_waiting :: LeaseEngine where
  "sample_waiting =
     sample_state [''lease-1-1''] [sample_debit] sample_held
       [sample_ticket 2 ''second'' 70 2000000, sample_ticket 3 ''third'' 50 2000100] 4
       sample_event_log"

lemma sample_admitted_eq:
  "sample_admitted =
     sample_state [''lease-1-1''] [sample_debit] sample_held [] 2 sample_event_log"
proof -
  have c: "check_pools sample_pools = Inr sample_pools" by code_simp
  have "(\<lambda>p. map_option new_runtime_pool (map_of sample_pools p)) = sample_pool_map [] []"
    by (simp add: fun_eq_iff sample_pool_map_def sample_pools_def budget_pool_def cpu_pool_def
        new_runtime_pool_def)
  with c have e: "sample_engine = sample_state [] [] [] [] 1 \<lparr>log_lines = [], log_attempts = 0\<rparr>"
    by (simp add: sample_engine_def new_with_aging_threshold_def sample_state_def)
  have "pool_allows sample_env ''budget'' (budget_pool [] []) (sample_rq ''job'' 40) 1000000
      = (Inr True, budget_pool [] [])" by code_simp
  note cg = sample_can_grant [OF this]
  have l: "lease_ticket 1 1 = ''lease-1-1''" "checked_add 1 1 = Some 2" by code_simp+
  have j: "\<not> is_blank ''job''" by code_simp
  show ?thesis
    unfolding sample_admitted_def sample_admission_def e admit_at_def sample_canonical [OF j]
    by (simp add: Let_def sample_open sample_frame l cg sample_grant_step sample_held_def
        sample_debit_def sample_event_log_def)
qed

lemma sample_waiting_run:
  "snd (admit_at sample_env (snd (admit_at sample_env sample_admitted
     (sample_admission\<lparr>rq_job_id := ''second'', rq_consumption_estimate := Some 70\<rparr>) 2000000))
     (sample_admission\<lparr>rq_job_id := ''third'', rq_consumption_estimate := Some 50\<rparr>) 2000100)
   = sample_waiting"
proof -
  let ?p = "sample_ticket 2 ''second'' 70 2000000" and ?q = "sample_ticket 3 ''third'' 50 2000100"
  have held: "plain_held sample_held" by (simp add: plain_held_def sample_held_def)
  have rq: "sample_admission\<lparr>rq_job_id := job, rq_consumption_estimate := n\<rparr>
      = (sample_request job Standalone Medium)
          \<lparr>rq_pools := [''cpu'', ''budget''], rq_consumption_estimate := n\<rparr>" for job n
    by (simp add: sample_admission_def sample_request_def)
  have a1: "snd (admit_at sample_env
      (sample_state [''lease-1-1''] [sample_debit] sample_held [] 2 sample_event_log)
      ((sample_request ''second'' Standalone Medium)
         \<lparr>rq_pools := [''cpu'', ''budget''], rq_consumption_estimate := Some 70\<rparr>) 2000000)
      = sample_state [''lease-1-1''] [sample_debit] sample_held ([] @ [?p]) 3 sample_event_log"
    by (rule sample_admit [where b = False], code_simp, code_simp, code_simp, simp, code_simp,
        code_simp, rule held)
  have a2: "snd (admit_at sample_env
      (sample_state [''lease-1-1''] [sample_debit] sample_held [?p] 3 sample_event_log)
      ((sample_request ''third'' Standalone Medium)
         \<lparr>rq_pools := [''cpu'', ''budget''], rq_consumption_estimate := Some 50\<rparr>) 2000100)
      = sample_state [''lease-1-1''] [sample_debit] sample_held ([?p] @ [?q]) 4 sample_event_log"
    by (rule sample_admit [where b = True], code_simp, code_simp, code_simp, simp, code_simp,
        code_simp, rule held)
  from a1 a2 show ?thesis by (simp add: sample_admitted_eq rq sample_waiting_def)
qed

section \<open>An interrupt request against a full pool\<close>

definition sample_urgent :: PendingRequest where
  "sample_urgent =
     \<lparr>pd_ticket_id = ''lease-1-2'', pd_sequence = 2, pd_admitted_at = 2000000,
      pd_effective_rank = 1000, pd_request = sample_request ''urgent'' Standalone Interrupt\<rparr>"

definition sample_asked :: "(string \<times> HeldLease) list" where
  "sample_asked =
     [(''lease-1-1'', \<lparr>hl_grant = sample_grant ''lease-1-1'' ''job'' 40 1000000,
        hl_yield_demands = [(''lease-1-2'',
          \<lparr>yd_deadline = 2000020, yd_hard_reclaim = True, yd_pools = [''cpu'']\<rparr>)]\<rparr>)]"

definition sample_contended :: LeaseEngine where
  "sample_contended =
     sample_state [''lease-1-1''] [sample_debit] sample_asked [sample_urgent] 3 sample_event_log"

lemma sample_urgent_canonical:
  "canonicalize_request (sample_state hs ds held pend k lg)
     (sample_request ''urgent'' Standalone Interrupt)
     = Inr (sample_request ''urgent'' Standalone Interrupt)"
proof -
  have "canonicalize [''cpu''] = Inr [''cpu'']" and "\<not> is_blank ''unit''" and "\<not> is_blank ''urgent''"
    by code_simp+
  then show ?thesis
    by (simp add: sample_request_def sample_state_def canonicalize_request_def Let_def
        validate_request_def sample_pool_map_simps sample_pool_simps)
qed

lemma sample_urgent_blocked:
  "can_grant sample_env (sample_state [''lease-1-1''] ds held pend k lg)
     (sample_request ''urgent'' Standalone Interrupt) now
   = (Inr False, sample_state [''lease-1-1''] ds held pend k lg)"
proof -
  have "pool_allows sample_env ''cpu'' (cpu_pool [''lease-1-1'']) rq now
      = (Inr False, cpu_pool [''lease-1-1''])" for rq
    by (simp add: pool_allows_def cpu_pool_def sample_pools_def default_pool_config_def)
  then show ?thesis
    by (simp add: can_grant_def effective_request_def already_debited_def sample_request_def
        sample_state_def sample_pool_map_simps set_pool_def)
qed

lemma sample_urgent_reconcile:
  "reconcile_yield_demands sample_env
     (sample_state [''lease-1-1''] [sample_debit] sample_held [sample_urgent] 3 sample_event_log) 2000000
   = (Inr (), sample_contended)"
proof -
  let ?s = "sample_state [''lease-1-1''] [sample_debit] sample_held [sample_urgent] 3 sample_event_log"
  have "refresh_aged_order [sample_urgent] 2000000 3600 = [sample_urgent]" by code_simp
  then have s: "?s\<lparr>en_pending := refresh_aged_order (en_pending ?s) 2000000 (en_aging_threshold ?s)\<rparr> = ?s"
    by (simp add: sample_frame)
  have i: "interrupts ?s = [sample_urgent]"
    by (simp add: interrupts_def sample_frame sample_urgent_def sample_request_def)
  have w: "windows_allow sample_env (pd_request sample_urgent) 2000000 (rq_pools (pd_request sample_urgent)) ?s
      = (Inr True, ?s)"
    by (simp add: sample_urgent_def sample_request_def sample_state_def sample_pool_map_simps sample_pool_simps)
  have a: "assign_victims ?s (\<lambda>_. {}) (pd_ticket_id sample_urgent) (rq_pools (pd_request sample_urgent))
      = Some [(''cpu'', ''lease-1-1'', True)]" by code_simp
  have d: "yield_deadline sample_env ?s 2000000 = Inr 2000020"
    by (simp add: yield_deadline_def sample_state_def sample_env_def)
  have h: "en_held (apply_desired 2000020 (add_assignment (pd_ticket_id sample_urgent) (''cpu'', ''lease-1-1'', True) []) ?s) = sample_asked"
    by code_simp
  have "apply_desired dl D ?s = ?s\<lparr>en_held := en_held (apply_desired dl D ?s)\<rparr>" for dl D
    by (simp add: apply_desired_def)
  from this [of 2000020 "add_assignment (pd_ticket_id sample_urgent) (''cpu'', ''lease-1-1'', True) []"]
  have h': "apply_desired 2000020
      (add_assignment (pd_ticket_id sample_urgent) (''cpu'', ''lease-1-1'', True) []) ?s = sample_contended"
    unfolding h by (simp add: sample_contended_def sample_state_def)
  show ?thesis unfolding reconcile_yield_demands_def Let_def s i 
    by (simp add: w a d h')
qed

lemma sample_contended_run:
  "snd (admit_at sample_env sample_admitted (sample_request ''urgent'' Standalone Interrupt) 2000000)
     = sample_contended"
proof -
  have o: "open_campaign_pools [''cpu''] (sample_state hs ds held pend k lg)
      = sample_state hs ds held pend k lg" for hs ds held pend k lg
  proof -
    have "\<not> is_campaign_pool_name ''cpu''" by code_simp
    then show ?thesis by (auto simp: open_campaign_pools_def sample_state_def fun_eq_iff)
  qed
  have u: "\<lparr>pd_ticket_id = lease_ticket 1 2, pd_sequence = 2, pd_admitted_at = 2000000,
      pd_effective_rank = 1000, pd_request = sample_request ''urgent'' Standalone Interrupt\<rparr> = sample_urgent"
    by code_simp
  have q: "checked_add 2 1 = Some 3" "sort_pending [sample_urgent] 2000000 3600 = [sample_urgent]" by code_simp+
  have r: "rq_pools (sample_request ''urgent'' Standalone Interrupt) = [''cpu'']"
     "rq_priority (sample_request ''urgent'' Standalone Interrupt) = Interrupt" by (simp_all add: sample_request_def)
  show ?thesis
    unfolding sample_admitted_eq admit_at_def sample_urgent_canonical
    by (simp add: Let_def r o sample_frame q sample_urgent_blocked u enqueue_pending_def
        sample_urgent_reconcile split: option.split)
qed

end
