(* ===== verification/Lease_Replay.thy ===== *)
theory Lease_Replay
  imports Lease_Samples
begin

text \<open>
  Restart of the lease engine (\<open>lease.rs\<close>): the epoch counter, the reconstruction of the
  consumption windows from the event log, and the constructor that combines them.
\<close>

section \<open>The epoch counter\<close>

text \<open>
  The counter file as its content, \<open>None\<close> when it does not exist.  The new content is staged and
  renamed into place, so a failure up to the rename leaves the old counter; when only the directory
  cannot be synced afterwards, the call fails although the new counter is in place.
\<close>

datatype BumpIo =
    BumpUnread    \<comment> \<open>the directory, the lock or the counter cannot be opened, locked or read\<close>
  | BumpUnstaged  \<comment> \<open>the staged file cannot be created, written, synced or renamed\<close>
  | BumpUnsynced  \<comment> \<open>renamed, but the directory cannot be opened or synced\<close>
  | BumpDone

definition bump_epoch :: "BumpIo \<Rightarrow> string option \<Rightarrow> (LeaseError + u64) \<times> string option" where
  "bump_epoch bump_io counter =
     (if bump_io = BumpUnread then (Inl LeaseIo, counter)
      else
        (case (case counter of
                 None \<Rightarrow> Inr 0
               | Some v \<Rightarrow> (case parse_u64 (trim v) of None \<Rightarrow> Inl (CorruptEpoch v) | Some n \<Rightarrow> Inr n)) of
           Inl e \<Rightarrow> (Inl e, counter)
         | Inr previous \<Rightarrow>
             (case checked_add previous 1 of
                None \<Rightarrow> (Inl EpochOverflow, counter)
              | Some next_epoch \<Rightarrow>
                  (case bump_io of
                     BumpDone \<Rightarrow> (Inr next_epoch, Some (show_nat (unat next_epoch) @ ''\<newline>''))
                   | BumpUnsynced \<Rightarrow> (Inl LeaseIo, Some (show_nat (unat next_epoch) @ ''\<newline>''))
                   | _ \<Rightarrow> (Inl LeaseIo, counter)))))"

section \<open>Rebuilding the windows\<close>

record WindowUsageSnapshot =
  ws_usage :: "(string \<times> u64) list"
  ws_debits :: "(string \<times> BudgetDebit list) list"
  ws_debited :: "string set"
  ws_witness_records :: nat

text \<open>One debit of a logged grant, kept when its window has not passed.\<close>

definition rebuild_debit ::
  "LeaseEnv \<Rightarrow> (string \<times> PoolConfig) list \<Rightarrow> int \<Rightarrow> BudgetDebit \<Rightarrow> WindowUsageSnapshot
     \<Rightarrow> LeaseError + WindowUsageSnapshot" where
  "rebuild_debit E pools now d ws =
     (case map_of pools (bd_pool d) of
        None \<Rightarrow> Inr ws
      | Some config \<Rightarrow>
          (case pc_predicate config of
             CoResidency \<Rightarrow> Inr ws
           | WindowedConsumption w \<Rightarrow>
               (case from_rfc3339 E (bd_admitted_at d) of
                  None \<Rightarrow> Inl (InvalidRequest InvalidDebitTime)
                | Some admitted_at \<Rightarrow>
                    (case window_delta E w of
                       Inl e \<Rightarrow> Inl e
                     | Inr window \<Rightarrow>
                         (case datetime_add E admitted_at window of
                            None \<Rightarrow> Inl LeasePanic
                          | Some expiry \<Rightarrow>
                              if expiry \<le> now then Inr ws
                              else
                                (let total = (case map_of (ws_usage ws) (bd_pool d) of
                                                None \<Rightarrow> 0 | Some u \<Rightarrow> u)
                                 in case checked_add total (bd_amount d) of
                                      None \<Rightarrow> Inl (InvalidRequest RebuiltUsageOverflow)
                                    | Some total' \<Rightarrow>
                                        Inr (ws\<lparr>ws_usage := AList.update (bd_pool d) total' (ws_usage ws),
                                                ws_debits := AList.update (bd_pool d)
                                                  ((case map_of (ws_debits ws) (bd_pool d) of
                                                      None \<Rightarrow> [] | Some ds \<Rightarrow> ds) @ [d])
                                                  (ws_debits ws)\<rparr>)))))))"

fun rebuild_debits ::
  "LeaseEnv \<Rightarrow> (string \<times> PoolConfig) list \<Rightarrow> int \<Rightarrow> BudgetDebit list \<Rightarrow> WindowUsageSnapshot
     \<Rightarrow> LeaseError + WindowUsageSnapshot" where
  "rebuild_debits E pools now [] ws = Inr ws"
| "rebuild_debits E pools now (d # ds) ws =
     (case rebuild_debit E pools now d ws of
        Inl e \<Rightarrow> Inl e
      | Inr ws' \<Rightarrow> rebuild_debits E pools now ds ws')"

text \<open>
  The event loop.  A lease id counts once; an admission key counts once among the grants that
  carry debits.
\<close>

fun rebuild_events ::
  "LeaseEnv \<Rightarrow> (string \<times> PoolConfig) list \<Rightarrow> int \<Rightarrow> LeaseEvent list \<Rightarrow> string set
     \<Rightarrow> WindowUsageSnapshot \<Rightarrow> LeaseError + WindowUsageSnapshot" where
  "rebuild_events E pools now [] grants ws = Inr ws"
| "rebuild_events E pools now (ev # evs) grants ws =
     (case le_event ev of
        GrantedEvent g debits \<Rightarrow>
          if gr_lease_id g \<in> grants then rebuild_events E pools now evs grants ws
          else
            (let grants' = insert (gr_lease_id g) grants
             in if debits = [] then rebuild_events E pools now evs grants' ws
                else
                  (case gr_admission_key g of
                     Some k \<Rightarrow>
                       if k \<in> ws_debited ws then rebuild_events E pools now evs grants' ws
                       else
                         (case rebuild_debits E pools now debits
                                 (ws\<lparr>ws_debited := insert k (ws_debited ws)\<rparr>) of
                            Inl e \<Rightarrow> Inl e
                          | Inr ws' \<Rightarrow> rebuild_events E pools now evs grants' ws')
                   | None \<Rightarrow>
                       (case rebuild_debits E pools now debits ws of
                          Inl e \<Rightarrow> Inl e
                        | Inr ws' \<Rightarrow> rebuild_events E pools now evs grants' ws')))
      | _ \<Rightarrow> rebuild_events E pools now evs grants ws)"

definition rebuild_window_usage ::
  "LeaseEnv \<Rightarrow> (string \<times> PoolConfig) list \<Rightarrow> LeaseEventLog \<Rightarrow> nat \<Rightarrow> int
     \<Rightarrow> LeaseError + WindowUsageSnapshot" where
  "rebuild_window_usage E pools lg witness_records now =
     (case log_read (log_lines lg) of
        Inl e \<Rightarrow> Inl e
      | Inr evs \<Rightarrow>
          rebuild_events E pools now evs {}
            \<lparr>ws_usage = [], ws_debits = [], ws_debited = {}, ws_witness_records = witness_records\<rparr>)"

section \<open>The constructor from durable state\<close>

text \<open>\<open>entry(pool).or_insert_with(campaign_mutex_config)\<close> on the ordered pool map.\<close>

definition open_campaign_config ::
  "string \<Rightarrow> (string \<times> PoolConfig) list \<Rightarrow> (string \<times> PoolConfig) list" where
  "open_campaign_config p pools =
     (if is_campaign_pool_name p \<and> map_of pools p = None
      then insort_key fst (p, campaign_mutex_config) pools else pools)"

definition logged_campaign_pools ::
  "LeaseEvent list \<Rightarrow> (string \<times> PoolConfig) list \<Rightarrow> (string \<times> PoolConfig) list" where
  "logged_campaign_pools evs pools =
     fold (\<lambda>ev. case le_event ev of GrantedEvent g _ \<Rightarrow> fold open_campaign_config (gr_pools g)
                | _ \<Rightarrow> id) evs pools"

definition install_debits :: "(string \<times> BudgetDebit list) \<Rightarrow> (string \<rightharpoonup> RuntimePool) \<Rightarrow> (string \<rightharpoonup> RuntimePool)" where
  "install_debits pd pools =
     (case pd of (p, ds) \<Rightarrow>
        (case pools p of None \<Rightarrow> pools | Some st \<Rightarrow> pools(p \<mapsto> st\<lparr>rp_debits := ds\<rparr>)))"

definition from_durable_with_aging_threshold ::
  "LeaseEnv \<Rightarrow> u64 \<Rightarrow> nat \<Rightarrow> nat \<Rightarrow> (string \<times> PoolConfig) list \<Rightarrow> LeaseEventLog \<Rightarrow> nat \<Rightarrow> int
     \<Rightarrow> LeaseError + LeaseEngine" where
  "from_durable_with_aging_threshold E epoch yield_grace aging_threshold pools lg witness_records now =
     (case log_read (log_lines lg) of
        Inl e \<Rightarrow> Inl e
      | Inr evs \<Rightarrow>
          (let pools' = logged_campaign_pools evs pools
           in case rebuild_window_usage E pools' lg witness_records now of
                Inl e \<Rightarrow> Inl e
              | Inr rebuilt \<Rightarrow>
                  (case new_with_aging_threshold epoch yield_grace aging_threshold pools' (Some lg) of
                     Inl e \<Rightarrow> Inl e
                   | Inr s \<Rightarrow>
                       Inr (s\<lparr>en_pools := fold install_debits (ws_debits rebuilt) (en_pools s),
                              en_debited := ws_debited rebuilt\<rparr>))))"

end
