(* ===== verification/Lease_Safety.thy ===== *)
theory Lease_Safety
  imports Lease_Replay
begin

text \<open>
  The invariant of the lease engine and its preservation by every operation, on success and
  on every error path.  From it, for every engine reachable from a new one or from one rebuilt
  from the event log: capacities are never exceeded, a mutex has at most one holder, the holder sets
  of the pools agree with the held leases, tickets are never issued twice, and a consumption window
  never grows past its cap.
\<close>

section \<open>The invariant\<close>

definition held_grants :: "LeaseEngine \<Rightarrow> string \<rightharpoonup> LeaseGrant" where
  "held_grants s l = map_option hl_grant (map_of (en_held s) l)"

definition within_limits :: "nat \<Rightarrow> RuntimePool \<Rightarrow> bool" where
  "within_limits b st =
     (case pc_predicate (rp_config st) of
        CoResidency \<Rightarrow> length (rp_holders st) \<le> unat (pc_capacity (rp_config st))
      | WindowedConsumption w \<Rightarrow> window_total st \<le> max (unat (consumption_cap w)) b)"

definition mutex_shape :: "PoolConfig \<Rightarrow> bool" where
  "mutex_shape c \<longleftrightarrow>
     (pool_resource c = Mutex \<longrightarrow> pc_capacity c = 1 \<and> pc_predicate c = CoResidency)"

definition issued_ticket :: "LeaseEngine \<Rightarrow> string \<Rightarrow> bool" where
  "issued_ticket s l \<longleftrightarrow>
     (\<exists>q. unat q < unat (en_next_sequence s) \<and> l = lease_ticket (en_epoch s) q)"

definition grants_ok :: "LeaseEngine \<Rightarrow> bool" where
  "grants_ok s \<longleftrightarrow>
     distinct (map fst (en_held s)) \<and>
     (\<forall>l g. held_grants s l = Some g \<longrightarrow>
        gr_lease_id g = l \<and> distinct (gr_pools g) \<and> set (gr_pools g) \<subseteq> dom (en_pools s) \<and>
        issued_ticket s l)"

definition pools_ok :: "(string \<Rightarrow> nat) \<Rightarrow> LeaseEngine \<Rightarrow> bool" where
  "pools_ok base s \<longleftrightarrow>
     (\<forall>p st. en_pools s p = Some st \<longrightarrow>
        distinct (rp_holders st) \<and>
        set (rp_holders st) = {l. \<exists>g. held_grants s l = Some g \<and> p \<in> set (gr_pools g)} \<and>
        within_limits (base p) st \<and> mutex_shape (rp_config st))"

definition pending_core_ok :: "LeaseEngine \<Rightarrow> pending_core \<Rightarrow> bool" where
  "pending_core_ok s c \<longleftrightarrow>
     (case c of (ticket, sequence, _, rq) \<Rightarrow>
        ticket = lease_ticket (en_epoch s) sequence \<and>
        unat sequence < unat (en_next_sequence s) \<and>
        canonical_pools (rq_pools rq) \<and> set (rq_pools rq) \<subseteq> dom (en_pools s) \<and>
        held_grants s ticket = None)"

definition pending_ok :: "LeaseEngine \<Rightarrow> bool" where
  "pending_ok s \<longleftrightarrow>
     distinct (map pd_ticket_id (en_pending s)) \<and>
     (\<forall>p \<in> set (en_pending s). pending_core_ok s (pd_core p))"

definition engine_inv :: "(string \<Rightarrow> nat) \<Rightarrow> LeaseEngine \<Rightarrow> bool" where
  "engine_inv base s \<longleftrightarrow> grants_ok s \<and> pools_ok base s \<and> pending_ok s"

lemmas inv_defs = grants_ok_def pools_ok_def pending_ok_def pending_core_ok_def issued_ticket_def

lemma lease_ticket_inject [simp]: "lease_ticket e a = lease_ticket e b \<longleftrightarrow> a = b"
  by (simp add: lease_ticket_def word_unat_eq_iff)

section \<open>Invariance under pruning, logging and demand changes\<close>

lemma pool_pruned_limits: "pool_pruned st st' \<Longrightarrow> within_limits (base p) st \<Longrightarrow> within_limits (base p) st'"
  by (auto simp: pool_pruned_def within_limits_def window_total_def split: PoolPredicate.splits)

lemma held_grants_cong: "en_held s' = en_held s \<Longrightarrow> held_grants s' = held_grants s"
  by (simp add: held_grants_def fun_eq_iff)

lemma engine_pruned_dom: "engine_pruned s s' \<Longrightarrow> dom (en_pools s') = dom (en_pools s)"
proof -
  assume "engine_pruned s s'"
  then have "rel_option pool_pruned (en_pools s p) (en_pools s' p)" for p
    by (simp add: engine_pruned_def)
  then have "en_pools s p = None \<longleftrightarrow> en_pools s' p = None" for p
    by (metis option.rel_distinct(1,2) option.exhaust)
  then show ?thesis by (auto simp: dom_def)
qed

lemma engine_pruned_pool:
  "engine_pruned s s' \<Longrightarrow> en_pools s' p = Some st' \<Longrightarrow>
     \<exists>st. en_pools s p = Some st \<and> pool_pruned st st'"
  unfolding engine_pruned_def by (metis option_rel_Some2)

lemma engine_inv_pruned:
  assumes "engine_pruned s s'" and "engine_inv base s"
  shows "engine_inv base s'"
proof -
  note fr = engine_pruned_frame [OF assms(1)] engine_pruned_dom [OF assms(1)]
  have g: "held_grants s' = held_grants s" using fr by (intro held_grants_cong)
  have "pools_ok base s'"
    unfolding pools_ok_def g
  proof (intro allI impI)
    fix p st' assume "en_pools s' p = Some st'"
    with engine_pruned_pool [OF assms(1)] obtain st
      where "en_pools s p = Some st" and pr: "pool_pruned st st'" by blast
    with assms(2) have "distinct (rp_holders st) \<and>
        set (rp_holders st) = {l. \<exists>g. held_grants s l = Some g \<and> p \<in> set (gr_pools g)} \<and>
        within_limits (base p) st \<and> mutex_shape (rp_config st)"
      by (auto simp: engine_inv_def pools_ok_def)
    with pr pool_pruned_limits [OF pr] show "distinct (rp_holders st') \<and>
        set (rp_holders st') = {l. \<exists>g. held_grants s l = Some g \<and> p \<in> set (gr_pools g)} \<and>
        within_limits (base p) st' \<and> mutex_shape (rp_config st')"
      by (auto simp: pool_pruned_def)
  qed
  with assms(2) show ?thesis
    by (simp add: engine_inv_def grants_ok_def pending_ok_def pending_core_ok_def
        issued_ticket_def fr g)
qed

lemma engine_inv_events [simp]: "engine_inv base (s\<lparr>en_events := x\<rparr>) \<longleftrightarrow> engine_inv base s"
proof -
  have "held_grants (s\<lparr>en_events := x\<rparr>) = held_grants s" by (rule held_grants_cong) simp
  then show ?thesis by (simp add: engine_inv_def inv_defs)
qed

lemma engine_inv_events_pending [simp]:
  "engine_inv base (s\<lparr>en_events := x, en_pending := ps\<rparr>) \<longleftrightarrow> engine_inv base (s\<lparr>en_pending := ps\<rparr>)"
proof -
  have "s\<lparr>en_events := x, en_pending := ps\<rparr> = (s\<lparr>en_pending := ps\<rparr>)\<lparr>en_events := x\<rparr>" by simp
  then show ?thesis by (simp only: engine_inv_events)
qed

lemma engine_inv_append: "append_event E s now ev = (r, s') \<Longrightarrow> engine_inv base s' \<longleftrightarrow> engine_inv base s"
  by (auto elim: append_event_frame)

lemma held_grants_demands:
  "held_grants (s\<lparr>en_held := map (\<lambda>(l, h). (l, h\<lparr>hl_yield_demands := f l h\<rparr>)) (en_held s)\<rparr>)
     = held_grants s"
  by (simp add: held_grants_def fun_eq_iff map_of_map_pair option.map_comp comp_def)

lemma engine_inv_demands:
  "engine_inv base (s\<lparr>en_held := map (\<lambda>(l, h). (l, h\<lparr>hl_yield_demands := f l h\<rparr>)) (en_held s)\<rparr>)
     \<longleftrightarrow> engine_inv base s"
  by (simp add: engine_inv_def inv_defs held_grants_demands del: map_map)

text \<open>The pending queue may be permuted and shortened.\<close>

lemma engine_inv_pending:
  assumes "engine_inv base s" and "distinct (map pd_ticket_id ps)"
    and "pd_core ` set ps \<subseteq> pd_core ` set (en_pending s)"
  shows "engine_inv base (s\<lparr>en_pending := ps\<rparr>)"
proof -
  have g: "held_grants (s\<lparr>en_pending := ps\<rparr>) = held_grants s" by (rule held_grants_cong) simp
  have "\<forall>p \<in> set ps. pending_core_ok s (pd_core p)"
    using assms(1,3) by (fastforce simp: engine_inv_def pending_ok_def)
  moreover have "pending_core_ok (s\<lparr>en_pending := ps\<rparr>) c = pending_core_ok s c" for c
    by (simp add: pending_core_ok_def g)
  ultimately show ?thesis
    using assms(1,2) by (simp add: engine_inv_def grants_ok_def pools_ok_def pending_ok_def
        issued_ticket_def g)
qed

lemma engine_inv_reorder:
  assumes "engine_inv base s"
  shows "engine_inv base (s\<lparr>en_pending := refresh_aged_order (en_pending s) now th\<rparr>)"
proof (rule engine_inv_pending [OF assms])
  show "distinct (map pd_ticket_id (refresh_aged_order (en_pending s) now th))"
    using assms by (simp add: rfr.reorder_distinct_tickets engine_inv_def pending_ok_def)
  show "pd_core ` set (refresh_aged_order (en_pending s) now th) \<subseteq> pd_core ` set (en_pending s)"
    by (simp add: rfr.reorder_set)
qed

lemma engine_inv_reconcile:
  assumes "reconcile_yield_demands E s now = (r, s')" and "engine_inv base s"
  shows "engine_inv base s'"
  using assms(1)
proof (rule reconcile_cases)
  fix s1 s2
  assume "s1 = s\<lparr>en_pending := refresh_aged_order (en_pending s) now (en_aging_threshold s)\<rparr>"
    and pr: "engine_pruned s1 s2"
    and s': "s' = s2 \<or> (\<exists>deadline desired. r = Inr () \<and> s' = apply_desired deadline desired s2)"
  with assms(2) have "engine_inv base s1" by (simp add: engine_inv_reorder)
  with pr have "engine_inv base s2" by (rule engine_inv_pruned)
  with s' show ?thesis by (auto simp: apply_desired_def engine_inv_demands)
qed

section \<open>What a successful test guarantees\<close>

definition estimate_of :: "LeaseRequest \<Rightarrow> nat" where
  "estimate_of rq = unat (case rq_consumption_estimate rq of None \<Rightarrow> 0 | Some e \<Rightarrow> e)"

definition pool_fits :: "LeaseRequest \<Rightarrow> RuntimePool \<Rightarrow> bool" where
  "pool_fits rq st =
     (case pc_predicate (rp_config st) of
        CoResidency \<Rightarrow> length (rp_holders st) < unat (pc_capacity (rp_config st))
      | WindowedConsumption w \<Rightarrow> window_total st + estimate_of rq \<le> unat (consumption_cap w))"

lemma pool_fits_pruned: "pool_pruned st st' \<Longrightarrow> pool_fits rq st \<Longrightarrow> pool_fits rq st'"
  by (auto simp: pool_pruned_def pool_fits_def window_total_def split: PoolPredicate.splits)

lemma pool_allows_fits:
  assumes "pool_allows E p st rq now = (Inr True, st')"
  shows "pool_fits rq st'"
proof (cases "pc_predicate (rp_config st)")
  case CoResidency
  with assms have "st' = st" and "length (rp_holders st) < unat (pc_capacity (rp_config st))"
    by (auto simp: pool_allows_coresident)
  with CoResidency show ?thesis by (simp add: pool_fits_def)
next
  case (WindowedConsumption w)
  then have "window_total st' + estimate_of rq \<le> unat (consumption_cap w)"
    using pool_allows_windowed [OF _ assms] by (simp add: estimate_of_def)
  with WindowedConsumption pool_allows_frame(1) [OF assms] show ?thesis
    by (simp add: pool_fits_def)
qed

definition request_fits :: "LeaseEngine \<Rightarrow> LeaseRequest \<Rightarrow> string set \<Rightarrow> bool" where
  "request_fits s rq P \<longleftrightarrow> (\<forall>p \<in> P. \<exists>st. en_pools s p = Some st \<and> pool_fits rq st)"

lemma request_fits_pruned:
  assumes "engine_pruned s s'" and "request_fits s rq P"
  shows "request_fits s' rq P"
  unfolding request_fits_def
proof
  fix p assume "p \<in> P"
  with assms(2) obtain st where st: "en_pools s p = Some st" "pool_fits rq st"
    by (auto simp: request_fits_def)
  from assms(1) have "rel_option pool_pruned (en_pools s p) (en_pools s' p)"
    by (simp add: engine_pruned_def)
  with st obtain st' where "en_pools s' p = Some st'" and "pool_pruned st st'"
    by (auto simp: option_rel_Some1)
  with st(2) show "\<exists>st. en_pools s' p = Some st \<and> pool_fits rq st"
    by (auto intro: pool_fits_pruned)
qed

lemma can_grant_loop_fits:
  "can_grant_loop E rq now ps s = (Inr True, s') \<Longrightarrow> request_fits s' rq (set ps)"
proof (induction ps arbitrary: s)
  case Nil
  then show ?case by (simp add: request_fits_def)
next
  case (Cons p ps)
  from Cons.prems obtain st st' where st: "en_pools s p = Some st"
    and al: "pool_allows E p st rq now = (Inr True, st')"
    and rest: "can_grant_loop E rq now ps (set_pool s p st') = (Inr True, s')"
    by (auto split: option.splits prod.splits sum.splits bool.splits)
  have "request_fits (set_pool s p st') rq {p}"
    using pool_allows_fits [OF al] by (simp add: request_fits_def set_pool_def)
  with can_grant_loop_pruned [OF rest] have "request_fits s' rq {p}"
    by (rule request_fits_pruned)
  with Cons.IH [OF rest] show ?case by (simp add: request_fits_def)
qed

lemma can_grant_fits:
  assumes "can_grant E s rq now = (Inr True, s')"
  shows "request_fits s' (effective_request s' rq) (set (rq_pools rq))"
proof -
  have "effective_request s' rq = effective_request s rq"
    using engine_pruned_frame(6) [OF can_grant_pruned [OF assms]]
    by (simp add: effective_request_def already_debited_def split: option.split)
  with assms show ?thesis by (simp add: can_grant_def can_grant_loop_fits)
qed

section \<open>The effect of a grant on the pools\<close>

lemma fold_add_holder:
  "distinct ps \<Longrightarrow> fold (add_holder l) ps pools p =
     (if p \<in> set ps
      then map_option (\<lambda>st. st\<lparr>rp_holders := List.insert l (rp_holders st)\<rparr>) (pools p)
      else pools p)"
proof (induction ps arbitrary: pools)
  case Nil
  then show ?case by simp
next
  case (Cons q ps)
  then show ?case by (auto simp: add_holder_def split: option.splits)
qed

lemma fold_drop_holder:
  "distinct ps \<Longrightarrow> fold (drop_holder l) ps pools p =
     (if p \<in> set ps
      then map_option (\<lambda>st. st\<lparr>rp_holders := removeAll l (rp_holders st)\<rparr>) (pools p)
      else pools p)"
proof (induction ps arbitrary: pools)
  case Nil
  then show ?case by simp
next
  case (Cons q ps)
  then show ?case by (auto simp: drop_holder_def split: option.splits)
qed

lemma fold_push_debit:
  "fold push_debit ds pools p =
     map_option (\<lambda>st. st\<lparr>rp_debits := rp_debits st @ filter (\<lambda>d. bd_pool d = p) ds\<rparr>) (pools p)"
proof (induction ds arbitrary: pools)
  case Nil
  then show ?case by (simp add: option.map_ident)
next
  case (Cons d ds)
  then show ?case by (auto simp: push_debit_def option.map_comp comp_def split: option.splits)
qed

definition windowed_pool :: "LeaseEngine \<Rightarrow> string \<Rightarrow> bool" where
  "windowed_pool s p =
     (case en_pools s p of None \<Rightarrow> False | Some st \<Rightarrow> is_windowed (rp_config st))"

lemma windowed_pool_Some [simp]:
  "en_pools s p = Some st \<Longrightarrow> windowed_pool s p = is_windowed (rp_config st)"
  by (simp add: windowed_pool_def)

lemma grant_debits_eq:
  "grant_debits E s g now ps = Inr ds \<Longrightarrow>
     ds = (if already_debited s (gr_admission_key g) then []
           else map (debit_for E g now) (filter (windowed_pool s) ps))"
proof (induction ps arbitrary: ds)
  case Nil
  then show ?case by simp
next
  case (Cons p ps)
  from Cons.prems obtain st ds' where "en_pools s p = Some st"
    and ds': "grant_debits E s g now ps = Inr ds'"
    and "ds = (if \<not> already_debited s (gr_admission_key g) \<and> is_windowed (rp_config st)
               then debit_for E g now p # ds' else ds')"
    by (auto split: option.splits sum.splits)
  with Cons.IH [OF ds'] show ?case by simp
qed

lemma filter_debits_pool:
  assumes "distinct ps"
  shows "filter (\<lambda>d. bd_pool d = p) (map (debit_for E g now) (filter P ps)) =
           (if p \<in> set ps \<and> P p then [debit_for E g now p] else [])"
  using assms by (induction ps) (auto simp: debit_for_def)

text \<open>The pool \<open>p\<close> after the lease \<open>l\<close> was granted.\<close>

lemma grant_pool_effect:
  assumes "grant_debits E s g now (gr_pools g) = Inr ds" and "distinct (gr_pools g)"
    and "en_pools s p = Some st" and "p \<in> set (gr_pools g)"
  shows "en_pools (commit_grant s g ds) p =
           Some (st\<lparr>rp_holders := List.insert (gr_lease_id g) (rp_holders st),
                    rp_debits := rp_debits st @
                      (if \<not> already_debited s (gr_admission_key g) \<and> is_windowed (rp_config st)
                       then [debit_for E g now p] else [])\<rparr>)"
  using grant_debits_eq [OF assms(1)] assms(2-)
  by (simp add: commit_grant_def fold_push_debit fold_add_holder filter_debits_pool)

lemma grant_pool_other:
  assumes "grant_debits E s g now (gr_pools g) = Inr ds" and "distinct (gr_pools g)"
    and "p \<notin> set (gr_pools g)"
  shows "en_pools (commit_grant s g ds) p = en_pools s p"
  using grant_debits_eq [OF assms(1)] assms(2-)
  by (cases "en_pools s p")
    (simp_all add: commit_grant_def fold_push_debit fold_add_holder filter_debits_pool)

lemma held_grants_commit:
  "held_grants (commit_grant s g ds) = (held_grants s)(gr_lease_id g \<mapsto> g)"
  by (simp add: held_grants_def commit_grant_def update_conv' fun_eq_iff)

lemma commit_grant_frame [simp]:
  "en_epoch (commit_grant s g ds) = en_epoch s"
  "en_next_sequence (commit_grant s g ds) = en_next_sequence s"
  "en_pending (commit_grant s g ds) = en_pending s"
  "en_aging_threshold (commit_grant s g ds) = en_aging_threshold s"
  "en_events (commit_grant s g ds) = en_events s"
  by (simp_all add: commit_grant_def)

section \<open>A grant preserves the invariant\<close>

lemma commit_grant_events:
  "commit_grant (s\<lparr>en_events := x\<rparr>) g ds = (commit_grant s g ds)\<lparr>en_events := x\<rparr>"
  by (simp add: commit_grant_def split: option.split)

lemma grant_Inl: "grant E s l rq now = (Inl e, s') \<Longrightarrow> \<exists>x. s' = s\<lparr>en_events := x\<rparr>"
  by (auto simp: grant_def Let_def split: sum.splits prod.splits elim!: append_event_frame
      intro: exI [of _ "en_events s"])

lemma grant_Inr:
  assumes "grant E s l rq now = (Inr g, s')"
  obtains ds x where "g = make_grant E s l rq now"
    and "grant_debits E s g now (gr_pools g) = Inr ds"
    and "s' = (commit_grant s g ds)\<lparr>en_events := x\<rparr>"
  using assms
  by (auto simp: grant_def Let_def commit_grant_events split: sum.splits prod.splits
      elim!: append_event_frame)

lemma make_grant_simps [simp]:
  "gr_lease_id (make_grant E s l rq now) = l"
  "gr_pools (make_grant E s l rq now) = rq_pools rq"
  "gr_admission_key (make_grant E s l rq now) = rq_admission_key rq"
  "gr_consumption_estimate (make_grant E s l rq now) = rq_consumption_estimate rq"
  "gr_priority (make_grant E s l rq now) = rq_priority rq"
  "gr_epoch (make_grant E s l rq now) = en_epoch s"
  by (simp_all add: make_grant_def)

lemma estimate_of_effective:
  "estimate_of (effective_request s rq) =
     (if already_debited s (rq_admission_key rq) then 0 else estimate_of rq)"
  by (simp add: estimate_of_def effective_request_def)

lemma debit_amount [simp]:
  "unat (bd_amount (debit_for E (make_grant E s l rq now) t p)) = estimate_of rq"
  by (simp add: debit_for_def estimate_of_def)

text \<open>The granted pool stays within its limit, because the test left room for the grant.\<close>

lemma granted_pool_limits:
  assumes "pool_fits (effective_request s rq) st" and "l \<notin> set (rp_holders st)"
    and "g = make_grant E s l rq now"
  shows "within_limits (base p) (st\<lparr>rp_holders := List.insert l (rp_holders st),
                          rp_debits := rp_debits st @
                            (if \<not> already_debited s (gr_admission_key g) \<and> is_windowed (rp_config st)
                             then [debit_for E g now p] else [])\<rparr>)"
  using assms
  by (auto simp: within_limits_def pool_fits_def window_total_def estimate_of_effective
      split: PoolPredicate.splits if_splits)

lemma commit_grant_dom:
  assumes "grant_debits E s g now (gr_pools g) = Inr ds" and "distinct (gr_pools g)"
  shows "dom (en_pools (commit_grant s g ds)) = dom (en_pools s)"
proof -
  have "en_pools (commit_grant s g ds) p = None \<longleftrightarrow> en_pools s p = None" for p
    using assms by (cases "p \<in> set (gr_pools g)"; cases "en_pools s p")
      (simp_all add: commit_grant_def fold_push_debit fold_add_holder)
  then show ?thesis by (auto simp: dom_def)
qed

lemma commit_grant_pools_ok:
  assumes inv: "pools_ok base s" and g: "g = make_grant E s l rq now"
    and ds: "grant_debits E s g now (gr_pools g) = Inr ds"
    and d: "distinct (rq_pools rq)" and new: "held_grants s l = None"
    and fits: "request_fits s (effective_request s rq) (set (rq_pools rq))"
  shows "pools_ok base (commit_grant s g ds)"
  unfolding pools_ok_def
proof (intro allI impI)
  fix p st'
  assume st': "en_pools (commit_grant s g ds) p = Some st'"
  let ?H = "\<lambda>f. {k. \<exists>h. f k = Some h \<and> p \<in> set (gr_pools h)}"
  have hg: "held_grants (commit_grant s g ds) = (held_grants s)(l \<mapsto> g)"
    by (simp add: held_grants_commit g)
  have gp: "gr_pools g = rq_pools rq" by (simp add: g)
  show "distinct (rp_holders st') \<and> set (rp_holders st') = ?H (held_grants (commit_grant s g ds))
      \<and> within_limits (base p) st' \<and> mutex_shape (rp_config st')"
  proof (cases "p \<in> set (rq_pools rq)")
    case True
    then obtain st where st: "en_pools s p = Some st" and fit: "pool_fits (effective_request s rq) st"
      using fits by (auto simp: request_fits_def)
    with inv have ok: "distinct (rp_holders st)" "set (rp_holders st) = ?H (held_grants s)"
      "mutex_shape (rp_config st)" by (auto simp: pools_ok_def)
    have "l \<notin> set (rp_holders st)" using ok(2) new by simp
    moreover have eff: "st' = st\<lparr>rp_holders := List.insert l (rp_holders st),
        rp_debits := rp_debits st @
          (if \<not> already_debited s (gr_admission_key g) \<and> is_windowed (rp_config st)
           then [debit_for E g now p] else [])\<rparr>"
      using grant_pool_effect [OF ds _ st] st' True d by (simp add: g)
    ultimately have "within_limits (base p) st'"
      using granted_pool_limits [OF fit _ g] by simp
    moreover have "set (rp_holders st') = ?H (held_grants (commit_grant s g ds))"
      unfolding hg using ok(2) new True gp by (auto simp: eff)
    ultimately show ?thesis using ok by (simp add: eff)
  next
    case False
    then have "en_pools s p = Some st'"
      using grant_pool_other [OF ds, of p] st' d by (simp add: g)
    with inv have "distinct (rp_holders st') \<and> set (rp_holders st') = ?H (held_grants s)
        \<and> within_limits (base p) st' \<and> mutex_shape (rp_config st')" by (auto simp: pools_ok_def)
    moreover have "?H (held_grants (commit_grant s g ds)) = ?H (held_grants s)"
      unfolding hg using False new gp by auto
    ultimately show ?thesis by simp
  qed
qed

lemma commit_grant_inv:
  assumes inv: "engine_inv base s" and g: "g = make_grant E s l rq now"
    and ds: "grant_debits E s g now (gr_pools g) = Inr ds"
    and d: "distinct (rq_pools rq)" and new: "held_grants s l = None"
    and iss: "issued_ticket s l"
    and fits: "request_fits s (effective_request s rq) (set (rq_pools rq))"
    and ps: "distinct (map pd_ticket_id ps)" "pd_core ` set ps \<subseteq> pd_core ` set (en_pending s)"
      "l \<notin> pd_ticket_id ` set ps"
  shows "engine_inv base ((commit_grant s g ds)\<lparr>en_pending := ps\<rparr>)"
proof -
  let ?t = "(commit_grant s g ds)\<lparr>en_pending := ps\<rparr>"
  have hg: "held_grants ?t = (held_grants s)(l \<mapsto> g)"
    using held_grants_commit [of s g ds] held_grants_cong [of ?t "commit_grant s g ds"]
    by (simp add: g)
  have dm': "dom (en_pools (commit_grant s g ds)) = dom (en_pools s)"
    using commit_grant_dom [OF ds] d by (simp add: g)
  then have dm: "dom (en_pools ?t) = dom (en_pools s)" by simp
  have "pools_ok base (commit_grant s g ds)"
    using commit_grant_pools_ok [OF _ g ds d new fits] inv by (simp add: engine_inv_def)
  then have "pools_ok base ?t"
    using held_grants_cong [of ?t "commit_grant s g ds"] by (simp add: pools_ok_def)
  moreover have "grants_ok ?t"
  proof -
    have "distinct (map fst (en_held ?t))"
      using inv by (simp add: commit_grant_def distinct_update engine_inv_def grants_ok_def)
    moreover have "gr_lease_id h = k \<and> distinct (gr_pools h) \<and>
        set (gr_pools h) \<subseteq> dom (en_pools s) \<and> issued_ticket s k"
      if h: "((held_grants s)(l \<mapsto> g)) k = Some h" for k h
    proof (cases "k = l")
      case True
      with h have "h = make_grant E s l rq now" by (simp add: g)
      moreover have "set (rq_pools rq) \<subseteq> dom (en_pools s)"
        using fits by (auto simp: request_fits_def)
      ultimately show ?thesis using True d iss by simp
    next
      case False
      with h inv show ?thesis by (simp add: engine_inv_def grants_ok_def)
    qed
    moreover have "issued_ticket ?t = issued_ticket s"
      by (simp add: issued_ticket_def fun_eq_iff)
    ultimately show ?thesis unfolding grants_ok_def hg dm by simp
  qed
  moreover have "pending_ok ?t"
  proof -
    have "pending_core_ok ?t (pd_core p)" if "p \<in> set ps" for p
    proof -
      from that ps(2) have "pd_core p \<in> pd_core ` set (en_pending s)" by auto
      with inv have "pending_core_ok s (pd_core p)" by (auto simp: engine_inv_def pending_ok_def)
      moreover have "pd_ticket_id p \<noteq> l" using ps(3) that by auto
      ultimately show ?thesis by (auto simp: pending_core_ok_def pd_core_def hg dm')
    qed
    with ps(1) show ?thesis by (simp add: pending_ok_def)
  qed
  ultimately show ?thesis by (simp add: engine_inv_def)
qed

section \<open>Promotion preserves the invariant\<close>

lemma select_grantable_fits:
  "select_grantable E now i ps s = (Inr (Some j), s') \<Longrightarrow>
     request_fits s' (effective_request s' (pd_request (ps ! (j - i))))
       (set (rq_pools (pd_request (ps ! (j - i)))))"
proof (induction ps arbitrary: i s)
  case Nil
  then show ?case by simp
next
  case (Cons p ps)
  obtain r s1 where cg: "can_grant E s (pd_request p) now = (r, s1)" by fastforce
  show ?case
  proof (cases "r = Inr True")
    case True
    with Cons.prems cg show ?thesis using can_grant_fits by auto
  next
    case False
    with Cons.prems cg have sel: "select_grantable E now (Suc i) ps s1 = (Inr (Some j), s')"
      by (auto split: sum.splits bool.splits)
    then have "j - i = Suc (j - Suc i)" by (auto dest: select_grantable_bound)
    with Cons.IH [OF sel] show ?thesis by simp
  qed
qed

lemma pending_facts:
  assumes "engine_inv base s" and "i < length (en_pending s)"
  defines "p \<equiv> en_pending s ! i"
  shows "distinct (rq_pools (pd_request p))" and "held_grants s (pd_ticket_id p) = None"
    and "issued_ticket s (pd_ticket_id p)"
    and "set (rq_pools (pd_request p)) \<subseteq> dom (en_pools s)"
proof -
  have "p \<in> set (en_pending s)" using assms(2) by (simp add: p_def)
  with assms(1) have "pending_core_ok s (pd_core p)" by (simp add: engine_inv_def pending_ok_def)
  then show "distinct (rq_pools (pd_request p))" and "held_grants s (pd_ticket_id p) = None"
    and "issued_ticket s (pd_ticket_id p)"
    and "set (rq_pools (pd_request p)) \<subseteq> dom (en_pools s)"
    by (auto simp: pending_core_ok_def pd_core_def canonical_pools_def issued_ticket_def)
qed

text \<open>One round of the promotion loop: the scan, the grant, the removal of the ticket.\<close>

lemma promote_round_inv:
  assumes inv: "engine_inv base s"
    and sel: "select_grantable E now 0 (en_pending s) s = (Inr (Some i), s1)"
    and gr: "grant E s1 (pd_ticket_id (en_pending s1 ! i)) (pd_request (en_pending s1 ! i)) now
               = (Inr g, s2)"
  shows "engine_inv base (s2\<lparr>en_pending := remove_nth i (en_pending s2)\<rparr>)"
proof -
  note pr = select_grantable_pruned [OF sel]
  have inv1: "engine_inv base s1" using engine_inv_pruned [OF pr inv] .
  have pd: "en_pending s1 = en_pending s" using engine_pruned_frame(5) [OF pr] .
  have i: "i < length (en_pending s1)" using select_grantable_bound [OF sel] pd by simp
  let ?p = "en_pending s1 ! i"
  have fits: "request_fits s1 (effective_request s1 (pd_request ?p)) (set (rq_pools (pd_request ?p)))"
    using select_grantable_fits [OF sel] pd by simp
  from gr obtain ds x where g: "g = make_grant E s1 (pd_ticket_id ?p) (pd_request ?p) now"
    and ds: "grant_debits E s1 g now (gr_pools g) = Inr ds"
    and s2: "s2 = (commit_grant s1 g ds)\<lparr>en_events := x\<rparr>" by (rule grant_Inr)
  have dt: "distinct (map pd_ticket_id (en_pending s1))"
    using inv1 by (simp add: engine_inv_def pending_ok_def)
  have "engine_inv base ((commit_grant s1 g ds)\<lparr>en_pending := remove_nth i (en_pending s1)\<rparr>)"
    using pending_facts [OF inv1 i] fits distinct_remove_nth [OF dt i]
      set_remove_nth_subset [of i "en_pending s1"]
    by (intro commit_grant_inv [OF inv1 g ds]) auto
  then show ?thesis by (simp add: s2)
qed

lemma promote_loop_inv:
  "promote_loop E now s = (r, s') \<Longrightarrow> engine_inv base s \<Longrightarrow> engine_inv base s'"
proof (induction rule: promote_loop_cases)
  case (fail s e s1)
  then show ?case by (blast intro: engine_inv_pruned select_grantable_pruned)
next
  case (idle s s1)
  then show ?case by (blast intro: engine_inv_pruned select_grantable_pruned)
next
  case (refused s i s1 e s2)
  from grant_Inl [OF refused(2)] obtain x where "s2 = s1\<lparr>en_events := x\<rparr>" ..
  with refused(1,3) show ?case by (auto intro: engine_inv_pruned dest: select_grantable_pruned)
next
  case (round s i s1 g s2 r s3)
  then show ?case by (blast intro: promote_round_inv)
qed

lemma promote_inv: "promote E s now = (r, s') \<Longrightarrow> engine_inv base s \<Longrightarrow> engine_inv base s'"
  unfolding promote_def by (erule promote_loop_inv) (rule engine_inv_reorder)

section \<open>Release and preemption preserve the invariant\<close>

lemma held_grants_remove:
  "held_grants (remove_held s g) = (held_grants s)(gr_lease_id g := None)"
  by (simp add: held_grants_def remove_held_def delete_conv' fun_eq_iff)

lemma within_limits_drop:
  "within_limits (base p) st \<Longrightarrow> within_limits (base p) (st\<lparr>rp_holders := removeAll l (rp_holders st)\<rparr>)"
  by (auto simp: within_limits_def window_total_def split: PoolPredicate.splits
      intro: order_trans [OF length_removeAll_less_eq])

lemma remove_held_inv:
  assumes inv: "engine_inv base s" and h: "held_grants s l = Some g"
  shows "engine_inv base (remove_held s g)"
proof -
  let ?t = "remove_held s g"
  from inv h have gl: "gr_lease_id g = l" and d: "distinct (gr_pools g)"
    by (simp_all add: engine_inv_def grants_ok_def)
  have hg: "held_grants ?t = (held_grants s)(l := None)"
    by (simp add: held_grants_remove gl)
  have pl: "en_pools ?t p = (if p \<in> set (gr_pools g)
      then map_option (\<lambda>st. st\<lparr>rp_holders := removeAll l (rp_holders st)\<rparr>) (en_pools s p)
      else en_pools s p)" for p
    by (simp add: remove_held_def fold_drop_holder d gl)
  have "en_pools ?t p = None \<longleftrightarrow> en_pools s p = None" for p by (simp add: pl)
  then have dm: "dom (en_pools ?t) = dom (en_pools s)" by (auto simp: dom_def)
  have fr: "en_epoch ?t = en_epoch s" "en_next_sequence ?t = en_next_sequence s"
    "en_pending ?t = en_pending s" by (simp_all add: remove_held_def)
  have "pools_ok base ?t"
    unfolding pools_ok_def
  proof (intro allI impI)
    fix p st'
    assume st': "en_pools ?t p = Some st'"
    then obtain st where st: "en_pools s p = Some st" by (auto simp: pl split: if_splits)
    with inv have ok: "distinct (rp_holders st)"
      "set (rp_holders st) = {k. \<exists>h. held_grants s k = Some h \<and> p \<in> set (gr_pools h)}"
      "within_limits (base p) st" "mutex_shape (rp_config st)" by (auto simp: engine_inv_def pools_ok_def)
    show "distinct (rp_holders st') \<and>
        set (rp_holders st') = {k. \<exists>h. held_grants ?t k = Some h \<and> p \<in> set (gr_pools h)} \<and>
        within_limits (base p) st' \<and> mutex_shape (rp_config st')"
    proof (cases "p \<in> set (gr_pools g)")
      case True
      with st st' have "st' = st\<lparr>rp_holders := removeAll l (rp_holders st)\<rparr>" by (simp add: pl)
      with ok True show ?thesis
        unfolding hg by (auto simp: within_limits_drop distinct_removeAll)
    next
      case False
      with st st' ok h show ?thesis unfolding hg by (auto simp: pl)
    qed
  qed
  moreover have "grants_ok ?t"
  proof -
    have "distinct (map fst (en_held ?t))"
      using inv by (simp add: remove_held_def engine_inv_def grants_ok_def distinct_delete)
    with inv show ?thesis
      unfolding grants_ok_def hg dm issued_ticket_def fr engine_inv_def by auto
  qed
  moreover have "pending_core_ok ?t c" if "pending_core_ok s c" for c
    using that by (auto simp: pending_core_ok_def fr dm hg)
  then have "pending_ok ?t"
    using inv by (simp add: engine_inv_def pending_ok_def fr)
  ultimately show ?thesis by (simp add: engine_inv_def)
qed

lemma held_grants_Some:
  "map_of (en_held s) l = Some h \<Longrightarrow> held_grants s l = Some (hl_grant h)"
  by (simp add: held_grants_def)

lemma promote_and_reconcile_inv:
  "promote_and_reconcile E s now = (r, s') \<Longrightarrow> engine_inv base s \<Longrightarrow> engine_inv base s'"
  by (auto simp: promote_and_reconcile_def split: prod.splits sum.splits
      dest: promote_inv engine_inv_reconcile)

lemma release_at_inv:
  "release_at E s l epoch now = (r, s') \<Longrightarrow> engine_inv base s \<Longrightarrow> engine_inv base s'"
  by (auto simp: release_at_def append_event_not_grant split: option.splits prod.splits sum.splits
      dest!: held_grants_Some dest: promote_and_reconcile_inv remove_held_inv)

lemma preempt_all_inv:
  "preempt_all E now ls s = (r, s') \<Longrightarrow> engine_inv base s \<Longrightarrow> engine_inv base s'"
proof (induction ls arbitrary: s r)
  case Nil
  then show ?case by simp
next
  case (Cons l ls)
  then show ?case
    by (auto simp: append_event_not_grant split: option.splits prod.splits sum.splits if_splits
        dest!: held_grants_Some dest: remove_held_inv)
qed

lemma commit_preemptions_inv:
  "commit_preemptions E s ls now = (r, s') \<Longrightarrow> engine_inv base s \<Longrightarrow> engine_inv base s'"
  by (auto simp: commit_preemptions_def split: prod.splits sum.splits
      dest: engine_inv_reconcile preempt_all_inv promote_and_reconcile_inv)

lemma plan_tick_inv: "plan_tick E s now = (r, s') \<Longrightarrow> engine_inv base s \<Longrightarrow> engine_inv base s'"
  by (auto simp: plan_tick_def split: prod.splits sum.splits dest: engine_inv_reconcile)

lemma tick_inv: "tick E s now = (r, s') \<Longrightarrow> engine_inv base s \<Longrightarrow> engine_inv base s'"
  by (auto simp: tick_def split: prod.splits sum.splits
      dest: plan_tick_inv commit_preemptions_inv)

lemma cancel_pending_inv:
  assumes "cancel_pending_at s t epoch = (r, s')" and inv: "engine_inv base s"
  shows "engine_inv base s'"
proof (cases "\<exists>i. check_epoch s epoch = None \<and>
    position (\<lambda>p. pd_ticket_id p = t) (en_pending s) = Some i")
  case True
  then obtain i where i: "check_epoch s epoch = None"
    "position (\<lambda>p. pd_ticket_id p = t) (en_pending s) = Some i" by blast
  let ?u = "s\<lparr>en_pending := remove_nth i (en_pending s)\<rparr>"
  have "i < length (en_pending s)" using position_Some [OF i(2)] by simp
  then have "engine_inv base ?u"
    using inv set_remove_nth_subset [of i "en_pending s"]
    by (intro engine_inv_pending image_mono)
      (auto simp: engine_inv_def pending_ok_def intro: distinct_remove_nth(1))
  moreover have "s' = ?u\<lparr>en_held := map (\<lambda>(l, h). (l, h\<lparr>hl_yield_demands :=
      AList.delete t (hl_yield_demands h)\<rparr>)) (en_held ?u)\<rparr>"
    using assms(1) i by (simp add: cancel_pending_at_def)
  ultimately show ?thesis by (simp only: engine_inv_demands)
next
  case False
  with assms show ?thesis by (auto simp: cancel_pending_at_def split: option.splits)
qed

section \<open>Admission preserves the invariant\<close>

lemma validate_pools_None:
  "validate_pools s rq ps = None \<Longrightarrow>
     \<forall>p \<in> set ps. is_campaign_pool_name p \<or> p \<in> dom (en_pools s)"
  by (induction ps) (auto split: option.splits if_splits)

lemma canonicalize_request_Inr:
  assumes "canonicalize_request s request = Inr rq"
  shows "canonical_pools (rq_pools rq)"
    and "\<forall>p \<in> set (rq_pools rq). is_campaign_pool_name p \<or> p \<in> dom (en_pools s)"
    and "rq = request\<lparr>rq_pools := rq_pools rq\<rparr>"
  using assms
  by (auto simp: canonicalize_request_def validate_request_def Let_def
      split: sum.splits option.splits if_splits
      dest: canonicalize_canonical dest!: validate_pools_None)

lemma open_campaign_pools_inv:
  assumes inv: "engine_inv base s"
  shows "engine_inv base (open_campaign_pools ps s)"
proof -
  let ?t = "open_campaign_pools ps s"
  have fr: "en_epoch ?t = en_epoch s" "en_next_sequence ?t = en_next_sequence s"
    "en_pending ?t = en_pending s" "en_held ?t = en_held s" by (simp_all add: open_campaign_pools_def)
  have hg: "held_grants ?t = held_grants s" using fr by (intro held_grants_cong)
  have dm: "dom (en_pools s) \<subseteq> dom (en_pools ?t)" by (auto simp: open_campaign_pools_def)
  have "pools_ok base ?t"
    unfolding pools_ok_def hg
  proof (intro allI impI)
    fix p st
    assume st: "en_pools ?t p = Some st"
    let ?ok = "\<lambda>st. distinct (rp_holders st) \<and>
        set (rp_holders st) = {l. \<exists>g. held_grants s l = Some g \<and> p \<in> set (gr_pools g)} \<and>
        within_limits (base p) st \<and> mutex_shape (rp_config st)"
    show "?ok st"
    proof (cases "en_pools s p")
      case None
      with st have "st = new_runtime_pool campaign_mutex_config"
        by (auto simp: open_campaign_pools_def split: if_splits)
      moreover have "\<nexists>l g. held_grants s l = Some g \<and> p \<in> set (gr_pools g)"
        using inv None by (auto simp: engine_inv_def grants_ok_def)
      ultimately show ?thesis by (auto simp: within_limits_def mutex_shape_def)
    next
      case (Some st0)
      with st have "st0 = st" by (simp add: open_campaign_pools_def)
      with Some inv show ?thesis by (auto simp: engine_inv_def pools_ok_def)
    qed
  qed
  moreover have "grants_ok ?t"
    using inv dm unfolding grants_ok_def hg issued_ticket_def fr engine_inv_def by blast
  moreover have "pending_core_ok ?t c" if "pending_core_ok s c" for c
    using that subset_trans [OF _ dm] by (simp add: pending_core_ok_def fr hg split: prod.splits)
  then have "pending_ok ?t" using inv by (simp add: engine_inv_def pending_ok_def fr)
  ultimately show ?thesis by (simp add: engine_inv_def)
qed

lemma next_sequence_inv:
  assumes inv: "engine_inv base s" and "unat n = unat (en_next_sequence s) + 1"
  shows "engine_inv base (s\<lparr>en_next_sequence := n\<rparr>)"
proof -
  let ?t = "s\<lparr>en_next_sequence := n\<rparr>"
  have hg: "held_grants ?t = held_grants s" by (rule held_grants_cong) simp
  have "issued_ticket s l \<Longrightarrow> issued_ticket ?t l" for l
    using assms(2) by (fastforce simp: issued_ticket_def)
  moreover have "pending_core_ok s c \<Longrightarrow> pending_core_ok ?t c" for c
    using assms(2) by (auto simp: pending_core_ok_def hg)
  ultimately show ?thesis
    using inv by (auto simp: engine_inv_def grants_ok_def pools_ok_def pending_ok_def hg)
qed

text \<open>The ticket of the next sequence number is unused.\<close>

lemma fresh_ticket:
  assumes "engine_inv base s"
  shows "held_grants s (lease_ticket (en_epoch s) (en_next_sequence s)) = None"
    and "lease_ticket (en_epoch s) (en_next_sequence s) \<notin> pd_ticket_id ` set (en_pending s)"
proof -
  show "held_grants s (lease_ticket (en_epoch s) (en_next_sequence s)) = None"
  proof (rule ccontr)
    assume "\<not> ?thesis"
    with assms have "issued_ticket s (lease_ticket (en_epoch s) (en_next_sequence s))"
      by (auto simp: engine_inv_def grants_ok_def)
    then show False by (auto simp: issued_ticket_def)
  qed
  show "lease_ticket (en_epoch s) (en_next_sequence s) \<notin> pd_ticket_id ` set (en_pending s)"
    using assms by (fastforce simp: engine_inv_def pending_ok_def pending_core_ok_def pd_core_def)
qed

lemma enqueue_pending_inv:
  assumes eq: "enqueue_pending E s p now = (r, s')" and inv: "engine_inv base s"
    and core: "pending_core_ok s (pd_core p)"
    and new: "pd_ticket_id p \<notin> pd_ticket_id ` set (en_pending s)"
  shows "engine_inv base s'"
proof -
  let ?a = "s\<lparr>en_pending := en_pending s @ [p]\<rparr>"
  have hg: "held_grants ?a = held_grants s" by (rule held_grants_cong) simp
  have "pending_core_ok ?a c = pending_core_ok s c" for c
    by (simp add: pending_core_ok_def hg)
  then have "engine_inv base ?a"
    using inv core new
    by (simp add: engine_inv_def grants_ok_def pools_ok_def pending_ok_def issued_ticket_def hg)
  then have inv1: "engine_inv base (s\<lparr>en_pending := sort_pending (en_pending s @ [p]) now
      (en_aging_threshold s)\<rparr>)" (is "engine_inv base ?b")
    using engine_inv_pending [of base ?a "en_pending ?b"]
    by (simp add: srt.reorder_set srt.reorder_distinct_tickets engine_inv_def pending_ok_def)
  obtain r1 s2 where rec: "reconcile_yield_demands E ?b now = (r1, s2)" by fastforce
  have inv2: "engine_inv base s2" using engine_inv_reconcile [OF rec inv1] .
  moreover have "engine_inv base (s2\<lparr>en_pending := filter P (en_pending s2)\<rparr>)" for P
    using inv2 by (intro engine_inv_pending)
      (auto simp: engine_inv_def pending_ok_def distinct_map_filter)
  ultimately show ?thesis
    using eq rec by (auto simp: enqueue_pending_def Let_def split: sum.splits option.splits)
qed

lemma grant_fresh_inv:
  assumes gr: "grant E s t rq now = (r, s')" and inv: "engine_inv base s"
    and rq: "canonical_pools (rq_pools rq)"
      "request_fits s (effective_request s rq) (set (rq_pools rq))"
    and fresh: "held_grants s t = None" "t \<notin> pd_ticket_id ` set (en_pending s)" "issued_ticket s t"
  shows "engine_inv base s'"
proof (cases r)
  case (Inl e)
  with gr grant_Inl obtain x where "s' = s\<lparr>en_events := x\<rparr>" by blast
  with inv show ?thesis by simp
next
  case (Inr g)
  with gr have "grant E s t rq now = (Inr g, s')" by simp
  then obtain ds x where g: "g = make_grant E s t rq now"
    and ds: "grant_debits E s g now (gr_pools g) = Inr ds"
    and s': "s' = (commit_grant s g ds)\<lparr>en_events := x\<rparr>" by (rule grant_Inr)
  have "engine_inv base ((commit_grant s g ds)\<lparr>en_pending := en_pending s\<rparr>)"
    using rq fresh inv by (intro commit_grant_inv [OF inv g ds])
      (simp_all add: canonical_pools_def engine_inv_def pending_ok_def)
  moreover have "(commit_grant s g ds)\<lparr>en_pending := en_pending s\<rparr> = commit_grant s g ds"
    by (simp add: commit_grant_def)
  ultimately show ?thesis using s' by simp
qed

text \<open>Admission once the request is canonical and its sequence number is taken.\<close>

lemma admit_canonical_inv:
  fixes s1 :: LeaseEngine and rq :: LeaseRequest and n :: u64
  defines "s2 \<equiv> s1\<lparr>en_next_sequence := n\<rparr>"
    and "t \<equiv> lease_ticket (en_epoch s1) (en_next_sequence s1)"
  assumes inv1: "engine_inv base s1" and n: "unat n = unat (en_next_sequence s1) + 1"
    and rq: "canonical_pools (rq_pools rq)" "set (rq_pools rq) \<subseteq> dom (en_pools s1)"
    and cg: "can_grant E s2 rq now = (r3, s3)"
  shows "engine_inv base s3"
    and "r3 = Inr True \<Longrightarrow> grant E s3 t rq now = (r4, s4) \<Longrightarrow> engine_inv base s4"
    and "enqueue_pending E s3 \<lparr>pd_ticket_id = t, pd_sequence = en_next_sequence s1,
           pd_admitted_at = now, pd_effective_rank = rk, pd_request = rq\<rparr> now = (r5, s4)
         \<Longrightarrow> engine_inv base s4"
proof -
  have inv2: "engine_inv base s2" unfolding s2_def using inv1 n by (rule next_sequence_inv)
  note pr = can_grant_pruned [OF cg]
  have fr3: "en_epoch s3 = en_epoch s1" "en_next_sequence s3 = n" "en_held s3 = en_held s1"
    "en_pending s3 = en_pending s1"
    using engine_pruned_frame [OF pr] by (simp_all add: s2_def)
  show inv3: "engine_inv base s3" using engine_inv_pruned [OF pr inv2] .
  have fresh: "held_grants s3 t = None" "t \<notin> pd_ticket_id ` set (en_pending s3)"
    using fresh_ticket [OF inv1] fr3 held_grants_cong [of s3 s1] by (simp_all add: t_def)
  have iss: "issued_ticket s3 t" using n fr3 by (auto simp: issued_ticket_def t_def)
  show "r3 = Inr True \<Longrightarrow> grant E s3 t rq now = (r4, s4) \<Longrightarrow> engine_inv base s4"
    using grant_fresh_inv [OF _ inv3 rq(1)] can_grant_fits cg fresh iss by blast
  have "pending_core_ok s3 (t, en_next_sequence s1, now, rq)"
    using rq engine_pruned_dom [OF pr] fresh(1) fr3 n
    by (simp add: pending_core_ok_def s2_def t_def)
  then show "enqueue_pending E s3 \<lparr>pd_ticket_id = t, pd_sequence = en_next_sequence s1,
           pd_admitted_at = now, pd_effective_rank = rk, pd_request = rq\<rparr> now = (r5, s4)
         \<Longrightarrow> engine_inv base s4"
    using fresh(2) by (auto simp: pd_core_def intro: enqueue_pending_inv [OF _ inv3])
qed

lemma admit_at_inv:
  assumes eq: "admit_at E s request now = (r, s')" and inv: "engine_inv base s"
  shows "engine_inv base s'"
proof (cases "canonicalize_request s request")
  case (Inl e)
  with eq inv show ?thesis by (simp add: admit_at_def)
next
  case (Inr rq)
  note cr = canonicalize_request_Inr [OF Inr]
  let ?s1 = "open_campaign_pools (rq_pools rq) s"
  have inv1: "engine_inv base ?s1" using inv by (rule open_campaign_pools_inv)
  have dom1: "set (rq_pools rq) \<subseteq> dom (en_pools ?s1)"
    using cr(2) by (auto simp: open_campaign_pools_def dom_def)
  show ?thesis
  proof (cases "checked_add (en_next_sequence ?s1) 1")
    case None
    with eq Inr inv1 show ?thesis by (simp add: admit_at_def Let_def)
  next
    case (Some n)
    then have n: "unat n = unat (en_next_sequence ?s1) + 1" by (simp add: checked_simps)
    obtain r3 s3 where cg: "can_grant E (?s1\<lparr>en_next_sequence := n\<rparr>) rq now = (r3, s3)"
      by fastforce
    note step = admit_canonical_inv [OF inv1 n cr(1) dom1 cg]
    from eq Inr Some cg step(1) show ?thesis
      by (auto simp: admit_at_def Let_def split: sum.splits bool.splits prod.splits
          intro: step(2) step(3))
  qed
qed

lemma heartbeat_inv:
  "heartbeat E act s l epoch now = (r, s') \<Longrightarrow> engine_inv base s \<Longrightarrow> engine_inv base s'"
  by (auto simp: heartbeat_def split: sum.splits option.splits if_splits bool.splits prod.splits
      dest: release_at_inv)

lemma prune_pool_inv:
  assumes "en_pools s p = Some st" and "prune_debits E st now = (r, st')" and "engine_inv base s"
  shows "engine_inv base (set_pool s p st')"
proof -
  have "pool_pruned st st'" using prune_debits_frame [OF assms(2)] by (simp add: pool_pruned_def)
  with assms show ?thesis by (blast intro: engine_inv_pruned engine_pruned_set_pool)
qed

lemma budget_used_inv:
  "budget_used_at E s p now = (r, s') \<Longrightarrow> engine_inv base s \<Longrightarrow> engine_inv base s'"
  by (auto simp: budget_used_at_def split: option.splits if_splits prod.splits sum.splits
      intro: prune_pool_inv)

lemma window_reset_inv:
  "window_reset_at E s p now = (r, s') \<Longrightarrow> engine_inv base s \<Longrightarrow> engine_inv base s'"
  by (auto simp: window_reset_at_def split: option.splits if_splits prod.splits sum.splits
      PoolPredicate.splits list.splits intro: prune_pool_inv)

section \<open>The engine as a transition system\<close>

inductive engine_step :: "LeaseEnv \<Rightarrow> LeaseEngine \<Rightarrow> LeaseEngine \<Rightarrow> bool" for E where
  step_admit: "admit_at E s request now = (r, s') \<Longrightarrow> engine_step E s s'"
| step_release: "release_at E s lease_id epoch now = (r, s') \<Longrightarrow> engine_step E s s'"
| step_cancel: "cancel_pending_at s ticket_id epoch = (r, s') \<Longrightarrow> engine_step E s s'"
| step_plan_tick: "plan_tick E s now = (r, s') \<Longrightarrow> engine_step E s s'"
| step_commit: "commit_preemptions E s reclaimed now = (r, s') \<Longrightarrow> engine_step E s s'"
| step_tick: "tick E s now = (r, s') \<Longrightarrow> engine_step E s s'"
| step_budget: "budget_used_at E s pool now = (r, s') \<Longrightarrow> engine_step E s s'"
| step_reset: "window_reset_at E s pool now = (r, s') \<Longrightarrow> engine_step E s s'"
| step_heartbeat: "heartbeat E is_active s lease_id epoch now = (r, s') \<Longrightarrow> engine_step E s s'"

text \<open>
  An engine starts empty, or with the consumption windows a restart reads from the event log.
\<close>

definition new_engine :: "LeaseEngine \<Rightarrow> bool" where
  "new_engine s \<longleftrightarrow>
     (\<exists>epoch grace threshold pools events.
        new_with_aging_threshold epoch grace threshold pools events = Inr s)"

definition fresh_engine :: "LeaseEnv \<Rightarrow> LeaseEngine \<Rightarrow> bool" where
  "fresh_engine E s \<longleftrightarrow>
     new_engine s \<or>
     (\<exists>epoch grace threshold pools lg witness_records now.
        from_durable_with_aging_threshold E epoch grace threshold pools lg witness_records now = Inr s)"

text \<open>What the window of a pool accounts for in an engine.\<close>

definition window_load :: "LeaseEngine \<Rightarrow> string \<Rightarrow> nat" where
  "window_load s p = (case en_pools s p of None \<Rightarrow> 0 | Some st \<Rightarrow> window_total st)"

lemma check_pools_shape:
  "check_pools pools = Inr checked \<Longrightarrow> map_of checked p = Some c \<Longrightarrow>
     pc_capacity c \<noteq> 0 \<and> mutex_shape c \<and>
     (starts_with p CAMPAIGN_POOL_PREFIX \<longrightarrow> is_campaign_pool_name p \<and> c = campaign_mutex_config)"
proof (induction pools arbitrary: checked)
  case Nil
  then show ?case by simp
next
  case (Cons nc rest)
  obtain name config where nc: "nc = (name, config)" by fastforce
  from Cons.prems obtain cs cfg where rest: "check_pools rest = Inr cs"
    and checked: "checked = (name, cfg) # cs"
    and cfg: "pc_capacity cfg \<noteq> 0 \<and> mutex_shape cfg \<and>
      (starts_with name CAMPAIGN_POOL_PREFIX \<longrightarrow>
         is_campaign_pool_name name \<and> cfg = campaign_mutex_config)"
    by (auto simp: nc Let_def mutex_shape_def split: if_splits sum.splits)
  show ?case
  proof (cases "p = name")
    case True
    with cfg checked Cons.prems(2) show ?thesis by simp
  next
    case False
    with Cons.prems checked have "map_of cs p = Some c" by simp
    with rest show ?thesis by (rule Cons.IH)
  qed
qed

lemma new_engine_shape:
  assumes "new_with_aging_threshold epoch grace threshold pools events = Inr s"
  shows "en_held s = []" and "en_pending s = []"
    and "en_pools s p = Some st \<Longrightarrow> rp_holders st = [] \<and> rp_debits st = [] \<and> mutex_shape (rp_config st)"
  using assms check_pools_shape
  by (auto simp: new_with_aging_threshold_def split: if_splits sum.splits)

lemma install_debits_pool:
  assumes "fold install_debits pds pools p = Some st'"
  shows "\<exists>st. pools p = Some st \<and> rp_holders st' = rp_holders st \<and> rp_config st' = rp_config st"
  using assms
proof (induction pds arbitrary: pools)
  case Nil
  then show ?case by simp
next
  case (Cons pd pds)
  then obtain st where "install_debits pd pools p = Some st"
    "rp_holders st' = rp_holders st" "rp_config st' = rp_config st" by fastforce
  then show ?case
    by (cases pd) (auto simp: install_debits_def split: option.splits if_splits)
qed

lemma from_durable_Inr:
  assumes "from_durable_with_aging_threshold E epoch grace threshold pools lg n now = Inr s"
  obtains s1 d x where "new_engine s1"
    "s = s1\<lparr>en_pools := fold install_debits d (en_pools s1), en_debited := x\<rparr>"
proof -
  obtain evs where "log_read (log_lines lg) = Inr evs"
    using assms by (auto simp: from_durable_with_aging_threshold_def split: sum.splits)
  moreover obtain rebuilt where "rebuild_window_usage E (logged_campaign_pools evs pools) lg n now = Inr rebuilt"
    using assms calculation by (auto simp: from_durable_with_aging_threshold_def Let_def split: sum.splits)
  moreover obtain s1 where new: "new_with_aging_threshold epoch grace threshold
      (logged_campaign_pools evs pools) (Some lg) = Inr s1"
    using assms calculation by (auto simp: from_durable_with_aging_threshold_def Let_def split: sum.splits)
  ultimately have "s = s1\<lparr>en_pools := fold install_debits (ws_debits rebuilt) (en_pools s1),
      en_debited := ws_debited rebuilt\<rparr>"
    using assms by (simp add: from_durable_with_aging_threshold_def)
  moreover have "new_engine s1" using new unfolding new_engine_def by blast
  ultimately show thesis using that by blast
qed

lemma fresh_engine_shape:
  assumes "fresh_engine E s"
  shows "en_held s = []" and "en_pending s = []"
    and "en_pools s p = Some st \<Longrightarrow> rp_holders st = [] \<and> mutex_shape (rp_config st)"
proof -
  from assms consider (new) "new_engine s"
    | (restart) s1 d x where "new_engine s1"
        "s = s1\<lparr>en_pools := fold install_debits d (en_pools s1), en_debited := x\<rparr>"
    unfolding fresh_engine_def using from_durable_Inr by metis
  then have "en_held s = [] \<and> en_pending s = [] \<and>
      (en_pools s p = Some st \<longrightarrow> rp_holders st = [] \<and> mutex_shape (rp_config st))"
  proof cases
    case new
    then show ?thesis unfolding new_engine_def using new_engine_shape by blast
  next
    case restart
    then show ?thesis unfolding new_engine_def
      using new_engine_shape install_debits_pool by fastforce
  qed
  then show "en_held s = []" and "en_pending s = []"
    and "en_pools s p = Some st \<Longrightarrow> rp_holders st = [] \<and> mutex_shape (rp_config st)" by auto
qed

lemma fresh_engine_inv:
  assumes "fresh_engine E s"
  shows "engine_inv (window_load s) s"
proof -
  note shape = fresh_engine_shape [OF assms]
  have hg: "held_grants s l = None" for l by (simp add: held_grants_def shape)
  have "pools_ok (window_load s) s"
    using shape(3)
    by (auto simp: pools_ok_def hg within_limits_def window_load_def split: PoolPredicate.splits)
  then show ?thesis by (simp add: engine_inv_def grants_ok_def pending_ok_def shape hg)
qed

text \<open>What an engine accounts for at one moment bounds what it accounts for later.\<close>

lemma engine_inv_rebase: "engine_inv base s \<Longrightarrow> engine_inv (window_load s) s"
  by (fastforce simp: engine_inv_def pools_ok_def within_limits_def window_load_def
      split: PoolPredicate.splits)

lemma engine_step_inv: "engine_inv base s \<Longrightarrow> engine_step E s s' \<Longrightarrow> engine_inv base s'"
  by (erule engine_step.cases)
    (auto intro: admit_at_inv release_at_inv cancel_pending_inv plan_tick_inv
      commit_preemptions_inv tick_inv budget_used_inv window_reset_inv heartbeat_inv)

interpretation eng: invariant_system "fresh_engine E" "engine_step E" "\<lambda>s. \<exists>base. engine_inv base s" for E
  by unfold_locales (auto intro: fresh_engine_inv engine_step_inv)

lemma run_inv:
  "reachable (\<lambda>x. x = t) (engine_step E) s \<Longrightarrow> engine_inv base t \<Longrightarrow> engine_inv base s"
  by (induction rule: reachable.induct) (auto intro: engine_step_inv)

section \<open>Safety of every reachable engine\<close>

text \<open>The leases that name a pool, and their number.\<close>

definition leases_on :: "LeaseEngine \<Rightarrow> string \<Rightarrow> string set" where
  "leases_on s p = {l. \<exists>g. held_grants s l = Some g \<and> p \<in> set (gr_pools g)}"

lemma card_leases_on:
  assumes "engine_inv base s" and "en_pools s p = Some st"
  shows "card (leases_on s p) = length (rp_holders st)"
proof -
  from assms have "distinct (rp_holders st)" and "set (rp_holders st) = leases_on s p"
    by (auto simp: engine_inv_def pools_ok_def leases_on_def)
  then show ?thesis using distinct_card by force
qed

text \<open>
  C1. No operation sequence, including any combination of failing appends and error returns,
  overcommits a pool, from a new engine or from one rebuilt from the event log: in every reachable
  engine \<open>s\<close> the holder sets are exactly the leases it holds, a co-residency pool has at most
  \<open>capacity\<close> leases and a mutex pool at most one. A consumption window of an engine that started
  empty accounts for at most \<open>consumptionCap\<close>; in general it never grows past the cap: it accounts
  for at most the larger of the cap and what it accounted for at any earlier moment \<open>t\<close>. (A log may
  hold more than the cap, for instance when an append was written but reported as not synced: the
  engine discards that grant, a restart counts it.)
\<close>

theorem lease_limits_safe:
  assumes "reachable (fresh_engine E) (engine_step E) t"
    and "reachable (\<lambda>x. x = t) (engine_step E) s" and "en_pools s p = Some st"
  shows "set (rp_holders st) = leases_on s p \<and>
         (pc_predicate (rp_config st) = CoResidency \<longrightarrow>
            card (leases_on s p) \<le> unat (pc_capacity (rp_config st))) \<and>
         (pool_resource (rp_config st) = Mutex \<longrightarrow> card (leases_on s p) \<le> 1) \<and>
         (\<forall>w. pc_predicate (rp_config st) = WindowedConsumption w \<longrightarrow>
            window_total st \<le> max (unat (consumption_cap w)) (window_load t p) \<and>
            (new_engine t \<longrightarrow> window_total st \<le> unat (consumption_cap w)))"
proof -
  obtain base where "engine_inv base t" using eng.reachable_invar [OF assms(1)] by blast
  then have inv: "engine_inv (window_load t) s" using run_inv [OF assms(2)] engine_inv_rebase by blast
  with assms(3) have "set (rp_holders st) = leases_on s p"
    and lim: "within_limits (window_load t p) st" and mut: "mutex_shape (rp_config st)"
    by (auto simp: engine_inv_def pools_ok_def leases_on_def)
  moreover have "window_load t p = 0" if "new_engine t"
    using that new_engine_shape(3) [of _ _ _ _ _ t p]
    by (auto simp: new_engine_def window_load_def window_total_def split: option.splits)
  moreover note card_leases_on [OF inv assms(3)]
  ultimately show ?thesis by (auto simp: within_limits_def mutex_shape_def)
qed

lemma sample_engine_fresh: "new_engine sample_engine"
proof -
  let ?n = "new_with_aging_threshold 1 20 3600 sample_pools (Some \<lparr>log_lines = [], log_attempts = 0\<rparr>)"
  have "check_pools sample_pools = Inr sample_pools" by code_simp
  then have "?n = Inr sample_engine"
    by (simp add: sample_engine_def new_with_aging_threshold_def)
  then show ?thesis unfolding new_engine_def by blast
qed

lemma sample_admitted_step: "engine_step sample_env sample_engine sample_admitted"
  unfolding sample_admitted_def by (rule step_admit) (rule surjective_pairing)

lemma sample_engine_reachable: "reachable (fresh_engine sample_env) (engine_step sample_env) sample_engine"
  using sample_engine_fresh by (auto simp: fresh_engine_def intro: reach_init)

lemma sample_admitted_reachable:
  "reachable (fresh_engine sample_env) (engine_step sample_env) sample_admitted"
  by (rule reach_step [OF sample_engine_reachable sample_admitted_step])

lemma sample_waiting_reachable: "reachable (fresh_engine sample_env) (engine_step sample_env) sample_waiting"
  unfolding sample_waiting_run [symmetric]
  by (intro reachable.intros(2) [OF reachable.intros(2) [OF sample_admitted_reachable]])
    (rule step_admit, rule surjective_pairing)+

lemma sample_contended_reachable:
  "reachable (fresh_engine sample_env) (engine_step sample_env) sample_contended"
  unfolding sample_contended_run [symmetric]
  by (rule reachable.intros(2) [OF sample_admitted_reachable], rule step_admit,
      rule surjective_pairing)

lemma sample_admitted_pool:
  "map_option (\<lambda>st. (rp_holders st, window_total st, rp_config st))
     (en_pools sample_admitted ''budget'')
   = Some ([''lease-1-1''], 40, snd (hd sample_pools))"
  by code_simp

theorem lease_limits_safe_witness:
  "\<exists>st. en_pools sample_admitted ''budget'' = Some st \<and> window_total st = 40 \<and>
     window_total st \<le> unat (consumption_cap \<lparr>window_sec = 60, consumption_cap = 100\<rparr>)"
proof -
  from sample_admitted_pool obtain st where st: "en_pools sample_admitted ''budget'' = Some st"
    "window_total st = 40" "rp_config st = snd (hd sample_pools)" by auto
  moreover have "pc_predicate (rp_config st)
      = WindowedConsumption \<lparr>window_sec = 60, consumption_cap = 100\<rparr>"
    by (simp add: st(3) sample_pools_def)
  moreover have "reachable (\<lambda>x. x = sample_engine) (engine_step sample_env) sample_admitted"
    using sample_admitted_step by (auto intro: reachable.intros)
  ultimately show ?thesis
    using lease_limits_safe [OF sample_engine_reachable _ st(1)] sample_engine_fresh by blast
qed

end
