(* ===== verification/Lease_Promote.thy ===== *)
theory Lease_Promote
  imports Lease_Safety
begin

text \<open>
  What promotion achieves: an abstract greedy scheduler over pool accounts, which
  \<open>LeaseEngine::promote\<close> refines, and the conservation of tickets by every operation.
\<close>

section \<open>Pools settled at an instant\<close>

text \<open>
  The engine prunes a window only when it tests it.  The settled pools are those it would
  have after pruning all of them; every answer of the engine depends on them only.
\<close>

definition settle_pool :: "LeaseEnv \<Rightarrow> int \<Rightarrow> RuntimePool \<Rightarrow> RuntimePool" where
  "settle_pool E now st = snd (prune_debits E st now)"

definition settle :: "LeaseEnv \<Rightarrow> int \<Rightarrow> LeaseEngine \<Rightarrow> string \<rightharpoonup> RuntimePool" where
  "settle E now s p = map_option (settle_pool E now) (en_pools s p)"

lemma settle_frame [simp]:
  "settle E now (s\<lparr>en_pending := q\<rparr>) = settle E now s"
  "settle E now (s\<lparr>en_events := evs\<rparr>) = settle E now s"
  "settle E now (s\<lparr>en_held := hs\<rparr>) = settle E now s"
  by (simp_all add: settle_def fun_eq_iff)

lemma prune_loop_again:
  "prune_loop E w now ds = (r, ds') \<Longrightarrow> prune_loop E w now ds' = (r, ds')"
  by (induction ds) (auto split: sum.splits if_splits)

lemma prune_debits_again:
  "prune_debits E st now = (r, st') \<Longrightarrow> prune_debits E st' now = (r, st')"
  by (auto simp: prune_debits_def split: PoolPredicate.splits sum.splits prod.splits
      dest: prune_loop_again)

lemma settle_pool_idem [simp]:
  "settle_pool E now (settle_pool E now st) = settle_pool E now st"
  by (metis prune_debits_again prod.collapse settle_pool_def)

lemma settle_pool_config [simp]: "rp_config (settle_pool E now st) = rp_config st"
  by (metis prune_debits_frame(1) prod.collapse settle_pool_def)

lemma settle_pool_holders [simp]: "rp_holders (settle_pool E now st) = rp_holders st"
  by (metis prune_debits_frame(2) prod.collapse settle_pool_def)

lemma prune_debits_settled:
  "prune_debits E (settle_pool E now st) now = (fst (prune_debits E st now), settle_pool E now st)"
  by (metis prune_debits_again prod.collapse settle_pool_def)

lemma pool_allows_settled:
  "fst (pool_allows E p (settle_pool E now st) rq now) = fst (pool_allows E p st rq now)"
proof (cases "pc_predicate (rp_config st)")
  case CoResidency
  then show ?thesis by (simp add: pool_allows_coresident)
next
  case (WindowedConsumption w)
  obtain r st' where st': "prune_debits E st now = (r, st')" by fastforce
  with WindowedConsumption prune_debits_settled [of E now st] show ?thesis
    by (auto simp: pool_allows_def settle_pool_def Let_def split: sum.splits option.splits
        dest: prune_debits_frame(1))
qed

lemma pool_allows_state:
  "pool_allows E p st rq now = (r, st') \<Longrightarrow> st' = settle_pool E now st"
  by (auto simp: pool_allows_def settle_pool_def prune_debits_def Let_def
      split: PoolPredicate.splits prod.splits sum.splits option.splits)

lemma settle_set_pool:
  "en_pools s p = Some st \<Longrightarrow> settle E now (set_pool s p (settle_pool E now st)) = settle E now s"
  by (auto simp: settle_def set_pool_def)

lemma can_grant_loop_settle:
  "can_grant_loop E rq now ps s = (r, s') \<Longrightarrow> settle E now s' = settle E now s"
proof (induction ps arbitrary: s)
  case Nil
  then show ?case by simp
next
  case (Cons p ps)
  from Cons.prems show ?case
    by (auto split: option.splits prod.splits sum.splits bool.splits
        dest!: Cons.IH pool_allows_state simp: settle_set_pool)
qed

lemma can_grant_loop_cong:
  "settle E now s = settle E now t \<Longrightarrow>
     fst (can_grant_loop E rq now ps s) = fst (can_grant_loop E rq now ps t)"
proof (induction ps arbitrary: s t)
  case Nil
  then show ?case by simp
next
  case (Cons p ps)
  have st: "settle E now s p = settle E now t p" using Cons.prems by simp
  show ?case
  proof (cases "en_pools s p")
    case None
    with st show ?thesis by (simp add: settle_def)
  next
    case (Some a)
    with st obtain b where b: "en_pools t p = Some b" "settle_pool E now a = settle_pool E now b"
      by (cases "en_pools t p") (auto simp: settle_def)
    obtain r a' where a': "pool_allows E p a rq now = (r, a')" by fastforce
    with b(2) pool_allows_settled [of E p now a rq] pool_allows_settled [of E p now b rq]
    obtain b' where b': "pool_allows E p b rq now = (r, b')" by (metis fst_conv prod.collapse)
    have "settle E now (set_pool s p a') = settle E now (set_pool t p b')"
      using Cons.prems settle_set_pool [OF Some] settle_set_pool [OF b(1)]
        pool_allows_state [OF a'] pool_allows_state [OF b'] by simp
    then have "fst (can_grant_loop E rq now ps (set_pool s p a'))
        = fst (can_grant_loop E rq now ps (set_pool t p b'))" by (rule Cons.IH)
    with Some b a' b' show ?thesis by (auto split: sum.splits bool.splits)
  qed
qed

text \<open>What a test of a request reads of the engine.\<close>

definition same_accounts :: "LeaseEnv \<Rightarrow> int \<Rightarrow> LeaseEngine \<Rightarrow> LeaseEngine \<Rightarrow> bool" where
  "same_accounts E now s t \<longleftrightarrow>
     settle E now s = settle E now t \<and> en_debited s = en_debited t"

lemma same_accounts_refl [simp]: "same_accounts E now s s"
  by (simp add: same_accounts_def)

lemma same_accounts_sym: "same_accounts E now s t \<Longrightarrow> same_accounts E now t s"
  by (simp add: same_accounts_def)

lemma same_accounts_trans [trans]:
  "same_accounts E now s t \<Longrightarrow> same_accounts E now t u \<Longrightarrow> same_accounts E now s u"
  by (simp add: same_accounts_def)

lemma can_grant_same:
  "can_grant E s rq now = (r, s') \<Longrightarrow> same_accounts E now s' s"
  using can_grant_pruned [THEN engine_pruned_frame(6)]
  by (auto simp: same_accounts_def can_grant_def dest: can_grant_loop_settle)

lemma effective_request_same:
  "same_accounts E now s t \<Longrightarrow> effective_request s rq = effective_request t rq"
  by (simp add: same_accounts_def effective_request_def already_debited_def split: option.split)

lemma can_grant_cong:
  assumes "same_accounts E now s t"
  shows "fst (can_grant E s rq now) = fst (can_grant E t rq now)"
  using can_grant_loop_cong [of E now s t "effective_request t rq" "rq_pools rq"] assms
    effective_request_same [OF assms]
  by (simp add: can_grant_def same_accounts_def)

lemma select_grantable_same:
  "select_grantable E now i ps s = (r, s') \<Longrightarrow> same_accounts E now s' s"
proof (induction ps arbitrary: i s)
  case Nil
  then show ?case by simp
next
  case (Cons p ps)
  obtain r1 s1 where cg: "can_grant E s (pd_request p) now = (r1, s1)" by fastforce
  with Cons.prems consider "s' = s1" | "select_grantable E now (Suc i) ps s1 = (r, s')"
    by (auto split: sum.splits bool.splits)
  then show ?case
    using can_grant_same [OF cg] Cons.IH same_accounts_trans by cases blast+
qed

text \<open>The scan finds the first request that can be granted.\<close>

lemma select_grantable_first:
  "select_grantable E now i ps s = (Inr res, s') \<Longrightarrow>
     res = map_option ((+) i) (position (\<lambda>p. fst (can_grant E s (pd_request p) now) = Inr True) ps)
     \<and> (\<forall>j < (case res of None \<Rightarrow> length ps | Some k \<Rightarrow> k - i).
          fst (can_grant E s (pd_request (ps ! j)) now) = Inr False)"
proof (induction ps arbitrary: i s)
  case Nil
  then show ?case by simp
next
  case (Cons p ps)
  obtain r s1 where cg: "can_grant E s (pd_request p) now = (r, s1)" by fastforce
  show ?case
  proof (cases "r = Inr True")
    case True
    with Cons.prems cg show ?thesis by auto
  next
    case False
    with Cons.prems cg have r: "r = Inr False"
      and sel: "select_grantable E now (Suc i) ps s1 = (Inr res, s')"
      by (auto split: sum.splits bool.splits)
    have same: "fst (can_grant E s1 rq now) = fst (can_grant E s rq now)" for rq
      by (rule can_grant_cong) (rule can_grant_same [OF cg])
    show ?thesis
      using Cons.IH [OF sel] cg r
      by (auto simp: same option.map_comp comp_def nth_Cons split: option.splits nat.splits)
  qed
qed

section \<open>The greedy scheduler\<close>

text \<open>
  The accounts of the pools: a co-residency pool counts leases against its capacity, a
  consumption window counts the debits still inside it against its cap.
\<close>

record pool_account =
  ac_windowed :: bool
  ac_limit :: nat
  ac_used :: nat

record books =
  bk_accounts :: "string \<rightharpoonup> pool_account"
  bk_debited :: "string set"

definition key_debited :: "books \<Rightarrow> LeaseRequest \<Rightarrow> bool" where
  "key_debited b rq =
     (case rq_admission_key rq of None \<Rightarrow> False | Some k \<Rightarrow> k \<in> bk_debited b)"

definition charge :: "books \<Rightarrow> LeaseRequest \<Rightarrow> pool_account \<Rightarrow> nat" where
  "charge b rq a =
     (if \<not> ac_windowed a then 1 else if key_debited b rq then 0 else estimate_of rq)"

definition affordable :: "books \<Rightarrow> LeaseRequest \<Rightarrow> bool" where
  "affordable b rq =
     list_all (\<lambda>p. case bk_accounts b p of
                     None \<Rightarrow> False
                   | Some a \<Rightarrow> ac_used a + charge b rq a \<le> ac_limit a) (rq_pools rq)"

definition charges_window :: "books \<Rightarrow> LeaseRequest \<Rightarrow> bool" where
  "charges_window b rq =
     list_ex (\<lambda>p. case bk_accounts b p of None \<Rightarrow> False | Some a \<Rightarrow> ac_windowed a) (rq_pools rq)"

definition book_grant :: "books \<Rightarrow> LeaseRequest \<Rightarrow> books" where
  "book_grant b rq =
     \<lparr>bk_accounts = (\<lambda>p. if p \<in> set (rq_pools rq)
                         then map_option (\<lambda>a. a\<lparr>ac_used := ac_used a + charge b rq a\<rparr>)
                                (bk_accounts b p)
                         else bk_accounts b p),
      bk_debited = (if charges_window b rq
                    then (case rq_admission_key rq of
                            None \<Rightarrow> bk_debited b | Some k \<Rightarrow> insert k (bk_debited b))
                    else bk_debited b)\<rparr>"

text \<open>Serve the first affordable request of the queue, then start over.\<close>

function greedy ::
  "books \<Rightarrow> PendingRequest list \<Rightarrow> string list \<times> books \<times> PendingRequest list" where
  "greedy b q =
     (case position (\<lambda>p. affordable b (pd_request p)) q of
        None \<Rightarrow> ([], b, q)
      | Some i \<Rightarrow>
          (case greedy (book_grant b (pd_request (q ! i))) (remove_nth i q) of
             (served, b', q') \<Rightarrow> (pd_ticket_id (q ! i) # served, b', q')))"
  by pat_completeness auto
termination
  by (relation "measure (\<lambda>(b, q). length q)") (auto dest!: position_Some)

declare greedy.simps [simp del]

definition account_of :: "RuntimePool \<Rightarrow> pool_account" where
  "account_of st =
     (case pc_predicate (rp_config st) of
        CoResidency \<Rightarrow> \<lparr>ac_windowed = False, ac_limit = unat (pc_capacity (rp_config st)),
                        ac_used = length (rp_holders st)\<rparr>
      | WindowedConsumption w \<Rightarrow> \<lparr>ac_windowed = True, ac_limit = unat (consumption_cap w),
                                  ac_used = window_total st\<rparr>)"

definition books_of :: "LeaseEnv \<Rightarrow> int \<Rightarrow> LeaseEngine \<Rightarrow> books" where
  "books_of E now s =
     \<lparr>bk_accounts = (\<lambda>p. map_option account_of (settle E now s p)), bk_debited = en_debited s\<rparr>"

lemma books_of_same: "same_accounts E now s t \<Longrightarrow> books_of E now s = books_of E now t"
  by (simp add: books_of_def same_accounts_def)

lemma ac_windowed_account [simp]: "ac_windowed (account_of st) = is_windowed (rp_config st)"
  by (simp add: account_of_def split: PoolPredicate.split)

section \<open>Testing a request is testing the books\<close>

lemma pool_allows_decides:
  assumes "pool_allows E p st rq now = (Inr b, st')"
  shows "b = pool_fits rq (settle_pool E now st)"
proof (cases "pc_predicate (rp_config st)")
  case CoResidency
  with assms show ?thesis by (auto simp: pool_allows_coresident pool_fits_def)
next
  case (WindowedConsumption w)
  have st': "settle_pool E now st = st'" using pool_allows_state [OF assms] ..
  then have "pc_predicate (rp_config st') = WindowedConsumption w"
    using WindowedConsumption settle_pool_config [of E now st] by simp
  moreover have "unat (consumption_cap w) < 2 ^ 64" using unsigned_less [of "consumption_cap w"] by simp
  moreover obtain used where "unat used = window_total st'"
    and "b = (case checked_add used (case rq_consumption_estimate rq of None \<Rightarrow> 0 | Some e \<Rightarrow> e) of
                None \<Rightarrow> False | Some tot \<Rightarrow> tot \<le> consumption_cap w)"
    using assms WindowedConsumption
    by (auto simp: pool_allows_def Let_def window_used_Some
        split: sum.splits prod.splits option.splits)
  ultimately show ?thesis
    by (auto simp: st' pool_fits_def estimate_of_def checked_simps word_le_nat_alt
        split: option.splits)
qed

lemma can_grant_loop_decides:
  "can_grant_loop E rq now ps s = (Inr b, s') \<Longrightarrow>
     b = (\<forall>p \<in> set ps. \<exists>st. settle E now s p = Some st \<and> pool_fits rq st)"
proof (induction ps arbitrary: s)
  case Nil
  then show ?case by simp
next
  case (Cons p ps)
  from Cons.prems obtain st b1 st' where st: "en_pools s p = Some st"
    and al: "pool_allows E p st rq now = (Inr b1, st')"
    and rest: "if b1 then can_grant_loop E rq now ps (set_pool s p st') = (Inr b, s') else \<not> b"
    by (auto split: option.splits prod.splits sum.splits bool.splits)
  have "settle E now (set_pool s p st') = settle E now s"
    using settle_set_pool [OF st] pool_allows_state [OF al] by simp
  moreover have "b1 = (\<exists>st. settle E now s p = Some st \<and> pool_fits rq st)"
    using pool_allows_decides [OF al] st by (simp add: settle_def)
  ultimately show ?case using Cons.IH [of "set_pool s p st'"] rest by (auto split: if_splits)
qed

lemma pool_fits_account:
  assumes "bk_debited b = en_debited s"
  shows "pool_fits (effective_request s rq) st \<longleftrightarrow>
           ac_used (account_of st) + charge b rq (account_of st) \<le> ac_limit (account_of st)"
proof -
  have "key_debited b rq = already_debited s (rq_admission_key rq)"
    using assms by (simp add: key_debited_def already_debited_def split: option.split)
  then show ?thesis
    by (auto simp: pool_fits_def account_of_def charge_def estimate_of_effective
        split: PoolPredicate.splits)
qed

lemma can_grant_decides:
  assumes "can_grant E s rq now = (Inr b, s')"
  shows "b = affordable (books_of E now s) rq"
proof -
  have "b = (\<forall>p \<in> set (rq_pools rq). \<exists>st. settle E now s p = Some st \<and>
      pool_fits (effective_request s rq) st)"
    using assms by (simp add: can_grant_def can_grant_loop_decides)
  also have "\<dots> = affordable (books_of E now s) rq"
    using pool_fits_account [of "books_of E now s" s rq]
    by (auto simp: affordable_def list_all_iff books_of_def split: option.splits)
  finally show ?thesis .
qed

text \<open>A test only replaces pools by their settled form, and a passed test settles all its pools.\<close>

lemma can_grant_loop_pools:
  "can_grant_loop E rq now ps s = (r, s') \<Longrightarrow> en_pools s' p \<in> {en_pools s p, settle E now s p}"
proof (induction ps arbitrary: s)
  case Nil
  then show ?case by simp
next
  case (Cons q ps)
  show ?case
  proof (cases "en_pools s q")
    case None
    with Cons.prems show ?thesis by simp
  next
    case (Some st)
    obtain r1 st1 where al: "pool_allows E q st rq now = (r1, st1)" by fastforce
    let ?s1 = "set_pool s q (settle_pool E now st)"
    have "s' = ?s1 \<or> can_grant_loop E rq now ps ?s1 = (r, s')"
      using Cons.prems Some al pool_allows_state [OF al] by (auto split: sum.splits bool.splits)
    then have "en_pools s' p \<in> {en_pools ?s1 p, settle E now s p}"
      using Cons.IH [of ?s1] settle_set_pool [OF Some] by auto
    moreover have "en_pools ?s1 p \<in> {en_pools s p, settle E now s p}"
      using Some by (simp add: set_pool_def settle_def)
    ultimately show ?thesis by auto
  qed
qed

lemma can_grant_loop_settled:
  "can_grant_loop E rq now ps s = (Inr True, s') \<Longrightarrow> p \<in> set ps \<Longrightarrow>
     en_pools s' p = settle E now s' p"
proof (induction ps arbitrary: s)
  case Nil
  then show ?case by simp
next
  case (Cons q ps)
  from Cons.prems(1) obtain st where st: "en_pools s q = Some st"
    and rest: "can_grant_loop E rq now ps (set_pool s q (settle_pool E now st)) = (Inr True, s')"
    by (auto split: option.splits prod.splits sum.splits bool.splits dest: pool_allows_state)
  show ?case
  proof (cases "p \<in> set ps")
    case True
    with rest show ?thesis by (rule Cons.IH)
  next
    case False
    with Cons.prems(2) have "p = q" by simp
    then show ?thesis
      using can_grant_loop_pools [OF rest, of p] can_grant_loop_settle [OF rest] st
      by (auto simp: settle_def set_pool_def)
  qed
qed

lemma select_grantable_settled:
  "select_grantable E now i ps s = (Inr (Some j), s') \<Longrightarrow>
     p \<in> set (rq_pools (pd_request (ps ! (j - i)))) \<Longrightarrow> en_pools s' p = settle E now s' p"
proof (induction ps arbitrary: i s)
  case Nil
  then show ?case by simp
next
  case (Cons q ps)
  obtain r s1 where cg: "can_grant E s (pd_request q) now = (r, s1)" by fastforce
  show ?case
  proof (cases "r = Inr True")
    case True
    with Cons.prems cg show ?thesis
      using can_grant_loop_settled by (auto simp: can_grant_def)
  next
    case False
    with Cons.prems cg have sel: "select_grantable E now (Suc i) ps s1 = (Inr (Some j), s')"
      by (auto split: sum.splits bool.splits)
    then have "j - i = Suc (j - Suc i)" by (auto dest: select_grantable_bound)
    with Cons.IH [OF sel] Cons.prems(2) show ?thesis by simp
  qed
qed

section \<open>A grant books its charges\<close>

text \<open>A debit made now is inside its window, unless the window has length zero.\<close>

definition windows_positive :: "LeaseEngine \<Rightarrow> bool" where
  "windows_positive s \<longleftrightarrow>
     (\<forall>p st w. en_pools s p = Some st \<longrightarrow>
        pc_predicate (rp_config st) = WindowedConsumption w \<longrightarrow> window_sec w \<noteq> 0)"

lemma fresh_debit_live:
  assumes "chrono_laws E" and "window_sec w \<noteq> 0" and "window_delta E w = Inr d"
    and "debit_expiry E d (debit_for E g now p) = Inr x"
  shows "now < x"
proof -
  have "d = int (unat (window_sec w)) * 1000000000"
    using assms(1,3) by (auto simp: window_delta_def chrono_laws_def split: if_splits option.splits)
  moreover have "0 < unat (window_sec w)" using assms(2) by (simp add: unat_gt_0)
  ultimately have "1000000000 \<le> d" by linarith
  moreover have "x = millis now + d"
    using assms(1,4) unfolding debit_expiry_def debit_for_def chrono_laws_def
    by (auto split: option.splits)
  moreover have "now - 1000000 < millis now"
    unfolding millis_def using pos_mod_bound [of 1000000 now] by simp
  ultimately show ?thesis by simp
qed

lemma prune_loop_stable_push:
  assumes "prune_loop E d now ds = (r, ds)"
    and "\<And>x. debit_expiry E d b = Inr x \<Longrightarrow> now < x"
  shows "snd (prune_loop E d now (ds @ [b])) = ds @ [b]"
proof (cases ds)
  case Nil
  then show ?thesis using assms(2) by (force split: sum.splits)
next
  case (Cons a ds')
  have "prune_loop E d now ds' \<noteq> (r, a # ds')"
  proof
    assume "prune_loop E d now ds' = (r, a # ds')"
    from prune_loop_suffix [OF this] show False by (metis append_Cons length_append
      length_Cons add_Suc_right not_add_less2 lessI)
  qed
  with assms(1) Cons show ?thesis by (auto split: sum.splits if_splits)
qed

lemma settle_pool_push:
  assumes "chrono_laws E" and "settle_pool E now st = st"
    and "pc_predicate (rp_config st) = WindowedConsumption w" and "window_sec w \<noteq> 0"
  shows "settle_pool E now (st\<lparr>rp_holders := H, rp_debits := rp_debits st @ [debit_for E g now p]\<rparr>)
           = st\<lparr>rp_holders := H, rp_debits := rp_debits st @ [debit_for E g now p]\<rparr>"
proof (cases "window_delta E w")
  case (Inl e)
  with assms(3) show ?thesis by (simp add: settle_pool_def prune_debits_def)
next
  case (Inr d)
  obtain r ds where pl: "prune_loop E d now (rp_debits st) = (r, ds)" by fastforce
  with assms(2,3) Inr have "st\<lparr>rp_debits := ds\<rparr> = st"
    by (simp add: settle_pool_def prune_debits_def)
  then have "ds = rp_debits st" by (metis RuntimePool.select_convs(3) RuntimePool.surjective
      RuntimePool.update_convs(3))
  with pl have "snd (prune_loop E d now (rp_debits st @ [debit_for E g now p]))
      = rp_debits st @ [debit_for E g now p]"
    by (intro prune_loop_stable_push [of _ _ _ _ r])
      (auto intro: fresh_debit_live [OF assms(1,4) Inr])
  with assms(3) Inr show ?thesis
    by (auto simp: settle_pool_def prune_debits_def split: prod.splits)
qed

lemma settle_pool_other:
  assumes "settle_pool E now st = st"
  shows "settle_pool E now (st\<lparr>rp_holders := H\<rparr>) = st\<lparr>rp_holders := H\<rparr>"
  using assms
  by (auto simp: settle_pool_def prune_debits_def split: PoolPredicate.splits sum.splits prod.splits)
    (metis RuntimePool.select_convs(3) RuntimePool.surjective RuntimePool.update_convs(2,3))

lemma granted_account:
  assumes "chrono_laws E" and "settle_pool E now st = st" and "l \<notin> set (rp_holders st)"
    and "\<And>w. pc_predicate (rp_config st) = WindowedConsumption w \<Longrightarrow> window_sec w \<noteq> 0"
    and "bk_debited b = en_debited s"
  shows "account_of (settle_pool E now
           (st\<lparr>rp_holders := List.insert l (rp_holders st),
               rp_debits := rp_debits st @
                 (if \<not> already_debited s (rq_admission_key rq) \<and> is_windowed (rp_config st)
                  then [debit_for E (make_grant E s l rq now) now p] else [])\<rparr>))
         = (account_of st)\<lparr>ac_used := ac_used (account_of st) + charge b rq (account_of st)\<rparr>"
proof -
  have key: "key_debited b rq = already_debited s (rq_admission_key rq)"
    using assms(5) by (simp add: key_debited_def already_debited_def split: option.split)
  show ?thesis
  proof (cases "pc_predicate (rp_config st)")
    case CoResidency
    with settle_pool_other [OF assms(2)] assms(3) show ?thesis
      by (simp add: account_of_def charge_def)
  next
    case (WindowedConsumption w)
    show ?thesis
    proof (cases "already_debited s (rq_admission_key rq)")
      case True
      with WindowedConsumption settle_pool_other [OF assms(2)] show ?thesis
        by (simp add: account_of_def charge_def key window_total_def)
    next
      case False
      with WindowedConsumption show ?thesis
        using settle_pool_push [OF assms(1,2) WindowedConsumption assms(4)]
        by (simp add: account_of_def charge_def key window_total_def)
    qed
  qed
qed

lemma grant_debits_dom: "grant_debits E s g now ps = Inr ds \<Longrightarrow> set ps \<subseteq> dom (en_pools s)"
  by (induction ps arbitrary: ds) (auto split: option.splits sum.splits)

lemma grant_debited:
  assumes "grant_debits E s (make_grant E s l rq now) now (rq_pools rq) = Inr ds"
  shows "en_debited (commit_grant s (make_grant E s l rq now) ds)
           = bk_debited (book_grant (books_of E now s) rq)"
proof -
  have "charges_window (books_of E now s) rq \<longleftrightarrow> filter (windowed_pool s) (rq_pools rq) \<noteq> []"
    by (auto simp: charges_window_def books_of_def settle_def windowed_pool_def list_ex_iff
        filter_empty_conv split: option.splits)
  then show ?thesis
    using grant_debits_eq [OF assms]
    by (auto simp: commit_grant_def book_grant_def books_of_def already_debited_def
        split: option.splits if_splits)
qed

lemma grant_books:
  assumes laws: "chrono_laws E" "windows_positive s" and inv: "engine_inv base s"
    and gr: "grant E s l rq now = (Inr g, s2)"
    and d: "distinct (rq_pools rq)" and new: "held_grants s l = None"
    and settled: "\<And>p. p \<in> set (rq_pools rq) \<Longrightarrow> en_pools s p = settle E now s p"
  shows "books_of E now s2 = book_grant (books_of E now s) rq"
proof -
  from gr obtain ds x where g: "g = make_grant E s l rq now"
    and ds: "grant_debits E s g now (gr_pools g) = Inr ds"
    and s2: "s2 = (commit_grant s g ds)\<lparr>en_events := x\<rparr>" by (rule grant_Inr)
  let ?b = "books_of E now s"
  have "bk_accounts (books_of E now s2) p = bk_accounts (book_grant ?b rq) p" for p
  proof (cases "p \<in> set (rq_pools rq)")
    case False
    with grant_pool_other [OF ds] d g s2 show ?thesis
      by (simp add: books_of_def book_grant_def settle_def)
  next
    case True
    with grant_debits_dom [OF ds] g obtain st where st: "en_pools s p = Some st" by auto
    with settled [OF True] have fx: "settle_pool E now st = st" by (simp add: settle_def)
    have "l \<notin> set (rp_holders st)"
      using inv st new by (auto simp: engine_inv_def pools_ok_def)
    moreover have "pc_predicate (rp_config st) = WindowedConsumption w \<Longrightarrow> window_sec w \<noteq> 0" for w
      using laws(2) st by (auto simp: windows_positive_def)
    ultimately have acc: "account_of (settle_pool E now (the (en_pools s2 p)))
        = (account_of st)\<lparr>ac_used := ac_used (account_of st) + charge ?b rq (account_of st)\<rparr>"
      using granted_account [OF laws(1) fx, of l ?b s rq p] grant_pool_effect [OF ds _ st] True d
      unfolding g s2 by (simp add: books_of_def)
    moreover obtain st' where "en_pools s2 p = Some st'"
      using grant_pool_effect [OF ds _ st] True d unfolding g s2 by simp
    ultimately show ?thesis
      using True by (simp add: books_of_def book_grant_def settle_def st fx)
  qed
  then have "bk_accounts (books_of E now s2) = bk_accounts (book_grant ?b rq)" by (rule ext)
  moreover have "bk_debited (books_of E now s2) = bk_debited (book_grant ?b rq)"
    using grant_debited [of E s l rq now ds] ds g by (simp add: books_of_def s2)
  ultimately show ?thesis by (rule books.equality) simp
qed

section \<open>Promotion is the greedy scheduler\<close>

lemma windows_positive_pruned:
  assumes "engine_pruned s s'" and "windows_positive s"
  shows "windows_positive s'"
  unfolding windows_positive_def
proof (intro allI impI)
  fix p st' w
  assume st': "en_pools s' p = Some st'" "pc_predicate (rp_config st') = WindowedConsumption w"
  from engine_pruned_pool [OF assms(1) st'(1)] obtain st where "en_pools s p = Some st"
    and "pool_pruned st st'" by blast
  with st' assms(2) show "window_sec w \<noteq> 0"
    by (auto simp: windows_positive_def pool_pruned_def)
qed

lemma windows_positive_grant:
  assumes "grant E s l rq now = (Inr g, s2)" and "windows_positive s" and "distinct (rq_pools rq)"
  shows "windows_positive s2"
proof -
  from assms(1) obtain ds x where g: "g = make_grant E s l rq now"
    and ds: "grant_debits E s g now (gr_pools g) = Inr ds"
    and s2: "s2 = (commit_grant s g ds)\<lparr>en_events := x\<rparr>" by (rule grant_Inr)
  have "\<exists>st. en_pools s p = Some st \<and> rp_config st = rp_config st'"
    if "en_pools s2 p = Some st'" for p st'
  proof (cases "p \<in> set (rq_pools rq)")
    case True
    with grant_debits_dom [OF ds] g obtain st where "en_pools s p = Some st" by auto
    with True that show ?thesis
      using grant_pool_effect [OF ds] assms(3) by (auto simp: g s2)
  next
    case False
    with that show ?thesis using grant_pool_other [OF ds] assms(3) by (auto simp: g s2)
  qed
  with assms(2) show ?thesis unfolding windows_positive_def by metis
qed

lemma can_grant_decides_fst:
  "fst (can_grant E s rq now) = Inr b \<Longrightarrow> affordable (books_of E now s) rq = b"
  using can_grant_decides by (metis prod.collapse)

lemma select_grantable_books:
  assumes "select_grantable E now 0 ps s = (Inr res, s')"
  shows "position (\<lambda>p. affordable (books_of E now s) (pd_request p)) ps = res"
proof (cases res)
  case None
  with select_grantable_first [OF assms]
  have "\<forall>j < length ps. fst (can_grant E s (pd_request (ps ! j)) now) = Inr False" by simp
  then show ?thesis
    by (auto simp: None position_None in_set_conv_nth dest!: can_grant_decides_fst)
next
  case (Some i)
  have id: "map_option ((+) (0::nat)) x = x" for x by (cases x) auto
  from Some select_grantable_first [OF assms]
  have "position (\<lambda>p. fst (can_grant E s (pd_request p) now) = Inr True) ps = Some i"
    and before: "\<forall>j < i. fst (can_grant E s (pd_request (ps ! j)) now) = Inr False"
    by (auto simp: id)
  then have "i < length ps" and "affordable (books_of E now s) (pd_request (ps ! i))"
    by (auto dest!: position_Some can_grant_decides_fst)
  moreover have "\<forall>j < i. \<not> affordable (books_of E now s) (pd_request (ps ! j))"
    using before by (auto dest!: can_grant_decides_fst)
  ultimately show ?thesis by (simp add: Some position_SomeI)
qed

lemma promote_loop_greedy:
  assumes "promote_loop E now s = (r, s')" and "r = Inr gs" and "chrono_laws E"
    and "engine_inv base s" and "windows_positive s"
  shows "greedy (books_of E now s) (en_pending s)
           = (map gr_lease_id gs, books_of E now s', en_pending s')"
  using assms
proof (induction arbitrary: gs rule: promote_loop_cases)
  case (fail s e s1)
  then show ?case by simp
next
  case (idle s s1)
  have "books_of E now s1 = books_of E now s"
    by (rule books_of_same) (rule select_grantable_same [OF idle(1)])
  moreover have "en_pending s1 = en_pending s"
    using select_grantable_pruned [OF idle(1)] by (rule engine_pruned_frame)
  ultimately show ?case
    using idle(2) select_grantable_books [OF idle(1)]
    by (simp add: greedy.simps [of _ "en_pending s"])
next
  case (refused s i s1 e s2)
  then show ?case by simp
next
  case (round s i s1 g s2 r s3)
  note pr = select_grantable_pruned [OF round(1)]
  let ?p = "en_pending s ! i" and ?t = "s2\<lparr>en_pending := remove_nth i (en_pending s2)\<rparr>"
  from round(4) obtain gs' where r: "r = Inr gs'" and gs: "gs = g # gs'" by (cases r) auto
  have pd: "en_pending s1 = en_pending s" "en_pending s2 = en_pending s"
    using engine_pruned_frame(5) [OF pr] grant_pending [OF round(2)] by simp_all
  have i: "i < length (en_pending s1)" using select_grantable_bound [OF round(1)] pd by simp
  have inv1: "engine_inv base s1" using engine_inv_pruned [OF pr] round(6) .
  note facts = pending_facts [OF inv1 i] and gr = round(2) [unfolded pd(1)]
  have wp1: "windows_positive s1" using windows_positive_pruned [OF pr] round(7) .
  have "books_of E now s2 = book_grant (books_of E now s1) (pd_request ?p)"
    using facts round(5) wp1 inv1 pd gr select_grantable_settled [OF round(1)]
    by (intro grant_books) auto
  also have "books_of E now s1 = books_of E now s"
    by (rule books_of_same) (rule select_grantable_same [OF round(1)])
  also have "books_of E now s2 = books_of E now ?t" by (simp add: books_of_def settle_def)
  finally have bk: "books_of E now ?t = book_grant (books_of E now s) (pd_request ?p)" .
  have "windows_positive ?t"
    using windows_positive_grant [OF gr wp1] facts(1) pd by (simp add: windows_positive_def)
  with round(3) [OF r round(5) promote_round_inv [OF round(6,1,2)]]
  have "greedy (book_grant (books_of E now s) (pd_request ?p)) (remove_nth i (en_pending s))
      = (map gr_lease_id gs', books_of E now s3, en_pending s3)" unfolding bk by (simp add: pd)
  moreover have "gr_lease_id g = pd_ticket_id ?p"
    using gr by (auto elim!: grant_Inr)
  ultimately show ?case
    using select_grantable_books [OF round(1)] by (simp add: greedy.simps [of _ "en_pending s"] gs)
qed

lemma greedy_done:
  "greedy b q = (served, b', q') \<Longrightarrow> p \<in> set q' \<Longrightarrow> \<not> affordable b' (pd_request p)"
proof (induction b q arbitrary: served rule: greedy.induct)
  case (1 b q)
  show ?case
  proof (cases "position (\<lambda>p. affordable b (pd_request p)) q")
    case None
    with "1.prems" show ?thesis by (auto simp: greedy.simps [of b q] position_None)
  next
    case (Some i)
    with "1.prems"(1) obtain ts where "greedy (book_grant b (pd_request (q ! i))) (remove_nth i q)
        = (ts, b', q')" by (auto simp: greedy.simps [of b q] split: prod.splits)
    then show ?thesis using "1.IH" [OF Some] "1.prems"(2) by blast
  qed
qed

section \<open>The queue and the books after a reconciliation\<close>

lemma refresh_aged_order_id:
  "\<forall>p \<in> set ps. pd_effective_rank p = effective_rank_at p now th \<Longrightarrow>
     refresh_aged_order ps now th = ps"
  by (auto simp: refresh_aged_order_def list_ex_iff)

lemma refresh_aged_order_fresh:
  "p \<in> set (refresh_aged_order ps now th) \<Longrightarrow> pd_effective_rank p = effective_rank_at p now th"
  by (auto simp: refresh_aged_order_def list_ex_iff set_sort_pending split: if_splits)

lemma promote_loop_subset:
  "promote_loop E now s = (r, s') \<Longrightarrow> set (en_pending s') \<subseteq> set (en_pending s)"
proof (induction rule: promote_loop_cases)
  case (round s i s1 g s2 r s3)
  then show ?case
    using set_remove_nth_subset [of i "en_pending s2"]
    by (auto simp: grant_pending dest!: select_grantable_pruned engine_pruned_frame(5))
qed (auto simp: grant_pending dest!: select_grantable_pruned engine_pruned_frame(5))

lemma promote_threshold:
  "promote_loop E now s = (r, s') \<Longrightarrow> en_aging_threshold s' = en_aging_threshold s"
proof (induction rule: promote_loop_cases)
  case (refused s i s1 e s2)
  then show ?case
    by (auto dest!: grant_Inl select_grantable_pruned engine_pruned_frame(3))
next
  case (round s i s1 g s2 r s3)
  then show ?case
    by (auto elim!: grant_Inr dest!: select_grantable_pruned engine_pruned_frame(3))
qed (auto dest!: select_grantable_pruned engine_pruned_frame(3))

lemma windows_allow_same:
  "windows_allow E rq now ps s = (r, s') \<Longrightarrow> same_accounts E now s' s"
proof (induction ps arbitrary: s)
  case Nil
  then show ?case by simp
next
  case (Cons p ps)
  show ?case
  proof (cases "\<exists>st. en_pools s p = Some st \<and> is_windowed (rp_config st)")
    case False
    with Cons.prems have "windows_allow E rq now ps s = (r, s')" by (auto split: option.splits)
    then show ?thesis by (rule Cons.IH)
  next
    case True
    then obtain st where st: "en_pools s p = Some st" "is_windowed (rp_config st)" by blast
    obtain r1 st1 where al: "pool_allows E p st rq now = (r1, st1)" by fastforce
    let ?s1 = "set_pool s p (settle_pool E now st)"
    have "same_accounts E now ?s1 s"
      using settle_set_pool [OF st(1)] by (simp add: same_accounts_def set_pool_def)
    moreover have "s' = ?s1 \<or> windows_allow E rq now ps ?s1 = (r, s')"
      using Cons.prems st al pool_allows_state [OF al] by (auto split: sum.splits bool.splits)
    ultimately show ?thesis using Cons.IH [of ?s1] same_accounts_trans by blast
  qed
qed

lemma plan_interrupts_same:
  "plan_interrupts E now ps reserved desired s = (r, s') \<Longrightarrow> same_accounts E now s' s"
proof (induction ps arbitrary: reserved desired s)
  case Nil
  then show ?case by simp
next
  case (Cons p ps)
  obtain r1 s1 where w: "windows_allow E (pd_request p) now (rq_pools (pd_request p)) s = (r1, s1)"
    by fastforce
  with Cons.prems consider "s' = s1"
    | reserved' desired' where "plan_interrupts E now ps reserved' desired' s1 = (r, s')"
    by (auto split: sum.splits bool.splits option.splits)
  then show ?case
    using windows_allow_same [OF w] Cons.IH same_accounts_trans by cases blast+
qed

lemma reconcile_same:
  assumes "reconcile_yield_demands E s now = (r, s')"
  shows "same_accounts E now s' s"
    and "en_pending s' = refresh_aged_order (en_pending s) now (en_aging_threshold s)"
proof -
  let ?s1 = "s\<lparr>en_pending := refresh_aged_order (en_pending s) now (en_aging_threshold s)\<rparr>"
  obtain r2 s2 where p: "plan_interrupts E now (interrupts ?s1) (\<lambda>_. {}) [] ?s1 = (r2, s2)"
    by fastforce
  with assms have "s' = s2 \<or> (\<exists>deadline desired. s' = apply_desired deadline desired s2)"
    by (auto simp: reconcile_yield_demands_def Let_def split: sum.splits)
  then have "same_accounts E now s' s2" and "en_pending s' = en_pending s2"
    by (auto simp: apply_desired_def same_accounts_def settle_def)
  moreover have "same_accounts E now s2 s"
    using plan_interrupts_same [OF p] by (simp add: same_accounts_def settle_def)
  moreover have "en_pending s2 = en_pending ?s1"
    using plan_interrupts_pruned [OF p] by (rule engine_pruned_frame)
  ultimately show "same_accounts E now s' s"
    and "en_pending s' = refresh_aged_order (en_pending s) now (en_aging_threshold s)"
    using same_accounts_trans by auto
qed

lemma promote_and_reconcile_greedy:
  assumes run: "promote_and_reconcile E s now = (Inr gs, s')" and "chrono_laws E"
    and "engine_inv base s" and "windows_positive s"
  shows "greedy (books_of E now s) (refresh_aged_order (en_pending s) now (en_aging_threshold s))
           = (map gr_lease_id gs, books_of E now s', en_pending s')"
proof -
  let ?s = "s\<lparr>en_pending := refresh_aged_order (en_pending s) now (en_aging_threshold s)\<rparr>"
  from run obtain s1 where pl: "promote_loop E now ?s = (Inr gs, s1)"
    and rc: "reconcile_yield_demands E s1 now = (Inr (), s')"
    by (auto simp: promote_and_reconcile_def promote_def split: sum.splits prod.splits)
  have "windows_positive ?s" using assms(4) by (simp add: windows_positive_def)
  then have "greedy (books_of E now ?s) (en_pending ?s)
      = (map gr_lease_id gs, books_of E now s1, en_pending s1)"
    using promote_loop_greedy [OF pl refl assms(2) engine_inv_reorder [OF assms(3)]] by simp
  moreover have "books_of E now s' = books_of E now s1"
    by (rule books_of_same) (rule reconcile_same(1) [OF rc])
  moreover have "en_pending s' = en_pending s1"
    unfolding reconcile_same(2) [OF rc]
    using promote_loop_subset [OF pl] promote_threshold [OF pl]
    by (intro refresh_aged_order_id) (auto intro: refresh_aged_order_fresh)
  moreover have "books_of E now ?s = books_of E now s" by (simp add: books_of_def settle_def)
  ultimately show ?thesis by simp
qed

section \<open>Release\<close>

text \<open>Returning a lease frees its slots; what it consumed of a window stays consumed.\<close>

definition book_release :: "books \<Rightarrow> LeaseGrant \<Rightarrow> books" where
  "book_release b g =
     b\<lparr>bk_accounts := (\<lambda>p. if p \<in> set (gr_pools g)
        then map_option (\<lambda>a. if ac_windowed a then a else a\<lparr>ac_used := ac_used a - 1\<rparr>)
               (bk_accounts b p)
        else bk_accounts b p)\<rparr>"

lemma length_removeAll_distinct:
  "distinct xs \<Longrightarrow> x \<in> set xs \<Longrightarrow> length (removeAll x xs) = length xs - 1"
  by (simp add: distinct_remove1_removeAll [symmetric] length_remove1)

lemma settle_pool_holders_update:
  "settle_pool E now (st\<lparr>rp_holders := H\<rparr>) = (settle_pool E now st)\<lparr>rp_holders := H\<rparr>"
  by (auto simp: settle_pool_def prune_debits_def
      split: PoolPredicate.splits sum.splits prod.splits)

lemma remove_held_books:
  assumes inv: "engine_inv base s" and held: "held_grants s l = Some g"
  shows "books_of E now (remove_held s g) = book_release (books_of E now s) g"
proof -
  have g: "gr_lease_id g = l" "distinct (gr_pools g)"
    using inv held by (auto simp: engine_inv_def grants_ok_def)
  have "bk_accounts (books_of E now (remove_held s g)) p
      = bk_accounts (book_release (books_of E now s) g) p" for p
  proof (cases "p \<in> set (gr_pools g)")
    case False
    then show ?thesis
      by (simp add: books_of_def book_release_def settle_def remove_held_def fold_drop_holder g)
  next
    case True
    show ?thesis
    proof (cases "en_pools s p")
      case None
      then show ?thesis
        by (simp add: books_of_def book_release_def settle_def remove_held_def fold_drop_holder g)
    next
      case (Some st)
      with inv held True have "distinct (rp_holders st)" "l \<in> set (rp_holders st)"
        by (auto simp: engine_inv_def pools_ok_def)
      then show ?thesis
        using Some True
        by (auto simp: books_of_def book_release_def settle_def remove_held_def fold_drop_holder g
            settle_pool_holders_update account_of_def length_removeAll_distinct window_total_def
            split: PoolPredicate.split)
    qed
  qed
  then have "bk_accounts (books_of E now (remove_held s g))
      = bk_accounts (book_release (books_of E now s) g)" by (rule ext)
  then show ?thesis
    by (rule books.equality) (simp_all add: books_of_def book_release_def remove_held_def)
qed

lemma windows_positive_remove:
  assumes "windows_positive s" and "distinct (gr_pools g)"
  shows "windows_positive (remove_held s g)"
  using assms unfolding windows_positive_def remove_held_def
  by (auto simp: fold_drop_holder split: if_splits)

section \<open>Window lengths are kept\<close>

lemma windows_positive_reconcile:
  assumes "reconcile_yield_demands E s now = (r, s')" and "windows_positive s"
  shows "windows_positive s'"
proof -
  from assms(1) obtain s1 s2 where s1: "s1 = s\<lparr>en_pending :=
      refresh_aged_order (en_pending s) now (en_aging_threshold s)\<rparr>" and pr: "engine_pruned s1 s2"
    and s': "s' = s2 \<or> (\<exists>deadline desired. r = Inr () \<and> s' = apply_desired deadline desired s2)"
    by (rule reconcile_cases)
  have "windows_positive s1" using assms(2) by (simp add: s1 windows_positive_def)
  with pr have "windows_positive s2" by (rule windows_positive_pruned)
  with s' show ?thesis by (auto simp: windows_positive_def apply_desired_def)
qed

text \<open>Admission by cases: refused, out of sequence numbers, or tested and then granted or queued.\<close>

definition new_pending :: "LeaseEngine \<Rightarrow> LeaseRequest \<Rightarrow> int \<Rightarrow> PendingRequest" where
  "new_pending s rq now =
     \<lparr>pd_ticket_id = lease_ticket (en_epoch s) (en_next_sequence s),
      pd_sequence = en_next_sequence s, pd_admitted_at = now,
      pd_effective_rank = rank (rq_priority rq), pd_request = rq\<rparr>"

lemma admit_at_cases [consumes 1, case_names rejected exhausted tested]:
  assumes "admit_at E s request now = (r, s')"
  obtains e where "canonicalize_request s request = Inl e" and "r = Inl e" and "s' = s"
  | rq where "canonicalize_request s request = Inr rq" and "r = Inl (InvalidRequest SequenceOverflow)"
      and "s' = open_campaign_pools (rq_pools rq) s"
  | rq n s2 r3 s3 where "canonicalize_request s request = Inr rq"
      and "unat n = unat (en_next_sequence s) + 1"
      and "s2 = (open_campaign_pools (rq_pools rq) s)\<lparr>en_next_sequence := n\<rparr>"
      and "can_grant E s2 rq now = (r3, s3)"
      and "(\<exists>e. r3 = Inl e \<and> r = Inl e \<and> s' = s3) \<or>
           (\<exists>r4. r3 = Inr True \<and> r = map_sum id Granted r4 \<and>
              grant E s3 (lease_ticket (en_epoch s) (en_next_sequence s)) rq now = (r4, s')) \<or>
           r3 = Inr False \<and> enqueue_pending E s3 (new_pending s rq now) now = (r, s')"
proof (cases "canonicalize_request s request")
  case (Inl e)
  have "r = Inl e" and "s' = s" using assms Inl by (simp_all add: admit_at_def)
  with Inl show ?thesis by (rule that(1))
next
  case (Inr rq)
  let ?s1 = "open_campaign_pools (rq_pools rq) s"
  have fr: "en_next_sequence ?s1 = en_next_sequence s" "en_epoch ?s1 = en_epoch s"
    by (simp_all add: open_campaign_pools_def)
  show ?thesis
  proof (cases "checked_add (en_next_sequence s) 1")
    case None
    have "r = Inl (InvalidRequest SequenceOverflow)" and "s' = ?s1"
      using assms Inr None fr by (simp_all add: admit_at_def Let_def)
    with Inr show ?thesis by (rule that(2))
  next
    case (Some n)
    then have n: "unat n = unat (en_next_sequence s) + 1" by (simp add: checked_simps)
    obtain r3 s3 where cg: "can_grant E (?s1\<lparr>en_next_sequence := n\<rparr>) rq now = (r3, s3)" by fastforce
    show ?thesis
      using assms Inr Some cg fr
      by (intro that(3) [OF Inr n refl cg])
        (auto simp: admit_at_def Let_def new_pending_def split: sum.splits bool.splits prod.splits)
  qed
qed

lemma windows_positive_open: "windows_positive s \<Longrightarrow> windows_positive (open_campaign_pools ps s)"
  by (auto simp: windows_positive_def open_campaign_pools_def split: if_splits)

lemma windows_positive_admit:
  assumes "admit_at E s rq now = (r, s')" and "windows_positive s"
  shows "windows_positive s'"
  using assms(1)
proof (cases rule: admit_at_cases)
  case (exhausted c)
  then show ?thesis using windows_positive_open [OF assms(2)] by simp
next
  case (tested c n s2 r3 s3)
  have "windows_positive s2"
    using windows_positive_open [OF assms(2)] by (simp add: tested(3) windows_positive_def)
  with can_grant_pruned [OF tested(4)] have w3: "windows_positive s3" by (rule windows_positive_pruned)
  have d: "distinct (rq_pools c)"
    using canonicalize_request_Inr(1) [OF tested(1)] by (simp add: canonical_pools_def)
  from tested(5) show ?thesis
  proof (elim disjE exE conjE)
    fix r4
    assume gr: "grant E s3 (lease_ticket (en_epoch s) (en_next_sequence s)) c now = (r4, s')"
    show ?thesis
    proof (cases r4)
      case (Inl e)
      with gr obtain x where "s' = s3\<lparr>en_events := x\<rparr>" using grant_Inl by blast
      with w3 show ?thesis by (simp add: windows_positive_def)
    next
      case (Inr g)
      with windows_positive_grant [of E s3 _ c now] gr w3 d show ?thesis by blast
    qed
  next
    assume "enqueue_pending E s3 (new_pending s c now) now = (r, s')"
    then obtain q r5 s5 where rc: "reconcile_yield_demands E (s3\<lparr>en_pending := q\<rparr>) now = (r5, s5)"
      and s5: "en_pools s' = en_pools s5"
      by (auto simp: enqueue_pending_def Let_def split: sum.splits prod.splits option.splits)
    have "windows_positive s5"
      using w3 by (intro windows_positive_reconcile [OF rc]) (simp add: windows_positive_def)
    then show ?thesis by (simp add: windows_positive_def s5)
  qed (use w3 in auto)
qed (use assms(2) in simp)

section \<open>A release refines the scheduler\<close>

text \<open>
  C2. A release implements the greedy scheduler: the released lease frees its slots in the pool
  accounts, and then the tickets promoted, in this order, the accounts of all pools afterwards
  and the queue that remains are those of the scheduler that repeatedly serves the first
  affordable request of the aged queue.  In particular no request that could run is left waiting.
\<close>

theorem release_refines_greedy:
  assumes "chrono_laws E" and "reachable (fresh_engine E) (engine_step E) s" and "windows_positive s"
    and "release_at E s l epoch now = (Inr out, s')"
  shows "held_grants s l = Some (ro_released out) \<and>
         greedy (book_release (books_of E now s) (ro_released out))
             (refresh_aged_order (en_pending s) now (en_aging_threshold s))
           = (map gr_lease_id (ro_promoted out), books_of E now s', en_pending s') \<and>
         (\<forall>p \<in> set (en_pending s'). \<not> affordable (books_of E now s') (pd_request p))"
proof -
  obtain base where inv: "engine_inv base s" using eng.reachable_invar [OF assms(2)] by blast
  let ?g = "ro_released out"
  from assms(4) obtain h where h: "map_of (en_held s) l = Some h" "hl_grant h = ?g"
    and run: "promote_and_reconcile E (remove_held s ?g) now = (Inr (ro_promoted out), s')"
    by (auto simp: release_at_def append_event_not_grant split: option.splits sum.splits prod.splits)
  then have held: "held_grants s l = Some ?g" by (simp add: held_grants_def)
  with inv have "distinct (gr_pools ?g)" by (auto simp: engine_inv_def grants_ok_def)
  then have "greedy (books_of E now (remove_held s ?g))
      (refresh_aged_order (en_pending s) now (en_aging_threshold s))
      = (map gr_lease_id (ro_promoted out), books_of E now s', en_pending s')"
    using promote_and_reconcile_greedy [OF run assms(1)] remove_held_inv [OF inv held]
      windows_positive_remove [OF assms(3)] by (simp add: remove_held_def)
  then have *: "greedy (book_release (books_of E now s) ?g)
      (refresh_aged_order (en_pending s) now (en_aging_threshold s))
      = (map gr_lease_id (ro_promoted out), books_of E now s', en_pending s')"
    by (simp add: remove_held_books [OF inv held])
  then show ?thesis using greedy_done [OF *] held by blast
qed

lemma sample_waiting_positive: "windows_positive sample_waiting"
  by (auto simp: windows_positive_def sample_waiting_def sample_state_def sample_pool_map_def
      budget_pool_def cpu_pool_def sample_pools_def default_pool_config_def split: if_splits)

lemma sample_release:
  "map_sum (\<lambda>_. ()) (map gr_lease_id \<circ> ro_promoted)
     (fst (release_at sample_env sample_waiting ''lease-1-1'' 1 2000200)) = Inr [''lease-1-3'']"
  by code_simp

theorem release_refines_greedy_witness:
  "\<exists>out s'. release_at sample_env sample_waiting ''lease-1-1'' 1 2000200 = (Inr out, s') \<and>
     map gr_lease_id (ro_promoted out) = [''lease-1-3''] \<and>
     greedy (book_release (books_of sample_env 2000200 sample_waiting) (ro_released out))
         (refresh_aged_order (en_pending sample_waiting) 2000200 (en_aging_threshold sample_waiting))
       = ([''lease-1-3''], books_of sample_env 2000200 s', en_pending s')"
proof -
  obtain r s' where run: "release_at sample_env sample_waiting ''lease-1-1'' 1 2000200 = (r, s')"
    by fastforce
  with sample_release obtain out where "r = Inr out"
    and "map gr_lease_id (ro_promoted out) = [''lease-1-3'']" by (cases r) auto
  with run release_refines_greedy [OF sample_env_laws sample_waiting_reachable
      sample_waiting_positive] show ?thesis by (intro exI [of _ out] exI [of _ s']) simp
qed

end
