(* ===== verification/Lease_Tickets.thy ===== *)
theory Lease_Tickets
  imports Lease_Promote
begin

text \<open>
  Conservation of tickets: which leases are held and which requests are queued after each operation,
  in terms of what the operation returned, whatever appends fail on the way.
\<close>

section \<open>The tickets an engine answers for\<close>

definition held_ids :: "LeaseEngine \<Rightarrow> string set" where
  "held_ids s = fst ` set (en_held s)"

definition queued_ids :: "LeaseEngine \<Rightarrow> string set" where
  "queued_ids s = pd_ticket_id ` set (en_pending s)"

lemma ids_pruned:
  "engine_pruned s s' \<Longrightarrow> held_ids s' = held_ids s"
  "engine_pruned s s' \<Longrightarrow> queued_ids s' = queued_ids s"
  by (simp_all add: held_ids_def queued_ids_def engine_pruned_frame(4) engine_pruned_frame(5))

lemma ids_frame [simp]:
  "held_ids (s\<lparr>en_events := x\<rparr>) = held_ids s" "queued_ids (s\<lparr>en_events := x\<rparr>) = queued_ids s"
  "held_ids (s\<lparr>en_next_sequence := n\<rparr>) = held_ids s"
  "queued_ids (s\<lparr>en_next_sequence := n\<rparr>) = queued_ids s"
  "held_ids (open_campaign_pools ps s) = held_ids s"
  "queued_ids (open_campaign_pools ps s) = queued_ids s"
  "held_ids (s\<lparr>en_pending := q\<rparr>) = held_ids s"
  "queued_ids (s\<lparr>en_pending := q\<rparr>) = pd_ticket_id ` set q"
  by (simp_all add: held_ids_def queued_ids_def open_campaign_pools_def)

lemma ids_apply [simp]:
  "held_ids (apply_desired deadline desired s) = held_ids s"
  "queued_ids (apply_desired deadline desired s) = queued_ids s"
  by (simp_all add: held_ids_def queued_ids_def apply_desired_def image_image case_prod_beta)

lemma tickets_reordered:
  "pd_ticket_id ` set (refresh_aged_order q now th) = pd_ticket_id ` set q"
  "pd_ticket_id ` set (sort_pending q now th) = pd_ticket_id ` set q"
  using rfr.reorder_tickets [THEN mset_eq_setD] srt.reorder_tickets [THEN mset_eq_setD] by simp_all

lemma ids_reconcile:
  assumes "reconcile_yield_demands E s now = (r, s')"
  shows "held_ids s' = held_ids s" and "queued_ids s' = queued_ids s"
proof -
  from assms obtain s1 s2 where s1: "s1 = s\<lparr>en_pending :=
      refresh_aged_order (en_pending s) now (en_aging_threshold s)\<rparr>" and pr: "engine_pruned s1 s2"
    and s': "s' = s2 \<or> (\<exists>deadline desired. r = Inr () \<and> s' = apply_desired deadline desired s2)"
    by (rule reconcile_cases)
  have "held_ids s1 = held_ids s" "queued_ids s1 = queued_ids s"
    by (simp_all add: s1 tickets_reordered) (simp add: queued_ids_def)
  then show "held_ids s' = held_ids s" and "queued_ids s' = queued_ids s"
    using s' ids_pruned [OF pr] by auto
qed

lemma held_ids_grants: "l \<in> held_ids s \<longleftrightarrow> held_grants s l \<noteq> None"
  by (simp add: held_ids_def held_grants_def map_of_eq_None_iff)

lemma ids_grant:
  assumes "grant E s l rq now = (r, s')"
  shows "queued_ids s' = queued_ids s"
    and "held_ids s' = (case r of Inl _ \<Rightarrow> held_ids s | Inr _ \<Rightarrow> insert l (held_ids s))"
    and "r = Inr g \<Longrightarrow> gr_lease_id g = l"
proof -
  have "queued_ids s' = queued_ids s \<and>
      held_ids s' = (case r of Inl _ \<Rightarrow> held_ids s | Inr _ \<Rightarrow> insert l (held_ids s)) \<and>
      (\<forall>g. r = Inr g \<longrightarrow> gr_lease_id g = l)"
  proof (cases r)
    case (Inl e)
    with assms grant_Inl show ?thesis by fastforce
  next
    case (Inr g)
    with assms obtain ds x where "g = make_grant E s l rq now"
      and "s' = (commit_grant s g ds)\<lparr>en_events := x\<rparr>" by (auto elim: grant_Inr)
    with Inr show ?thesis by (auto simp: held_ids_def queued_ids_def commit_grant_def dom_update)
  qed
  then show "queued_ids s' = queued_ids s"
    and "held_ids s' = (case r of Inl _ \<Rightarrow> held_ids s | Inr _ \<Rightarrow> insert l (held_ids s))"
    and "r = Inr g \<Longrightarrow> gr_lease_id g = l" by auto
qed

section \<open>Promotion moves tickets\<close>

text \<open>The tickets \<open>P\<close> moved from the queue to the held leases.\<close>

definition moved :: "string set \<Rightarrow> LeaseEngine \<Rightarrow> LeaseEngine \<Rightarrow> bool" where
  "moved P s s' \<longleftrightarrow>
     P \<subseteq> queued_ids s \<and> held_ids s' = held_ids s \<union> P \<and> queued_ids s' = queued_ids s - P"

text \<open>A promotion moves the tickets it returns; one that fails half way moves some.\<close>

definition promotes :: "LeaseError + LeaseGrant list \<Rightarrow> LeaseEngine \<Rightarrow> LeaseEngine \<Rightarrow> bool" where
  "promotes r s s' \<longleftrightarrow> (\<exists>P. moved P s s' \<and> (\<forall>gs. r = Inr gs \<longrightarrow> P = gr_lease_id ` set gs))"

lemma promotes_idle:
  assumes "held_ids s' = held_ids s" and "queued_ids s' = queued_ids s" and "\<And>gs. r = Inr gs \<Longrightarrow> gs = []"
  shows "promotes r s s'"
  using assms by (auto simp: promotes_def moved_def intro!: exI [of _ "{}"])

lemma promotes_cong:
  assumes "held_ids s0 = held_ids s" and "queued_ids s0 = queued_ids s"
    and "held_ids s1 = held_ids s'" and "queued_ids s1 = queued_ids s'"
  shows "promotes r s0 s1 \<longleftrightarrow> promotes r s s'"
  by (simp add: promotes_def moved_def assms)

lemma promotes_round:
  assumes inv: "engine_inv base s"
    and sel: "select_grantable E now 0 (en_pending s) s = (Inr (Some i), s1)"
    and gr: "grant E s1 (pd_ticket_id (en_pending s1 ! i)) (pd_request (en_pending s1 ! i)) now = (Inr g, s2)"
    and more: "promotes r (s2\<lparr>en_pending := remove_nth i (en_pending s2)\<rparr>) s3"
  shows "promotes (map_sum id ((#) g) r) s s3"
proof -
  note pr = select_grantable_pruned [OF sel]
  let ?t = "pd_ticket_id (en_pending s1 ! i)" and ?u = "s2\<lparr>en_pending := remove_nth i (en_pending s2)\<rparr>"
  have pd: "en_pending s2 = en_pending s1" using gr by (rule grant_pending)
  have i: "i < length (en_pending s1)"
    using select_grantable_bound [OF sel] engine_pruned_frame(5) [OF pr] by simp
  have "engine_inv base s1" using engine_inv_pruned [OF pr inv] .
  then have "distinct (map pd_ticket_id (en_pending s1))" by (simp add: engine_inv_def pending_ok_def)
  from distinct_remove_nth(2) [OF this i] have "queued_ids ?u = queued_ids s1 - {?t}"
    using set_remove_nth [OF i] by (auto simp: pd queued_ids_def)
  moreover have "?t \<in> queued_ids s1" using i by (simp add: queued_ids_def)
  moreover have "held_ids ?u = insert ?t (held_ids s1)" using ids_grant(2) [OF gr] by simp
  ultimately have step: "moved {?t} s ?u" using ids_pruned [OF pr] by (auto simp: moved_def)
  from more obtain P where "moved P ?u s3" and P: "\<And>gs. r = Inr gs \<Longrightarrow> P = gr_lease_id ` set gs"
    by (auto simp: promotes_def)
  with step have "moved (insert ?t P) s s3" by (auto simp: moved_def)
  moreover have "gr_lease_id g = ?t" using ids_grant(3) [OF gr] by simp
  ultimately show ?thesis using P by (cases r) (auto simp: promotes_def)
qed

lemma promotes_loop: "promote_loop E now s = (r, s') \<Longrightarrow> engine_inv base s \<Longrightarrow> promotes r s s'"
proof (induction rule: promote_loop_cases)
  case (fail s e s1)
  then show ?case by (intro promotes_idle) (simp_all add: ids_pruned select_grantable_pruned)
next
  case (idle s s1)
  then show ?case by (intro promotes_idle) (simp_all add: ids_pruned select_grantable_pruned)
next
  case (refused s i s1 e s2)
  then show ?case by (intro promotes_idle) (simp_all add: ids_grant ids_pruned select_grantable_pruned)
next
  case (round s i s1 g s2 r s3)
  then show ?case using promotes_round promote_round_inv by blast
qed

lemma promotes_and_reconcile:
  assumes run: "promote_and_reconcile E s now = (r, s')" and inv: "engine_inv base s"
  shows "promotes r s s'"
proof -
  let ?s0 = "s\<lparr>en_pending := refresh_aged_order (en_pending s) now (en_aging_threshold s)\<rparr>"
  obtain r1 s1 where pl: "promote E s now = (r1, s1)" by fastforce
  then have "promotes r1 ?s0 s1"
    unfolding promote_def using promotes_loop engine_inv_reorder [OF inv] by blast
  then have p: "promotes r1 s s1"
    using promotes_cong [of ?s0 s s1 s1 r1] by (simp add: tickets_reordered) (simp add: queued_ids_def)
  show ?thesis
  proof (cases r1)
    case (Inl e)
    with run pl p show ?thesis by (simp add: promote_and_reconcile_def)
  next
    case (Inr gs)
    obtain r2 where rc: "reconcile_yield_demands E s1 now = (r2, s')" and r: "r = r1 \<or> (\<exists>e. r = Inl e)"
      using run pl Inr by (auto simp: promote_and_reconcile_def split: prod.splits sum.splits)
    have "promotes r1 s s'" using p promotes_cong [of s s s1 s' r1] ids_reconcile [OF rc] by simp
    with r show ?thesis by (auto simp: promotes_def)
  qed
qed

section \<open>Removal\<close>

lemma ids_remove:
  assumes inv: "engine_inv base s" and held: "held_grants s l = Some g"
  shows "held_ids (remove_held s g) = held_ids s - {l}" and "queued_ids (remove_held s g) = queued_ids s"
proof -
  have "gr_lease_id g = l" using inv held by (auto simp: engine_inv_def grants_ok_def)
  then show "held_ids (remove_held s g) = held_ids s - {l}"
    and "queued_ids (remove_held s g) = queued_ids s"
    by (auto simp: held_ids_def queued_ids_def remove_held_def delete_keys simp flip: set_map)
qed

text \<open>
  A release or preemption round that removed the leases \<open>ls\<close> and then promoted: the remaining leases
  and the promoted tickets are held.
\<close>

definition exchanged :: "string set \<Rightarrow> string set \<Rightarrow> LeaseEngine \<Rightarrow> LeaseEngine \<Rightarrow> bool" where
  "exchanged ls P s s' \<longleftrightarrow>
     ls \<subseteq> held_ids s \<and> P \<subseteq> queued_ids s \<and>
     held_ids s' = held_ids s - ls \<union> P \<and> queued_ids s' = queued_ids s - P"

lemma release_exchanges:
  assumes inv: "engine_inv base s" and run: "release_at E s l epoch now = (r, s')"
  shows "if epoch = en_epoch s \<and> l \<in> held_ids s
         then \<exists>P. exchanged {l} P s s' \<and>
                (\<forall>out. r = Inr out \<longrightarrow> gr_lease_id (ro_released out) = l \<and> P = gr_lease_id ` set (ro_promoted out))
         else (\<exists>e. r = Inl e) \<and> s' = s"
proof (cases "epoch = en_epoch s \<and> l \<in> held_ids s")
  case False
  then show ?thesis
    using run by (auto simp: held_ids_def release_at_def check_epoch_def image_iff
        split: option.splits if_splits dest!: map_of_SomeD)
next
  case True
  then obtain h where h: "map_of (en_held s) l = Some h"
    by (cases "map_of (en_held s) l") (auto simp: held_ids_def map_of_eq_None_iff)
  then have held: "held_grants s l = Some (hl_grant h)" by (simp add: held_grants_def)
  have l: "gr_lease_id (hl_grant h) = l" using inv held by (auto simp: engine_inv_def grants_ok_def)
  obtain r1 s1 where pr: "promote_and_reconcile E (remove_held s (hl_grant h)) now = (r1, s1)"
    by fastforce
  with True h run have s': "s' = s1"
    and r: "r = map_sum id (\<lambda>gs. \<lparr>ro_released = hl_grant h, ro_promoted = gs\<rparr>) r1"
    by (auto simp: release_at_def check_epoch_def append_event_not_grant split: sum.splits)
  have "promotes r1 (remove_held s (hl_grant h)) s1"
    using promotes_and_reconcile [OF pr remove_held_inv [OF inv held]] .
  then obtain P where "moved P (remove_held s (hl_grant h)) s1"
    and P: "\<forall>gs. r1 = Inr gs \<longrightarrow> P = gr_lease_id ` set gs" by (auto simp: promotes_def)
  then have "exchanged {l} P s s'"
    using True ids_remove [OF inv held] by (auto simp: exchanged_def moved_def s')
  moreover have "\<forall>out. r = Inr out \<longrightarrow>
      gr_lease_id (ro_released out) = l \<and> P = gr_lease_id ` set (ro_promoted out)"
    using P by (cases r1) (auto simp: r l)
  ultimately show ?thesis using True by auto
qed

lemma cancel_removes:
  assumes inv: "engine_inv base s" and run: "cancel_pending_at s t epoch = (r, s')"
  shows "if epoch = en_epoch s \<and> t \<in> queued_ids s
         then r = Inr () \<and> held_ids s' = held_ids s \<and> queued_ids s' = queued_ids s - {t}
         else (\<exists>e. r = Inl e) \<and> s' = s"
proof (cases "epoch = en_epoch s \<and> t \<in> queued_ids s")
  case False
  then show ?thesis
    using run by (auto simp: queued_ids_def cancel_pending_at_def check_epoch_def
        split: option.splits if_splits dest!: position_Some)
next
  case True
  then obtain i where pos: "position (\<lambda>p. pd_ticket_id p = t) (en_pending s) = Some i"
    by (cases "position (\<lambda>p. pd_ticket_id p = t) (en_pending s)") (auto simp: position_None queued_ids_def)
  then have i: "i < length (en_pending s)" "pd_ticket_id (en_pending s ! i) = t"
    by (auto dest: position_Some)
  have "distinct (map pd_ticket_id (en_pending s))"
    using inv by (simp add: engine_inv_def pending_ok_def)
  from distinct_remove_nth [OF this i(1)]
  have "pd_ticket_id ` set (remove_nth i (en_pending s)) = pd_ticket_id ` set (en_pending s) - {t}"
    using set_remove_nth [OF i(1)] i(2) by auto
  moreover have "r = Inr ()" and "en_pending s' = remove_nth i (en_pending s)"
    and "map fst (en_held s') = map fst (en_held s)"
    using True pos run by (auto simp: cancel_pending_at_def check_epoch_def case_prod_beta)
  ultimately show ?thesis using True by (simp add: held_ids_def queued_ids_def flip: set_map)
qed

lemma preempt_all_removes:
  "preempt_all E now ls s = (r, s') \<Longrightarrow> engine_inv base s \<Longrightarrow>
     engine_inv base s' \<and>
     (\<exists>k \<le> length ls. exchanged (set (take k ls)) {} s s' \<and>
       (\<forall>gs. r = Inr gs \<longrightarrow> k = length ls \<and> map gr_lease_id gs = ls))"
proof (induction ls arbitrary: s r)
  case Nil
  then show ?case by (auto simp: exchanged_def)
next
  case (Cons l ls)
  show ?case
  proof (cases "\<exists>h. map_of (en_held s) l = Some h \<and> reclaimable now h")
    case False
    with Cons.prems(1) have "s' = s" and "\<exists>e. r = Inl e" by (auto split: option.splits if_splits)
    then show ?thesis using Cons.prems(2) by (auto simp: exchanged_def intro: exI [of _ 0])
  next
    case True
    then obtain h where h: "map_of (en_held s) l = Some h" "reclaimable now h" by blast
    then have held: "held_grants s l = Some (hl_grant h)" by (simp add: held_grants_def)
    have l: "gr_lease_id (hl_grant h) = l" using Cons.prems(2) held by (auto simp: engine_inv_def grants_ok_def)
    have lh: "l \<in> held_ids s" using held by (simp add: held_ids_grants)
    obtain r2 where pa: "preempt_all E now ls (remove_held s (hl_grant h)) = (r2, s')"
      and r: "r = map_sum id ((#) (hl_grant h)) r2"
      using Cons.prems(1) h by (auto simp: append_event_not_grant split: sum.splits prod.splits)
    from Cons.IH [OF pa remove_held_inv [OF Cons.prems(2) held]]
    obtain k where k: "k \<le> length ls" "exchanged (set (take k ls)) {} (remove_held s (hl_grant h)) s'"
      and gs: "\<forall>gs. r2 = Inr gs \<longrightarrow> k = length ls \<and> map gr_lease_id gs = ls"
      and inv': "engine_inv base s'" by blast
    have "exchanged (set (take (Suc k) (l # ls))) {} s s'"
      using k(2) lh ids_remove [OF Cons.prems(2) held] by (auto simp: exchanged_def)
    moreover have "\<forall>gs. r = Inr gs \<longrightarrow> Suc k = length (l # ls) \<and> map gr_lease_id gs = l # ls"
      using gs by (cases r2) (auto simp: r l)
    ultimately show ?thesis using k(1) inv' by (intro conjI exI [of _ "Suc k"]) auto
  qed
qed

lemma commit_preemptions_exchanges:
  assumes run: "commit_preemptions E s ls now = (r, s')" and inv: "engine_inv base s"
  shows "\<exists>k P. k \<le> length ls \<and> exchanged (set (take k ls)) P s s' \<and>
           (\<forall>out. r = Inr out \<longrightarrow> k = length ls \<and> map gr_lease_id (to_preempted out) = ls \<and>
              P = gr_lease_id ` set (to_promoted out))"
proof -
  obtain r1 s1 where rc: "reconcile_yield_demands E s now = (r1, s1)" by fastforce
  note same = ids_reconcile [OF rc]
  obtain r2 s2 where pa: "preempt_all E now ls s1 = (r2, s2)" by fastforce
  from preempt_all_removes [OF pa engine_inv_reconcile [OF rc inv]]
  obtain k where k: "k \<le> length ls" "exchanged (set (take k ls)) {} s1 s2"
    and gs: "\<And>gs. r2 = Inr gs \<Longrightarrow> k = length ls \<and> map gr_lease_id gs = ls"
    and inv2: "engine_inv base s2" by blast
  consider (plan) e where "r1 = Inl e" | (remove) u e where "r1 = Inr u" "r2 = Inl e"
    | (promote) u gs where "r1 = Inr u" "r2 = Inr gs" by (metis obj_sumE)
  then show ?thesis
  proof cases
    case plan
    with run rc have "s' = s1" "r = Inl e" by (simp_all add: commit_preemptions_def)
    with same show ?thesis by (auto simp: exchanged_def intro!: exI [of _ 0] exI [of _ "{}"])
  next
    case remove
    with run rc pa have "s' = s2" "r = Inl e" by (simp_all add: commit_preemptions_def)
    with same k show ?thesis by (auto simp: exchanged_def intro!: exI [of _ k] exI [of _ "{}"])
  next
    case promote
    obtain r3 s3 where pm: "promote_and_reconcile E s2 now = (r3, s3)" by fastforce
    with run rc pa promote have s': "s' = s3"
      and r: "r = map_sum id (\<lambda>ps. \<lparr>to_preempted = gs, to_promoted = ps\<rparr>) r3"
      by (auto simp: commit_preemptions_def split: sum.splits)
    obtain P where P: "moved P s2 s3" "\<And>ps. r3 = Inr ps \<Longrightarrow> P = gr_lease_id ` set ps"
      using promotes_and_reconcile [OF pm inv2] by (auto simp: promotes_def)
    have "exchanged (set (take k ls)) P s s'"
      using P(1) k(2) same by (auto simp: exchanged_def moved_def s')
    moreover have "\<forall>out. r = Inr out \<longrightarrow> k = length ls \<and> map gr_lease_id (to_preempted out) = ls \<and>
        P = gr_lease_id ` set (to_promoted out)"
      using P(2) gs [OF promote(2)] by (cases r3) (auto simp: r)
    ultimately show ?thesis using k(1) by blast
  qed
qed

section \<open>Admission\<close>

text \<open>What an admission with result \<open>r\<close> adds to the held leases and to the queue.\<close>

definition admitted :: "LeaseError + AdmitOutcome \<Rightarrow> LeaseEngine \<Rightarrow> LeaseEngine \<Rightarrow> bool" where
  "admitted r s s' \<longleftrightarrow>
     (case r of
        Inl _ \<Rightarrow> held_ids s' = held_ids s \<and> queued_ids s' = queued_ids s
      | Inr (Granted g) \<Rightarrow>
          gr_lease_id g \<notin> held_ids s \<union> queued_ids s \<and>
          held_ids s' = insert (gr_lease_id g) (held_ids s) \<and> queued_ids s' = queued_ids s
      | Inr (Queued t _) \<Rightarrow>
          t \<notin> held_ids s \<union> queued_ids s \<and>
          held_ids s' = held_ids s \<and> queued_ids s' = insert t (queued_ids s))"

lemma enqueue_admitted:
  assumes run: "enqueue_pending E s p now = (r, s')"
    and new: "pd_ticket_id p \<notin> held_ids s \<union> queued_ids s"
  shows "admitted r s s'"
proof -
  let ?s1 = "s\<lparr>en_pending := sort_pending (en_pending s @ [p]) now (en_aging_threshold s)\<rparr>"
  obtain r2 s2 where rc: "reconcile_yield_demands E ?s1 now = (r2, s2)" by fastforce
  have q: "queued_ids s2 = insert (pd_ticket_id p) (queued_ids s)"
    using ids_reconcile(2) [OF rc] by (simp add: tickets_reordered) (simp add: queued_ids_def)
  have h: "held_ids s2 = held_ids s" using ids_reconcile(1) [OF rc] by simp
  show ?thesis
  proof (cases r2)
    case (Inl e)
    with run rc have s': "s' = s2\<lparr>en_pending :=
        filter (\<lambda>q. pd_ticket_id q \<noteq> pd_ticket_id p) (en_pending s2)\<rparr>" and r: "r = Inl e"
      by (auto simp: enqueue_pending_def)
    have "queued_ids s' = queued_ids s2 - {pd_ticket_id p}" by (auto simp: s' queued_ids_def)
    with q h new show ?thesis by (simp add: admitted_def r s')
  next
    case (Inr u)
    have "pd_ticket_id p \<in> pd_ticket_id ` set (en_pending s2)" using q by (simp add: queued_ids_def)
    then obtain i where "position (\<lambda>q. pd_ticket_id q = pd_ticket_id p) (en_pending s2) = Some i"
      by (cases "position (\<lambda>q. pd_ticket_id q = pd_ticket_id p) (en_pending s2)")
        (auto simp: position_None)
    with run rc Inr have "s' = s2" and "r = Inr (Queued (pd_ticket_id p) (i + 1))"
      by (auto simp: enqueue_pending_def)
    with q h new show ?thesis by (simp add: admitted_def)
  qed
qed

lemma next_ticket_fresh:
  "engine_inv base s \<Longrightarrow> lease_ticket (en_epoch s) (en_next_sequence s) \<notin> held_ids s \<union> queued_ids s"
  using fresh_ticket [of base s] by (simp add: held_ids_grants queued_ids_def)

lemma admit_at_admitted:
  assumes run: "admit_at E s rq now = (r, s')" and inv: "engine_inv base s"
  shows "admitted r s s'"
  using run
proof (cases rule: admit_at_cases)
  case (tested c n s2 r3 s3)
  have same: "held_ids s3 = held_ids s" "queued_ids s3 = queued_ids s"
    using ids_pruned [OF can_grant_pruned [OF tested(4)]] by (simp_all add: tested(3))
  then have new: "lease_ticket (en_epoch s) (en_next_sequence s) \<notin> held_ids s3 \<union> queued_ids s3"
    using next_ticket_fresh [OF inv] by simp
  from tested(5) show ?thesis
  proof (elim disjE exE conjE)
    fix r4
    assume gr: "grant E s3 (lease_ticket (en_epoch s) (en_next_sequence s)) c now = (r4, s')"
      and r: "r = map_sum id Granted r4"
    show ?thesis
      using ids_grant [OF gr] same new by (cases r4) (auto simp: admitted_def r)
  next
    assume "enqueue_pending E s3 (new_pending s c now) now = (r, s')"
    then have "admitted r s3 s'" by (rule enqueue_admitted) (use new in \<open>simp add: new_pending_def\<close>)
    then show ?thesis by (auto simp: admitted_def same split: sum.splits AdmitOutcome.splits)
  qed (simp add: same admitted_def)
qed (simp_all add: admitted_def)

text \<open>
  C3. No ticket is lost, forged or misreported, whatever appends to the event log fail. An admission
  adds exactly the ticket it returns, an unused one, to the held leases or to the queue, and nothing
  when it fails. A release of a held lease under the right epoch removes exactly that lease and moves
  tickets from the queue to the held leases; when it succeeds it returns that lease and exactly the
  moved tickets (when the promotion after the removal fails, the lease is gone all the same and some
  tickets may have moved); any other release fails and changes nothing. A cancellation of a queued
  ticket under the right epoch removes exactly that ticket, any other fails and changes nothing. A
  preemption round that succeeds removes exactly the leases it was asked to reclaim, all of them held,
  returns them in order, and moves exactly the tickets it returns as promoted; one that fails has
  removed a prefix of what it was asked.
\<close>

theorem tickets_conserved:
  assumes "reachable (fresh_engine E) (engine_step E) s"
  shows "(\<forall>rq now r s'. admit_at E s rq now = (r, s') \<longrightarrow> admitted r s s') \<and>
         (\<forall>l epoch now r s'. release_at E s l epoch now = (r, s') \<longrightarrow>
            (if epoch = en_epoch s \<and> l \<in> held_ids s
             then \<exists>P. exchanged {l} P s s' \<and>
                    (\<forall>out. r = Inr out \<longrightarrow>
                       gr_lease_id (ro_released out) = l \<and> P = gr_lease_id ` set (ro_promoted out))
             else (\<exists>e. r = Inl e) \<and> s' = s)) \<and>
         (\<forall>t epoch r s'. cancel_pending_at s t epoch = (r, s') \<longrightarrow>
            (if epoch = en_epoch s \<and> t \<in> queued_ids s
             then r = Inr () \<and> held_ids s' = held_ids s \<and> queued_ids s' = queued_ids s - {t}
             else (\<exists>e. r = Inl e) \<and> s' = s)) \<and>
         (\<forall>ls now r s'. commit_preemptions E s ls now = (r, s') \<longrightarrow>
            (\<exists>k P. k \<le> length ls \<and> exchanged (set (take k ls)) P s s' \<and>
               (\<forall>out. r = Inr out \<longrightarrow> k = length ls \<and> map gr_lease_id (to_preempted out) = ls \<and>
                  P = gr_lease_id ` set (to_promoted out))))"
proof -
  obtain base where inv: "engine_inv base s" using eng.reachable_invar [OF assms] by blast
  show ?thesis
    using admit_at_admitted [OF _ inv] release_exchanges [OF inv] cancel_removes [OF inv]
      commit_preemptions_exchanges [OF _ inv] by (intro conjI allI impI) assumption+
qed

theorem tickets_conserved_witness:
  "\<exists>P. exchanged {''lease-1-1''} P sample_waiting
         (snd (release_at sample_env sample_waiting ''lease-1-1'' 1 2000200))"
proof -
  have "''lease-1-1'' \<in> held_ids sample_waiting" and "en_epoch sample_waiting = 1"
    by (auto simp: held_ids_def sample_waiting_def sample_state_def sample_held_def)
  then show ?thesis
    using tickets_conserved [OF sample_waiting_reachable, THEN conjunct2, THEN conjunct1, rule_format,
        of "''lease-1-1''" 1 2000200, OF surjective_pairing]
    by auto
qed

end
