(* ===== verification/Lease_Preempt.thy ===== *)
theory Lease_Preempt
  imports Lease_Tickets
begin

text \<open>
  The yield protocol: which demands \<open>reconcile_yield_demands\<close> leaves on the held leases, and
  that a lease is taken away by force only after it was asked and a full grace period passed.
\<close>

section \<open>Sound intents\<close>

text \<open>The lease \<open>l\<close> occupies a slot of the full co-residency pool \<open>q\<close>.\<close>

definition blocks_pool :: "LeaseEngine \<Rightarrow> string \<Rightarrow> string \<Rightarrow> bool" where
  "blocks_pool s l q =
     (case en_pools s q of
        None \<Rightarrow> False
      | Some st \<Rightarrow> pc_predicate (rp_config st) = CoResidency \<and>
          unat (pc_capacity (rp_config st)) \<le> length (rp_holders st) \<and> l \<in> set (rp_holders st))"

definition hard_pool :: "LeaseEngine \<Rightarrow> string \<Rightarrow> bool" where
  "hard_pool s q =
     (case en_pools s q of None \<Rightarrow> False | Some st \<Rightarrow> pc_hard_preempt (rp_config st))"

definition intent_ok ::
  "LeaseEngine \<Rightarrow> PendingRequest set \<Rightarrow> string \<Rightarrow> string \<Rightarrow> bool \<Rightarrow> string list \<Rightarrow> bool" where
  "intent_ok s R l t hard qs \<longleftrightarrow>
     (\<exists>p \<in> R. pd_ticket_id p = t \<and> set qs \<subseteq> set (rq_pools (pd_request p))) \<and>
     (\<exists>h. map_of (en_held s) l = Some h \<and> gr_priority (hl_grant h) \<noteq> Interrupt) \<and>
     qs \<noteq> [] \<and> (\<forall>q \<in> set qs. blocks_pool s l q) \<and> (hard \<longleftrightarrow> (\<forall>q \<in> set qs. hard_pool s q))"

definition desired_ok :: "LeaseEngine \<Rightarrow> PendingRequest set \<Rightarrow> desired \<Rightarrow> bool" where
  "desired_ok s R D \<longleftrightarrow>
     (\<forall>l ts. map_of D l = Some ts \<longrightarrow> ts \<noteq> [] \<and> distinct (map fst ts) \<and>
        (\<forall>t i. map_of ts t = Some i \<longrightarrow> intent_ok s R l t (yi_hard_reclaim i) (yi_pools i)))"

lemma desired_okD:
  "desired_ok s R D \<Longrightarrow> map_of D l = Some ts \<Longrightarrow> map_of ts t = Some i \<Longrightarrow>
     intent_ok s R l t (yi_hard_reclaim i) (yi_pools i)"
  unfolding desired_ok_def by blast

text \<open>Every wanted slot is reserved, and no two tickets want the same slot.\<close>

definition wanted :: "desired \<Rightarrow> string \<Rightarrow> string \<Rightarrow> string set" where
  "wanted D q l =
     {t. \<exists>ts i. map_of D l = Some ts \<and> map_of ts t = Some i \<and> q \<in> set (yi_pools i)}"

definition reserved_ok :: "reservations \<Rightarrow> desired \<Rightarrow> bool" where
  "reserved_ok reserved D \<longleftrightarrow>
     (\<forall>q l. (wanted D q l \<noteq> {} \<longrightarrow> l \<in> reserved q) \<and> (\<exists>t. wanted D q l \<subseteq> {t}))"

lemma rank_less_Interrupt: "rank p < 1000 \<longleftrightarrow> p \<noteq> Interrupt"
  by (cases p) simp_all

lemma eligible_holder:
  assumes inv: "engine_inv base s" and st: "en_pools s q = Some st"
    and h: "h \<in> set (eligible_holders s reserved q st)"
  shows "map_of (en_held s) (gr_lease_id (hl_grant h)) = Some h
     \<and> gr_lease_id (hl_grant h) \<in> set (rp_holders st)
     \<and> gr_priority (hl_grant h) \<noteq> Interrupt \<and> gr_lease_id (hl_grant h) \<notin> reserved q"
proof -
  from h obtain l where l: "l \<in> set (rp_holders st)" "map_of (en_held s) l = Some h"
    and rest: "gr_priority (hl_grant h) \<noteq> Interrupt" "gr_lease_id (hl_grant h) \<notin> reserved q"
    by (auto simp: eligible_holders_def map_filter_def rank_less_Interrupt)
  moreover from l(2) have "held_grants s l = Some (hl_grant h)" by (simp add: held_grants_def)
  then have "gr_lease_id (hl_grant h) = l"
    using inv unfolding engine_inv_def grants_ok_def by blast
  ultimately show ?thesis by simp
qed

lemma yield_candidate_eligible:
  "yield_candidate s reserved t q st = Some h \<Longrightarrow> h \<in> set (eligible_holders s reserved q st)"
  by (auto simp: yield_candidate_def Let_def split: option.splits dest!: min_by_key_Some)

text \<open>What the assignments of one request look like.\<close>

definition assignment_ok ::
  "LeaseEngine \<Rightarrow> reservations \<Rightarrow> string list \<Rightarrow> assignment \<Rightarrow> bool" where
  "assignment_ok s reserved qs a =
     (case a of (q, l, hard) \<Rightarrow>
        q \<in> set qs \<and> blocks_pool s l q \<and> hard = hard_pool s q \<and> l \<notin> reserved q \<and>
        (\<exists>h. map_of (en_held s) l = Some h \<and> gr_priority (hl_grant h) \<noteq> Interrupt))"

lemma assign_victims_ok:
  "assign_victims s reserved t qs = Some as \<Longrightarrow> engine_inv base s \<Longrightarrow> distinct qs \<Longrightarrow>
     list_all (assignment_ok s reserved qs) as \<and> distinct (map fst as) \<and> fst ` set as \<subseteq> set qs"
proof (induction qs arbitrary: as)
  case Nil
  then show ?case by simp
next
  case (Cons q qs)
  have weaken: "list_all (assignment_ok s reserved (q # qs)) bs"
    if "list_all (assignment_ok s reserved qs) bs" for bs
    using that by (auto simp: list_all_iff assignment_ok_def)
  show ?case
  proof (cases "assign_victims s reserved t qs = Some as")
    case True
    with Cons weaken show ?thesis by auto
  next
    case False
    with Cons.prems(1) obtain st h rest where st: "en_pools s q = Some st"
      and full: "pc_predicate (rp_config st) = CoResidency"
        "unat (pc_capacity (rp_config st)) \<le> length (rp_holders st)"
      and h: "yield_candidate s reserved t q st = Some h"
      and rest: "assign_victims s reserved t qs = Some rest"
      and as: "as = (q, gr_lease_id (hl_grant h), pc_hard_preempt (rp_config st)) # rest"
      by (auto split: option.splits if_splits)
    note eligible_holder [OF Cons.prems(2) st yield_candidate_eligible [OF h]]
    with full st have "assignment_ok s reserved (q # qs)
        (q, gr_lease_id (hl_grant h), pc_hard_preempt (rp_config st))"
      by (auto simp: assignment_ok_def blocks_pool_def hard_pool_def)
    moreover have "list_all (assignment_ok s reserved qs) rest \<and> distinct (map fst rest) \<and>
        fst ` set rest \<subseteq> set qs"
      using Cons.IH [OF rest] Cons.prems by simp
    ultimately show ?thesis using weaken Cons.prems(3) by (auto simp: as)
  qed
qed

section \<open>Planning keeps the intents sound\<close>

lemma map_of_add_assignment:
  "map_of (add_assignment t (q, l, hp) D) l' =
     (if l' = l
      then let tickets = (case map_of D l of None \<Rightarrow> [] | Some ts \<Rightarrow> ts)
           in Some (AList.update t (merge_intent q hp (map_of tickets t)) tickets)
      else map_of D l')"
  by (simp add: add_assignment_def Let_def update_conv')

lemma wanted_add:
  "wanted (add_assignment t (q, l, hp) D) q' l' =
     (if q' = q \<and> l' = l then insert t (wanted D q' l') else wanted D q' l')"
proof (cases "l' = l")
  case False
  then show ?thesis by (simp add: wanted_def map_of_add_assignment)
next
  case True
  show ?thesis
    by (auto simp: wanted_def map_of_add_assignment Let_def update_conv' merge_intent_def True
        split: option.splits if_splits)
qed

lemma wanted_fold:
  "wanted (fold (add_assignment t) as D) q l =
     wanted D q l \<union> (if \<exists>hp. (q, l, hp) \<in> set as then {t} else {})"
proof (induction as arbitrary: D)
  case Nil
  then show ?case by simp
next
  case (Cons a as)
  obtain q' l' hp where "a = (q', l', hp)" by (cases a)
  then show ?case by (auto simp: Cons.IH wanted_add split: if_splits)
qed

lemma reserve_fold: "fold reserve as R q = R q \<union> {l. \<exists>hp. (q, l, hp) \<in> set as}"
proof (induction as arbitrary: R)
  case Nil
  then show ?case by simp
next
  case (Cons a as)
  obtain q' l' hp where "a = (q', l', hp)" by (cases a)
  then have "reserve a R q = R q \<union> (if q = q' then {l'} else {})" by (simp add: reserve_def)
  with \<open>a = (q', l', hp)\<close> show ?case by (auto simp: Cons.IH split: if_splits)
qed

lemma reserved_ok_fold:
  assumes "reserved_ok reserved D"
    and "\<And>q l hp. (q, l, hp) \<in> set as \<Longrightarrow> l \<notin> reserved q"
  shows "reserved_ok (fold reserve as reserved) (fold (add_assignment t) as D)"
  unfolding reserved_ok_def wanted_fold reserve_fold
proof (intro allI conjI impI)
  fix q l
  have old: "wanted D q l \<noteq> {} \<longrightarrow> l \<in> reserved q" "\<exists>t. wanted D q l \<subseteq> {t}"
    using assms(1) by (auto simp: reserved_ok_def)
  show "l \<in> reserved q \<union> {l. \<exists>hp. (q, l, hp) \<in> set as}"
    if "wanted D q l \<union> (if \<exists>hp. (q, l, hp) \<in> set as then {t} else {}) \<noteq> {}"
    using that old(1) by (auto split: if_splits)
  show "\<exists>t'. wanted D q l \<union> (if \<exists>hp. (q, l, hp) \<in> set as then {t} else {}) \<subseteq> {t'}"
  proof (cases "\<exists>hp. (q, l, hp) \<in> set as")
    case True
    with assms(2) old(1) have "wanted D q l = {}" by blast
    then show ?thesis by auto
  next
    case False
    with old(2) show ?thesis by simp
  qed
qed

lemma desired_ok_add:
  assumes D: "desired_ok s R D" and p: "p \<in> R" "pd_ticket_id p = t"
    and inj: "inj_on pd_ticket_id R"
    and a: "assignment_ok s reserved (rq_pools (pd_request p)) (q, l, hp)"
  shows "desired_ok s R (add_assignment t (q, l, hp) D)"
proof -
  define ts where "ts = (case map_of D l of None \<Rightarrow> [] | Some ts \<Rightarrow> ts)"
  have ts: "distinct (map fst ts)"
    "\<And>t i. map_of ts t = Some i \<Longrightarrow> intent_ok s R l t (yi_hard_reclaim i) (yi_pools i)"
    using D unfolding ts_def desired_ok_def by (cases "map_of D l"; simp; fail)+
  let ?i = "merge_intent q hp (map_of ts t)"
  have new: "intent_ok s R l t (yi_hard_reclaim ?i) (yi_pools ?i)"
  proof (cases "map_of ts t")
    case None
    with a p show ?thesis by (auto simp: intent_ok_def merge_intent_def assignment_ok_def)
  next
    case (Some i)
    from ts(2) [OF Some] obtain p' where p': "p' \<in> R" "pd_ticket_id p' = t"
      "set (yi_pools i) \<subseteq> set (rq_pools (pd_request p'))" by (auto simp: intent_ok_def)
    with inj p have "p' = p" by (auto dest: inj_onD)
    with p' p a ts(2) [OF Some] Some show ?thesis
      by (auto simp: intent_ok_def merge_intent_def assignment_ok_def List.insert_def)
  qed
  have "AList.update t ?i ts \<noteq> []" by (cases ts) auto
  then show ?thesis
    using D new ts
    by (auto simp: desired_ok_def map_of_add_assignment Let_def ts_def [symmetric] update_conv'
        distinct_update split: if_splits)
qed

lemma desired_ok_fold:
  assumes "desired_ok s R D" and "p \<in> R" and "inj_on pd_ticket_id R"
    and "list_all (assignment_ok s reserved (rq_pools (pd_request p))) as"
  shows "desired_ok s R (fold (add_assignment (pd_ticket_id p)) as D)"
  using assms(1,4)
proof (induction as arbitrary: D)
  case Nil
  then show ?case by simp
next
  case (Cons a as)
  obtain q l hp where a: "a = (q, l, hp)" by (cases a)
  with Cons.prems(2) have "desired_ok s R (add_assignment (pd_ticket_id p) a D)"
    using desired_ok_add [OF Cons.prems(1) assms(2) refl assms(3), of reserved q l hp] by simp
  with Cons.IH Cons.prems(2) show ?case by simp
qed

lemma blocks_pool_pruned:
  assumes "engine_pruned s s'"
  shows "blocks_pool s' l q = blocks_pool s l q" and "hard_pool s' q = hard_pool s q"
proof -
  have "rel_option pool_pruned (en_pools s q) (en_pools s' q)"
    using assms by (simp add: engine_pruned_def)
  then show "blocks_pool s' l q = blocks_pool s l q" and "hard_pool s' q = hard_pool s q"
    by (auto simp: blocks_pool_def hard_pool_def pool_pruned_def elim!: option.rel_cases)
qed

lemma desired_ok_pruned: "engine_pruned s s' \<Longrightarrow> desired_ok s R D \<Longrightarrow> desired_ok s' R D"
  by (simp add: desired_ok_def intent_ok_def blocks_pool_pruned engine_pruned_frame(4))

lemma plan_interrupts_ok:
  assumes "plan_interrupts E now ps reserved D s = (Inr D', s')"
    and "engine_inv base s" and "desired_ok s R D" and "reserved_ok reserved D"
    and "set ps \<subseteq> R" and "inj_on pd_ticket_id R"
    and "\<And>p. p \<in> R \<Longrightarrow> distinct (rq_pools (pd_request p))"
  shows "desired_ok s' R D' \<and> (\<exists>reserved'. reserved_ok reserved' D')"
  using assms(1-5)
proof (induction ps arbitrary: reserved D s)
  case Nil
  then show ?case by auto
next
  case (Cons p ps)
  obtain r1 s1 where w: "windows_allow E (pd_request p) now (rq_pools (pd_request p)) s = (r1, s1)"
    by fastforce
  note pr = windows_allow_pruned [OF w]
  have inv1: "engine_inv base s1" using engine_inv_pruned [OF pr Cons.prems(2)] .
  have D1: "desired_ok s1 R D" using desired_ok_pruned [OF pr Cons.prems(3)] .
  have p: "p \<in> R" "set ps \<subseteq> R" using Cons.prems(5) by simp_all
  from Cons.prems(1) w consider "plan_interrupts E now ps reserved D s1 = (Inr D', s')"
    | as where "assign_victims s1 reserved (pd_ticket_id p) (rq_pools (pd_request p)) = Some as"
      and "plan_interrupts E now ps (fold reserve as reserved)
             (fold (add_assignment (pd_ticket_id p)) as D) s1 = (Inr D', s')"
    by (auto split: sum.splits bool.splits option.splits)
  then show ?case
  proof cases
    case 1
    then show ?thesis using Cons.IH inv1 D1 Cons.prems(4) p(2) by blast
  next
    case 2
    note as = assign_victims_ok [OF 2(1) inv1 assms(7) [OF p(1)]]
    have "reserved_ok (fold reserve as reserved) (fold (add_assignment (pd_ticket_id p)) as D)"
      using as by (intro reserved_ok_fold [OF Cons.prems(4)])
        (auto simp: list_all_iff assignment_ok_def)
    then show ?thesis
      using Cons.IH [OF 2(2) inv1 desired_ok_fold [OF D1 p(1) assms(6)]] as p(2) by blast
  qed
qed

section \<open>The demands after a reconciliation\<close>

definition demand_for :: "int \<Rightarrow> YieldIntent \<Rightarrow> YieldDemand option \<Rightarrow> YieldDemand" where
  "demand_for deadline i old =
     \<lparr>yd_deadline = (case old of None \<Rightarrow> deadline
                     | Some d \<Rightarrow> if yi_hard_reclaim i \<and> \<not> yd_hard_reclaim d then deadline
                                else yd_deadline d),
      yd_hard_reclaim = yi_hard_reclaim i, yd_pools = yi_pools i\<rparr>"

lemma map_of_apply_intent:
  "map_of (apply_intent deadline (t, i) ds) t' =
     (if t' = t then Some (demand_for deadline i (map_of ds t)) else map_of ds t')"
  by (simp add: apply_intent_def demand_for_def update_conv' split: option.split)

lemma map_of_fold_apply_intent:
  "distinct (map fst ts) \<Longrightarrow> map_of (fold (apply_intent deadline) ts ds) t =
     (case map_of ts t of None \<Rightarrow> map_of ds t | Some i \<Rightarrow> Some (demand_for deadline i (map_of ds t)))"
proof (induction ts arbitrary: ds)
  case Nil
  then show ?case by simp
next
  case (Cons ti ts)
  obtain t' i where ti: "ti = (t', i)" by (cases ti)
  show ?case
  proof (cases "t = t'")
    case True
    with Cons.prems have "map_of ts t = None" by (simp add: ti map_of_eq_None_iff)
    with Cons True show ?thesis by (simp add: ti map_of_apply_intent)
  next
    case False
    then have "map_of (apply_intent deadline ti ds) t = map_of ds t"
      by (simp add: ti map_of_apply_intent)
    with Cons False show ?thesis by (simp add: ti split: option.split)
  qed
qed

lemma map_of_update_demands:
  assumes "distinct (map fst ts)"
  shows "map_of (update_demands deadline (Some ts) ds) t =
           map_option (\<lambda>i. demand_for deadline i (map_of ds t)) (map_of ts t)"
proof -
  have "map_of (filter (\<lambda>(ticket, _). map_of ts ticket \<noteq> None) ds) t
      = (if map_of ts t \<noteq> None then map_of ds t else None)"
    by (induction ds) auto
  then show ?thesis
    using map_of_fold_apply_intent [OF assms, of deadline]
    by (cases "map_of ts t") (simp_all add: update_demands_def)
qed

lemma intent_ok_apply:
  "intent_ok s R l t hard qs \<Longrightarrow> intent_ok (apply_desired deadline D s) R l t hard qs"
  by (auto simp: intent_ok_def apply_desired_def blocks_pool_def hard_pool_def map_of_map_pair)

lemma desired_ok_apply: "desired_ok s R D \<Longrightarrow> desired_ok (apply_desired deadline D s) R D"
  unfolding desired_ok_def by (blast intro: intent_ok_apply)

text \<open>A successful reconciliation, with the intents it applied.\<close>

lemma reconcile_desired:
  assumes run: "reconcile_yield_demands E s now = (Inr u, s')" and inv: "engine_inv base s"
  obtains D deadline where "desired_ok s' (set (interrupts s')) D"
    and "\<exists>reserved. reserved_ok reserved D" and "yield_deadline E s now = Inr deadline"
    and "\<And>l. map_of (en_held s') l = map_option (\<lambda>h. h\<lparr>hl_yield_demands :=
           update_demands deadline (map_of D l) (hl_yield_demands h)\<rparr>) (map_of (en_held s) l)"
proof -
  let ?s1 = "s\<lparr>en_pending := refresh_aged_order (en_pending s) now (en_aging_threshold s)\<rparr>"
  obtain D s2 deadline
    where plan: "plan_interrupts E now (interrupts ?s1) (\<lambda>_. {}) [] ?s1 = (Inr D, s2)"
      and dl: "yield_deadline E s2 now = Inr deadline"
      and s': "s' = apply_desired deadline D s2"
    using run by (auto simp: reconcile_yield_demands_def Let_def split: sum.splits prod.splits)
  have inv1: "engine_inv base ?s1" using inv by (rule engine_inv_reorder)
  note pr = plan_interrupts_pruned [OF plan]
  have R: "interrupts s' = interrupts ?s1"
    by (simp add: interrupts_def s' apply_desired_def engine_pruned_frame(5) [OF pr])
  have "inj_on pd_ticket_id (set (en_pending ?s1))"
    using inv1 by (simp add: engine_inv_def pending_ok_def distinct_map)
  then have inj: "inj_on pd_ticket_id (set (interrupts ?s1))"
    by (rule inj_on_subset) (auto simp: interrupts_def)
  have pools: "distinct (rq_pools (pd_request p))" if "p \<in> set (interrupts ?s1)" for p
    using that inv1
    by (auto simp: interrupts_def engine_inv_def pending_ok_def pending_core_ok_def pd_core_def
        canonical_pools_def)
  have ok: "desired_ok s2 (set (interrupts ?s1)) D \<and> (\<exists>reserved. reserved_ok reserved D)"
    by (rule plan_interrupts_ok [OF plan inv1 _ _ subset_refl inj pools])
      (auto simp: desired_ok_def reserved_ok_def wanted_def)
  have held: "map_of (en_held s') l = map_option (\<lambda>h. h\<lparr>hl_yield_demands :=
      update_demands deadline (map_of D l) (hl_yield_demands h)\<rparr>) (map_of (en_held s) l)" for l
    using engine_pruned_frame(4) [OF pr] by (simp add: s' apply_desired_def map_of_map_pair)
  have "desired_ok s' (set (interrupts s')) D"
    using ok desired_ok_apply unfolding R by (auto simp: s')
  moreover have "yield_deadline E s now = Inr deadline"
    using dl engine_pruned_frame(2) [OF pr] by (simp add: yield_deadline_def)
  ultimately show ?thesis using that ok held by blast
qed

text \<open>
  C4. Yield demands are justified: after a successful reconciliation every demand on a held lease
  is made for a queued interrupt request, names only full co-residency pools in which the lease
  occupies a slot the request needs, never falls on an interrupt lease, allows a hard reclaim
  exactly when all these pools opted into it, and no slot is asked for by two requests.
\<close>

theorem yield_demands_sound:
  assumes "reachable (fresh_engine E) (engine_step E) s"
    and "reconcile_yield_demands E s now = (Inr u, s')"
    and "map_of (en_held s') l = Some h"
    and "map_of (hl_yield_demands h) t = Some d"
  shows "intent_ok s' {p \<in> set (en_pending s'). rq_priority (pd_request p) = Interrupt} l t
           (yd_hard_reclaim d) (yd_pools d) \<and>
         (\<forall>t' d' q. map_of (hl_yield_demands h) t' = Some d' \<longrightarrow>
            q \<in> set (yd_pools d) \<inter> set (yd_pools d') \<longrightarrow> t' = t)"
proof -
  obtain base where inv: "engine_inv base s" using eng.reachable_invar [OF assms(1)] by blast
  obtain D deadline where D: "desired_ok s' (set (interrupts s')) D"
    and res: "\<exists>reserved. reserved_ok reserved D"
    and held: "\<And>l. map_of (en_held s') l = map_option (\<lambda>h. h\<lparr>hl_yield_demands :=
           update_demands deadline (map_of D l) (hl_yield_demands h)\<rparr>) (map_of (en_held s) l)"
    by (rule reconcile_desired [OF assms(2) inv]) blast
  from held [of l] assms(3) obtain ds where
    ds: "hl_yield_demands h = update_demands deadline (map_of D l) ds"
    by (cases "map_of (en_held s) l") auto
  with assms(4) obtain ts where ts: "map_of D l = Some ts"
    by (cases "map_of D l") (auto simp: update_demands_def)
  with D have dist: "distinct (map fst ts)" by (auto simp: desired_ok_def)
  have get: "\<exists>i. map_of ts t = Some i \<and> yi_hard_reclaim i = yd_hard_reclaim d \<and>
      yi_pools i = yd_pools d" if "map_of (hl_yield_demands h) t = Some d" for t d
    using that unfolding ds ts map_of_update_demands [OF dist] by (auto simp: demand_for_def)
  from get [OF assms(4)] obtain i where i: "map_of ts t = Some i"
    "yi_hard_reclaim i = yd_hard_reclaim d" "yi_pools i = yd_pools d" by blast
  have "intent_ok s' (set (interrupts s')) l t (yd_hard_reclaim d) (yd_pools d)"
    using desired_okD [OF D ts i(1)] by (simp add: i)
  moreover have "t' = t" if d': "map_of (hl_yield_demands h) t' = Some d'"
    and q: "q \<in> set (yd_pools d) \<inter> set (yd_pools d')" for t' d' q
  proof -
    from get [OF d'] obtain i' where "map_of ts t' = Some i'" "yi_pools i' = yd_pools d'" by blast
    with i ts q have "{t, t'} \<subseteq> wanted D q l" by (auto simp: wanted_def)
    moreover from res obtain x where "wanted D q l \<subseteq> {x}" unfolding reserved_ok_def by blast
    ultimately show ?thesis by blast
  qed
  ultimately show ?thesis by (auto simp: interrupts_def)
qed

text \<open>The demand of the urgent request in the contended sample engine.\<close>

lemma sample_contended_again:
  "map_sum (\<lambda>_. ()) id (fst (reconcile_yield_demands sample_env sample_contended 2000500)) = Inr ()"
  "map_option (\<lambda>h. map_of (hl_yield_demands h) ''lease-1-2'')
     (map_of (en_held (snd (reconcile_yield_demands sample_env sample_contended 2000500))) ''lease-1-1'')
   = Some (Some \<lparr>yd_deadline = 2000020, yd_hard_reclaim = True, yd_pools = [''cpu'']\<rparr>)"
  by code_simp+

theorem yield_demands_sound_witness:
  "\<exists>s'. reconcile_yield_demands sample_env sample_contended 2000500 = (Inr (), s') \<and>
     intent_ok s' {p \<in> set (en_pending s'). rq_priority (pd_request p) = Interrupt}
       ''lease-1-1'' ''lease-1-2'' True [''cpu'']"
proof -
  obtain r s' where run: "reconcile_yield_demands sample_env sample_contended 2000500 = (r, s')"
    by fastforce
  with sample_contended_again(1) have r: "r = Inr ()" by (cases r) auto
  from sample_contended_again(2) run obtain h where
    h: "map_of (en_held s') ''lease-1-1'' = Some h"
    "map_of (hl_yield_demands h) ''lease-1-2''
      = Some \<lparr>yd_deadline = 2000020, yd_hard_reclaim = True, yd_pools = [''cpu'']\<rparr>" by auto
  from yield_demands_sound [OF sample_contended_reachable run [unfolded r] h]
  have "intent_ok s' {p \<in> set (en_pending s'). rq_priority (pd_request p) = Interrupt}
      ''lease-1-1'' ''lease-1-2'' True [''cpu'']" by simp
  with run r show ?thesis by blast
qed

section \<open>Preemption only after the grace period\<close>

text \<open>
  A hard demand that does not carry the deadline of this reconciliation was already hard, with
  the deadline it has.
\<close>

lemma apply_intent_old:
  assumes "(t, d) \<in> set (apply_intent deadline ti ds)" and "yd_hard_reclaim d"
    and "yd_deadline d \<noteq> deadline"
  shows "\<exists>d'. (t, d') \<in> set ds \<and> yd_hard_reclaim d' \<and> yd_deadline d' = yd_deadline d"
proof -
  obtain t' i where ti: "ti = (t', i)" by (cases ti)
  let ?d = "demand_for deadline i (map_of ds t')"
  have ap: "apply_intent deadline ti ds = AList.update t' ?d ds"
    by (simp add: ti apply_intent_def demand_for_def split: option.split)
  show ?thesis
  proof (cases "(t, d) \<in> set ds")
    case True
    with assms(2) show ?thesis by blast
  next
    case False
    have "set (AList.update t' ?d ds) \<subseteq> insert (t', ?d) (set ds)" by (induction ds) auto
    with False assms(1) ap have td: "t = t'" "d = ?d" by auto
    with assms(2,3) obtain d' where "map_of ds t' = Some d'" "yd_hard_reclaim d'"
      "yd_deadline d' = yd_deadline d"
      by (auto simp: demand_for_def split: option.splits if_splits)
    with td show ?thesis by (auto dest: map_of_SomeD)
  qed
qed

lemma fold_apply_intent_old:
  "(t, d) \<in> set (fold (apply_intent deadline) ts ds) \<Longrightarrow> yd_hard_reclaim d \<Longrightarrow>
     yd_deadline d \<noteq> deadline \<Longrightarrow>
     \<exists>d'. (t, d') \<in> set ds \<and> yd_hard_reclaim d' \<and> yd_deadline d' = yd_deadline d"
proof (induction ts arbitrary: ds)
  case Nil
  then show ?case by auto
next
  case (Cons ti ts)
  then obtain d' where d': "(t, d') \<in> set (apply_intent deadline ti ds)" "yd_hard_reclaim d'"
    "yd_deadline d' = yd_deadline d" by fastforce
  with Cons.prems(3) show ?case using apply_intent_old [OF d'(1,2)] by auto
qed

lemma update_demands_reclaimable:
  assumes "reclaimable now (h\<lparr>hl_yield_demands := update_demands deadline w (hl_yield_demands h)\<rparr>)"
    and "now < deadline"
  shows "reclaimable now h"
proof -
  from assms(1) obtain t d where td: "(t, d) \<in> set (update_demands deadline w (hl_yield_demands h))"
    "yd_hard_reclaim d" "yd_deadline d \<le> now"
    by (auto simp: reclaimable_def list_ex_iff)
  then obtain ts where "w = Some ts" by (auto simp: update_demands_def split: option.splits)
  with td assms(2) obtain d' where "(t, d') \<in> set (hl_yield_demands h)" "yd_hard_reclaim d'"
    "yd_deadline d' = yd_deadline d"
    using fold_apply_intent_old [of t d deadline ts] by (fastforce simp: update_demands_def)
  with td(3) show ?thesis by (auto simp: reclaimable_def list_ex_iff)
qed

lemma yield_deadline_later:
  assumes "chrono_laws E" and "0 < en_yield_grace s" and "yield_deadline E s now = Inr deadline"
  shows "now < deadline"
proof -
  from assms(3) obtain d where "delta_from_std E (en_yield_grace s) = Some d"
    and "datetime_add E now d = Some deadline"
    by (auto simp: yield_deadline_def split: option.splits)
  with assms(1) have "d = int (en_yield_grace s)" and "deadline = now + d"
    unfolding chrono_laws_def by blast+
  with assms(2) show ?thesis by simp
qed

lemma reconcile_reclaimable:
  assumes run: "reconcile_yield_demands E s now = (Inr u, s')" and inv: "engine_inv base s"
    and "chrono_laws E" and "0 < en_yield_grace s"
    and h': "map_of (en_held s') l = Some h'" and "reclaimable now h'"
  shows "\<exists>h. map_of (en_held s) l = Some h \<and> hl_grant h = hl_grant h' \<and> reclaimable now h \<and>
           gr_priority (hl_grant h) \<noteq> Interrupt \<and> interrupts s' \<noteq> []"
proof -
  obtain D deadline where D: "desired_ok s' (set (interrupts s')) D"
    and dl: "yield_deadline E s now = Inr deadline"
    and held: "\<And>l. map_of (en_held s') l = map_option (\<lambda>h. h\<lparr>hl_yield_demands :=
           update_demands deadline (map_of D l) (hl_yield_demands h)\<rparr>) (map_of (en_held s) l)"
    by (rule reconcile_desired [OF run inv]) blast
  from held [of l] h' obtain h where h: "map_of (en_held s) l = Some h"
    "h' = h\<lparr>hl_yield_demands := update_demands deadline (map_of D l) (hl_yield_demands h)\<rparr>"
    by (cases "map_of (en_held s) l") auto
  have "reclaimable now h"
    using assms(6) yield_deadline_later [OF assms(3,4) dl]
    by (auto simp: h(2) intro: update_demands_reclaimable)
  moreover from assms(6) obtain ts where ts: "map_of D l = Some ts"
    by (cases "map_of D l") (auto simp: h(2) reclaimable_def update_demands_def)
  then have "ts \<noteq> []" using D unfolding desired_ok_def by blast
  then have "map_of ts (fst (hd ts)) = Some (snd (hd ts))" by (cases ts) auto
  from desired_okD [OF D ts this]
  have "gr_priority (hl_grant h') \<noteq> Interrupt" and "interrupts s' \<noteq> []"
    using h' by (auto simp: intent_ok_def)
  ultimately show ?thesis using h by simp
qed

lemma preempt_all_reclaimable:
  "preempt_all E now ls s = (Inr gs, s') \<Longrightarrow> g \<in> set gs \<Longrightarrow>
     \<exists>l h. map_of (en_held s) l = Some h \<and> hl_grant h = g \<and> reclaimable now h"
proof (induction ls arbitrary: s gs)
  case Nil
  then show ?case by simp
next
  case (Cons l ls)
  from Cons.prems(1) obtain h gs' where h: "map_of (en_held s) l = Some h" "reclaimable now h"
    and rest: "preempt_all E now ls (remove_held s (hl_grant h)) = (Inr gs', s')"
    and gs: "gs = hl_grant h # gs'"
    by (auto simp: append_event_not_grant split: option.splits if_splits sum.splits prod.splits)
  have "map_of (en_held s) l' = Some h'"
    if "map_of (en_held (remove_held s g')) l' = Some h'" for l' h' g'
    using that by (auto simp: remove_held_def delete_conv' split: if_splits)
  with Cons.IH [OF rest] Cons.prems(2) h show ?case by (auto simp: gs) blast
qed

lemma reconcile_frame:
  assumes "reconcile_yield_demands E s now = (r, s')"
  shows "en_yield_grace s' = en_yield_grace s" and "en_epoch s' = en_epoch s"
proof -
  from assms obtain s1 s2 where s1: "s1 = s\<lparr>en_pending :=
      refresh_aged_order (en_pending s) now (en_aging_threshold s)\<rparr>" and pr: "engine_pruned s1 s2"
    and s': "s' = s2 \<or> (\<exists>deadline desired. r = Inr () \<and> s' = apply_desired deadline desired s2)"
    by (rule reconcile_cases)
  have "en_yield_grace s2 = en_yield_grace s" "en_epoch s2 = en_epoch s"
    using engine_pruned_frame(1,2) [OF pr] by (simp_all add: s1)
  with s' show "en_yield_grace s' = en_yield_grace s" and "en_epoch s' = en_epoch s"
    by (auto simp: apply_desired_def)
qed

text \<open>
  C5. No surprise preemption: a lease that \<open>tick\<close> takes away at \<open>now\<close> is not an interrupt lease,
  and already before the tick it carried a hard-reclaim demand whose deadline had passed.  Since
  a demand becomes hard only with a deadline one grace period ahead, the holder was asked at
  least that long ago.
\<close>

theorem preemption_after_grace:
  assumes "chrono_laws E" and "reachable (fresh_engine E) (engine_step E) s"
    and "0 < en_yield_grace s"
    and "tick E s now = (Inr out, s')" and "g \<in> set (to_preempted out)"
  shows "\<exists>h t d. map_of (en_held s) (gr_lease_id g) = Some h \<and> hl_grant h = g \<and>
           gr_priority g \<noteq> Interrupt \<and> (t, d) \<in> set (hl_yield_demands h) \<and>
           yd_hard_reclaim d \<and> yd_deadline d \<le> now"
proof -
  obtain base where inv: "engine_inv base s" using eng.reachable_invar [OF assms(2)] by blast
  from assms(4,5) obtain s1 s2 s3 gs ls where rc1: "reconcile_yield_demands E s now = (Inr (), s1)"
    and rc2: "reconcile_yield_demands E s1 now = (Inr (), s2)"
    and pa: "preempt_all E now ls s2 = (Inr gs, s3)" and g: "g \<in> set gs"
    by (auto simp: tick_def plan_tick_def commit_preemptions_def split: sum.splits prod.splits)
  have inv1: "engine_inv base s1" using engine_inv_reconcile [OF rc1 inv] .
  have gr1: "0 < en_yield_grace s1" using reconcile_frame(1) [OF rc1] assms(3) by simp
  from preempt_all_reclaimable [OF pa g] obtain l h2 where
    h2: "map_of (en_held s2) l = Some h2" "hl_grant h2 = g" "reclaimable now h2" by blast
  from reconcile_reclaimable [OF rc2 inv1 assms(1) gr1 h2(1,3)] h2(2) obtain h1 where
    h1: "map_of (en_held s1) l = Some h1" "hl_grant h1 = g" "reclaimable now h1" by auto
  from reconcile_reclaimable [OF rc1 inv assms(1,3) h1(1,3)] h1(2) obtain h where
    h: "map_of (en_held s) l = Some h" "hl_grant h = g" "reclaimable now h"
    "gr_priority g \<noteq> Interrupt" by auto
  from h(1,2) have "held_grants s l = Some g" by (simp add: held_grants_def)
  then have "gr_lease_id g = l" using inv unfolding engine_inv_def grants_ok_def by blast
  with h show ?thesis by (auto simp: reclaimable_def list_ex_iff)
qed

lemma sample_preemption:
  "map_sum (\<lambda>_. ()) (map gr_lease_id \<circ> to_preempted)
     (fst (tick sample_env sample_contended 2001000)) = Inr [''lease-1-1'']"
  by code_simp

theorem preemption_after_grace_witness:
  "\<exists>out s' g h d. tick sample_env sample_contended 2001000 = (Inr out, s') \<and>
     g \<in> set (to_preempted out) \<and> map_of (en_held sample_contended) ''lease-1-1'' = Some h \<and>
     hl_grant h = g \<and> d \<in> snd ` set (hl_yield_demands h) \<and> yd_deadline d \<le> 2001000"
proof -
  obtain r s' where run: "tick sample_env sample_contended 2001000 = (r, s')" by fastforce
  with sample_preemption obtain out where r: "r = Inr out"
    and "map gr_lease_id (to_preempted out) = [''lease-1-1'']" by (cases r) auto
  then obtain g where g: "g \<in> set (to_preempted out)" "gr_lease_id g = ''lease-1-1''" by auto
  have "0 < en_yield_grace sample_contended"
    by (simp add: sample_contended_def sample_state_def)
  from preemption_after_grace [OF sample_env_laws sample_contended_reachable this
      run [unfolded r] g(1)] g run r show ?thesis by force
qed

end
