(* ===== verification/Lease_Restart.thy ===== *)
theory Lease_Restart
  imports Lease_Preempt
begin

text \<open>
  Leases of an earlier daemon are fenced by their epoch: the counter file only ever grows, whatever
  calls of its updates fail, so no two starts share an epoch.
\<close>

section \<open>The counter only grows\<close>

definition counter_value :: "string option \<Rightarrow> u64 option" where
  "counter_value c = (case c of None \<Rightarrow> Some 0 | Some v \<Rightarrow> parse_u64 (trim v))"

lemma counter_value_written [simp]:
  "counter_value (Some (show_nat (unat e) @ ''\<newline>'')) = Some e"
proof -
  have "is_blank ''\<newline>''" by code_simp
  then show ?thesis by (simp add: counter_value_def trim_show_nat parse_show_u64)
qed

lemma bump_epoch_cases:
  assumes "bump_epoch io c = (r, c')"
  obtains e where "r = Inl e" "c' = c"
  | n e where "counter_value c = Some n" "unat e = unat n + 1" "counter_value c' = Some e"
      "r = Inr e \<or> r = Inl LeaseIo"
proof (cases "c' = c \<and> (\<exists>e. r = Inl e)")
  case True
  then show ?thesis using that(1) by blast
next
  case False
  with assms obtain n e where n: "counter_value c = Some n" "checked_add n 1 = Some e"
    and c': "c' = Some (show_nat (unat e) @ ''\<newline>'')" "r = Inr e \<or> r = Inl LeaseIo"
    by (auto simp: bump_epoch_def counter_value_def
        split: if_splits option.splits sum.splits BumpIo.splits)
  have "counter_value c' = Some e" by (simp only: c'(1) counter_value_written)
  with n c'(2) show ?thesis using that(2) by (auto simp: checked_simps)
qed

lemma bump_epoch_Inr:
  assumes "bump_epoch io c = (Inr e, c')"
  shows "counter_value c' = Some e" and "\<exists>n. counter_value c = Some n \<and> unat e = unat n + 1"
  using assms by (auto elim!: bump_epoch_cases)

text \<open>Any number of daemon starts on one counter file, successful or not.\<close>

inductive daemon_starts :: "string option \<Rightarrow> string option \<Rightarrow> bool" where
  no_start: "daemon_starts c c"
| one_start: "daemon_starts c c1 \<Longrightarrow> bump_epoch io c1 = (r, c2) \<Longrightarrow> daemon_starts c c2"

lemma daemon_starts_mono:
  assumes "daemon_starts c c'" and "counter_value c = Some n"
  shows "\<exists>n'. counter_value c' = Some n' \<and> unat n \<le> unat n'"
  using assms
proof (induction rule: daemon_starts.induct)
  case (no_start c)
  then show ?case by simp
next
  case (one_start c c1 io r c2)
  then obtain n1 where n1: "counter_value c1 = Some n1" "unat n \<le> unat n1" by blast
  from one_start(2) show ?case by (rule bump_epoch_cases) (use n1 in auto)
qed

section \<open>Epochs fence earlier daemons\<close>

text \<open>
  C6. Every successful start takes a larger epoch than every successful start before it, however
  many starts succeeded or failed at any point of the counter's update in between; and an engine of
  the later epoch refuses every release, cancellation, status query and heartbeat that presents the
  earlier one, without changing its state.
\<close>

theorem earlier_epoch_fenced:
  assumes "bump_epoch io counter = (Inr e1, counter1)"
    and "daemon_starts counter1 counter2"
    and "bump_epoch io' counter2 = (Inr e2, counter3)"
    and "en_epoch s = e2"
  shows "unat e1 < unat e2 \<and>
         release_at E s l e1 now = (Inl (StaleEpoch e1 e2), s) \<and>
         cancel_pending_at s l e1 = (Inl (StaleEpoch e1 e2), s) \<and>
         lease_status E s l e1 = Inl (StaleEpoch e1 e2) \<and>
         heartbeat E is_active s l e1 now = (Inl (StaleEpoch e1 e2), s)"
proof -
  have "unat e1 < unat e2"
    using daemon_starts_mono [OF assms(2) bump_epoch_Inr(1) [OF assms(1)]]
      bump_epoch_Inr(2) [OF assms(3)] by auto
  moreover from this have "e1 \<noteq> e2" by auto
  ultimately show ?thesis
    using assms(4)
    by (simp add: release_at_def cancel_pending_at_def lease_status_def heartbeat_def check_epoch_def)
qed

text \<open>Between the two starts of the witness one fails after the rename and one before it.\<close>

theorem earlier_epoch_fenced_witness:
  "bump_epoch BumpDone (Some ''41 '') = (Inr 42, Some ''42\<newline>'') \<and>
   daemon_starts (Some ''42\<newline>'') (Some ''43\<newline>'') \<and>
   bump_epoch BumpDone (Some ''43\<newline>'') = (Inr 44, Some ''44\<newline>'') \<and>
   release_at sample_env (sample_waiting\<lparr>en_epoch := 44\<rparr>) ''lease-1-1'' 42 2000200
     = (Inl (StaleEpoch 42 44), sample_waiting\<lparr>en_epoch := 44\<rparr>)"
proof -
  have a: "bump_epoch BumpDone (Some ''41 '') = (Inr 42, Some ''42\<newline>'')" by code_simp
  have b: "bump_epoch BumpUnsynced (Some ''42\<newline>'') = (Inl LeaseIo, Some ''43\<newline>'')" by code_simp
  have c: "bump_epoch BumpUnstaged (Some ''43\<newline>'') = (Inl LeaseIo, Some ''43\<newline>'')" by code_simp
  have d: "bump_epoch BumpDone (Some ''43\<newline>'') = (Inr 44, Some ''44\<newline>'')" by code_simp
  have "daemon_starts (Some ''42\<newline>'') (Some ''43\<newline>'')"
    by (rule one_start [OF one_start [OF no_start b] c])
  from earlier_epoch_fenced [OF a this d, of "sample_waiting\<lparr>en_epoch := 44\<rparr>" sample_env
      "''lease-1-1''" 2000200] a this d
  show ?thesis by simp
qed

end
