(* ===== verification/Completion.thy ===== *)
theory Completion
  imports Tally_Prelude
begin

text \<open>
  Semantic completion of a job (\<open>completion.rs\<close>): the gate manifest specification, the bounded
  read of the manifest file, its validation, and the acceptance decision.

  The file system and the JSON decoder are parameters: a \<open>ManifestFile\<close> says what each system
  call on the file returns, and \<open>decode\<close> stands for \<open>serde_json::from_slice\<close> into
  \<open>GateManifest\<close>.  JSON values the code only passes on are the type variable \<open>'v\<close>.
\<close>

section \<open>Data\<close>

datatype AcceptancePolicy = Manual | ExecutionAndGates

record GateManifestSpec =
  gs_path :: string
  gs_required_gate_ids :: "string list"
  gs_acceptance_policy :: AcceptancePolicy

datatype ExecutionStatus = ExecSuccess | ExecFailure

record ExecutionFact =
  ef_status :: ExecutionStatus
  ef_exit_code :: "32 word option"
  ef_reason :: string

datatype DeclaredGateStatus = DeclaredPass | DeclaredFail | DeclaredNotRun

record DeclaredGate =
  dg_id :: string
  dg_status :: DeclaredGateStatus
  dg_command :: "string option"
  dg_reason :: "string option"

datatype GateSummaryStatus = SummaryPass | SummaryFail | SummaryNotRun

datatype IoKind = NotFoundIo | OtherIo

text \<open>\<open>InvalidSpec\<close> and \<open>InvalidManifest\<close> carry the condition that failed in place of a message.\<close>

datatype SpecFault = PathNotAbsolute | PathNotUtf8 | PathControl | BadRequiredId string | RepeatedRequiredId string

datatype ManifestFault =
    UnsupportedVersion u32
  | BadGateId string
  | BadGateText string string
  | NotRunWithoutReason string
  | RepeatedGateId string

datatype CompletionError =
    InvalidSpec SpecFault
  | ReadError string IoKind
  | NotRegular string
  | TooLarge string nat
  | Changed string
  | InvalidJson string
  | InvalidManifest ManifestFault

record 'v GateSummary =
  sm_status :: GateSummaryStatus
  sm_artifact :: "'v option"
  sm_gates :: "DeclaredGate list"
  sm_missing_required_gate_ids :: "string list"
  sm_manifest_error :: "CompletionError option"

datatype AcceptanceStatus = Pending | Accepted | Rejected

record AcceptanceFact =
  af_status :: AcceptanceStatus
  af_policy :: AcceptancePolicy
  af_reason :: string

record 'v SemanticCompletion =
  sc_schema_version :: u32
  sc_execution :: ExecutionFact
  sc_gates :: "'v GateSummary"
  sc_acceptance :: AcceptanceFact

record 'v GateManifest =
  gm_schema_version :: u32
  gm_artifact :: 'v
  gm_gates :: "DeclaredGate list"

definition GATE_MANIFEST_SCHEMA_VERSION :: u32 where
  "GATE_MANIFEST_SCHEMA_VERSION = 1"

definition MAX_GATE_MANIFEST_BYTES :: nat where
  "MAX_GATE_MANIFEST_BYTES = 1024 * 1024"

definition MAX_GATE_ID_BYTES :: nat where
  "MAX_GATE_ID_BYTES = 96"

definition MAX_GATE_TEXT_BYTES :: nat where
  "MAX_GATE_TEXT_BYTES = 16 * 1024"

text \<open>\<open>ExecutionFact::exited\<close> and \<open>ExecutionFact::failed\<close>.\<close>

definition show_i32 :: "32 word \<Rightarrow> string" where
  "show_i32 w = (if sint w < 0 then CHR ''-'' # show_nat (nat (- sint w)) else show_nat (nat (sint w)))"

definition exited :: "32 word \<Rightarrow> ExecutionFact" where
  "exited exit_code =
     \<lparr>ef_status = (if exit_code = 0 then ExecSuccess else ExecFailure),
      ef_exit_code = Some exit_code,
      ef_reason = ''process exited with code '' @ show_i32 exit_code\<rparr>"

definition failed :: "string \<Rightarrow> ExecutionFact" where
  "failed reason = \<lparr>ef_status = ExecFailure, ef_exit_code = None, ef_reason = reason\<rparr>"

section \<open>Validation\<close>

definition gate_id_byte :: "char \<Rightarrow> bool" where
  "gate_id_byte c \<longleftrightarrow> is_ascii_alphanumeric c \<or> c = CHR ''_'' \<or> c = CHR ''.'' \<or> c = CHR ''-''"

text \<open>\<open>validate_gate_id\<close>: \<open>True\<close> when the identifier is accepted.\<close>

definition validate_gate_id :: "string \<Rightarrow> bool" where
  "validate_gate_id gate_id \<longleftrightarrow>
     \<not> (gate_id = [] \<or> length gate_id > MAX_GATE_ID_BYTES \<or>
        \<not> list_all gate_id_byte gate_id \<or>
        \<not> (case gate_id of [] \<Rightarrow> False | c # _ \<Rightarrow> is_ascii_alphanumeric c))"

fun check_required_ids :: "string list \<Rightarrow> string set \<Rightarrow> CompletionError option" where
  "check_required_ids [] unique = None"
| "check_required_ids (g # gs) unique =
     (if \<not> validate_gate_id g then Some (InvalidSpec (BadRequiredId g))
      else if g \<in> unique then Some (InvalidSpec (RepeatedRequiredId g))
      else check_required_ids gs (insert g unique))"

definition validate_spec :: "GateManifestSpec \<Rightarrow> CompletionError option" where
  "validate_spec spec =
     (if \<not> starts_with (gs_path spec) ''/'' then Some (InvalidSpec PathNotAbsolute)
      else if \<not> valid_utf8 (map byte (gs_path spec)) then Some (InvalidSpec PathNotUtf8)
      else if has_control (gs_path spec) then Some (InvalidSpec PathControl)
      else check_required_ids (gs_required_gate_ids spec) {})"

definition bad_gate_text :: "string option \<Rightarrow> bool" where
  "bad_gate_text value =
     (case value of
        None \<Rightarrow> False
      | Some v \<Rightarrow> v = [] \<or> length v > MAX_GATE_TEXT_BYTES \<or>
          list_ex (\<lambda>c. byte c = 0) v \<or> list_ex (\<lambda>c. byte c = 13) v)"

definition validate_gate :: "DeclaredGate \<Rightarrow> CompletionError option" where
  "validate_gate gate =
     (if \<not> validate_gate_id (dg_id gate) then Some (InvalidManifest (BadGateId (dg_id gate)))
      else if bad_gate_text (dg_command gate)
      then Some (InvalidManifest (BadGateText (dg_id gate) ''command''))
      else if bad_gate_text (dg_reason gate)
      then Some (InvalidManifest (BadGateText (dg_id gate) ''reason''))
      else if dg_status gate = DeclaredNotRun \<and>
              (case dg_reason gate of None \<Rightarrow> True | Some r \<Rightarrow> is_blank r)
      then Some (InvalidManifest (NotRunWithoutReason (dg_id gate)))
      else None)"

section \<open>Reading the manifest\<close>

record FileMeta =
  fm_regular :: bool
  fm_len :: nat
  fm_modified :: "int option"
  fm_ino :: u64

text \<open>What the calls on the opened file return: \<open>open\<close>, both \<open>metadata\<close> calls, the contents a
  read sees, and \<open>seek\<close>.\<close>

record ManifestFile =
  mf_open :: "IoKind + unit"
  mf_before :: "IoKind + FileMeta"
  mf_content :: "IoKind + u8 list"
  mf_seek :: "IoKind + unit"
  mf_after :: "IoKind + FileMeta"

definition read_bounded_regular :: "string \<Rightarrow> ManifestFile \<Rightarrow> CompletionError + u8 list" where
  "read_bounded_regular path f =
     (case mf_open f of
        Inl k \<Rightarrow> Inl (ReadError path k)
      | Inr _ \<Rightarrow>
          (case mf_before f of
             Inl k \<Rightarrow> Inl (ReadError path k)
           | Inr before \<Rightarrow>
               if \<not> fm_regular before then Inl (NotRegular path)
               else if fm_len before > MAX_GATE_MANIFEST_BYTES
               then Inl (TooLarge path MAX_GATE_MANIFEST_BYTES)
               else
                 (case mf_content f of
                    Inl k \<Rightarrow> Inl (ReadError path k)
                  | Inr content \<Rightarrow>
                      (let bytes = take (MAX_GATE_MANIFEST_BYTES + 1) content
                       in if length bytes > MAX_GATE_MANIFEST_BYTES
                          then Inl (TooLarge path MAX_GATE_MANIFEST_BYTES)
                          else
                            (case mf_seek f of
                               Inl k \<Rightarrow> Inl (ReadError path k)
                             | Inr _ \<Rightarrow>
                                 (case mf_after f of
                                    Inl k \<Rightarrow> Inl (ReadError path k)
                                  | Inr after \<Rightarrow>
                                      if fm_len before \<noteq> fm_len after \<or>
                                         fm_modified before \<noteq> fm_modified after \<or>
                                         fm_ino before \<noteq> fm_ino after
                                      then Inl (Changed path) else Inr bytes))))))"

fun check_gates :: "DeclaredGate list \<Rightarrow> string set \<Rightarrow> CompletionError option" where
  "check_gates [] declared = None"
| "check_gates (g # gs) declared =
     (case validate_gate g of
        Some e \<Rightarrow> Some e
      | None \<Rightarrow>
          if dg_id g \<in> declared then Some (InvalidManifest (RepeatedGateId (dg_id g)))
          else check_gates gs (insert (dg_id g) declared))"

definition summarize_gates :: "GateManifestSpec \<Rightarrow> 'v GateManifest \<Rightarrow> 'v GateSummary" where
  "summarize_gates spec manifest =
     (let missing = filter (\<lambda>r. \<not> list_ex (\<lambda>g. dg_id g = r) (gm_gates manifest))
                      (gs_required_gate_ids spec)
      in \<lparr>sm_status =
            (if missing \<noteq> [] \<or> list_ex (\<lambda>g. dg_status g = DeclaredFail) (gm_gates manifest)
             then SummaryFail
             else if list_ex (\<lambda>g. dg_status g = DeclaredNotRun) (gm_gates manifest)
             then SummaryNotRun else SummaryPass),
          sm_artifact = Some (gm_artifact manifest), sm_gates = gm_gates manifest,
          sm_missing_required_gate_ids = missing, sm_manifest_error = None\<rparr>)"

definition read_gate_manifest ::
  "(u8 list \<Rightarrow> 'v GateManifest option) \<Rightarrow> GateManifestSpec \<Rightarrow> ManifestFile
     \<Rightarrow> CompletionError + 'v GateSummary" where
  "read_gate_manifest decode spec f =
     (case validate_spec spec of
        Some e \<Rightarrow> Inl e
      | None \<Rightarrow>
          (case read_bounded_regular (gs_path spec) f of
             Inl e \<Rightarrow> Inl e
           | Inr bytes \<Rightarrow>
               (case decode bytes of
                  None \<Rightarrow> Inl (InvalidJson (gs_path spec))
                | Some manifest \<Rightarrow>
                    if gm_schema_version manifest \<noteq> GATE_MANIFEST_SCHEMA_VERSION
                    then Inl (InvalidManifest (UnsupportedVersion (gm_schema_version manifest)))
                    else
                      (case check_gates (gm_gates manifest) {} of
                         Some e \<Rightarrow> Inl e
                       | None \<Rightarrow> Inr (summarize_gates spec manifest)))))"

section \<open>Acceptance\<close>

definition acceptance :: "ExecutionFact \<Rightarrow> 'v GateSummary \<Rightarrow> AcceptancePolicy \<Rightarrow> AcceptanceFact" where
  "acceptance execution gates policy =
     (let (status, reason) =
        (case policy of
           Manual \<Rightarrow> (Pending, ''manual acceptance has not been recorded'')
         | ExecutionAndGates \<Rightarrow>
             if ef_status execution = ExecFailure \<or> sm_status gates = SummaryFail
             then (Rejected, ''execution or a declared gate failed'')
             else if sm_status gates = SummaryNotRun
             then (Pending, ''at least one declared gate was explicitly not run'')
             else (Accepted, ''execution succeeded and every declared gate passed''))
      in \<lparr>af_status = status, af_policy = policy, af_reason = reason\<rparr>)"

definition failed_summary ::
  "GateSummaryStatus \<Rightarrow> GateManifestSpec \<Rightarrow> CompletionError \<Rightarrow> 'v GateSummary" where
  "failed_summary status spec e =
     \<lparr>sm_status = status, sm_artifact = None, sm_gates = [],
      sm_missing_required_gate_ids = gs_required_gate_ids spec, sm_manifest_error = Some e\<rparr>"

definition evaluate_completion ::
  "(u8 list \<Rightarrow> 'v GateManifest option) \<Rightarrow> ManifestFile \<Rightarrow> ExecutionFact \<Rightarrow> GateManifestSpec
     \<Rightarrow> 'v SemanticCompletion" where
  "evaluate_completion decode f execution spec =
     (let gates =
        (case read_gate_manifest decode spec f of
           Inr summary \<Rightarrow> summary
         | Inl e \<Rightarrow>
             (case e of
                ReadError _ NotFoundIo \<Rightarrow> failed_summary SummaryNotRun spec e
              | _ \<Rightarrow> failed_summary SummaryFail spec e))
      in \<lparr>sc_schema_version = GATE_MANIFEST_SCHEMA_VERSION, sc_execution = execution,
          sc_gates = gates,
          sc_acceptance = acceptance execution gates (gs_acceptance_policy spec)\<rparr>)"

section \<open>What acceptance means\<close>

text \<open>The manifest that is evaluated: present, bounded, unchanged while read, decoded and valid.\<close>

definition usable_manifest ::
  "(u8 list \<Rightarrow> 'v GateManifest option) \<Rightarrow> GateManifestSpec \<Rightarrow> ManifestFile \<Rightarrow> 'v GateManifest \<Rightarrow> bool"
where
  "usable_manifest decode spec f m \<longleftrightarrow>
     validate_spec spec = None \<and>
     (\<exists>bytes. read_bounded_regular (gs_path spec) f = Inr bytes \<and> decode bytes = Some m) \<and>
     gm_schema_version m = GATE_MANIFEST_SCHEMA_VERSION \<and> check_gates (gm_gates m) {} = None"

lemma read_gate_manifest_Inr:
  "read_gate_manifest decode spec f = Inr sm \<longleftrightarrow>
     (\<exists>m. usable_manifest decode spec f m \<and> sm = summarize_gates spec m)"
  by (auto simp: read_gate_manifest_def usable_manifest_def split: option.splits sum.splits if_splits)

lemma read_gate_manifest_notfound:
  "read_gate_manifest decode spec f = Inl (ReadError p NotFoundIo) \<Longrightarrow>
     \<not> usable_manifest decode spec f m"
  using read_gate_manifest_Inr [of decode spec f] by force

lemma summarize_status:
  "sm_status (summarize_gates spec m) = SummaryFail \<longleftrightarrow>
     \<not> set (gs_required_gate_ids spec) \<subseteq> dg_id ` set (gm_gates m) \<or>
     DeclaredFail \<in> dg_status ` set (gm_gates m)"
  "sm_status (summarize_gates spec m) = SummaryPass \<longleftrightarrow>
     set (gs_required_gate_ids spec) \<subseteq> dg_id ` set (gm_gates m) \<and>
     dg_status ` set (gm_gates m) \<subseteq> {DeclaredPass}"
proof -
  let ?G = "gm_gates m"
  have missing: "filter (\<lambda>r. \<not> list_ex (\<lambda>g. dg_id g = r) ?G) (gs_required_gate_ids spec) = []
      \<longleftrightarrow> set (gs_required_gate_ids spec) \<subseteq> dg_id ` set ?G"
    by (simp add: filter_empty_conv list_ex_iff image_iff subset_iff) metis
  have has: "list_ex (\<lambda>g. dg_status g = x) ?G \<longleftrightarrow> x \<in> dg_status ` set ?G" for x
    by (auto simp: list_ex_iff)
  have all: "X \<subseteq> {DeclaredPass} \<longleftrightarrow> DeclaredFail \<notin> X \<and> DeclaredNotRun \<notin> X" for X
    by (auto simp: subset_iff) (metis DeclaredGateStatus.exhaust)
  show "sm_status (summarize_gates spec m) = SummaryFail \<longleftrightarrow>
     \<not> set (gs_required_gate_ids spec) \<subseteq> dg_id ` set (gm_gates m) \<or>
     DeclaredFail \<in> dg_status ` set (gm_gates m)"
    by (simp add: summarize_gates_def Let_def missing has)
  show "sm_status (summarize_gates spec m) = SummaryPass \<longleftrightarrow>
     set (gs_required_gate_ids spec) \<subseteq> dg_id ` set (gm_gates m) \<and>
     dg_status ` set (gm_gates m) \<subseteq> {DeclaredPass}"
    by (simp add: summarize_gates_def Let_def missing has all)
qed

lemma check_gates_sound:
  "check_gates gs declared = None \<Longrightarrow>
     distinct (map dg_id gs) \<and> dg_id ` set gs \<inter> declared = {} \<and>
     list_all (\<lambda>g. validate_gate g = None) gs"
  by (induction gs arbitrary: declared) (auto split: option.splits if_splits)

lemma validate_gate_idD: "validate_gate g = None \<Longrightarrow> validate_gate_id (dg_id g)"
  by (auto simp: validate_gate_def split: if_splits)

text \<open>
  C17. A job is accepted automatically exactly when its policy asks for it, it exited with success
  and a usable manifest declares every required gate and reports every declared gate as passed;
  it is rejected exactly when the execution failed or the gates did, where a manifest that cannot
  be used for any reason but its absence counts as a failed gate.
\<close>

theorem completion_decides:
  fixes decode :: "u8 list \<Rightarrow> 'v GateManifest option"
  defines "status f ex spec \<equiv> af_status (sc_acceptance (evaluate_completion decode f ex spec))"
  shows "(status f ex spec = Accepted \<longleftrightarrow>
            gs_acceptance_policy spec = ExecutionAndGates \<and> ef_status ex = ExecSuccess \<and>
            (\<exists>m. usable_manifest decode spec f m \<and>
               set (gs_required_gate_ids spec) \<subseteq> dg_id ` set (gm_gates m) \<and>
               dg_status ` set (gm_gates m) \<subseteq> {DeclaredPass})) \<and>
         (status f ex spec = Rejected \<longleftrightarrow>
            gs_acceptance_policy spec = ExecutionAndGates \<and>
            (ef_status ex = ExecFailure \<or>
             (\<exists>m. usable_manifest decode spec f m \<and>
                (\<not> set (gs_required_gate_ids spec) \<subseteq> dg_id ` set (gm_gates m) \<or>
                 DeclaredFail \<in> dg_status ` set (gm_gates m))) \<or>
             (\<exists>e. read_gate_manifest decode spec f = Inl e \<and> (\<forall>p. e \<noteq> ReadError p NotFoundIo))))"
proof (cases "read_gate_manifest decode spec f")
  case (Inr sm)
  then obtain m where m: "usable_manifest decode spec f m" "sm = summarize_gates spec m"
    using read_gate_manifest_Inr [of decode spec f sm] by blast
  have only: "m' = m" if "usable_manifest decode spec f m'" for m'
    using that m(1) by (auto simp: usable_manifest_def)
  have ev: "status f ex spec = af_status (acceptance ex sm (gs_acceptance_policy spec))"
    by (simp add: status_def evaluate_completion_def Inr Let_def)
  have acc: "status f ex spec = Accepted \<longleftrightarrow> gs_acceptance_policy spec = ExecutionAndGates \<and>
        ef_status ex = ExecSuccess \<and> sm_status sm = SummaryPass"
    and rej: "status f ex spec = Rejected \<longleftrightarrow> gs_acceptance_policy spec = ExecutionAndGates \<and>
        (ef_status ex = ExecFailure \<or> sm_status sm = SummaryFail)"
    unfolding ev acceptance_def
    by (cases "gs_acceptance_policy spec"; cases "ef_status ex"; cases "sm_status sm"; simp)+
  have ex1: "(\<exists>m. usable_manifest decode spec f m \<and> P m) \<longleftrightarrow> P m" for P
    using m(1) only by blast
  show ?thesis unfolding acc rej m(2) summarize_status ex1 using Inr by simp
next
  case (Inl e)
  then have no: "\<not> usable_manifest decode spec f m" for m
    using read_gate_manifest_Inr [of decode spec f] by auto
  show ?thesis
    using no
    by (cases "gs_acceptance_policy spec"; cases "ef_status ex")
      (auto simp: status_def evaluate_completion_def acceptance_def failed_summary_def Inl Let_def
        split: CompletionError.splits IoKind.splits)
qed

text \<open>A manifest with one passing required gate.\<close>

definition sample_spec :: GateManifestSpec where
  "sample_spec = \<lparr>gs_path = ''/run/gates.json'', gs_required_gate_ids = [''lint''],
     gs_acceptance_policy = ExecutionAndGates\<rparr>"

definition sample_meta :: FileMeta where
  "sample_meta = \<lparr>fm_regular = True, fm_len = 1, fm_modified = Some 5, fm_ino = 7\<rparr>"

definition sample_file :: ManifestFile where
  "sample_file = \<lparr>mf_open = Inr (), mf_before = Inr sample_meta, mf_content = Inr [123],
     mf_seek = Inr (), mf_after = Inr sample_meta\<rparr>"

definition sample_decode :: "u8 list \<Rightarrow> unit GateManifest option" where
  "sample_decode bs = (if bs = [123] then Some \<lparr>gm_schema_version = 1, gm_artifact = (),
     gm_gates = [\<lparr>dg_id = ''lint'', dg_status = DeclaredPass, dg_command = None,
                 dg_reason = None\<rparr>]\<rparr> else None)"

lemma sample_manifest:
  "validate_spec sample_spec = None"
  "read_bounded_regular (gs_path sample_spec) sample_file = Inr [123]"
  "check_gates [\<lparr>dg_id = ''lint'', dg_status = DeclaredPass, dg_command = None, dg_reason = None\<rparr>] {}
     = None"
proof -
  show "validate_spec sample_spec = None" by code_simp
  show "read_bounded_regular (gs_path sample_spec) sample_file = Inr [123]"
    by (simp add: read_bounded_regular_def sample_file_def sample_meta_def
        MAX_GATE_MANIFEST_BYTES_def take_Cons')
  show "check_gates [\<lparr>dg_id = ''lint'', dg_status = DeclaredPass, dg_command = None,
      dg_reason = None\<rparr>] {} = None" by code_simp
qed

theorem completion_decides_witness:
  "af_status (sc_acceptance (evaluate_completion sample_decode sample_file (exited 0) sample_spec))
     = Accepted"
proof -
  have "\<exists>m. usable_manifest sample_decode sample_spec sample_file m \<and>
      set (gs_required_gate_ids sample_spec) \<subseteq> dg_id ` set (gm_gates m) \<and>
      dg_status ` set (gm_gates m) \<subseteq> {DeclaredPass}"
    using sample_manifest
    by (auto simp: usable_manifest_def sample_decode_def GATE_MANIFEST_SCHEMA_VERSION_def
        sample_spec_def)
  moreover have "gs_acceptance_policy sample_spec = ExecutionAndGates"
    and "ef_status (exited 0) = ExecSuccess"
    by (simp_all add: sample_spec_def exited_def)
  ultimately show ?thesis using completion_decides [of sample_decode sample_file "exited 0" sample_spec] by blast
qed

text \<open>
  C18. A manifest the daemon reports on was read whole from a regular file of at most one mebibyte
  that did not change meanwhile; its gate identifiers are distinct and well-formed, every gate
  reported as not run states a reason, and the missing gates are exactly the required ones it does
  not declare.
\<close>

theorem gate_manifest_checked:
  assumes "read_gate_manifest decode spec f = Inr sm"
  shows "(\<exists>meta bytes. mf_before f = Inr meta \<and> fm_regular meta \<and> mf_content f = Inr bytes \<and>
            length bytes \<le> 1048576) \<and>
         distinct (map dg_id (sm_gates sm)) \<and>
         (\<forall>g \<in> set (sm_gates sm). validate_gate_id (dg_id g) \<and>
            (dg_status g = DeclaredNotRun \<longrightarrow> (\<exists>r. dg_reason g = Some r \<and> \<not> is_blank r))) \<and>
         set (sm_missing_required_gate_ids sm) =
           set (gs_required_gate_ids spec) - dg_id ` set (sm_gates sm)"
proof -
  from assms obtain m where m: "usable_manifest decode spec f m" and sm: "sm = summarize_gates spec m"
    using read_gate_manifest_Inr [of decode spec f sm] by blast
  have gates: "sm_gates sm = gm_gates m" by (simp add: sm summarize_gates_def Let_def)
  have ok: "distinct (map dg_id (gm_gates m)) \<and> list_all (\<lambda>g. validate_gate g = None) (gm_gates m)"
    using m check_gates_sound by (auto simp: usable_manifest_def)
  have reason: "\<exists>r. dg_reason g = Some r \<and> \<not> is_blank r"
    if "validate_gate g = None" "dg_status g = DeclaredNotRun" for g
    using that by (auto simp: validate_gate_def split: if_splits option.splits)
  have "set (sm_missing_required_gate_ids sm) =
      set (gs_required_gate_ids spec) - dg_id ` set (gm_gates m)"
    by (auto simp: sm summarize_gates_def Let_def list_ex_iff)
  moreover from m obtain bytes where "read_bounded_regular (gs_path spec) f = Inr bytes"
    by (auto simp: usable_manifest_def)
  then have "\<exists>meta bytes. mf_before f = Inr meta \<and> fm_regular meta \<and> mf_content f = Inr bytes \<and>
      length bytes \<le> 1048576"
    by (auto simp: read_bounded_regular_def Let_def MAX_GATE_MANIFEST_BYTES_def
        split: sum.splits if_splits)
  ultimately show ?thesis
    using ok reason by (auto simp: gates list_all_iff dest: validate_gate_idD)
qed

theorem gate_manifest_checked_witness:
  "\<exists>sm. read_gate_manifest sample_decode sample_spec sample_file = Inr sm \<and>
     distinct (map dg_id (sm_gates sm)) \<and> length (sm_gates sm) = 1"
proof -
  have "\<exists>m. usable_manifest sample_decode sample_spec sample_file m \<and> length (gm_gates m) = 1"
    using sample_manifest
    by (auto simp: usable_manifest_def sample_decode_def GATE_MANIFEST_SCHEMA_VERSION_def)
  then obtain m where m: "usable_manifest sample_decode sample_spec sample_file m"
    "length (gm_gates m) = 1" by blast
  define sm where "sm = summarize_gates sample_spec m"
  have sm: "read_gate_manifest sample_decode sample_spec sample_file = Inr sm"
    "length (sm_gates sm) = 1"
    using m read_gate_manifest_Inr [of sample_decode sample_spec sample_file sm]
    by (auto simp: sm_def summarize_gates_def Let_def)
  with gate_manifest_checked [OF sm(1)] show ?thesis by blast
qed

end
