(* ===== verification/Gate_Budget.thy ===== *)
theory Gate_Budget
  imports Tally_Prelude
begin

text \<open>
  Effective runtime budgets of campaign gates (\<open>gate_budget.rs\<close>): the declared budget, or one
  derived from the recorded durations of the gate with saturating 64-bit arithmetic.
\<close>

definition GATE_BUDGET_SLACK_PERCENT :: u64 where
  "GATE_BUDGET_SLACK_PERCENT = 200"

definition GATE_BUDGET_MIN_DERIVED_SEC :: u64 where
  "GATE_BUDGET_MIN_DERIVED_SEC = 60"

definition GATE_BUDGET_UNOBSERVED_SEC :: u64 where
  "GATE_BUDGET_UNOBSERVED_SEC = 3600"

datatype GateBudgetSource = Declared | Derived | Unobserved

definition source_str :: "GateBudgetSource \<Rightarrow> string" where
  "source_str s = (case s of Declared \<Rightarrow> ''declared'' | Derived \<Rightarrow> ''derived'' | Unobserved \<Rightarrow> ''unobserved'')"

record GateBudget =
  gb_gate_id :: string
  gb_runtime_max_sec :: u64
  gb_source :: GateBudgetSource
  gb_observations :: nat
  gb_observed_high_water_sec :: "u64 option"
  gb_derivation :: string

text \<open>\<open>observations.iter().copied().max()\<close>.\<close>

fun list_max :: "u64 list \<Rightarrow> u64 option" where
  "list_max [] = None"
| "list_max (x # xs) = (case list_max xs of None \<Rightarrow> Some x | Some m \<Rightarrow> Some (max x m))"

definition derived_budget :: "u64 \<Rightarrow> u64" where
  "derived_budget high_water =
     max (saturating_mul high_water GATE_BUDGET_SLACK_PERCENT div 100) GATE_BUDGET_MIN_DERIVED_SEC"

definition budget_derivation :: "string \<Rightarrow> u64 \<Rightarrow> GateBudgetSource \<Rightarrow> nat \<Rightarrow> u64 option \<Rightarrow> string" where
  "budget_derivation gate_id runtime_max_sec source n high_water =
     ''gate '' @ gate_id @ '': '' @ show_nat (unat runtime_max_sec) @
     (case source of
        Declared \<Rightarrow> ''s declared by the worklist and honored verbatim''
      | Derived \<Rightarrow>
          ''s derived from '' @ show_nat n @ '' receipt observation(s), high water '' @
          show_nat (unat (case high_water of None \<Rightarrow> 0 | Some h \<Rightarrow> h)) @ ''s x '' @
          show_nat (unat GATE_BUDGET_SLACK_PERCENT) @ ''% slack (floor '' @
          show_nat (unat GATE_BUDGET_MIN_DERIVED_SEC) @ ''s)''
      | Unobserved \<Rightarrow> ''s from the never-fired floor; no receipt records this gate firing'')"

definition resolve_gate_budget :: "string \<Rightarrow> u64 option \<Rightarrow> u64 list \<Rightarrow> GateBudget" where
  "resolve_gate_budget gate_id declared_runtime_max_sec observations =
     (let high_water = list_max observations;
          (runtime_max_sec, source) =
            (case (declared_runtime_max_sec, high_water) of
               (Some declared, _) \<Rightarrow> (declared, Declared)
             | (None, Some h) \<Rightarrow> (derived_budget h, Derived)
             | (None, None) \<Rightarrow> (GATE_BUDGET_UNOBSERVED_SEC, Unobserved))
      in \<lparr>gb_gate_id = gate_id, gb_runtime_max_sec = runtime_max_sec, gb_source = source,
          gb_observations = length observations, gb_observed_high_water_sec = high_water,
          gb_derivation = budget_derivation gate_id runtime_max_sec source (length observations)
                            high_water\<rparr>)"

section \<open>Bounds\<close>

lemma list_max_None [simp]: "list_max xs = None \<longleftrightarrow> xs = []"
  by (cases xs) (auto split: option.splits)

lemma list_max_ex: "xs \<noteq> [] \<Longrightarrow> \<exists>m. list_max xs = Some m"
  by (cases "list_max xs") auto

lemma list_max_Some: "list_max xs = Some m \<Longrightarrow> m \<in> set xs \<and> (\<forall>x \<in> set xs. x \<le> m)"
proof (induction xs arbitrary: m)
  case Nil
  then show ?case by simp
next
  case (Cons x xs)
  show ?case
  proof (cases "list_max xs")
    case None
    with Cons.prems show ?thesis by auto
  next
    case (Some k)
    with Cons.prems Cons.IH [OF Some] show ?thesis
      by (auto simp: max_def) (meson order.trans linear)
  qed
qed

lemma list_max_set: "set xs = set ys \<Longrightarrow> list_max xs = list_max ys"
proof (cases "list_max xs")
  case None
  assume "set xs = set ys"
  with None show ?thesis by simp
next
  case (Some m)
  assume eq: "set xs = set ys"
  with Some have "ys \<noteq> []" by auto
  from list_max_ex [OF this] obtain k where k: "list_max ys = Some k" ..
  from list_max_Some [OF Some] list_max_Some [OF k] eq have "m = k" by (auto intro: antisym)
  with Some k show ?thesis by simp
qed

lemma derived_budget_value:
  "unat (derived_budget h) =
     max (if unat h * 200 < 2 ^ 64 then 2 * unat h else (2 ^ 64 - 1) div 100) 60"
proof -
  have "unat (saturating_mul h 200) = (if unat h * 200 < 2 ^ 64 then unat h * 200 else 2 ^ 64 - 1)"
    by (simp add: saturating_mul_unat)
  then have "unat (saturating_mul h 200 div 100) =
      (if unat h * 200 < 2 ^ 64 then 2 * unat h else (2 ^ 64 - 1) div 100)"
    by (simp add: unat_div)
  then show ?thesis
    by (auto simp: derived_budget_def GATE_BUDGET_SLACK_PERCENT_def GATE_BUDGET_MIN_DERIVED_SEC_def
        max_def word_le_nat_alt)
qed

text \<open>
  C19. Which budget binds a gate: a declared budget is honoured verbatim; otherwise the budget is
  twice the longest recorded run, at least a minute, with the multiplication saturating at the
  64-bit limit before the division by 100; a gate never seen gets an hour.  Only the set of
  observations matters, never their order.
\<close>

theorem resolve_gate_budget_binds:
  "gb_runtime_max_sec (resolve_gate_budget gid (Some d) obs) = d \<and>
   gb_runtime_max_sec (resolve_gate_budget gid None []) = 3600 \<and>
   (\<forall>h \<in> set obs. (\<forall>x \<in> set obs. x \<le> h) \<longrightarrow>
      unat (gb_runtime_max_sec (resolve_gate_budget gid None obs)) =
        max (if unat h * 200 < 2 ^ 64 then 2 * unat h else (2 ^ 64 - 1) div 100) 60) \<and>
   (\<forall>obs'. mset obs' = mset obs \<longrightarrow>
      resolve_gate_budget gid declared obs' = resolve_gate_budget gid declared obs)"
proof -
  have "unat (gb_runtime_max_sec (resolve_gate_budget gid None obs)) =
      max (if unat h * 200 < 2 ^ 64 then 2 * unat h else (2 ^ 64 - 1) div 100) 60"
    if h: "h \<in> set obs" "\<forall>x \<in> set obs. x \<le> h" for h
  proof -
    from h(1) have "obs \<noteq> []" by auto
    from list_max_ex [OF this] obtain k where k: "list_max obs = Some k" ..
    with list_max_Some [OF k] h have "k = h" by (auto intro: antisym)
    with k show ?thesis by (simp add: resolve_gate_budget_def Let_def derived_budget_value)
  qed
  moreover have "resolve_gate_budget gid declared obs' = resolve_gate_budget gid declared obs"
    if "mset obs' = mset obs" for obs'
    using list_max_set [OF mset_eq_setD [OF that]] mset_eq_length [OF that]
    by (simp add: resolve_gate_budget_def)
  moreover have "gb_runtime_max_sec (resolve_gate_budget gid (Some d) obs) = d"
    and "gb_runtime_max_sec (resolve_gate_budget gid None []) = 3600"
    by (simp_all add: resolve_gate_budget_def GATE_BUDGET_UNOBSERVED_SEC_def Let_def)
  ultimately show ?thesis by blast
qed

theorem resolve_gate_budget_binds_witness:
  "unat (gb_runtime_max_sec (resolve_gate_budget ''lint'' None [10, 400, 30])) = 800"
proof -
  have "(400 :: u64) \<in> set [10, 400, 30]" and "\<forall>x \<in> set [10, 400, 30]. x \<le> (400 :: u64)"
    by simp_all
  with resolve_gate_budget_binds [of "''lint''" 0 "[10, 400, 30]" None]
  have "unat (gb_runtime_max_sec (resolve_gate_budget ''lint'' None [10, 400, 30])) =
      max (if unat (400 :: u64) * 200 < 2 ^ 64 then 2 * unat (400 :: u64) else (2 ^ 64 - 1) div 100) 60"
    by blast
  then show ?thesis by simp
qed

end
