(* ===== verification/Json_Value.thy ===== *)
theory Json_Value
  imports Tally_Prelude
begin

text \<open>
  The JSON tree \<open>serde_json::Value\<close> as the crates configure it (\<open>preserve_order\<close>,
  \<open>arbitrary_precision\<close>): objects are association lists in insertion order, numbers are their
  lexemes.  The decoder and the encoder are not modelled here; the components that call them take
  them as parameters.  Also \<open>str::split_once\<close> and \<open>str::splitn\<close> at a single character.
\<close>

datatype Json =
    JNull
  | JBool bool
  | JNumber string
  | JString string
  | JArray "Json list"
  | JObject "(string \<times> Json) list"

type_synonym json_map = "(string \<times> Json) list"

fun as_object :: "Json \<Rightarrow> json_map option" where
  "as_object (JObject m) = Some m"
| "as_object _ = None"

fun as_str :: "Json \<Rightarrow> string option" where
  "as_str (JString s) = Some s"
| "as_str _ = None"

fun as_u64 :: "Json \<Rightarrow> u64 option" where
  "as_u64 (JNumber s) = parse_u64 s"
| "as_u64 _ = None"

abbreviation map_get :: "json_map \<Rightarrow> string \<Rightarrow> Json option" where
  "map_get m k \<equiv> map_of m k"

definition contains_key :: "json_map \<Rightarrow> string \<Rightarrow> bool" where
  "contains_key m k \<longleftrightarrow> list_ex (\<lambda>(k', _). k' = k) m"

lemma contains_key_iff: "contains_key m k \<longleftrightarrow> map_get m k \<noteq> None"
  by (induction m) (auto simp: contains_key_def)

text \<open>Inserting into an ordered map keeps the position of an existing key.\<close>

fun map_insert :: "string \<Rightarrow> Json \<Rightarrow> json_map \<Rightarrow> json_map" where
  "map_insert k v [] = [(k, v)]"
| "map_insert k v ((k', v') # m) = (if k' = k then (k, v) # m else (k', v') # map_insert k v m)"

text \<open>\<open>Value::get\<close> with a string index.\<close>

definition value_get :: "Json \<Rightarrow> string \<Rightarrow> Json option" where
  "value_get v k = (case as_object v of None \<Rightarrow> None | Some m \<Rightarrow> map_get m k)"

lemma map_get_insert [simp]: "map_get (map_insert k v m) k' = (if k' = k then Some v else map_get m k')"
  by (induction k v m rule: map_insert.induct) auto

lemma map_insert_insert [simp]: "map_insert k v (map_insert k w m) = map_insert k v m"
  by (induction k w m rule: map_insert.induct) auto

lemma map_insert_same: "map_get m k = Some v \<Longrightarrow> map_insert k v m = m"
  by (induction m) (auto split: if_splits)

lemma keys_map_insert:
  "fst ` set (map_insert k v m) = insert k (fst ` set m)"
  by (induction k v m rule: map_insert.induct) auto

lemma distinct_map_insert: "distinct (map fst m) \<Longrightarrow> distinct (map fst (map_insert k v m))"
  by (induction k v m rule: map_insert.induct) (auto simp: keys_map_insert)

lemma map_insert_inject:
  "map_insert k v m = map_insert k v m' \<Longrightarrow> map_get m k = map_get m' k \<Longrightarrow> map_get m k \<noteq> None \<Longrightarrow> m = m'"
  by (metis map_insert_insert map_insert_same option.exhaust)

text \<open>Trees the decoder can produce: the keys of every object are distinct.\<close>

fun wf_json :: "Json \<Rightarrow> bool" where
  "wf_json (JArray vs) = list_all wf_json vs"
| "wf_json (JObject m) = (distinct (map fst m) \<and> list_all (\<lambda>p. wf_json (snd p)) m)"
| "wf_json _ = True"

lemma wf_json_insert:
  "wf_json (JObject m) \<Longrightarrow> wf_json v \<Longrightarrow> wf_json (JObject (map_insert k v m))"
proof -
  assume m: "wf_json (JObject m)" and v: "wf_json v"
  have "list_all (\<lambda>p. wf_json (snd p)) (map_insert k v m)"
    using m v by (induction k v m rule: map_insert.induct) auto
  with m show ?thesis by (simp add: distinct_map_insert)
qed

section \<open>Splitting strings\<close>

fun split_once :: "char \<Rightarrow> string \<Rightarrow> (string \<times> string) option" where
  "split_once c [] = None"
| "split_once c (x # xs) =
     (if x = c then Some ([], xs)
      else (case split_once c xs of None \<Rightarrow> None | Some (a, b) \<Rightarrow> Some (x # a, b)))"

fun splitn :: "nat \<Rightarrow> char \<Rightarrow> string \<Rightarrow> string list" where
  "splitn 0 c s = []"
| "splitn (Suc 0) c s = [s]"
| "splitn (Suc (Suc n)) c s =
     (case split_once c s of None \<Rightarrow> [s] | Some (a, b) \<Rightarrow> a # splitn (Suc n) c b)"

definition strip_prefix :: "string \<Rightarrow> string \<Rightarrow> string option" where
  "strip_prefix s p = (if starts_with s p then Some (drop (length p) s) else None)"

lemma split_once_Some:
  "split_once c s = Some (a, b) \<longleftrightarrow> s = a @ c # b \<and> c \<notin> set a"
proof (induction s arbitrary: a)
  case Nil
  then show ?case by simp
next
  case (Cons x s)
  show ?case
  proof (cases "x = c")
    case True
    then show ?thesis by (cases a) auto
  next
    case False
    show ?thesis
    proof (cases a)
      case Nil
      with False show ?thesis by (auto split: option.splits)
    next
      case (Cons y a')
      with False Cons.IH [of a'] show ?thesis by (auto split: option.splits)
    qed
  qed
qed

lemma split_once_None: "split_once c s = None \<longleftrightarrow> c \<notin> set s"
  by (induction s) (auto split: option.splits)

lemma split_once_append [simp]: "c \<notin> set a \<Longrightarrow> split_once c (a @ c # b) = Some (a, b)"
  by (simp add: split_once_Some)

fun join :: "char \<Rightarrow> string list \<Rightarrow> string" where
  "join c [] = []"
| "join c [p] = p"
| "join c (p # q # ps) = p @ c # join c (q # ps)"

lemma splitn_not_Nil [simp]: "splitn (Suc n) c s \<noteq> []"
  by (cases n) (auto split: option.splits)

lemma join_splitn: "join c (splitn (Suc n) c s) = s"
proof (induction n arbitrary: s)
  case 0
  then show ?case by simp
next
  case (Suc n)
  have "join c (a # splitn (Suc n) c b) = a @ c # b" for a b
    using Suc.IH [of b] by (cases "splitn (Suc n) c b") auto
  then show ?case by (auto simp: split_once_Some split: option.splits)
qed

lemma length_splitn: "length (splitn n c s) \<le> n"
  by (induction n c s rule: splitn.induct) (auto split: option.splits)

lemma strip_prefix_Some: "strip_prefix s p = Some r \<longleftrightarrow> s = p @ r"
  by (auto simp: strip_prefix_def starts_with_iff)

end
