(* ===== verification/Provenance.thy ===== *)
theory Provenance
  imports Json_Value
begin

text \<open>
  Admission provenance: task references (\<open>tally-client/src/lib.rs\<close>), the roles and node keys of
  the spec-build flow and the orchestration capsule (\<open>provenance.rs\<close>), and the origin of an
  admission (\<open>taskdb.rs\<close>).  An operation that can fail returns its message in \<open>Inl\<close>, a
  validation returns \<open>None\<close> or the message.  \<open>uuid_ok\<close> stands for
  \<open>Uuid::parse_str(...).is_ok()\<close>.
\<close>

section \<open>Task references\<close>

definition MAX_TASK_REF_COMPONENT_BYTES :: nat where
  "MAX_TASK_REF_COMPONENT_BYTES = 80"

definition component_byte :: "char \<Rightarrow> bool" where
  "component_byte c \<longleftrightarrow> is_ascii_alphanumeric c \<or> c = CHR ''_'' \<or> c = CHR ''.'' \<or> c = CHR ''-''"

definition component_start :: "string \<Rightarrow> bool" where
  "component_start v = (case v of [] \<Rightarrow> False | c # _ \<Rightarrow> is_ascii_alphanumeric c \<or> c = CHR ''_'')"

definition validate_task_ref_component :: "string \<Rightarrow> string \<Rightarrow> string option" where
  "validate_task_ref_component v label =
     (if \<not> component_start v \<or> length v > MAX_TASK_REF_COMPONENT_BYTES \<or>
         \<not> list_all component_byte v
      then Some (''taskRef '' @ label @
        '' must start with an ASCII letter, digit, or '' @ [CHR 39] @ ''_'' @ [CHR 39] @
        '' and contain at most '' @ show_nat MAX_TASK_REF_COMPONENT_BYTES @
        '' ASCII letters, digits, '' @ [CHR 39] @ ''_'' @ [CHR 39] @ '', '' @ [CHR 39] @ ''.'' @
        [CHR 39] @ '', or '' @ [CHR 39] @ ''-'' @ [CHR 39])
      else None)"

type_synonym TaskRef = string

definition task_ref_new :: "string \<Rightarrow> string + TaskRef" where
  "task_ref_new v =
     (case split_once (CHR ''/'') v of
        None \<Rightarrow> Inl ''taskRef must be formatted as <campaign>/<task-id>''
      | Some (campaign, task_id) \<Rightarrow>
          if CHR ''/'' \<in> set task_id then Inl ''taskRef must contain exactly one slash''
          else
            (case validate_task_ref_component campaign ''campaign'' of
               Some e \<Rightarrow> Inl e
             | None \<Rightarrow>
                 (case validate_task_ref_component task_id ''task id'' of
                    Some e \<Rightarrow> Inl e
                  | None \<Rightarrow> Inr v)))"

text \<open>The accessors panic on a value without a slash, which no \<open>TaskRef\<close> is: \<open>None\<close> here.\<close>

definition task_ref_campaign :: "TaskRef \<Rightarrow> string option" where
  "task_ref_campaign t = map_option fst (split_once (CHR ''/'') t)"

definition task_ref_task_id :: "TaskRef \<Rightarrow> string option" where
  "task_ref_task_id t = map_option snd (split_once (CHR ''/'') t)"

section \<open>Node roles and node keys\<close>

datatype SpecBuildNodeRole =
    Agent | CheckpointRecord | Cleanup | Constraint | Continue | Diagnosis | Escalate | Gate
  | Merge | Ownership | Prep | Publish | Rebase | Reconcile | Retry | Steering | Sweep

definition ALL_ROLES :: "SpecBuildNodeRole list" where
  "ALL_ROLES =
     [Agent, CheckpointRecord, Cleanup, Constraint, Continue, Diagnosis, Escalate, Gate, Merge,
      Ownership, Prep, Publish, Rebase, Reconcile, Retry, Steering, Sweep]"

fun role_str :: "SpecBuildNodeRole \<Rightarrow> string" where
  "role_str Agent = ''agent''"
| "role_str CheckpointRecord = ''checkpoint-record''"
| "role_str Cleanup = ''cleanup''"
| "role_str Constraint = ''constraint''"
| "role_str Continue = ''continue''"
| "role_str Diagnosis = ''diagnosis''"
| "role_str Escalate = ''escalate''"
| "role_str Gate = ''gate''"
| "role_str Merge = ''merge''"
| "role_str Ownership = ''ownership''"
| "role_str Prep = ''prep''"
| "role_str Publish = ''publish''"
| "role_str Rebase = ''rebase''"
| "role_str Reconcile = ''reconcile''"
| "role_str Retry = ''retry''"
| "role_str Steering = ''steering''"
| "role_str Sweep = ''sweep''"

definition role_parse :: "string \<Rightarrow> SpecBuildNodeRole option" where
  "role_parse v = List.find (\<lambda>candidate. role_str candidate = v) ALL_ROLES"

record SpecBuildNodeIdentity =
  ni_role :: SpecBuildNodeRole
  ni_subject_task_id :: "string option"

definition validate_subject_task_id :: "string \<Rightarrow> string option" where
  "validate_subject_task_id subject =
     (case task_ref_new (''spec-build/'' @ subject) of
        Inl _ \<Rightarrow> Some ''orchestration subjectTaskId must be a valid task-ref component when set''
      | Inr _ \<Rightarrow> None)"

definition next_field :: "string list \<Rightarrow> nat \<Rightarrow> string option" where
  "next_field pieces i = (if i < length pieces then Some (pieces ! i) else None)"

definition identity_parse :: "string \<Rightarrow> string + SpecBuildNodeIdentity option" where
  "identity_parse key =
     (if \<not> starts_with key ''spec-build:'' then Inr None
      else
        (let pieces = splitn 5 (CHR '':'') key;
             namespace = next_field pieces 0;
             version = next_field pieces 1;
             role = next_field pieces 2;
             subject = next_field pieces 3;
             diagnostic_key = next_field pieces 4
         in if namespace \<noteq> Some ''spec-build'' \<or> version \<noteq> Some ''v1'' \<or> role = None \<or>
               subject = None \<or> is_none_or (\<lambda>d. d = []) diagnostic_key
            then Inl ''spec-build node key must match spec-build:v1:<role>:<subjectTaskId>:<diagnostic-key>''
            else
              (case role_parse (the role) of
                 None \<Rightarrow> Inl ''spec-build node key carries an unknown node role''
               | Some r \<Rightarrow>
                   (let subject_task_id = (if the subject \<noteq> [] then subject else None)
                    in case (case subject_task_id of None \<Rightarrow> None
                               | Some s \<Rightarrow> validate_subject_task_id s) of
                         Some e \<Rightarrow> Inl e
                       | None \<Rightarrow>
                           Inr (Some \<lparr>ni_role = r, ni_subject_task_id = subject_task_id\<rparr>)))))"

section \<open>The orchestration capsule\<close>

text \<open>\<open>Orchestration\<close> wraps the JSON value it was built from.\<close>

type_synonym Orchestration = Json

definition DEFAULT_FLOW_MAX_NODES :: u64 where
  "DEFAULT_FLOW_MAX_NODES = 1000"

definition lower_hex :: "char \<Rightarrow> bool" where
  "lower_hex c \<longleftrightarrow> is_ascii_digit c \<or> (97 \<le> byte c \<and> byte c \<le> 102)"

definition bad_max_nodes :: "Json \<Rightarrow> bool" where
  "bad_max_nodes v = is_none_or (\<lambda>n. n = 0) (as_u64 v)"

definition bad_prompt_revision :: "Json \<Rightarrow> bool" where
  "bad_prompt_revision v =
     (case as_str v of
        None \<Rightarrow> True
      | Some r \<Rightarrow> length r \<noteq> 71 \<or> \<not> starts_with r ''sha256:'' \<or> \<not> list_all lower_hex (drop 7 r))"

definition bad_skill_revision :: "Json \<Rightarrow> bool" where
  "bad_skill_revision v =
     (case as_str v of
        None \<Rightarrow> True
      | Some r \<Rightarrow> r = [] \<or> length r > 256 \<or> has_control r)"

definition capsule_task_ref :: "json_map \<Rightarrow> string + TaskRef option" where
  "capsule_task_ref object =
     (case map_get object ''taskRef'' of
        None \<Rightarrow> Inr None
      | Some v \<Rightarrow>
          (case as_str v of
             None \<Rightarrow> Inl ''orchestration taskRef must be a string when set''
           | Some t \<Rightarrow>
               (case task_ref_new t of
                  Inl e \<Rightarrow> Inl (''orchestration '' @ e)
                | Inr t' \<Rightarrow> Inr (Some t'))))"

definition capsule_node_role :: "json_map \<Rightarrow> string + SpecBuildNodeRole option" where
  "capsule_node_role object =
     (case map_get object ''nodeRole'' of
        None \<Rightarrow> Inr None
      | Some v \<Rightarrow>
          (case as_str v of
             None \<Rightarrow> Inl ''orchestration nodeRole must be a string when set''
           | Some r \<Rightarrow>
               (case role_parse r of
                  None \<Rightarrow> Inl ''orchestration nodeRole is not a spec-build role''
                | Some role \<Rightarrow> Inr (Some role))))"

definition capsule_subject :: "json_map \<Rightarrow> string + string option" where
  "capsule_subject object =
     (case map_get object ''subjectTaskId'' of
        None \<Rightarrow> Inr None
      | Some v \<Rightarrow>
          (case as_str v of
             None \<Rightarrow> Inl ''orchestration subjectTaskId must be a string when set''
           | Some s \<Rightarrow>
               (case validate_subject_task_id s of Some e \<Rightarrow> Inl e | None \<Rightarrow> Inr (Some s))))"

definition check_identity ::
  "TaskRef option \<Rightarrow> SpecBuildNodeRole option \<Rightarrow> string option \<Rightarrow> string option" where
  "check_identity task_ref node_role subject =
     (if subject \<noteq> None \<and> node_role = None
      then Some ''orchestration subjectTaskId requires nodeRole when set''
      else
        (case task_ref of
           Some t \<Rightarrow>
             if node_role \<noteq> None \<and> subject = None
             then Some ''orchestration nodeRole requires subjectTaskId when taskRef is set''
             else if subject \<noteq> None \<and> subject \<noteq> task_ref_task_id t
             then Some (''orchestration subjectTaskId must match taskRef'' @ [CHR 39] @ ''s task component'')
             else None
         | None \<Rightarrow>
             if subject \<noteq> None then Some ''orchestration subjectTaskId requires taskRef when set''
             else None))"

definition orchestration_validate :: "(string \<Rightarrow> bool) \<Rightarrow> Orchestration \<Rightarrow> string option" where
  "orchestration_validate uuid_ok v =
     (case as_object v of
        None \<Rightarrow> Some ''orchestration must be a JSON object''
      | Some object \<Rightarrow>
          if contains_key object ''iterationPath''
          then Some ''orchestration iterationPath does not exist in the flow model''
          else
            (case Option.bind (map_get object ''flowRunId'') as_str of
               None \<Rightarrow> Some ''orchestration flowRunId must be a UUID string''
             | Some flow_run_id \<Rightarrow>
                 if \<not> uuid_ok flow_run_id then Some ''orchestration flowRunId must be a UUID string''
                 else if is_some_and bad_max_nodes (map_get object ''maxNodes'')
                 then Some ''orchestration maxNodes must be a positive integer when set''
                 else if is_some_and (\<lambda>n. as_u64 n = None) (map_get object ''nodeOrdinal'')
                 then Some ''orchestration nodeOrdinal must be a non-negative integer when set''
                 else if is_some_and bad_prompt_revision (map_get object ''promptRevision'')
                 then Some ''orchestration promptRevision must be lowercase sha256 hex when set''
                 else if is_some_and bad_skill_revision (map_get object ''skillRevision'')
                 then Some ''orchestration skillRevision must be non-empty, at most 256 bytes, and contain no control characters when set''
                 else
                   (case capsule_task_ref object of
                      Inl e \<Rightarrow> Some e
                    | Inr task_ref \<Rightarrow>
                        (case capsule_node_role object of
                           Inl e \<Rightarrow> Some e
                         | Inr node_role \<Rightarrow>
                             (case capsule_subject object of
                                Inl e \<Rightarrow> Some e
                              | Inr subject \<Rightarrow> check_identity task_ref node_role subject)))))"

definition orchestration_new :: "(string \<Rightarrow> bool) \<Rightarrow> Json \<Rightarrow> string + Orchestration" where
  "orchestration_new uuid_ok v =
     (case orchestration_validate uuid_ok v of Some e \<Rightarrow> Inl e | None \<Rightarrow> Inr v)"

text \<open>\<open>flow_run_id\<close> panics on a capsule without the field, which a validated one has.\<close>

definition flow_run_id :: "Orchestration \<Rightarrow> string option" where
  "flow_run_id v = Option.bind (value_get v ''flowRunId'') as_str"

definition max_nodes :: "Orchestration \<Rightarrow> u64 option" where
  "max_nodes v = Option.bind (value_get v ''maxNodes'') as_u64"

definition node_ordinal :: "Orchestration \<Rightarrow> u64 option" where
  "node_ordinal v = Option.bind (value_get v ''nodeOrdinal'') as_u64"

definition orchestration_task_ref :: "Orchestration \<Rightarrow> TaskRef option" where
  "orchestration_task_ref v = Option.bind (value_get v ''taskRef'') as_str"

definition node_role :: "Orchestration \<Rightarrow> SpecBuildNodeRole option" where
  "node_role v = Option.bind (Option.bind (value_get v ''nodeRole'') as_str) role_parse"

definition subject_task_id :: "Orchestration \<Rightarrow> string option" where
  "subject_task_id v = Option.bind (value_get v ''subjectTaskId'') as_str"

definition effective_max_nodes :: "Orchestration \<Rightarrow> u64" where
  "effective_max_nodes v = (case max_nodes v of Some n \<Rightarrow> n | None \<Rightarrow> DEFAULT_FLOW_MAX_NODES)"

text \<open>The two agreement checks of \<open>admit_spec_build_node_identity\<close>, each with its insertion.\<close>

definition admit_role :: "SpecBuildNodeRole \<Rightarrow> json_map \<Rightarrow> string + json_map" where
  "admit_role role object =
     (case map_get object ''nodeRole'' of
        Some v \<Rightarrow>
          if as_str v \<noteq> Some (role_str role)
          then Inl ''orchestration nodeRole disagrees with the spec-build node key''
          else Inr object
      | None \<Rightarrow> Inr (map_insert ''nodeRole'' (JString (role_str role)) object))"

definition admit_subject :: "string option \<Rightarrow> json_map \<Rightarrow> string + json_map" where
  "admit_subject expected object =
     (case (map_get object ''subjectTaskId'', expected) of
        (Some v, Some s) \<Rightarrow>
          if as_str v \<noteq> Some s
          then Inl ''orchestration subjectTaskId disagrees with the spec-build node key''
          else Inr object
      | (Some v, None) \<Rightarrow> Inl ''orchestration subjectTaskId disagrees with the spec-build node key''
      | (None, Some s) \<Rightarrow> Inr (map_insert ''subjectTaskId'' (JString s) object)
      | (None, None) \<Rightarrow> Inr object)"

text \<open>
  The mutable method: its result, and the capsule as it is afterwards. What was inserted stays inserted when a
  later step returns an error.
\<close>

definition admit_spec_build_node_identity ::
  "(string \<Rightarrow> bool) \<Rightarrow> Orchestration \<Rightarrow> string \<Rightarrow> (string + unit) \<times> Orchestration" where
  "admit_spec_build_node_identity uuid_ok v dedup_key =
     (case Option.bind (value_get v ''flowName'') as_str of
        None \<Rightarrow> (Inr (), v)
      | Some name \<Rightarrow>
          if name \<noteq> ''spec-build'' then (Inr (), v)
          else
            (case flow_run_id v of
               None \<Rightarrow> (Inl ''panic: validated orchestration always carries flowRunId'', v)
             | Some run \<Rightarrow>
                 (case strip_prefix dedup_key (''flow:'' @ run @ '':k:'') of
                    None \<Rightarrow> (Inr (), v)
                  | Some flow_key \<Rightarrow>
                      (case identity_parse flow_key of
                         Inl e \<Rightarrow> (Inl e, v)
                       | Inr None \<Rightarrow> (Inr (), v)
                       | Inr (Some identity) \<Rightarrow>
                           (case as_object v of
                              None \<Rightarrow> (Inl ''panic: validated orchestration is an object'', v)
                            | Some object \<Rightarrow>
                                (case admit_role (ni_role identity) object of
                                   Inl e \<Rightarrow> (Inl e, v)
                                 | Inr object1 \<Rightarrow>
                                     (case admit_subject (ni_subject_task_id identity) object1 of
                                        Inl e \<Rightarrow> (Inl e, JObject object1)
                                      | Inr object2 \<Rightarrow>
                                          (case orchestration_validate uuid_ok (JObject object2) of
                                             Some e \<Rightarrow> (Inl e, JObject object2)
                                           | None \<Rightarrow> (Inr (), JObject object2)))))))))"

section \<open>Admission origin\<close>

datatype EnqueueSource = ManualSource | Orchestrator | Calendar | EventsDir | Gh

fun source_name :: "EnqueueSource \<Rightarrow> string" where
  "source_name ManualSource = ''manual''"
| "source_name Orchestrator = ''orchestrator''"
| "source_name Calendar = ''calendar''"
| "source_name EventsDir = ''events-dir''"
| "source_name Gh = ''gh''"

definition is_producer :: "EnqueueSource \<Rightarrow> bool" where
  "is_producer s \<longleftrightarrow> s = Calendar \<or> s = EventsDir \<or> s = Gh"

record ProducerOrigin =
  pn_name :: string
  pn_kind :: string

record AdmissionOrigin =
  ao_schema_version :: u32
  ao_source :: EnqueueSource
  ao_producer :: "ProducerOrigin option"

definition ADMISSION_ORIGIN_SCHEMA_VERSION :: u32 where
  "ADMISSION_ORIGIN_SCHEMA_VERSION = 1"

definition MAX_GH_PRODUCER_BYTES :: nat where
  "MAX_GH_PRODUCER_BYTES = 96"

definition origin_direct :: "EnqueueSource \<Rightarrow> AdmissionOrigin" where
  "origin_direct source =
     \<lparr>ao_schema_version = ADMISSION_ORIGIN_SCHEMA_VERSION, ao_source = source, ao_producer = None\<rparr>"

definition origin_producer :: "string \<Rightarrow> EnqueueSource \<Rightarrow> AdmissionOrigin" where
  "origin_producer name source =
     \<lparr>ao_schema_version = ADMISSION_ORIGIN_SCHEMA_VERSION, ao_source = source,
      ao_producer = Some \<lparr>pn_name = name, pn_kind = source_name source\<rparr>\<rparr>"

definition valid_producer_name :: "string \<Rightarrow> bool" where
  "valid_producer_name n \<longleftrightarrow>
     n \<noteq> [] \<and> length n \<le> MAX_GH_PRODUCER_BYTES \<and> n \<noteq> ''.'' \<and> n \<noteq> ''..'' \<and>
     component_start n \<and> list_all component_byte n"

definition origin_validate :: "AdmissionOrigin \<Rightarrow> string option" where
  "origin_validate o' =
     (if ao_schema_version o' \<noteq> ADMISSION_ORIGIN_SCHEMA_VERSION
      then Some (''origin has unsupported schema version '' @ show_nat (unat (ao_schema_version o')))
      else
        (case ao_producer o' of
           None \<Rightarrow> None
         | Some p \<Rightarrow>
             if \<not> valid_producer_name (pn_name p)
             then Some ''origin producer name is not a safe registry component''
             else if \<not> is_producer (ao_source o') \<or> pn_kind p \<noteq> source_name (ao_source o')
             then Some ''origin producer kind does not match its admission source''
             else None))"

section \<open>Round trips\<close>

definition task_component :: "string \<Rightarrow> bool" where
  "task_component v \<longleftrightarrow>
     component_start v \<and> length v \<le> MAX_TASK_REF_COMPONENT_BYTES \<and> list_all component_byte v"

lemma validate_task_ref_component_None [simp]:
  "validate_task_ref_component v label = None \<longleftrightarrow> task_component v"
  by (auto simp: validate_task_ref_component_def task_component_def)

lemmas validate_task_ref_component_ok = validate_task_ref_component_None [THEN iffD2]

lemma separators: "\<not> component_byte (CHR ''/'')" "\<not> component_byte (CHR '':'')"
  by code_simp+

lemma task_component_sep:
  "task_component v \<Longrightarrow> v \<noteq> [] \<and> CHR ''/'' \<notin> set v \<and> CHR '':'' \<notin> set v"
proof -
  assume "task_component v"
  then have "component_start v" and "\<forall>c \<in> set v. component_byte c"
    by (simp_all add: task_component_def list_all_iff)
  with separators show ?thesis by (cases v) (auto simp: component_start_def)
qed

lemma task_ref_new_Inr:
  "task_ref_new v = Inr t \<longleftrightarrow>
     t = v \<and> (\<exists>c i. v = c @ CHR ''/'' # i \<and> task_component c \<and> task_component i)"
proof (cases "split_once (CHR ''/'') v")
  case None
  then have "CHR ''/'' \<notin> set v" by (simp add: split_once_None)
  with None show ?thesis by (auto simp: task_ref_new_def)
next
  case (Some p)
  obtain c i where p: "p = (c, i)" by (cases p)
  with Some have v: "v = c @ CHR ''/'' # i" "CHR ''/'' \<notin> set c"
    by (auto simp: split_once_Some)
  have unique: "c' = c \<and> i' = i" if "v = c' @ CHR ''/'' # i'" "task_component c'" for c' i'
    using that Some p task_component_sep [of c'] by (auto simp: split_once_append)
  have new: "task_ref_new v = Inr t \<longleftrightarrow> t = v \<and> task_component c \<and> task_component i"
    using Some p task_component_sep [of i]
    by (auto simp: task_ref_new_def validate_task_ref_component_ok split: option.splits)
  show ?thesis unfolding new using v(1) unique by blast
qed

lemma validate_subject_None [simp]: "validate_subject_task_id s = None \<longleftrightarrow> task_component s"
proof -
  have prefix: "''spec-build/'' @ s = ''spec-build'' @ CHR ''/'' # s" by simp
  have "task_component ''spec-build''"
    by code_simp
  then have "(\<exists>t. task_ref_new (''spec-build/'' @ s) = Inr t) \<longleftrightarrow> task_component s"
    unfolding prefix task_ref_new_Inr
    by (metis split_once_append task_component_sep option.inject prod.inject)
  then show ?thesis by (auto simp: validate_subject_task_id_def split: sum.splits)
qed

lemmas validate_subject_ok = validate_subject_None [THEN iffD2]

lemma role_parse_Some: "role_parse s = Some r \<longleftrightarrow> s = role_str r"
proof
  assume "role_parse s = Some r"
  then show "s = role_str r" by (auto simp: role_parse_def find_Some_iff)
next
  assume "s = role_str r"
  then show "role_parse s = Some r" by (cases r) (simp_all add: role_parse_def ALL_ROLES_def)
qed

lemma role_str_sep: "CHR '':'' \<notin> set (role_str r)"
  by (cases r) simp_all

text \<open>The key the spec-build flow emits for a node.\<close>

definition node_key :: "SpecBuildNodeIdentity \<Rightarrow> string \<Rightarrow> string" where
  "node_key ident diagnostic =
     ''spec-build'' @ CHR '':'' # ''v1'' @ CHR '':'' # role_str (ni_role ident) @ CHR '':'' #
     (case ni_subject_task_id ident of None \<Rightarrow> [] | Some s \<Rightarrow> s) @ CHR '':'' # diagnostic"

lemma splitn_node_key:
  "CHR '':'' \<notin> set a \<Longrightarrow> CHR '':'' \<notin> set b \<Longrightarrow> CHR '':'' \<notin> set c \<Longrightarrow> CHR '':'' \<notin> set d \<Longrightarrow>
   splitn 5 (CHR '':'') (a @ CHR '':'' # b @ CHR '':'' # c @ CHR '':'' # d @ CHR '':'' # e) =
     [a, b, c, d, e]"
  by (simp add: eval_nat_numeral)

lemma splitn_five:
  assumes "4 < length (splitn 5 ch s)"
  obtains a b c d e where "splitn 5 ch s = [a, b, c, d, e]"
    and "s = a @ ch # b @ ch # c @ ch # d @ ch # e"
proof -
  have "length (splitn 5 ch s) = 5" using assms length_splitn [of 5 ch s] by simp
  then obtain a b c d e where p: "splitn 5 ch s = [a, b, c, d, e]"
    by (auto simp: eval_nat_numeral length_Suc_conv)
  have "join ch (splitn (Suc 4) ch s) = s" by (rule join_splitn)
  then have "s = a @ ch # b @ ch # c @ ch # d @ ch # e" using p by simp
  with p show thesis by (rule that)
qed

text \<open>
  C29. A node key names its node: for every role, every optional subject that is a valid task-ref
  component and every non-empty diagnostic suffix (colons included), decoding the key gives back
  exactly the role and the subject; no other key in the \<open>spec-build:\<close> namespace decodes.
\<close>

theorem identity_parse_iff:
  "identity_parse key = Inr (Some ident) \<longleftrightarrow>
     (\<exists>diagnostic. key = node_key ident diagnostic \<and> diagnostic \<noteq> [] \<and>
        pred_option task_component (ni_subject_task_id ident))"
proof
  assume ok: "identity_parse key = Inr (Some ident)"
  let ?p = "splitn 5 (CHR '':'') key"
  from ok have "4 < length ?p"
    by (auto simp: identity_parse_def Let_def next_field_def split: if_splits)
  then obtain a b r s d where p: "?p = [a, b, r, s, d]"
    and key: "key = a @ CHR '':'' # b @ CHR '':'' # r @ CHR '':'' # s @ CHR '':'' # d"
    by (rule splitn_five)
  from ok have "a = ''spec-build'' \<and> b = ''v1'' \<and> r = role_str (ni_role ident) \<and> d \<noteq> [] \<and>
      ni_subject_task_id ident = (if s = [] then None else Some s) \<and> (s = [] \<or> task_component s)"
    by (auto simp: identity_parse_def Let_def next_field_def p role_parse_Some
        split: if_splits option.splits)
  then show "\<exists>diagnostic. key = node_key ident diagnostic \<and> diagnostic \<noteq> [] \<and>
        pred_option task_component (ni_subject_task_id ident)"
    using key by (auto simp: node_key_def)
next
  assume "\<exists>diagnostic. key = node_key ident diagnostic \<and> diagnostic \<noteq> [] \<and>
        pred_option task_component (ni_subject_task_id ident)"
  then obtain d where key: "key = node_key ident d" and d: "d \<noteq> []"
    and sub: "pred_option task_component (ni_subject_task_id ident)" by blast
  let ?s = "case ni_subject_task_id ident of None \<Rightarrow> [] | Some s \<Rightarrow> s"
  have s: "CHR '':'' \<notin> set ?s" using sub task_component_sep by (cases "ni_subject_task_id ident") auto
  have pieces: "splitn 5 (CHR '':'') key = [''spec-build'', ''v1'', role_str (ni_role ident), ?s, d]"
    unfolding key node_key_def by (rule splitn_node_key) (use s role_str_sep in auto)
  have start: "starts_with key ''spec-build:''" by (simp add: key node_key_def)
  have "role_parse (role_str (ni_role ident)) = Some (ni_role ident)" by (simp add: role_parse_Some)
  then show "identity_parse key = Inr (Some ident)"
    using d sub task_component_sep
    by (cases "ni_subject_task_id ident")
      (auto simp: identity_parse_def pieces start next_field_def validate_subject_ok)
qed

section \<open>Admitting a node identity\<close>

lemma as_str_Some: "as_str v = Some s \<longleftrightarrow> v = JString s"
  by (cases v) auto

lemma admit_role_Inr:
  assumes "admit_role role m = Inr m'"
  shows "map_get m' ''nodeRole'' = Some (JString (role_str role))"
    and "k \<noteq> ''nodeRole'' \<Longrightarrow> map_get m' k = map_get m k"
    and "map_get m k = Some x \<Longrightarrow> map_get m' k = Some x"
  using assms by (auto simp: admit_role_def as_str_Some split: option.splits if_splits)

lemma admit_subject_Inr:
  assumes "admit_subject expected m = Inr m'"
  shows "map_get m' ''subjectTaskId'' = map_option JString expected"
    and "k \<noteq> ''subjectTaskId'' \<Longrightarrow> map_get m' k = map_get m k"
    and "map_get m k = Some x \<Longrightarrow> map_get m' k = Some x"
  using assms by (auto simp: admit_subject_def as_str_Some split: option.splits if_splits)

lemma admit_role_again:
  "map_get m ''nodeRole'' = Some (JString (role_str role)) \<Longrightarrow> admit_role role m = Inr m"
  by (simp add: admit_role_def)

lemma admit_subject_again:
  "map_get m ''subjectTaskId'' = map_option JString expected \<Longrightarrow> admit_subject expected m = Inr m"
  by (cases expected) (simp_all add: admit_subject_def)

text \<open>The two ways in which the method succeeds: it does not apply, or it records the identity.\<close>

definition applies :: "Orchestration \<Rightarrow> string \<Rightarrow> SpecBuildNodeIdentity \<Rightarrow> bool" where
  "applies v key ident \<longleftrightarrow>
     Option.bind (value_get v ''flowName'') as_str = Some ''spec-build'' \<and>
     (\<exists>run flow_key. flow_run_id v = Some run \<and>
        strip_prefix key (''flow:'' @ run @ '':k:'') = Some flow_key \<and>
        identity_parse flow_key = Inr (Some ident))"

lemma admit_cases:
  assumes "admit_spec_build_node_identity uuid_ok v key = (Inr (), v')"
  obtains (skipped) "v' = v" "\<And>ident. \<not> applies v key ident"
  | (recorded) ident m m1 m2 where "applies v key ident" "v = JObject m"
      "admit_role (ni_role ident) m = Inr m1"
      "admit_subject (ni_subject_task_id ident) m1 = Inr m2"
      "orchestration_validate uuid_ok (JObject m2) = None" "v' = JObject m2"
proof -
  have obj: "as_object v = Some m \<longleftrightarrow> v = JObject m" for m by (cases v) auto
  show thesis
  proof (cases "\<exists>ident. applies v key ident")
    case False
    with assms have "v' = v"
      by (auto simp: admit_spec_build_node_identity_def applies_def
          split: option.splits sum.splits if_splits)
    moreover from False have "\<And>ident. \<not> applies v key ident" by blast
    ultimately show thesis by (rule skipped)
  next
    case True
    then obtain ident where ident: "applies v key ident" by blast
    then obtain run flow_key where r: "flow_run_id v = Some run"
      and s: "strip_prefix key (''flow:'' @ run @ '':k:'') = Some flow_key"
      and p: "identity_parse flow_key = Inr (Some ident)"
      and f: "Option.bind (value_get v ''flowName'') as_str = Some ''spec-build''"
      unfolding applies_def by blast
    from assms recorded [OF ident] show thesis
      unfolding admit_spec_build_node_identity_def f r s p option.case sum.case
      by (auto simp: obj split: option.splits sum.splits if_splits)
  qed
qed

lemma admit_recorded:
  assumes "applies v key ident" "v = JObject m" "admit_role (ni_role ident) m = Inr m1"
    "admit_subject (ni_subject_task_id ident) m1 = Inr m2"
    "orchestration_validate uuid_ok (JObject m2) = None"
  shows "admit_spec_build_node_identity uuid_ok v key = (Inr (), JObject m2)"
proof -
  from assms(1) obtain run flow_key where r: "flow_run_id v = Some run"
    and s: "strip_prefix key (''flow:'' @ run @ '':k:'') = Some flow_key"
    and p: "identity_parse flow_key = Inr (Some ident)"
    and f: "Option.bind (value_get v ''flowName'') as_str = Some ''spec-build''"
    unfolding applies_def by blast
  have o: "as_object v = Some m" by (simp add: assms(2))
  show ?thesis
    unfolding admit_spec_build_node_identity_def f r s p o option.case sum.case assms(3-5) by simp
qed

text \<open>
  C30. Admitting the identity of a spec-build node: a capsule that was valid stays valid and keeps
  every field it had; only the role and the subject can be added; when the deduplication key
  carries a node key, the capsule afterwards names exactly that role and subject; admitting a
  second time changes nothing.
\<close>

theorem node_identity_admitted:
  assumes "orchestration_validate uuid_ok v = None"
    and "admit_spec_build_node_identity uuid_ok v key = (Inr (), v')"
  shows "orchestration_validate uuid_ok v' = None \<and>
    (\<forall>k x. value_get v k = Some x \<longrightarrow> value_get v' k = Some x) \<and>
    (\<forall>k. k \<noteq> ''nodeRole'' \<and> k \<noteq> ''subjectTaskId'' \<longrightarrow> value_get v' k = value_get v k) \<and>
    (\<forall>ident. applies v key ident \<longrightarrow>
       node_role v' = Some (ni_role ident) \<and> subject_task_id v' = ni_subject_task_id ident) \<and>
    admit_spec_build_node_identity uuid_ok v' key = (Inr (), v')"
  using assms(2)
proof (cases rule: admit_cases)
  case skipped
  with assms show ?thesis by simp
next
  case (recorded ident m m1 m2)
  note role = admit_role_Inr [OF recorded(3)] and subject = admit_subject_Inr [OF recorded(4)]
  have frame: "k \<noteq> ''nodeRole'' \<Longrightarrow> k \<noteq> ''subjectTaskId'' \<Longrightarrow> value_get v' k = value_get v k" for k
    using role(2) subject(2) by (simp add: value_get_def recorded(2,6))
  have kept: "value_get v k = Some x \<Longrightarrow> value_get v' k = Some x" for k x
    using role(3) subject(3) by (simp add: value_get_def recorded(2,6))
  have m2: "map_get m2 ''nodeRole'' = Some (JString (role_str (ni_role ident)))"
      "map_get m2 ''subjectTaskId'' = map_option JString (ni_subject_task_id ident)"
    using role(1) subject(1,3) by simp_all
  have identity: "node_role v' = Some (ni_role ident)" "subject_task_id v' = ni_subject_task_id ident"
    using m2 by (simp_all add: node_role_def subject_task_id_def value_get_def recorded(6) role_parse_Some
        option.map_comp comp_def split: option.split) (cases "ni_subject_task_id ident"; simp)
  have named: "node_role v' = Some (ni_role i) \<and> subject_task_id v' = ni_subject_task_id i"
    if "applies v key i" for i
  proof -
    from that recorded(1) have "i = ident" by (auto simp: applies_def)
    with identity show ?thesis by simp
  qed
  have "applies v' key ident"
    using recorded(1) frame by (simp add: applies_def flow_run_id_def)
  from admit_recorded [OF this recorded(6) admit_role_again [OF m2(1)] admit_subject_again [OF m2(2)]]
  have "admit_spec_build_node_identity uuid_ok v' key = (Inr (), v')"
    using recorded(5,6) by simp
  moreover have "orchestration_validate uuid_ok v' = None" using recorded(5,6) by simp
  ultimately show ?thesis using frame kept named by (intro conjI allI impI) (assumption | simp)+
qed

theorem node_identity_admitted_witness:
  "\<exists>v'. admit_spec_build_node_identity (\<lambda>_. True)
      (JObject [(''flowName'', JString ''spec-build''), (''flowRunId'', JString ''r1''),
                (''taskRef'', JString ''crm/t07'')])
      ''flow:r1:k:spec-build:v1:gate:t07:lint'' = (Inr (), v') \<and>
     node_role v' = Some Gate \<and> subject_task_id v' = Some ''t07''"
proof -
  let ?v = "JObject [(''flowName'', JString ''spec-build''), (''flowRunId'', JString ''r1''),
                (''taskRef'', JString ''crm/t07'')]"
  let ?k = "''flow:r1:k:spec-build:v1:gate:t07:lint''"
  have valid: "orchestration_validate (\<lambda>_. True) ?v = None" by code_simp
  let ?v' = "JObject [(''flowName'', JString ''spec-build''), (''flowRunId'', JString ''r1''),
                (''taskRef'', JString ''crm/t07''), (''nodeRole'', JString ''gate''),
                (''subjectTaskId'', JString ''t07'')]"
  have admit: "admit_spec_build_node_identity (\<lambda>_. True) ?v ?k = (Inr (), ?v')" by code_simp
  have "identity_parse ''spec-build:v1:gate:t07:lint'' =
      Inr (Some \<lparr>ni_role = Gate, ni_subject_task_id = Some ''t07''\<rparr>)" by code_simp
  then have "applies ?v ?k \<lparr>ni_role = Gate, ni_subject_task_id = Some ''t07''\<rparr>"
    by (simp add: applies_def flow_run_id_def value_get_def strip_prefix_def)
  with node_identity_admitted [OF valid admit] admit show ?thesis by auto
qed

end
