(* ===== verification/Hash_Chain.thy ===== *)
theory Hash_Chain
  imports Tally_Prelude
begin

text \<open>
  The contract of a hash-chained ledger, shared by the witness ledger and the attestation ledger:
  each item carries a sequence number, the hash of its predecessor and its own hash, which digests
  an input computed from the item.
\<close>

record ChainHead =
  hd_seq :: u64
  hd_hash :: string

locale hash_chain =
  fixes seq :: "'i \<Rightarrow> u64" and prev :: "'i \<Rightarrow> string" and hash :: "'i \<Rightarrow> string"
    and input :: "'i \<Rightarrow> string" and digest :: "string \<Rightarrow> string" and valid :: "'i \<Rightarrow> bool"
  assumes hash_valid: "valid i \<Longrightarrow> hash i = digest (input i)"
begin

definition item_head :: "'i \<Rightarrow> ChainHead" where
  "item_head i = \<lparr>hd_seq = seq i, hd_hash = hash i\<rparr>"

fun chain :: "ChainHead \<Rightarrow> 'i list \<Rightarrow> bool" where
  "chain h [] = True"
| "chain h (i # is) =
     (valid i \<and> prev i = hd_hash h \<and> seq i = hd_seq h + 1 \<and> chain (item_head i) is)"

fun head_after :: "ChainHead \<Rightarrow> 'i list \<Rightarrow> ChainHead" where
  "head_after h [] = h"
| "head_after h (i # is) = head_after (item_head i) is"

lemma chain_append [simp]:
  "chain h (xs @ ys) \<longleftrightarrow> chain h xs \<and> chain (head_after h xs) ys"
  by (induction xs arbitrary: h) auto

lemma head_after_append [simp]: "head_after h (xs @ ys) = head_after (head_after h xs) ys"
  by (induction xs arbitrary: h) auto

lemma head_after_last: "xs \<noteq> [] \<Longrightarrow> head_after h xs = item_head (last xs)"
  by (induction xs arbitrary: h) auto

lemma head_after_seq: "chain h xs \<Longrightarrow> hd_seq (head_after h xs) = hd_seq h + of_nat (length xs)"
  by (induction xs arbitrary: h) (auto simp: item_head_def)

lemma chain_nth_seq:
  "chain h xs \<Longrightarrow> k < length xs \<Longrightarrow> seq (xs ! k) = hd_seq h + of_nat k + 1"
proof (induction xs arbitrary: h k)
  case Nil
  then show ?case by simp
next
  case (Cons i xs)
  show ?case
  proof (cases k)
    case 0
    with Cons.prems show ?thesis by simp
  next
    case (Suc k')
    from Cons.prems have i: "seq i = hd_seq h + 1" and rest: "chain (item_head i) xs" by simp_all
    from Suc Cons.prems have "k' < length xs" by simp
    from Cons.IH [OF rest this] Suc show ?thesis by (simp add: item_head_def i)
  qed
qed

lemma chain_valid: "chain h xs \<Longrightarrow> i \<in> set xs \<Longrightarrow> valid i"
  by (induction xs arbitrary: h) auto

lemma chain_short:
  assumes "chain h xs" and "hd_seq h = 0" and "\<And>i. i \<in> set xs \<Longrightarrow> seq i \<noteq> 0"
  shows "length xs < 2 ^ 64"
proof (rule ccontr)
  assume "\<not> length xs < 2 ^ 64"
  then have k: "2 ^ 64 - 1 < length xs" by simp
  from chain_nth_seq [OF assms(1) k] assms(2) have "seq (xs ! (2 ^ 64 - 1)) = 0"
    by simp
  with assms(3) k show False by (metis nth_mem)
qed

text \<open>
  Tamper evidence: where the digest has no collision among the inputs of two chains and the input
  with the hash determines the item, equal heads mean equal chains.
\<close>

lemma chain_determined:
  assumes "chain h xs" and "chain h ys" and "length xs = length ys"
    and "hd_hash (head_after h xs) = hd_hash (head_after h ys)"
    and inj: "inj_on digest (input ` (set xs \<union> set ys))"
    and det: "\<And>i j. i \<in> set xs \<Longrightarrow> j \<in> set ys \<Longrightarrow> input i = input j \<Longrightarrow> hash i = hash j \<Longrightarrow> i = j"
  shows "xs = ys"
  using assms
proof (induction xs arbitrary: ys rule: rev_induct)
  case Nil
  then show ?case by simp
next
  case (snoc i xs)
  from snoc.prems(3) obtain zs j where ys: "ys = zs @ [j]"
    by (cases ys rule: rev_cases) auto
  have valid: "valid i" "valid j" using snoc.prems(1,2) by (simp_all add: ys)
  have "hash i = hash j" using snoc.prems(4) by (simp add: ys item_head_def)
  moreover from this have "digest (input i) = digest (input j)" using valid hash_valid by metis
  then have "input i = input j" by (rule inj_onD [OF snoc.prems(5)]) (simp_all add: ys)
  ultimately have ij: "i = j" using snoc.prems(6) by (simp add: ys)
  have "xs = zs"
  proof (rule snoc.IH)
    show "chain h xs" "chain h zs" "length xs = length zs"
      using snoc.prems(1-3) by (simp_all add: ys)
    show "hd_hash (head_after h xs) = hd_hash (head_after h zs)"
      using snoc.prems(1,2) ij by (simp add: ys)
    show "inj_on digest (input ` (set xs \<union> set zs))"
      using snoc.prems(5) by (rule inj_on_subset) (auto simp: ys)
    show "k = l" if "k \<in> set xs" "l \<in> set zs" "input k = input l" "hash k = hash l" for k l
      using that snoc.prems(6) [of k l] by (auto simp: ys)
  qed
  with ij ys show ?case by simp
qed

end

end
