(* ===== verification/Witness_Record.thy ===== *)
theory Witness_Record
  imports Pool_Config Provenance Hash_Chain
begin

text \<open>
  Witness records (\<open>witness.rs\<close>): the data types, the shape tests, the validation of one record,
  and building the next record of a chain.

  \<open>serde_json\<close>, \<open>sha2\<close>, \<open>chrono\<close> and \<open>uuid\<close> are third-party code: their functions are the fields
  of a \<open>WitnessCodec\<close>, the first argument of every operation that calls them.  The serialisers
  that \<open>serde\<close> derives for the small structures are written out from their attributes.  A
  \<open>SemanticCompletion\<close> is only passed on, so its type is the type variable \<open>'c\<close>.  A 64-bit
  float is its bit pattern.
\<close>

section \<open>Data\<close>

type_synonym f64 = u64

datatype RecordType = VerdictRecord

datatype Verdict =
    Pass | CleanExitNoArtifact | FailedVerdict | Cancelled | ReusedVerdict | PoolVanished
  | PreemptedVerdict | RuntimeExceeded | SubstitutedVerdict

datatype LaborClass = Fresh | Recovered | ReusedLabor | SubstitutedLabor

record Charge =
  ch_unit :: string
  ch_amount :: f64
  ch_class_name :: string

record DerivationOutput =
  do_name :: string
  do_path :: string

record Derivation =
  dv_drv_path :: string
  dv_outputs :: "DerivationOutput list"

datatype AuthorshipStatus = Bound | Unavailable | MissingNote | Mismatch | AuthorshipError

record Authorship =
  au_provider :: string
  au_provider_version :: string
  au_note_ref :: string
  au_status :: AuthorshipStatus
  au_notes_ref_target :: "string option"
  au_note_content_sha256 :: "string option"
  au_reason :: "string option"

record AuthorshipSession =
  as_tool :: string
  as_id :: string
  as_model :: string

record TerminalError =
  te_code :: string
  te_message :: string
  te_details :: "Json option"

record 'c WitnessRecord =
  wr_schema_version :: u32
  wr_record_type :: RecordType
  wr_transition_timestamp :: string
  wr_task_uuid :: "string option"
  wr_verdict :: Verdict
  wr_exit_code :: "32 word"
  wr_artifact_content_hash :: "string option"
  wr_store_paths :: "string list option"
  wr_drv :: "Derivation option"
  wr_gpu_seconds :: "f64 option"
  wr_wall_clock :: f64
  wr_attempt :: u32
  wr_lease_epoch :: u64
  wr_dedup_key :: "string option"
  wr_payload_hash :: "string option"
  wr_brief_hash :: "string option"
  wr_origin :: AdmissionOrigin
  wr_orchestration :: "Orchestration option"
  wr_labor_class :: LaborClass
  wr_trace_ref :: "string option"
  wr_pools :: "string list"
  wr_executor :: "string option"
  wr_host_id :: "string option"
  wr_charge :: "Charge option"
  wr_model :: "string option"
  wr_evidence_class :: "Json option"
  wr_manifest_hash :: "Json option"
  wr_completion :: "'c option"
  wr_error :: "TerminalError option"
  wr_result_revision :: "string option"
  wr_authorship :: "Authorship option"
  wr_authorship_sessions :: "AuthorshipSession list option"
  wr_extensions :: json_map
  wr_seq :: u64
  wr_prev_hash :: string
  wr_hash :: string

text \<open>\<open>WitnessBody\<close>; its two retired fields have no inhabitant but \<open>None\<close> and are left out.\<close>

record 'c WitnessBody =
  wb_task_uuid :: "string option"
  wb_transition_timestamp :: string
  wb_verdict :: Verdict
  wb_exit_code :: "32 word"
  wb_artifact_content_hash :: "string option"
  wb_store_paths :: "string list option"
  wb_drv :: "Derivation option"
  wb_gpu_seconds :: "f64 option"
  wb_wall_clock :: f64
  wb_attempt :: u32
  wb_lease_epoch :: u64
  wb_dedup_key :: "string option"
  wb_payload_hash :: "string option"
  wb_brief_hash :: "string option"
  wb_origin :: AdmissionOrigin
  wb_orchestration :: "Orchestration option"
  wb_labor_class :: LaborClass
  wb_trace_ref :: "string option"
  wb_pools :: "string list"
  wb_executor :: "string option"
  wb_host_id :: "string option"
  wb_charge :: "Charge option"
  wb_model :: "string option"
  wb_evidence_class :: "Json option"
  wb_manifest_hash :: "Json option"
  wb_completion :: "'c option"
  wb_error :: "TerminalError option"
  wb_result_revision :: "string option"

definition GENESIS_PREV_HASH :: string where
  "GENESIS_PREV_HASH =
     ''sha256:0000000000000000000000000000000000000000000000000000000000000000''"

definition WITNESS_SCHEMA_VERSION :: u32 where
  "WITNESS_SCHEMA_VERSION = 2"

definition default_head :: ChainHead where
  "default_head = \<lparr>hd_seq = 0, hd_hash = GENESIS_PREV_HASH\<rparr>"

datatype VerifyProblemKind =
    ParseError | InvalidRecord | SchemaVersionInvalid | RecordTypeInvalid | HashMismatch
  | PrevHashMismatch | SeqOrder | SeqGap | SeqDuplicate

record ValidationFailure =
  vf_kind :: VerifyProblemKind
  vf_reason :: string

datatype WitnessError =
    IoError
  | Corrupt string
  | OldFormat
  | InvalidHostId string
  | JsonError string

text \<open>
  The third-party functions: \<open>serde_json::from_str\<close> and \<open>to_string\<close> for \<open>Value\<close>,
  \<open>from_value\<close> and \<open>to_vec\<close> for \<open>WitnessRecord\<close>, \<open>to_value\<close> for \<open>f64\<close>, \<open>Number::is_f64\<close>, the
  respelling of a lexeme through \<open>f64\<close>, the lower-case hexadecimal SHA-256 digest, the canonical
  UTC spelling of an RFC 3339 timestamp, \<open>Uuid::parse_str\<close>, and the message of a pool-set error.
  A failing function returns its message in \<open>Inl\<close>.
\<close>

record 'c WitnessCodec =
  cd_parse :: "string \<Rightarrow> string + Json"
  cd_print :: "Json \<Rightarrow> string + string"
  cd_decode :: "Json \<Rightarrow> string + 'c WitnessRecord"
  cd_encode :: "'c WitnessRecord \<Rightarrow> string + string"
  cd_f64_value :: "f64 \<Rightarrow> Json"
  cd_is_f64 :: "string \<Rightarrow> bool"
  cd_f64_lexeme :: "string \<Rightarrow> string + string"
  cd_digest :: "string \<Rightarrow> string"
  cd_timestamp :: "string \<Rightarrow> string option"
  cd_uuid_ok :: "string \<Rightarrow> bool"
  cd_pool_error :: "PoolSetError \<Rightarrow> string"

section \<open>Hashing and canonical bytes\<close>

definition canonical_hash_input :: "'c WitnessCodec \<Rightarrow> Json \<Rightarrow> WitnessError + string" where
  "canonical_hash_input cd raw =
     (case as_object raw of
        None \<Rightarrow> Inl (Corrupt ''record is not a JSON object'')
      | Some object \<Rightarrow>
          if \<not> contains_key object ''hash'' then Inl (Corrupt ''record has no hash field'')
          else
            (case cd_print cd (JObject (map_insert ''hash'' (JString []) object)) of
               Inl e \<Rightarrow> Inl (JsonError e)
             | Inr s \<Rightarrow> Inr s))"

definition compute_hash_value :: "'c WitnessCodec \<Rightarrow> Json \<Rightarrow> WitnessError + string" where
  "compute_hash_value cd raw =
     (case canonical_hash_input cd raw of
        Inl e \<Rightarrow> Inl e
      | Inr input \<Rightarrow> Inr (''sha256:'' @ cd_digest cd input))"

text \<open>Collecting the results of a fallible loop: the first error wins.\<close>

fun collect :: "('e + 'a) list \<Rightarrow> 'e + 'a list" where
  "collect [] = Inr []"
| "collect (Inl e # xs) = Inl e"
| "collect (Inr x # xs) = (case collect xs of Inl e \<Rightarrow> Inl e | Inr ys \<Rightarrow> Inr (x # ys))"

fun normalize_witness_numbers :: "'c WitnessCodec \<Rightarrow> Json \<Rightarrow> string + Json" where
  "normalize_witness_numbers cd (JNumber n) =
     (if cd_is_f64 cd n then map_sum id JNumber (cd_f64_lexeme cd n) else Inr (JNumber n))"
| "normalize_witness_numbers cd (JArray vs) =
     map_sum id JArray (collect (map (normalize_witness_numbers cd) vs))"
| "normalize_witness_numbers cd (JObject m) =
     map_sum id JObject
       (collect (map (\<lambda>p. map_sum id (Pair (fst p)) (normalize_witness_numbers cd (snd p))) m))"
| "normalize_witness_numbers cd v = Inr v"

text \<open>\<open>stable_canonical_value\<close> on the encoded bytes of its argument.\<close>

definition stable_canonical_value :: "'c WitnessCodec \<Rightarrow> string + string \<Rightarrow> WitnessError + Json" where
  "stable_canonical_value cd encoding =
     (case encoding of
        Inl e \<Rightarrow> Inl (JsonError e)
      | Inr encoded \<Rightarrow>
     (case cd_parse cd encoded of
        Inl e \<Rightarrow> Inl (JsonError e)
      | Inr decoded \<Rightarrow>
     (case normalize_witness_numbers cd decoded of
        Inl e \<Rightarrow> Inl (JsonError e)
      | Inr normalized \<Rightarrow>
     (case cd_print cd normalized of
        Inl e \<Rightarrow> Inl (JsonError e)
      | Inr canonical \<Rightarrow>
     (case cd_parse cd canonical of
        Inl e \<Rightarrow> Inl (JsonError e)
      | Inr decoded2 \<Rightarrow>
     (case normalize_witness_numbers cd decoded2 of
        Inl e \<Rightarrow> Inl (JsonError e)
      | Inr reparsed \<Rightarrow>
     (case cd_print cd reparsed of
        Inl e \<Rightarrow> Inl (JsonError e)
      | Inr again \<Rightarrow>
          if again \<noteq> canonical
          then Inl (Corrupt ''record cannot be encoded as stable compact canonical JSON'')
          else Inr normalized)))))))"

definition compute_hash :: "'c WitnessCodec \<Rightarrow> 'c WitnessRecord \<Rightarrow> WitnessError + string" where
  "compute_hash cd r =
     (case stable_canonical_value cd (cd_encode cd r) of
        Inl e \<Rightarrow> Inl e
      | Inr v \<Rightarrow> compute_hash_value cd v)"

definition canonical_record_bytes :: "'c WitnessCodec \<Rightarrow> Json \<Rightarrow> WitnessError + string" where
  "canonical_record_bytes cd raw =
     (case cd_print cd raw of
        Inl e \<Rightarrow> Inl (JsonError e)
      | Inr encoded \<Rightarrow>
          (case cd_parse cd encoded of
             Inl e \<Rightarrow> Inl (JsonError e)
           | Inr normalized \<Rightarrow>
               (case cd_print cd normalized of
                  Inl e \<Rightarrow> Inl (JsonError e)
                | Inr canonical \<Rightarrow>
                    if canonical \<noteq> encoded
                    then Inl (Corrupt ''record producer generated non-canonical JSON'')
                    else Inr encoded)))"

section \<open>Shapes\<close>

definition sha256_shape :: "string \<Rightarrow> bool" where
  "sha256_shape v \<longleftrightarrow> length v = 71 \<and> starts_with v ''sha256:'' \<and> list_all lower_hex (drop 7 v)"

definition git_oid_shape :: "string \<Rightarrow> bool" where
  "git_oid_shape v \<longleftrightarrow> (length v = 40 \<or> length v = 64) \<and> list_all lower_hex v"

definition nix_hash_byte :: "char \<Rightarrow> bool" where
  "nix_hash_byte c \<longleftrightarrow>
     is_ascii_digit c \<or> (97 \<le> byte c \<and> byte c \<le> 100) \<or> (102 \<le> byte c \<and> byte c \<le> 110) \<or>
     (112 \<le> byte c \<and> byte c \<le> 115) \<or> (118 \<le> byte c \<and> byte c \<le> 122)"

definition nix_name_byte :: "char \<Rightarrow> bool" where
  "nix_name_byte c \<longleftrightarrow> is_ascii_alphanumeric c \<or> c \<in> set ''+._?=-''"

definition is_nix_store_path :: "string \<Rightarrow> bool" where
  "is_nix_store_path v =
     (case strip_prefix v ''/nix/store/'' of
        None \<Rightarrow> False
      | Some rest \<Rightarrow>
          (case split_once (CHR ''-'') rest of
             None \<Rightarrow> False
           | Some (h, name) \<Rightarrow>
               length h = 32 \<and> list_all nix_hash_byte h \<and> name \<noteq> [] \<and> list_all nix_name_byte name))"

definition registry_component_shape :: "string \<Rightarrow> bool" where
  "registry_component_shape v \<longleftrightarrow>
     v \<noteq> [] \<and> length v \<le> 96 \<and> v \<noteq> ''.'' \<and> v \<noteq> ''..'' \<and> component_start v \<and>
     list_all component_byte v"

definition validate_host_id :: "string \<Rightarrow> string option" where
  "validate_host_id v =
     (if v = [] then Some ''hostId must be non-empty''
      else if length v > 96 then Some ''hostId must be at most 96 bytes''
      else if has_control v then Some ''hostId must contain no control characters''
      else None)"

text \<open>\<open>current_host_id\<close>, given what \<open>gethostname\<close> returned.\<close>

definition current_host_id :: "string \<Rightarrow> WitnessError + string" where
  "current_host_id hostname =
     (let host_id = trim hostname
      in case validate_host_id host_id of Some e \<Rightarrow> Inl (InvalidHostId e) | None \<Rightarrow> Inr host_id)"

section \<open>Derivations and terminal errors\<close>

definition ends_with :: "string \<Rightarrow> string \<Rightarrow> bool" where
  "ends_with s p \<longleftrightarrow> starts_with (rev s) (rev p)"

text \<open>\<open>windows(2).any(...)\<close>.\<close>

fun any_adjacent :: "('a \<Rightarrow> 'a \<Rightarrow> bool) \<Rightarrow> 'a list \<Rightarrow> bool" where
  "any_adjacent P (x # y # zs) = (P x y \<or> any_adjacent P (y # zs))"
| "any_adjacent P _ = False"

definition derivation_validate :: "Derivation \<Rightarrow> string option" where
  "derivation_validate d =
     (if \<not> is_nix_store_path (dv_drv_path d) \<or> \<not> ends_with (dv_drv_path d) ''.drv''
      then Some ''drvPath must be a Nix store path ending in .drv''
      else if dv_outputs d = [] then Some ''drv outputs must be non-empty''
      else if list_ex (\<lambda>x. \<not> is_nix_store_path (do_path x)) (dv_outputs d)
      then Some ''drv output path is not a Nix store path''
      else if any_adjacent (\<lambda>a b. do_name a \<ge> do_name b) (dv_outputs d)
      then Some ''drv outputs must be sorted by name and unique''
      else None)"

definition derivation_canonicalize :: "Derivation \<Rightarrow> string + Derivation" where
  "derivation_canonicalize d =
     (let d' = d\<lparr>dv_outputs := sort_key do_name (dv_outputs d)\<rparr>
      in case derivation_validate d' of Some e \<Rightarrow> Inl e | None \<Rightarrow> Inr d')"

definition output_paths :: "Derivation \<Rightarrow> string list" where
  "output_paths d = remdups_adj (sort (map do_path (dv_outputs d)))"

definition terminal_error_validate :: "'c WitnessCodec \<Rightarrow> TerminalError \<Rightarrow> string option" where
  "terminal_error_validate cd e =
     (if te_code e = [] \<or> length (te_code e) > 64 \<or>
         \<not> list_all (\<lambda>c. is_ascii_lowercase c \<or> is_ascii_digit c \<or> c = CHR ''-'') (te_code e)
      then Some ''error code must be a non-empty lowercase kebab-case scalar of at most 64 bytes''
      else if te_message e = [] \<or> length (te_message e) > 4096 \<or> has_control (te_message e)
      then Some ''error message must be non-empty, at most 4096 bytes, and contain no control characters''
      else if is_some_and
          (\<lambda>details. as_object details = None \<or>
             (case cd_print cd details of Inl _ \<Rightarrow> True | Inr encoded \<Rightarrow> length encoded > 16 * 1024))
          (te_details e)
      then Some ''error details must be an object of at most 16384 encoded bytes''
      else None)"

end
