(* ===== verification/Witness_Validate.thy ===== *)
theory Witness_Validate
  imports Witness_Record
begin

text \<open>
  Validation of one witness record and construction of the next one (\<open>witness.rs\<close>,
  \<open>validate_record\<close> and \<open>build_record\<close>).  The checks of \<open>validate_record\<close> are listed in the
  order of the source; the first that fails is the result.
\<close>

unbundle bit_operations_syntax

section \<open>Derived serialisers\<close>

definition optional_field :: "string \<Rightarrow> ('a \<Rightarrow> Json) \<Rightarrow> 'a option \<Rightarrow> json_map" where
  "optional_field k f v = (case v of None \<Rightarrow> [] | Some x \<Rightarrow> [(k, f x)])"

definition u32_value :: "u32 \<Rightarrow> Json" where
  "u32_value w = JNumber (show_nat (unat w))"

definition output_value :: "DerivationOutput \<Rightarrow> Json" where
  "output_value x = JObject [(''name'', JString (do_name x)), (''path'', JString (do_path x))]"

definition drv_value :: "Derivation \<Rightarrow> Json" where
  "drv_value d =
     JObject [(''drvPath'', JString (dv_drv_path d)),
              (''outputs'', JArray (map output_value (dv_outputs d)))]"

definition origin_value :: "AdmissionOrigin \<Rightarrow> Json" where
  "origin_value x =
     JObject ([(''schemaVersion'', u32_value (ao_schema_version x)),
               (''source'', JString (source_name (ao_source x)))] @
       optional_field ''producer''
         (\<lambda>p. JObject [(''name'', JString (pn_name p)), (''kind'', JString (pn_kind p))])
         (ao_producer x))"

definition charge_value :: "'c WitnessCodec \<Rightarrow> Charge \<Rightarrow> Json" where
  "charge_value cd c =
     JObject [(''unit'', JString (ch_unit c)), (''amount'', cd_f64_value cd (ch_amount c)),
              (''class'', JString (ch_class_name c))]"

fun authorship_status_str :: "AuthorshipStatus \<Rightarrow> string" where
  "authorship_status_str Bound = ''bound''"
| "authorship_status_str Unavailable = ''unavailable''"
| "authorship_status_str MissingNote = ''missing-note''"
| "authorship_status_str Mismatch = ''mismatch''"
| "authorship_status_str AuthorshipError = ''error''"

definition authorship_value :: "Authorship \<Rightarrow> Json" where
  "authorship_value a =
     JObject ([(''provider'', JString (au_provider a)),
               (''providerVersion'', JString (au_provider_version a)),
               (''noteRef'', JString (au_note_ref a)),
               (''status'', JString (authorship_status_str (au_status a)))] @
       optional_field ''notesRefTarget'' JString (au_notes_ref_target a) @
       optional_field ''noteContentSha256'' JString (au_note_content_sha256 a) @
       optional_field ''reason'' JString (au_reason a))"

definition session_value :: "AuthorshipSession \<Rightarrow> Json" where
  "session_value s =
     JObject [(''tool'', JString (as_tool s)), (''id'', JString (as_id s)),
              (''model'', JString (as_model s))]"

definition error_value :: "TerminalError \<Rightarrow> Json" where
  "error_value e =
     JObject ([(''code'', JString (te_code e)), (''message'', JString (te_message e))] @
       optional_field ''details'' id (te_details e))"

section \<open>Floating point tests on bit patterns\<close>

definition f64_finite :: "f64 \<Rightarrow> bool" where
  "f64_finite w \<longleftrightarrow> drop_bit 52 w AND 0x7FF \<noteq> 0x7FF"

definition f64_is_zero :: "f64 \<Rightarrow> bool" where
  "f64_is_zero w \<longleftrightarrow> w AND 0x7FFFFFFFFFFFFFFF = 0"

text \<open>\<open>w < 0.0\<close>: negative, not a zero, not a NaN (infinity has magnitude \<open>0x7FF0...0\<close>).\<close>

definition f64_negative :: "f64 \<Rightarrow> bool" where
  "f64_negative w \<longleftrightarrow>
     drop_bit 63 w = 1 \<and> \<not> f64_is_zero w \<and> w AND 0x7FFFFFFFFFFFFFFF \<le> 0x7FF0000000000000"

section \<open>Validation\<close>

definition invalid :: "string \<Rightarrow> ValidationFailure" where
  "invalid reason = \<lparr>vf_kind = InvalidRecord, vf_reason = reason\<rparr>"

definition canonical_fields :: "string list" where
  "canonical_fields =
     [''schemaVersion'', ''recordType'', ''transitionTimestamp'', ''taskUuid'', ''verdict'',
      ''exitCode'', ''artifactContentHash'', ''storePaths'', ''drv'', ''gpuSeconds'', ''wallClock'',
      ''attempt'', ''leaseEpoch'', ''dedupKey'', ''payloadHash'', ''briefHash'', ''origin'',
      ''orchestration'', ''laborClass'', ''traceRef'', ''pools'', ''executor'', ''hostId'', ''charge'',
      ''model'', ''evidenceClass'', ''manifestHash'', ''completion'', ''error'', ''resultRevision'',
      ''authorship'', ''authorshipSessions'', ''seq'', ''prevHash'', ''hash'']"

definition canonical_field_index :: "string \<Rightarrow> nat option" where
  "canonical_field_index f = position (\<lambda>candidate. candidate = f) canonical_fields"

text \<open>A check is \<open>None\<close> when it passes; \<open>unless c f\<close> fails with \<open>f\<close> when \<open>c\<close> holds.\<close>

abbreviation unless :: "bool \<Rightarrow> 'a \<Rightarrow> 'a option" where
  "unless c f \<equiv> (if c then Some f else None)"

fun first_failure :: "'a option list \<Rightarrow> 'a option" where
  "first_failure [] = None"
| "first_failure (Some f # cs) = Some f"
| "first_failure (None # cs) = first_failure cs"

definition validate_canonical_field_value ::
  "'c WitnessCodec \<Rightarrow> json_map \<Rightarrow> string \<Rightarrow> Json \<Rightarrow> ValidationFailure option" where
  "validate_canonical_field_value cd object field canonical =
     (case map_get object field of
        None \<Rightarrow> Some (invalid (''missing field '' @ field))
      | Some raw \<Rightarrow>
          (case cd_print cd raw of
             Inl e \<Rightarrow> Some (invalid e)
           | Inr s \<Rightarrow>
               (case cd_print cd canonical of
                  Inl e \<Rightarrow> Some (invalid e)
                | Inr s' \<Rightarrow>
                    unless (s \<noteq> s')
                      (invalid (''field '' @ field @ '' is not in canonical serialized form'')))))"

definition canonical_optional ::
  "'c WitnessCodec \<Rightarrow> json_map \<Rightarrow> string \<Rightarrow> ('a \<Rightarrow> Json) \<Rightarrow> 'a option \<Rightarrow> ValidationFailure option" where
  "canonical_optional cd object field f v =
     (case v of None \<Rightarrow> None | Some x \<Rightarrow> validate_canonical_field_value cd object field (f x))"

fun check_forbidden :: "json_map \<Rightarrow> string list \<Rightarrow> ValidationFailure option" where
  "check_forbidden object [] = None"
| "check_forbidden object (f # fs) =
     (if contains_key object f then Some (invalid (f @ '' is not a canonical witness field''))
      else check_forbidden object fs)"

definition check_nulls :: "json_map \<Rightarrow> ValidationFailure option" where
  "check_nulls object =
     (case List.find (\<lambda>(_, v). v = JNull) object of
        Some (field, _) \<Rightarrow>
          Some (invalid (''top-level field '' @ field @ '' must be omitted instead of null''))
      | None \<Rightarrow> None)"

definition schema_failure :: ValidationFailure where
  "schema_failure =
     \<lparr>vf_kind = SchemaVersionInvalid,
      vf_reason = ''schemaVersion must be the integer '' @ show_nat (unat WITNESS_SCHEMA_VERSION)\<rparr>"

definition record_type_failure :: ValidationFailure where
  "record_type_failure =
     \<lparr>vf_kind = RecordTypeInvalid, vf_reason = ''recordType must be verdict''\<rparr>"

fun check_field_order :: "nat option \<Rightarrow> string list \<Rightarrow> ValidationFailure option" where
  "check_field_order last_known [] = None"
| "check_field_order last_known (field # fs) =
     (case canonical_field_index field of
        None \<Rightarrow> check_field_order last_known fs
      | Some index \<Rightarrow>
          if is_some_and (\<lambda>previous. index \<le> previous) last_known
          then Some (invalid (''field '' @ field @ '' is not in canonical witness order''))
          else check_field_order (Some index) fs)"

text \<open>The checks on the JSON object before it is decoded.\<close>

definition object_checks :: "json_map \<Rightarrow> ValidationFailure option list" where
  "object_checks object =
     [check_forbidden object [''parent'', ''parent_uuid'', ''parentUuid'', ''kind''],
      check_nulls object,
      unless (Option.bind (map_get object ''schemaVersion'') as_u64 \<noteq>
              Some (ucast WITNESS_SCHEMA_VERSION)) schema_failure,
      unless (Option.bind (map_get object ''recordType'') as_str \<noteq> Some ''verdict'')
        record_type_failure,
      check_field_order None (map fst object)]"

definition error_checks ::
  "'c WitnessCodec \<Rightarrow> json_map \<Rightarrow> 'c WitnessRecord \<Rightarrow> ValidationFailure option list" where
  "error_checks cd object r =
     (case wr_error r of
        None \<Rightarrow> []
      | Some e \<Rightarrow>
          [validate_canonical_field_value cd object ''error'' (error_value e),
           map_option invalid (terminal_error_validate cd e),
           unless (wr_verdict r \<noteq> FailedVerdict)
             (invalid ''error is permitted only on a failed verdict'')])"

definition check_timestamp :: "'c WitnessCodec \<Rightarrow> string \<Rightarrow> ValidationFailure option" where
  "check_timestamp cd t =
     (case cd_timestamp cd t of
        None \<Rightarrow> Some (invalid ''transitionTimestamp is not RFC3339 UTC millis'')
      | Some canonical \<Rightarrow>
          unless (canonical \<noteq> t) (invalid ''transitionTimestamp is not canonical RFC3339 UTC millis''))"

definition check_sha256 :: "string \<Rightarrow> string option \<Rightarrow> ValidationFailure option" where
  "check_sha256 field h =
     unless (is_some_and (\<lambda>x. \<not> sha256_shape x) h) (invalid (field @ '' is not lowercase sha256 hex''))"

definition store_path_checks :: "string list option \<Rightarrow> ValidationFailure option list" where
  "store_path_checks store_paths =
     (case store_paths of
        None \<Rightarrow> []
      | Some paths \<Rightarrow>
          [unless (paths = []) (invalid ''storePaths must be non-empty when present''),
           unless (list_ex (\<lambda>p. \<not> is_nix_store_path p) paths)
             (invalid ''storePaths contains an invalid Nix store path''),
           unless (any_adjacent (\<lambda>a b. a \<ge> b) paths)
             (invalid ''storePaths must be byte-ascending sorted and unique'')])"

definition substituted_checks :: "'c WitnessRecord \<Rightarrow> ValidationFailure option list" where
  "substituted_checks r =
     (if wr_verdict r \<noteq> SubstitutedVerdict then []
      else
        (case wr_drv r of
           None \<Rightarrow> [Some (invalid ''substituted verdict requires drv'')]
         | Some drv \<Rightarrow>
             [unless
                (wr_task_uuid r = None \<or> wr_store_paths r = None \<or>
                 wr_artifact_content_hash r \<noteq> None \<or> wr_gpu_seconds r \<noteq> None \<or>
                 wr_charge r \<noteq> None \<or> \<not> f64_is_zero (wr_wall_clock r) \<or> wr_attempt r \<noteq> 1 \<or>
                 wr_lease_epoch r \<noteq> 1 \<or> wr_pools r \<noteq> [''build''] \<or>
                 wr_dedup_key r \<noteq> Some (''drv:'' @ dv_drv_path drv))
                (invalid ''substituted verdict does not satisfy the cheap drv witness invariants'')]))"

definition check_pools_canonical ::
  "'c WitnessCodec \<Rightarrow> string list \<Rightarrow> ValidationFailure option" where
  "check_pools_canonical cd pools =
     (case canonicalize pools of
        Inl e \<Rightarrow> Some (invalid (cd_pool_error cd e))
      | Inr canonical \<Rightarrow> unless (canonical \<noteq> pools) (invalid ''pools is not in canonical order''))"

text \<open>The checks on the decoded record, in order.\<close>

definition record_checks ::
  "'c WitnessCodec \<Rightarrow> json_map \<Rightarrow> 'c WitnessRecord \<Rightarrow> ValidationFailure option list" where
  "record_checks cd object r =
     [unless (wr_schema_version r \<noteq> WITNESS_SCHEMA_VERSION) schema_failure,
      unless (wr_record_type r \<noteq> VerdictRecord) record_type_failure,
      validate_canonical_field_value cd object ''wallClock'' (cd_f64_value cd (wr_wall_clock r)),
      canonical_optional cd object ''gpuSeconds'' (cd_f64_value cd) (wr_gpu_seconds r),
      validate_canonical_field_value cd object ''origin'' (origin_value (wr_origin r)),
      canonical_optional cd object ''drv'' drv_value (wr_drv r),
      canonical_optional cd object ''orchestration'' id (wr_orchestration r),
      canonical_optional cd object ''charge'' (charge_value cd) (wr_charge r),
      canonical_optional cd object ''authorship'' authorship_value (wr_authorship r)] @
     error_checks cd object r @
     [canonical_optional cd object ''authorshipSessions'' (\<lambda>ss. JArray (map session_value ss))
        (wr_authorship_sessions r),
      check_timestamp cd (wr_transition_timestamp r),
      unless (is_some_and (\<lambda>u. \<not> cd_uuid_ok cd u) (wr_task_uuid r)) (invalid ''taskUuid is not a UUID''),
      check_sha256 ''artifactContentHash'' (wr_artifact_content_hash r),
      check_sha256 ''payloadHash'' (wr_payload_hash r),
      check_sha256 ''briefHash'' (wr_brief_hash r)] @
     store_path_checks (wr_store_paths r) @
     [(case wr_drv r of None \<Rightarrow> None | Some d \<Rightarrow> map_option invalid (derivation_validate d)),
      unless (is_some_and (\<lambda>x. \<not> registry_component_shape x) (wr_executor r))
        (invalid ''executor is not a safe registry component''),
      (case wr_host_id r of None \<Rightarrow> None | Some h \<Rightarrow> map_option invalid (validate_host_id h)),
      (case wr_orchestration r of None \<Rightarrow> None
         | Some v \<Rightarrow> map_option invalid (orchestration_validate (cd_uuid_ok cd) v)),
      map_option invalid (origin_validate (wr_origin r)),
      unless ((wr_verdict r = ReusedVerdict) \<noteq> (wr_labor_class r = ReusedLabor))
        (invalid ''verdict reused and laborClass reused must appear together''),
      unless ((wr_verdict r = SubstitutedVerdict) \<noteq> (wr_labor_class r = SubstitutedLabor))
        (invalid ''verdict substituted and laborClass substituted must appear together''),
      unless ((wr_verdict r = ReusedVerdict \<or> wr_verdict r = SubstitutedVerdict) \<and> wr_exit_code r \<noteq> 0)
        (invalid ''reused and substituted verdicts require exitCode 0'')] @
     substituted_checks r @
     [unless (wr_seq r = 0) (invalid ''seq missing or not a positive integer''),
      unless (\<not> sha256_shape (wr_prev_hash r))
        (invalid ''prevHash missing or not a lowercase sha256 hash''),
      unless (\<not> sha256_shape (wr_hash r)) (invalid ''hash missing or not a lowercase sha256 hash''),
      unless (\<not> f64_finite (wr_wall_clock r) \<or> f64_negative (wr_wall_clock r) \<or>
              is_some_and (\<lambda>g. \<not> f64_finite g) (wr_gpu_seconds r) \<or>
              is_some_and (\<lambda>c. \<not> f64_finite (ch_amount c)) (wr_charge r))
        (invalid ''numeric fields must be finite and wallClock must be non-negative''),
      unless (wr_attempt r = 0) (invalid ''attempt must be at least 1''),
      unless (wr_lease_epoch r = 0) (invalid ''leaseEpoch must be at least 1''),
      check_pools_canonical cd (wr_pools r),
      unless (is_some_and (\<lambda>x. \<not> git_oid_shape x) (wr_result_revision r))
        (invalid ''resultRevision must be a 40- or 64-character lowercase Git object ID'')]"

definition validate_record :: "'c WitnessCodec \<Rightarrow> Json \<Rightarrow> ValidationFailure + 'c WitnessRecord" where
  "validate_record cd raw =
     (case as_object raw of
        None \<Rightarrow> Inl (invalid ''line is not a JSON object'')
      | Some object \<Rightarrow>
          (case first_failure (object_checks object) of
             Some f \<Rightarrow> Inl f
           | None \<Rightarrow>
               (case cd_decode cd raw of
                  Inl e \<Rightarrow> Inl (invalid e)
                | Inr r \<Rightarrow>
                    (case first_failure (record_checks cd object r) of
                       Some f \<Rightarrow> Inl f
                     | None \<Rightarrow> Inr r))))"

section \<open>Building a record\<close>

definition canonical_store_paths :: "string list option \<Rightarrow> WitnessError + string list option" where
  "canonical_store_paths store_paths =
     (case store_paths of
        None \<Rightarrow> Inr None
      | Some paths \<Rightarrow>
          if any_adjacent (=) (sort paths)
          then Inl (Corrupt ''storePaths contains a duplicate path'')
          else Inr (Some (sort paths)))"

definition canonical_drv :: "Derivation option \<Rightarrow> WitnessError + Derivation option" where
  "canonical_drv drv =
     (case drv of
        None \<Rightarrow> Inr None
      | Some d \<Rightarrow>
          (case derivation_canonicalize d of Inl e \<Rightarrow> Inl (Corrupt e) | Inr d' \<Rightarrow> Inr (Some d')))"

definition unhashed_record ::
  "'c WitnessBody \<Rightarrow> string list \<Rightarrow> string list option \<Rightarrow> Derivation option \<Rightarrow> ChainHead
     \<Rightarrow> 'c WitnessRecord" where
  "unhashed_record body pools store_paths drv head =
     \<lparr>wr_schema_version = WITNESS_SCHEMA_VERSION, wr_record_type = VerdictRecord,
      wr_transition_timestamp = wb_transition_timestamp body, wr_task_uuid = wb_task_uuid body,
      wr_verdict = wb_verdict body, wr_exit_code = wb_exit_code body,
      wr_artifact_content_hash = wb_artifact_content_hash body, wr_store_paths = store_paths,
      wr_drv = drv, wr_gpu_seconds = wb_gpu_seconds body, wr_wall_clock = wb_wall_clock body,
      wr_attempt = wb_attempt body, wr_lease_epoch = wb_lease_epoch body,
      wr_dedup_key = wb_dedup_key body, wr_payload_hash = wb_payload_hash body,
      wr_brief_hash = wb_brief_hash body, wr_origin = wb_origin body,
      wr_orchestration = wb_orchestration body, wr_labor_class = wb_labor_class body,
      wr_trace_ref = wb_trace_ref body, wr_pools = pools, wr_executor = wb_executor body,
      wr_host_id = wb_host_id body, wr_charge = wb_charge body, wr_model = wb_model body,
      wr_evidence_class = wb_evidence_class body, wr_manifest_hash = wb_manifest_hash body,
      wr_completion = wb_completion body, wr_error = wb_error body,
      wr_result_revision = wb_result_revision body, wr_authorship = None,
      wr_authorship_sessions = None, wr_extensions = [], wr_seq = hd_seq head + 1,
      wr_prev_hash = hd_hash head, wr_hash = []\<rparr>"

definition build_record_with_raw ::
  "'c WitnessCodec \<Rightarrow> 'c WitnessBody \<Rightarrow> ChainHead \<Rightarrow> WitnessError + 'c WitnessRecord \<times> Json" where
  "build_record_with_raw cd body head =
     (case canonicalize (wb_pools body) of
        Inl e \<Rightarrow> Inl (Corrupt (cd_pool_error cd e))
      | Inr pools \<Rightarrow>
     (case canonical_store_paths (wb_store_paths body) of
        Inl e \<Rightarrow> Inl e
      | Inr store_paths \<Rightarrow>
     (case canonical_drv (wb_drv body) of
        Inl e \<Rightarrow> Inl e
      | Inr drv \<Rightarrow>
     (let r = unhashed_record body pools store_paths drv head
      in case stable_canonical_value cd (cd_encode cd r) of
        Inl e \<Rightarrow> Inl e
      | Inr raw \<Rightarrow>
     (case compute_hash_value cd raw of
        Inl e \<Rightarrow> Inl e
      | Inr h \<Rightarrow>
     (case as_object raw of
        None \<Rightarrow> Inl (Corrupt ''panic: serialized witness record is an object'')
      | Some object \<Rightarrow>
     (let hashed = JObject (map_insert ''hash'' (JString h) object)
      in case validate_record cd hashed of
        Inl f \<Rightarrow> Inl (Corrupt (vf_reason f))
      | Inr _ \<Rightarrow>
     (case canonical_record_bytes cd hashed of
        Inl e \<Rightarrow> Inl e
      | Inr _ \<Rightarrow> Inr (r\<lparr>wr_hash := h\<rparr>, hashed)))))))))"

definition build_record ::
  "'c WitnessCodec \<Rightarrow> 'c WitnessBody \<Rightarrow> ChainHead \<Rightarrow> WitnessError + 'c WitnessRecord" where
  "build_record cd body head = map_sum id fst (build_record_with_raw cd body head)"

text \<open>Which records count towards the canonical GPU seconds.\<close>

definition counts_toward_canonical_gpu_seconds :: "'c WitnessRecord \<Rightarrow> bool" where
  "counts_toward_canonical_gpu_seconds r \<longleftrightarrow>
     wr_labor_class r = Fresh \<and>
     wr_verdict r \<notin> {CleanExitNoArtifact, PoolVanished, PreemptedVerdict, Cancelled, SubstitutedVerdict}"

text \<open>The terms of the sum \<open>canonical_gpu_seconds\<close>, in order.\<close>

definition canonical_gpu_seconds_terms :: "'c WitnessRecord list \<Rightarrow> f64 list" where
  "canonical_gpu_seconds_terms rs =
     List.map_filter wr_gpu_seconds (filter counts_toward_canonical_gpu_seconds rs)"

section \<open>Facts\<close>

lemma first_failure_None: "first_failure cs = None \<longleftrightarrow> (\<forall>c \<in> set cs. c = None)"
  by (induction cs rule: first_failure.induct) auto

lemma first_failure_append: "first_failure (cs @ ds) = None \<longleftrightarrow> first_failure cs = None \<and> first_failure ds = None"
  by (auto simp: first_failure_None)

lemma validate_record_Inr:
  "validate_record cd raw = Inr r \<longleftrightarrow>
     (\<exists>object. raw = JObject object \<and> first_failure (object_checks object) = None \<and>
        cd_decode cd raw = Inr r \<and> first_failure (record_checks cd object r) = None)"
  by (cases raw) (auto simp: validate_record_def split: option.splits sum.splits)

lemma unless_None: "unless c f = None \<longleftrightarrow> \<not> c"
  by simp

lemma first_failure_Cons: "first_failure (c # cs) = None \<longleftrightarrow> c = None \<and> first_failure cs = None"
  by (cases c) auto

text \<open>What the checks of a validated record say, one by one.\<close>

lemma validated_checks:
  assumes "validate_record cd raw = Inr r"
  shows "wr_schema_version r = WITNESS_SCHEMA_VERSION" "wr_seq r \<noteq> 0" "wr_attempt r \<noteq> 0"
    "wr_lease_epoch r \<noteq> 0" "sha256_shape (wr_hash r)" "sha256_shape (wr_prev_hash r)"
    "check_pools_canonical cd (wr_pools r) = None"
    "first_failure (store_path_checks (wr_store_paths r)) = None"
    "\<exists>object. first_failure (error_checks cd object r) = None"
    "first_failure (substituted_checks r) = None"
    "(wr_verdict r = ReusedVerdict) = (wr_labor_class r = ReusedLabor)"
    "(wr_verdict r = SubstitutedVerdict) = (wr_labor_class r = SubstitutedLabor)"
    "\<not> ((wr_verdict r = ReusedVerdict \<or> wr_verdict r = SubstitutedVerdict) \<and> wr_exit_code r \<noteq> 0)"
    "f64_finite (wr_wall_clock r) \<and> \<not> f64_negative (wr_wall_clock r)"
proof -
  from assms obtain object where "first_failure (record_checks cd object r) = None"
    unfolding validate_record_Inr by blast
  note all = this [unfolded record_checks_def first_failure_append first_failure_Cons unless_None]
  from all show "wr_schema_version r = WITNESS_SCHEMA_VERSION" by blast
  from all show "wr_seq r \<noteq> 0" by blast
  from all show "wr_attempt r \<noteq> 0" by blast
  from all show "wr_lease_epoch r \<noteq> 0" by blast
  from all show "sha256_shape (wr_hash r)" by blast
  from all show "sha256_shape (wr_prev_hash r)" by blast
  from all show "check_pools_canonical cd (wr_pools r) = None" by blast
  from all show "first_failure (store_path_checks (wr_store_paths r)) = None" by blast
  from all show "\<exists>object. first_failure (error_checks cd object r) = None" by blast
  from all show "first_failure (substituted_checks r) = None" by blast
  from all show "(wr_verdict r = ReusedVerdict) = (wr_labor_class r = ReusedLabor)" by blast
  from all show "(wr_verdict r = SubstitutedVerdict) = (wr_labor_class r = SubstitutedLabor)" by blast
  from all show "\<not> ((wr_verdict r = ReusedVerdict \<or> wr_verdict r = SubstitutedVerdict) \<and>
    wr_exit_code r \<noteq> 0)" by blast
  from all show "f64_finite (wr_wall_clock r) \<and> \<not> f64_negative (wr_wall_clock r)" by blast
qed

lemmas validate_record_seq = validated_checks(2)

lemma strictly_ascending: "\<not> any_adjacent (\<lambda>a b. a \<ge> b) xs \<Longrightarrow> sorted_wrt (<) (xs :: 'a :: linorder list)"
proof (induction xs rule: induct_list012)
  case (3 x y zs)
  then have "x < y" "sorted_wrt (<) (y # zs)" by (simp_all add: not_le)
  then show ?case by auto
qed simp_all

lemma compute_hash_value_Inr:
  "compute_hash_value cd raw = Inr h \<longleftrightarrow>
     (\<exists>object input. raw = JObject object \<and> contains_key object ''hash'' \<and>
        cd_print cd (JObject (map_insert ''hash'' (JString []) object)) = Inr input \<and>
        h = ''sha256:'' @ cd_digest cd input)"
  by (cases raw)
    (auto simp: compute_hash_value_def canonical_hash_input_def split: sum.splits)

end
