(* ===== verification/Text_Lines.thy ===== *)
theory Text_Lines
  imports Tally_Prelude
begin

text \<open>
  Line-oriented reading as the standard library does it: \<open>BufRead::read_line\<close>, \<open>BufRead::lines\<close> and
  \<open>str::lines\<close>, \<open>str::split_terminator\<close> at a line feed, and how these see a file that consists of
  complete lines. Also joining strings and counting characters.
\<close>

abbreviation LF :: char where
  "LF \<equiv> CHR 10"

abbreviation CR :: char where
  "CR \<equiv> CHR 13"

abbreviation utf8 :: "string \<Rightarrow> bool" where
  "utf8 s \<equiv> valid_utf8 (map byte s)"

text \<open>
  \<open>join\<close> on a slice of strings, and \<open>chars().count()\<close> on UTF-8 bytes: every byte that does not continue a
  character starts one.
\<close>

fun join_text :: "string \<Rightarrow> string list \<Rightarrow> string" where
  "join_text sep [] = []"
| "join_text sep [x] = x"
| "join_text sep (x # xs) = x @ sep @ join_text sep xs"

definition char_count :: "string \<Rightarrow> nat" where
  "char_count s = length (filter (\<lambda>c. \<not> utf8_tail (byte c)) s)"

text \<open>The next line with its line feed, and the rest.\<close>

definition read_line :: "string \<Rightarrow> string \<times> string" where
  "read_line s =
     (let a = takeWhile (\<lambda>c. c \<noteq> LF) s
      in case dropWhile (\<lambda>c. c \<noteq> LF) s of [] \<Rightarrow> (a, []) | _ # rest \<Rightarrow> (a @ [LF], rest))"

lemma read_line_shrinks: "s \<noteq> [] \<Longrightarrow> length (snd (read_line s)) < length s"
proof -
  assume "s \<noteq> []"
  moreover have "length (dropWhile (\<lambda>c. c \<noteq> LF) s) \<le> length s" by (rule length_dropWhile_le)
  ultimately show ?thesis by (auto simp: read_line_def Let_def split: list.splits)
qed

text \<open>The line without its terminator: a line feed and a carriage return before it.\<close>

definition strip_eol :: "string \<Rightarrow> string" where
  "strip_eol l =
     (case rev l of
        c # r \<Rightarrow> if c = LF then (case r of d # r' \<Rightarrow> if d = CR then rev r' else rev r | [] \<Rightarrow> []) else l
      | [] \<Rightarrow> l)"

lemma strip_eol_line: "CR \<notin> set l \<Longrightarrow> strip_eol (l @ [LF]) = l"
  by (cases l rule: rev_cases) (auto simp: strip_eol_def)

function str_lines :: "string \<Rightarrow> string list" where
  "str_lines s = (if s = [] then [] else strip_eol (fst (read_line s)) # str_lines (snd (read_line s)))"
  by pat_completeness auto
termination
  by (relation "measure length") (auto intro: read_line_shrinks)

declare str_lines.simps [simp del]

function split_terminator :: "string \<Rightarrow> string list" where
  "split_terminator s =
     (if s = [] then []
      else takeWhile (\<lambda>c. c \<noteq> LF) s # split_terminator (snd (read_line s)))"
  by pat_completeness auto
termination
  by (relation "measure length") (auto intro: read_line_shrinks)

declare split_terminator.simps [simp del]

text \<open>\<open>rposition(|byte| byte == LF).map_or(0, |p| p + 1)\<close>: the length of the complete lines.\<close>

definition complete_len :: "string \<Rightarrow> nat" where
  "complete_len s = length (dropWhile (\<lambda>c. c \<noteq> LF) (rev s))"

text \<open>A file of complete lines.\<close>

definition unlines :: "string list \<Rightarrow> string" where
  "unlines ls = concat (map (\<lambda>l. l @ [LF]) ls)"

definition line_text :: "string \<Rightarrow> bool" where
  "line_text l \<longleftrightarrow> LF \<notin> set l"

lemma unlines_simps [simp]:
  "unlines [] = []" "unlines (l # ls) = l @ LF # unlines ls"
  "unlines (ls @ ls') = unlines ls @ unlines ls'"
  by (simp_all add: unlines_def)

lemma unlines_eq_Nil [simp]: "unlines ls = [] \<longleftrightarrow> ls = []" "[] = unlines ls \<longleftrightarrow> ls = []"
  by (cases ls; simp)+

lemma takeWhile_line: "line_text l \<Longrightarrow> takeWhile (\<lambda>c. c \<noteq> LF) (l @ LF # r) = l"
  by (induction l) (auto simp: line_text_def)

lemma dropWhile_line: "line_text l \<Longrightarrow> dropWhile (\<lambda>c. c \<noteq> LF) (l @ LF # r) = LF # r"
  by (induction l) (auto simp: line_text_def)

lemma read_line_line [simp]: "line_text l \<Longrightarrow> read_line (l @ LF # r) = (l @ [LF], r)"
  by (simp add: read_line_def takeWhile_line dropWhile_line)

lemma read_line_last: "LF \<notin> set s \<Longrightarrow> read_line s = (s, [])"
proof -
  assume "LF \<notin> set s"
  then have "\<forall>c \<in> set s. c \<noteq> LF" by auto
  then have d: "dropWhile (\<lambda>c. c \<noteq> LF) s = []" and a: "takeWhile (\<lambda>c. c \<noteq> LF) s = s"
    by (simp_all add: dropWhile_eq_Nil_conv takeWhile_eq_all_conv)
  show ?thesis unfolding read_line_def d a by simp
qed

lemma split_terminator_unlines: "list_all line_text ls \<Longrightarrow> split_terminator (unlines ls) = ls"
  by (induction ls) (simp_all add: split_terminator.simps takeWhile_line)

lemma line_cases:
  obtains "LF \<notin> set s" | l r where "line_text l" "s = l @ LF # r"
proof (cases "LF \<in> set s")
  case True
  then obtain l r where "s = l @ LF # r" "LF \<notin> set l" by (meson split_list_first)
  then show thesis using that(2) by (simp add: line_text_def)
next
  case False
  then show thesis by (rule that(1))
qed

lemma line_unique:
  "line_text l \<Longrightarrow> line_text l' \<Longrightarrow> l @ LF # r = l' @ LF # r' \<Longrightarrow> l = l' \<and> r = r'"
  by (metis read_line_line append_same_eq prod.inject)

lemma unlines_inject:
  "list_all line_text ls \<Longrightarrow> list_all line_text ls' \<Longrightarrow> unlines ls = unlines ls' \<Longrightarrow> ls = ls'"
  by (metis split_terminator_unlines)

lemma str_lines_unlines_append:
  "list_all line_text ls \<Longrightarrow> str_lines (unlines ls @ s) = str_lines (unlines ls) @ str_lines s"
proof (induction ls)
  case Nil
  then show ?case by (simp add: str_lines.simps [of "[]"])
next
  case (Cons l ls)
  then show ?case by (simp add: str_lines.simps [of "l @ LF # _"])
qed

text \<open>Every byte string is a list of complete lines and a tail without line feed.\<close>

lemma complete_lines:
  "\<exists>ls t. s = unlines ls @ t \<and> list_all line_text ls \<and> LF \<notin> set t"
proof (induction "length s" arbitrary: s rule: less_induct)
  case less
  show ?case
  proof (cases s rule: line_cases)
    case 1
    then show ?thesis by (intro exI [of _ "[]"] exI [of _ s]) simp
  next
    case (2 l r)
    then obtain ls t where "r = unlines ls @ t" "list_all line_text ls" "LF \<notin> set t"
      using less [of r] by auto
    with 2 show ?thesis by (intro exI [of _ "l # ls"] exI [of _ t]) simp
  qed
qed

lemma complete_len_unlines:
  assumes "LF \<notin> set t"
  shows "complete_len (unlines ls @ t) = length (unlines ls)"
proof -
  have t: "dropWhile (\<lambda>c. c \<noteq> LF) (rev t @ u) = dropWhile (\<lambda>c. c \<noteq> LF) u" for u
    using assms by (intro dropWhile_append2) auto
  show ?thesis
    using assms by (cases ls rule: rev_cases) (auto simp: complete_len_def t)
qed

lemma take_complete:
  "LF \<notin> set t \<Longrightarrow> take (complete_len (unlines ls @ t)) (unlines ls @ t) = unlines ls"
  by (simp add: complete_len_unlines)

section \<open>UTF-8 and line feeds\<close>

lemma utf8_scalar_append:
  "bs \<noteq> [] \<Longrightarrow> c < 128 \<Longrightarrow> utf8_scalar (bs @ c # cs) = utf8_scalar bs"
  by (auto simp: utf8_scalar_def utf8_tail_def split: list.splits if_splits)

lemma utf8_scalar_le: "utf8_scalar bs \<le> length bs"
  by (auto simp: utf8_scalar_def split: list.splits)

lemma valid_utf8_append:
  "c < 128 \<Longrightarrow> valid_utf8 (bs @ c # cs) \<longleftrightarrow> valid_utf8 bs \<and> valid_utf8 cs"
proof (induction "length bs" arbitrary: bs rule: less_induct)
  case less
  show ?case
  proof (cases "bs = []")
    case True
    have "utf8_scalar (c # cs) = 1" using less.prems by (simp add: utf8_scalar_def)
    then show ?thesis using True
      by (simp add: valid_utf8.simps [of "c # cs"] valid_utf8.simps [of "[]"])
  next
    case False
    let ?n = "utf8_scalar bs"
    have n: "utf8_scalar (bs @ c # cs) = ?n" using False less.prems by (rule utf8_scalar_append)
    have le: "?n \<le> length bs" by (rule utf8_scalar_le)
    show ?thesis
    proof (cases "?n = 0")
      case True
      with n False show ?thesis
        by (simp add: valid_utf8.simps [of "bs @ c # cs"] valid_utf8.simps [of bs])
    next
      case pos: False
      have "valid_utf8 (drop ?n bs @ c # cs) \<longleftrightarrow> valid_utf8 (drop ?n bs) \<and> valid_utf8 cs"
        using less.prems pos False by (intro less.hyps) simp_all
      with n le pos False show ?thesis
        by (simp add: valid_utf8.simps [of "bs @ c # cs"] valid_utf8.simps [of bs])
    qed
  qed
qed

lemma utf8_line: "utf8 (l @ LF # r) \<longleftrightarrow> utf8 l \<and> utf8 r"
  by (simp add: valid_utf8_append byte_def)

lemma valid_utf8_Nil [simp]: "valid_utf8 []"
  by (simp add: valid_utf8.simps)

lemma utf8_unlines: "utf8 (unlines ls) \<longleftrightarrow> list_all utf8 ls"
  by (induction ls) (simp_all add: utf8_line del: map_append)

lemma ascii_bytes: "list_all (\<lambda>b. b < 128) bs \<Longrightarrow> valid_utf8 bs"
proof (induction bs)
  case (Cons b bs)
  then show ?case by (simp add: valid_utf8_append [of b "[]", simplified])
qed simp

lemma ascii_utf8: "list_all (\<lambda>c. byte c < 128) s \<Longrightarrow> utf8 s"
  by (rule ascii_bytes) (simp add: list_all_iff)

end
