(* ===== verification/Witness_Verify.thy ===== *)
theory Witness_Verify
  imports Witness_Validate Text_Lines
begin

text \<open>
  Verification of the witness ledger (\<open>witness.rs\<close>): the full pass \<open>verify_reader\<close> with every problem
  it can report, the incremental pass \<open>verify_suffix_bytes\<close>, and reading verified records.  A
  ledger file is the string of its bytes.
\<close>

section \<open>The full pass\<close>

record VerifyProblem =
  vp_seq :: "u64 option"
  vp_line :: nat
  vp_kind :: VerifyProblemKind
  vp_reason :: string

record VerifyReport =
  vr_ok :: bool
  vr_records :: nat
  vr_first_seq :: "u64 option"
  vr_last_seq :: "u64 option"
  vr_problems :: "VerifyProblem list"

record 'c ParsedRecord =
  pr_record :: "'c WitnessRecord"
  pr_raw :: Json
  pr_line :: nat

definition raw_seq :: "Json \<Rightarrow> u64 option" where
  "raw_seq raw = Option.bind (value_get raw ''seq'') as_u64"

text \<open>The first byte at which two strings differ.\<close>

definition diff_offset :: "string \<Rightarrow> string \<Rightarrow> nat" where
  "diff_offset a b =
     (case position (\<lambda>(x, y). x \<noteq> y) (zip a b) of
        Some i \<Rightarrow> i
      | None \<Rightarrow> min (length a) (length b))"

text \<open>One line of the loop, with its terminator if it has one.\<close>

definition verify_line :: "'c WitnessCodec \<Rightarrow> nat \<Rightarrow> string \<Rightarrow> VerifyProblem + 'c ParsedRecord" where
  "verify_line cd n terminated =
     (let problem = (\<lambda>seq kind reason.
            Inl \<lparr>vp_seq = seq, vp_line = n, vp_kind = kind, vp_reason = reason\<rparr>)
      in if terminated = [] \<or> last terminated \<noteq> LF
         then problem None ParseError ''record is not LF-terminated''
         else
           (let line = butlast terminated
            in if is_blank line
               then problem None ParseError ''blank lines are not canonical witness records''
               else
                 (case cd_parse cd line of
                    Inl _ \<Rightarrow> problem None ParseError ''line is not valid JSON''
                  | Inr raw \<Rightarrow>
                      (case cd_print cd raw of
                         Inl e \<Rightarrow> problem (raw_seq raw) InvalidRecord
                                    (''record cannot be canonically serialized: '' @ e)
                       | Inr canonical_line \<Rightarrow>
                           if canonical_line \<noteq> line
                           then problem (raw_seq raw) InvalidRecord
                                  (''record bytes are not compact canonical JSON at byte '' @
                                   show_nat (diff_offset line canonical_line))
                           else
                             (case validate_record cd raw of
                                Inl f \<Rightarrow> problem (raw_seq raw) (vf_kind f) (vf_reason f)
                              | Inr r \<Rightarrow>
                                  Inr \<lparr>pr_record = r, pr_raw = raw, pr_line = n\<rparr>)))))"

function verify_lines ::
  "'c WitnessCodec \<Rightarrow> nat \<Rightarrow> string \<Rightarrow> VerifyProblem list \<times> 'c ParsedRecord list" where
  "verify_lines cd n bytes =
     (if bytes = [] then ([], [])
      else
        (let (line, rest) = read_line bytes
         in if \<not> utf8 line
            then ([\<lparr>vp_seq = None, vp_line = n + 1, vp_kind = ParseError,
                    vp_reason = ''cannot read line: stream did not contain valid UTF-8''\<rparr>], [])
            else
              (let (problems, valid) = verify_lines cd (n + 1) rest
               in case verify_line cd (n + 1) line of
                    Inl p \<Rightarrow> (p # problems, valid)
                  | Inr parsed \<Rightarrow> (problems, parsed # valid))))"
  by pat_completeness auto
termination
proof (relation "measure (\<lambda>(cd, n, bytes). length bytes)")
  show "wf (measure (\<lambda>(cd, n, bytes). length bytes))" by simp
  show "((cd, n + 1, rest), (cd, n, bytes)) \<in> measure (\<lambda>(cd, n, bytes). length bytes)"
    if "bytes \<noteq> []" and "x = read_line bytes" and "(line, rest) = x"
    for cd :: "'c WitnessCodec" and n bytes x line rest
  proof -
    from that have "rest = snd (read_line bytes)" by (metis snd_conv)
    with that(1) show ?thesis by (simp add: read_line_shrinks)
  qed
qed

declare verify_lines.simps [simp del]

definition problem_at ::
  "'c ParsedRecord \<Rightarrow> VerifyProblemKind \<Rightarrow> string \<Rightarrow> VerifyProblem" where
  "problem_at parsed kind reason =
     \<lparr>vp_seq = Some (wr_seq (pr_record parsed)), vp_line = pr_line parsed, vp_kind = kind,
      vp_reason = reason\<rparr>"

definition error_text :: "WitnessError \<Rightarrow> string" where
  "error_text e =
     (case e of
        Corrupt s \<Rightarrow> ''ledger is corrupt: '' @ s
      | JsonError s \<Rightarrow> ''cannot serialize ledger record: '' @ s
      | InvalidHostId s \<Rightarrow> ''invalid host ID: '' @ s
      | _ \<Rightarrow> [])"

definition hash_problem :: "'c WitnessCodec \<Rightarrow> 'c ParsedRecord \<Rightarrow> VerifyProblem option" where
  "hash_problem cd parsed =
     (case compute_hash_value cd (pr_raw parsed) of
        Inr recomputed \<Rightarrow>
          if recomputed \<noteq> wr_hash (pr_record parsed)
          then Some (problem_at parsed HashMismatch
                 (''stored hash '' @ wr_hash (pr_record parsed) @ '' != recomputed '' @ recomputed @
                  '' (line tampered)''))
          else None
      | Inl e \<Rightarrow> Some (problem_at parsed InvalidRecord (error_text e)))"

fun prev_problems :: "string \<Rightarrow> 'c ParsedRecord list \<Rightarrow> VerifyProblem list" where
  "prev_problems previous_hash [] = []"
| "prev_problems previous_hash (parsed # rest) =
     (if wr_prev_hash (pr_record parsed) \<noteq> previous_hash
      then [problem_at parsed PrevHashMismatch
              (''prev_hash '' @ wr_prev_hash (pr_record parsed) @ '' != predecessor hash '' @
               previous_hash @ '' (chain broken)'')]
      else []) @
     prev_problems (wr_hash (pr_record parsed)) rest"

fun order_problems :: "u64 \<Rightarrow> 'c ParsedRecord list \<Rightarrow> VerifyProblem list" where
  "order_problems previous_seq [] = []"
| "order_problems previous_seq (parsed # rest) =
     (if wr_seq (pr_record parsed) \<le> previous_seq
      then [problem_at parsed SeqOrder
              (''seq '' @ show_nat (unat (wr_seq (pr_record parsed))) @
               '' does not strictly follow '' @ show_nat (unat previous_seq) @
               '' (reordered or duplicate)'')]
      else []) @
     order_problems (wr_seq (pr_record parsed)) rest"

fun duplicate_problems :: "u64 set \<Rightarrow> 'c ParsedRecord list \<Rightarrow> VerifyProblem list" where
  "duplicate_problems sequences [] = []"
| "duplicate_problems sequences (parsed # rest) =
     (if wr_seq (pr_record parsed) \<in> sequences
      then [problem_at parsed SeqDuplicate
              (''seq '' @ show_nat (unat (wr_seq (pr_record parsed))) @ '' appears more than once'')]
      else []) @
     duplicate_problems (insert (wr_seq (pr_record parsed)) sequences) rest"

text \<open>
  The scan of the ordered set of sequence numbers; \<open>line_of\<close> is the table of lines by sequence
  number.  It stops at the first gap.
\<close>

fun gap_problem :: "(u64 \<Rightarrow> nat) \<Rightarrow> u64 \<Rightarrow> u64 list \<Rightarrow> VerifyProblem list" where
  "gap_problem line_of expected [] = []"
| "gap_problem line_of expected (s # ss) =
     (if s \<noteq> expected
      then [\<lparr>vp_seq = Some s, vp_line = line_of s, vp_kind = SeqGap,
             vp_reason = ''expected seq '' @ show_nat (unat expected) @ '' but found '' @
                         show_nat (unat s) @ '' (missing line)''\<rparr>]
      else gap_problem line_of (expected + 1) ss)"

definition sequence_line :: "'c ParsedRecord list \<Rightarrow> u64 \<Rightarrow> nat" where
  "sequence_line valid s =
     (case map_of (rev (map (\<lambda>p. (wr_seq (pr_record p), pr_line p)) valid)) s of
        Some l \<Rightarrow> l | None \<Rightarrow> 0)"

definition verify_reader :: "'c WitnessCodec \<Rightarrow> string \<Rightarrow> VerifyReport" where
  "verify_reader cd bytes =
     (let (line_problems, valid) = verify_lines cd 0 bytes;
          seqs = map (\<lambda>p. wr_seq (pr_record p)) valid;
          problems = line_problems @ List.map_filter (hash_problem cd) valid @
            prev_problems GENESIS_PREV_HASH valid @ order_problems 0 valid @
            duplicate_problems {} valid @
            gap_problem (sequence_line valid) 1 (sort (remdups seqs))
      in \<lparr>vr_ok = (problems = []), vr_records = length valid,
          vr_first_seq = (if valid = [] then None else Some (hd seqs)),
          vr_last_seq = (if valid = [] then None else Some (last seqs)),
          vr_problems = problems\<rparr>)"

definition empty_report :: VerifyReport where
  "empty_report =
     \<lparr>vr_ok = True, vr_records = 0, vr_first_seq = None, vr_last_seq = None, vr_problems = []\<rparr>"

text \<open>\<open>verify_file\<close> on an absent file, a file that cannot be opened, or its bytes.\<close>

datatype FileContent = Absent | Unreadable | Content string

definition verify_file :: "'c WitnessCodec \<Rightarrow> FileContent \<Rightarrow> WitnessError + VerifyReport" where
  "verify_file cd f =
     (case f of
        Absent \<Rightarrow> Inr empty_report
      | Unreadable \<Rightarrow> Inl IoError
      | Content bytes \<Rightarrow> Inr (verify_reader cd bytes))"

text \<open>The records of the non-blank lines, or the first error.\<close>

definition read_record_line :: "'c WitnessCodec \<Rightarrow> string \<Rightarrow> WitnessError + 'c WitnessRecord" where
  "read_record_line cd line =
     (if \<not> utf8 line then Inl IoError
      else
        (case cd_parse cd line of
           Inl e \<Rightarrow> Inl (JsonError e)
         | Inr raw \<Rightarrow>
             (case validate_record cd raw of
                Inl f \<Rightarrow> Inl (Corrupt (vf_reason f))
              | Inr r \<Rightarrow> Inr r)))"

definition read_records :: "'c WitnessCodec \<Rightarrow> string \<Rightarrow> WitnessError + 'c WitnessRecord list" where
  "read_records cd bytes =
     collect (map (read_record_line cd)
       (filter (\<lambda>l. \<not> (utf8 l \<and> is_blank l)) (str_lines bytes)))"

definition read_verified_records ::
  "'c WitnessCodec \<Rightarrow> FileContent \<Rightarrow> WitnessError + VerifyReport \<times> 'c WitnessRecord list" where
  "read_verified_records cd f =
     (case f of
        Absent \<Rightarrow> Inr (empty_report, [])
      | Unreadable \<Rightarrow> Inl IoError
      | Content bytes \<Rightarrow>
          (let report = verify_reader cd bytes
           in if \<not> vr_ok report then Inr (report, [])
              else map_sum id (Pair report) (read_records cd bytes)))"

section \<open>The incremental pass\<close>

fun verify_suffix_lines ::
  "'c WitnessCodec \<Rightarrow> ChainHead \<Rightarrow> string list \<Rightarrow> WitnessError + 'c WitnessRecord list" where
  "verify_suffix_lines cd head [] = Inr []"
| "verify_suffix_lines cd head (line # ls) =
     (if is_blank line then Inl (Corrupt ''blank lines are not canonical witness records'')
      else
        (case cd_parse cd line of
           Inl _ \<Rightarrow> Inl (Corrupt ''suffix line is not valid JSON'')
         | Inr raw \<Rightarrow>
        (case cd_print cd raw of
           Inl e \<Rightarrow> Inl (JsonError e)
         | Inr canonical \<Rightarrow>
             if canonical \<noteq> line
             then Inl (Corrupt ''suffix record bytes are not compact canonical JSON'')
             else
        (case validate_record cd raw of
           Inl f \<Rightarrow> Inl (Corrupt (vf_reason f))
         | Inr r \<Rightarrow>
        (case compute_hash_value cd raw of
           Inl e \<Rightarrow> Inl e
         | Inr h \<Rightarrow>
             if h \<noteq> wr_hash r
             then Inl (Corrupt (''suffix record '' @ show_nat (unat (wr_seq r)) @
                                '' hash does not match its bytes''))
             else if wr_prev_hash r \<noteq> hd_hash head \<or> wr_seq r \<noteq> hd_seq head + 1
             then Inl (Corrupt (''suffix record '' @ show_nat (unat (wr_seq r)) @
                                '' does not chain from the verified head '' @
                                show_nat (unat (hd_seq head))))
             else
        (case verify_suffix_lines cd \<lparr>hd_seq = wr_seq r, hd_hash = wr_hash r\<rparr> ls of
           Inl e \<Rightarrow> Inl e
         | Inr rs \<Rightarrow> Inr (r # rs)))))))"

definition verify_suffix_bytes ::
  "'c WitnessCodec \<Rightarrow> string \<Rightarrow> ChainHead \<Rightarrow> WitnessError + 'c WitnessRecord list" where
  "verify_suffix_bytes cd bytes head =
     (if \<not> utf8 bytes then Inl (Corrupt ''ledger suffix is not UTF-8'')
      else verify_suffix_lines cd head (split_terminator bytes))"

end
