(* ===== verification/Witness_Chain.thy ===== *)
theory Witness_Chain
  imports Witness_Verify
begin

text \<open>
  What verification of the witness ledger means: a verified ledger is a list of complete canonical
  lines whose records form a hash chain from the genesis hash.  The full pass and the incremental
  pass are characterised by the same chain, hence by each other.
\<close>

section \<open>Items of the ledger\<close>

text \<open>A line that parses, is canonical and holds a valid record.\<close>

definition parse_item :: "'c WitnessCodec \<Rightarrow> string \<Rightarrow> (Json \<times> 'c WitnessRecord) option" where
  "parse_item cd l =
     (if is_blank l \<or> \<not> utf8 l then None
      else
        (case cd_parse cd l of
           Inl _ \<Rightarrow> None
         | Inr raw \<Rightarrow>
             if cd_print cd raw \<noteq> Inr l then None
             else (case validate_record cd raw of Inl _ \<Rightarrow> None | Inr r \<Rightarrow> Some (raw, r))))"

definition item_valid :: "'c WitnessCodec \<Rightarrow> Json \<times> 'c WitnessRecord \<Rightarrow> bool" where
  "item_valid cd i \<longleftrightarrow>
     validate_record cd (fst i) = Inr (snd i) \<and>
     compute_hash_value cd (fst i) = Inr (wr_hash (snd i))"

definition item_input :: "'c WitnessCodec \<Rightarrow> Json \<times> 'c WitnessRecord \<Rightarrow> string" where
  "item_input cd i = (case canonical_hash_input cd (fst i) of Inr s \<Rightarrow> s | Inl _ \<Rightarrow> [])"

interpretation wl: hash_chain "\<lambda>i. wr_seq (snd i)" "\<lambda>i. wr_prev_hash (snd i)"
    "\<lambda>i. wr_hash (snd i)" "item_input cd" "\<lambda>s. ''sha256:'' @ cd_digest cd s" "item_valid cd"
  for cd :: "'c WitnessCodec"
  by unfold_locales
    (auto simp: item_valid_def item_input_def compute_hash_value_def split: sum.splits)

abbreviation witness_chain ::
  "'c WitnessCodec \<Rightarrow> ChainHead \<Rightarrow> (Json \<times> 'c WitnessRecord) list \<Rightarrow> bool" where
  "witness_chain cd \<equiv> hash_chain.chain (\<lambda>i. wr_seq (snd i)) (\<lambda>i. wr_prev_hash (snd i))
     (\<lambda>i. wr_hash (snd i)) (item_valid cd)"

abbreviation witness_head :: "ChainHead \<Rightarrow> (Json \<times> 'c WitnessRecord) list \<Rightarrow> ChainHead" where
  "witness_head \<equiv> hash_chain.head_after (\<lambda>i. wr_seq (snd i)) (\<lambda>i. wr_hash (snd i))"

text \<open>The bytes of a file and the items of its lines.\<close>

definition ledger_items :: "'c WitnessCodec \<Rightarrow> string \<Rightarrow> (Json \<times> 'c WitnessRecord) list \<Rightarrow> bool" where
  "ledger_items cd bytes is \<longleftrightarrow>
     (\<exists>ls. bytes = unlines ls \<and> list_all line_text ls \<and>
        list_all2 (\<lambda>l i. parse_item cd l = Some i) ls is)"

lemma list_all2_right: "list_all2 P xs ys \<Longrightarrow> y \<in> set ys \<Longrightarrow> \<exists>x \<in> set xs. P x y"
  by (induction rule: list_all2_induct) auto

lemma ledger_items_Nil [simp]: "ledger_items cd [] is \<longleftrightarrow> is = []"
  by (auto simp: ledger_items_def)

lemma ledger_items_no_LF:
  assumes "LF \<notin> set bytes" and "bytes \<noteq> []"
  shows "\<not> ledger_items cd bytes is"
proof
  assume "ledger_items cd bytes is"
  then obtain ls where ls: "bytes = unlines ls" unfolding ledger_items_def by blast
  with assms(2) obtain l ls' where "ls = l # ls'" by (cases ls) auto
  with ls assms(1) show False by simp
qed

lemma ledger_items_line:
  assumes "line_text l"
  shows "ledger_items cd (l @ LF # r) is \<longleftrightarrow>
    (\<exists>i is'. is = i # is' \<and> parse_item cd l = Some i \<and> ledger_items cd r is')"
proof
  assume "ledger_items cd (l @ LF # r) is"
  then obtain ls where ls: "l @ LF # r = unlines ls" "list_all line_text ls"
      "list_all2 (\<lambda>l i. parse_item cd l = Some i) ls is"
    unfolding ledger_items_def by blast
  from ls(1) obtain l' ls' where c: "ls = l' # ls'" by (cases ls) auto
  with ls(1,2) assms line_unique [of l l' r "unlines ls'"] have "l' = l" "r = unlines ls'"
    by auto
  with ls(2,3) c show "\<exists>i is'. is = i # is' \<and> parse_item cd l = Some i \<and> ledger_items cd r is'"
    by (auto simp: ledger_items_def list_all2_Cons1)
next
  assume "\<exists>i is'. is = i # is' \<and> parse_item cd l = Some i \<and> ledger_items cd r is'"
  then obtain i is' ls where c: "is = i # is'" "parse_item cd l = Some i" "r = unlines ls"
      "list_all line_text ls" "list_all2 (\<lambda>l i. parse_item cd l = Some i) ls is'"
    unfolding ledger_items_def by blast
  with assms show "ledger_items cd (l @ LF # r) is"
    unfolding ledger_items_def by (intro exI [of _ "l # ls"]) simp
qed

lemma ledger_items_append:
  assumes "ledger_items cd p is"
  shows "ledger_items cd (p @ s) js \<longleftrightarrow> (\<exists>ks. js = is @ ks \<and> ledger_items cd s ks)"
proof -
  from assms obtain ls where p: "p = unlines ls" and ls: "list_all line_text ls"
    and items: "list_all2 (\<lambda>l i. parse_item cd l = Some i) ls is"
    unfolding ledger_items_def by blast
  from items ls show ?thesis unfolding p
    by (induction arbitrary: js rule: list_all2_induct) (auto simp: ledger_items_line)
qed

lemma ledger_items_unique: "ledger_items cd bytes is \<Longrightarrow> ledger_items cd bytes js \<Longrightarrow> is = js"
  using ledger_items_append [of cd bytes "is" "[]" js] by auto

section \<open>The line loop\<close>

abbreviation parsed_item :: "'c ParsedRecord \<Rightarrow> Json \<times> 'c WitnessRecord" where
  "parsed_item p \<equiv> (pr_raw p, pr_record p)"

lemma verify_line_item:
  "utf8 l \<Longrightarrow> parse_item cd l =
     (case verify_line cd n (l @ [LF]) of Inl _ \<Rightarrow> None | Inr p \<Rightarrow> Some (parsed_item p))"
  by (auto simp: verify_line_def parse_item_def Let_def split: sum.splits)

lemma verify_lines_items:
  "fst (verify_lines cd n bytes) = [] \<and> map parsed_item (snd (verify_lines cd n bytes)) = is \<longleftrightarrow>
     ledger_items cd bytes is"
proof (induction "length bytes" arbitrary: bytes n "is" rule: less_induct)
  case less
  show ?case
  proof (cases bytes rule: line_cases)
    case 1
    have "read_line bytes = (bytes, [])" using 1 by (rule read_line_last)
    moreover have "verify_line cd (Suc n) bytes \<noteq> Inr p" for p
    proof (cases "bytes = []")
      case True
      then show ?thesis by (simp add: verify_line_def Let_def)
    next
      case False
      with 1 have "last bytes \<noteq> LF" by (metis last_in_set)
      then show ?thesis by (simp add: verify_line_def Let_def)
    qed
    ultimately show ?thesis
      using ledger_items_no_LF [OF 1]
      by (cases "bytes = []")
        (auto simp: verify_lines.simps [of cd n bytes] verify_lines.simps [of cd n "[]"]
          split: sum.splits prod.splits)
  next
    case (2 l r)
    have u: "utf8 (l @ [LF]) \<longleftrightarrow> utf8 l"
      using utf8_line [of l "[]"] by (simp add: valid_utf8.simps [of "[]"])
    have IH: "fst (verify_lines cd (Suc n) r) = [] \<and>
        map parsed_item (snd (verify_lines cd (Suc n) r)) = js \<longleftrightarrow> ledger_items cd r js" for js
      using less [of r "Suc n" js] 2(2) by simp
    show ?thesis
    proof (cases "utf8 l")
      case False
      then have "parse_item cd l = None" by (simp add: parse_item_def)
      with False 2 u show ?thesis
        by (simp add: verify_lines.simps [of cd n "l @ LF # r"] ledger_items_line del: map_append list.map)
    next
      case True
      note item = verify_line_item [OF True, of cd "Suc n"]
      show ?thesis
      proof (cases "verify_line cd (Suc n) (l @ [LF])")
        case (Inl p)
        with item have "parse_item cd l = None" by simp
        with Inl True 2 u show ?thesis
          by (simp add: verify_lines.simps [of cd n "l @ LF # r"] ledger_items_line case_prod_beta
              del: map_append list.map)
      next
        case (Inr p)
        with item have "parse_item cd l = Some (parsed_item p)" by simp
        with Inr True 2 u IH show ?thesis
          by (auto simp: verify_lines.simps [of cd n "l @ LF # r"] ledger_items_line case_prod_beta
              simp del: map_append)
      qed
    qed
  qed
qed

section \<open>The checks on the chain\<close>

lemma map_filter_Nil: "List.map_filter f xs = [] \<longleftrightarrow> (\<forall>x \<in> set xs. f x = None)"
  by (induction xs) (auto simp: List.map_filter_simps split: option.splits)

lemma hash_problem_None:
  "hash_problem cd p = None \<longleftrightarrow> compute_hash_value cd (pr_raw p) = Inr (wr_hash (pr_record p))"
  by (auto simp: hash_problem_def split: sum.splits)

text \<open>Consecutive sequence numbers without wrap-around.\<close>

fun steps :: "u64 \<Rightarrow> u64 list \<Rightarrow> bool" where
  "steps p [] = True"
| "steps p (s # ss) = (s = p + 1 \<and> s \<noteq> 0 \<and> steps s ss)"

lemma order_strict:
  "order_problems p ps = [] \<longleftrightarrow> sorted_wrt (<) (p # map (\<lambda>x. wr_seq (pr_record x)) ps)"
proof (induction ps arbitrary: p)
  case Nil
  then show ?case by simp
next
  case (Cons x ps)
  then show ?case by (auto simp: not_le intro: less_trans)
qed

lemma no_duplicates:
  "duplicate_problems S ps = [] \<longleftrightarrow>
     distinct (map (\<lambda>x. wr_seq (pr_record x)) ps) \<and> S \<inter> (\<lambda>x. wr_seq (pr_record x)) ` set ps = {}"
  by (induction ps arbitrary: S) auto

lemma word_less_Suc: "(p :: u64) + 1 \<noteq> 0 \<Longrightarrow> p < p + 1"
  using unatSuc [of p] by (simp add: word_less_nat_alt add.commute)

lemma steps_strict: "steps p ss \<Longrightarrow> sorted_wrt (<) (p # ss)"
proof (induction ss arbitrary: p)
  case Nil
  then show ?case by simp
next
  case (Cons s ss)
  then have "p < s" using word_less_Suc by auto
  with Cons.IH [of s] Cons.prems show ?case by (auto intro: less_trans)
qed

lemma gap_steps:
  "sorted_wrt (<) (p # ss) \<Longrightarrow> gap_problem f (p + 1) ss = [] \<longleftrightarrow> steps p ss"
proof (induction ss arbitrary: p)
  case Nil
  then show ?case by simp
next
  case (Cons s ss)
  then have "s \<noteq> 0" by auto
  with Cons.IH [of s] Cons.prems show ?case by auto
qed

lemma sort_strict: "sorted_wrt (<) (ss :: u64 list) \<Longrightarrow> sort (remdups ss) = ss"
  by (simp add: strict_sorted_iff sorted_sort_id distinct_remdups_id)

lemma seq_checks:
  "order_problems 0 ps = [] \<and> duplicate_problems {} ps = [] \<and>
     gap_problem f 1 (sort (remdups (map (\<lambda>x. wr_seq (pr_record x)) ps))) = [] \<longleftrightarrow>
   steps 0 (map (\<lambda>x. wr_seq (pr_record x)) ps)"
  (is "?o \<and> ?d \<and> ?g \<longleftrightarrow> steps 0 ?ss")
proof (cases "sorted_wrt (<) (0 # ?ss)")
  case True
  then have "distinct ?ss" by (simp add: strict_sorted_iff)
  with True gap_steps [OF True, of f] sort_strict [of ?ss] show ?thesis
    by (simp add: order_strict no_duplicates)
next
  case False
  then show ?thesis using steps_strict [of 0 ?ss] by (auto simp: order_strict)
qed

lemma chain_checks:
  "(\<forall>i \<in> set is. item_valid cd i) \<Longrightarrow>
   witness_chain cd h is \<longleftrightarrow>
     steps (hd_seq h) (map (\<lambda>i. wr_seq (snd i)) is) \<and>
     prev_problems (hd_hash h) (map (\<lambda>i. \<lparr>pr_record = snd i, pr_raw = fst i, pr_line = 0\<rparr>) is) = []"
proof (induction "is" arbitrary: h)
  case Nil
  then show ?case by simp
next
  case (Cons i "is")
  then have "wr_seq (snd i) \<noteq> 0" using validate_record_seq by (auto simp: item_valid_def)
  with Cons.IH [of "wl.item_head i"] Cons.prems show ?case
    by (auto simp: wl.item_head_def)
qed

lemma prev_problems_cong:
  "prev_problems h ps = [] \<longleftrightarrow>
   prev_problems h (map (\<lambda>p. \<lparr>pr_record = pr_record p, pr_raw = pr_raw p, pr_line = 0\<rparr>) ps) = []"
  by (induction ps arbitrary: h) auto

lemma verify_reader_ok:
  "vr_ok (verify_reader cd bytes) \<longleftrightarrow>
     (\<exists>is. ledger_items cd bytes is \<and> witness_chain cd default_head is)"
proof -
  obtain lp ps where v: "verify_lines cd 0 bytes = (lp, ps)" by (cases "verify_lines cd 0 bytes")
  let ?is = "map parsed_item ps"
  have items: "lp = [] \<longleftrightarrow> ledger_items cd bytes ?is"
    using verify_lines_items [of cd 0 bytes ?is] by (simp add: v)
  have valid: "validate_record cd (fst i) = Inr (snd i)" if lp: "lp = []" and i: "i \<in> set ?is" for i
  proof -
    from lp items obtain ls where "list_all2 (\<lambda>l i. parse_item cd l = Some i) ls ?is"
      unfolding ledger_items_def by blast
    from list_all2_right [OF this i] obtain l where "parse_item cd l = Some i" by blast
    then show ?thesis by (auto simp: parse_item_def split: if_splits sum.splits)
  qed
  have "vr_ok (verify_reader cd bytes) \<longleftrightarrow>
      lp = [] \<and> (\<forall>p \<in> set ps. hash_problem cd p = None) \<and> prev_problems GENESIS_PREV_HASH ps = [] \<and>
      steps 0 (map (\<lambda>x. wr_seq (pr_record x)) ps)"
    using seq_checks [of ps "sequence_line ps"]
    by (auto simp: verify_reader_def v Let_def map_filter_Nil)
  also have "\<dots> \<longleftrightarrow> lp = [] \<and> witness_chain cd default_head ?is"
  proof (cases "lp = [] \<and> (\<forall>p \<in> set ps. hash_problem cd p = None)")
    case True
    then have "\<forall>i \<in> set ?is. item_valid cd i"
      using valid by (auto simp: item_valid_def hash_problem_None)
    from chain_checks [OF this, of default_head] True prev_problems_cong [of GENESIS_PREV_HASH ps]
    show ?thesis by (auto simp: default_head_def comp_def)
  next
    case False
    moreover have "\<forall>p \<in> set ps. hash_problem cd p = None" if "witness_chain cd default_head ?is"
      using wl.chain_valid [OF that] by (auto simp: item_valid_def hash_problem_None)
    ultimately show ?thesis by blast
  qed
  also have "\<dots> \<longleftrightarrow> (\<exists>is. ledger_items cd bytes is \<and> witness_chain cd default_head is)"
  proof
    assume "lp = [] \<and> witness_chain cd default_head ?is"
    with items show "\<exists>is. ledger_items cd bytes is \<and> witness_chain cd default_head is" by blast
  next
    assume "\<exists>is. ledger_items cd bytes is \<and> witness_chain cd default_head is"
    then obtain js where js: "ledger_items cd bytes js" "witness_chain cd default_head js" by blast
    then have "lp = [] \<and> js = ?is" using verify_lines_items [of cd 0 bytes js] by (simp add: v)
    with js show "lp = [] \<and> witness_chain cd default_head ?is" by simp
  qed
  finally show ?thesis .
qed

section \<open>The incremental pass\<close>

text \<open>One line of the incremental pass, in terms of the item on it.\<close>

lemma verify_suffix_line:
  assumes "utf8 l"
  shows "verify_suffix_lines cd h (l # ls) = Inr rs \<longleftrightarrow>
    (\<exists>i rs'. parse_item cd l = Some i \<and> item_valid cd i \<and> wr_prev_hash (snd i) = hd_hash h \<and>
       wr_seq (snd i) = hd_seq h + 1 \<and> rs = snd i # rs' \<and>
       verify_suffix_lines cd (wl.item_head i) ls = Inr rs')"
  using assms
  by (auto simp: parse_item_def item_valid_def wl.item_head_def split: sum.splits if_splits)

lemma verify_suffix_lines_ok:
  "list_all utf8 ls \<Longrightarrow>
   verify_suffix_lines cd h ls = Inr rs \<longleftrightarrow>
     (\<exists>is. list_all2 (\<lambda>l i. parse_item cd l = Some i) ls is \<and> witness_chain cd h is \<and> rs = map snd is)"
proof (induction ls arbitrary: h rs)
  case Nil
  then show ?case by auto
next
  case (Cons l ls)
  then have u: "utf8 l" "list_all utf8 ls" by simp_all
  have chain: "witness_chain cd h (i # is) \<longleftrightarrow>
      item_valid cd i \<and> wr_prev_hash (snd i) = hd_hash h \<and> wr_seq (snd i) = hd_seq h + 1 \<and>
      witness_chain cd (wl.item_head i) is" for i "is"
    by simp
  show ?case
    unfolding verify_suffix_line [OF u(1)] Cons.IH [OF u(2)] list_all2_Cons1
  proof (intro iffI; elim exE conjE)
    fix i rs' "is"
    assume "parse_item cd l = Some i" "item_valid cd i" "wr_prev_hash (snd i) = hd_hash h"
      "wr_seq (snd i) = hd_seq h + 1" "rs = snd i # rs'" "rs' = map snd is"
      "list_all2 (\<lambda>l i. parse_item cd l = Some i) ls is" "witness_chain cd (wl.item_head i) is"
    then show "\<exists>is. (\<exists>z zs. is = z # zs \<and> parse_item cd l = Some z \<and>
          list_all2 (\<lambda>l i. parse_item cd l = Some i) ls zs) \<and> witness_chain cd h is \<and> rs = map snd is"
      by (intro exI [of _ "i # is"]) (simp add: chain)
  next
    fix "is" i js
    assume "witness_chain cd h is" "rs = map snd is" "is = i # js" "parse_item cd l = Some i"
      "list_all2 (\<lambda>l i. parse_item cd l = Some i) ls js"
    then show "\<exists>i rs'. parse_item cd l = Some i \<and> item_valid cd i \<and> wr_prev_hash (snd i) = hd_hash h \<and>
        wr_seq (snd i) = hd_seq h + 1 \<and> rs = snd i # rs' \<and>
        (\<exists>is. list_all2 (\<lambda>l i. parse_item cd l = Some i) ls is \<and>
          witness_chain cd (wl.item_head i) is \<and> rs' = map snd is)"
      by (intro exI [of _ i] exI [of _ "map snd js"]) (auto simp: chain)
  qed
qed

lemma verify_suffix_bytes_ok:
  assumes "list_all line_text ls"
  shows "verify_suffix_bytes cd (unlines ls) h = Inr rs \<longleftrightarrow>
    (\<exists>is. ledger_items cd (unlines ls) is \<and> witness_chain cd h is \<and> rs = map snd is)"
proof -
  have items: "ledger_items cd (unlines ls) is \<longleftrightarrow> list_all2 (\<lambda>l i. parse_item cd l = Some i) ls is" for "is"
    using assms unlines_inject [OF assms] by (auto simp: ledger_items_def)
  have u: "list_all utf8 ls" if "list_all2 (\<lambda>l i. parse_item cd l = Some i) ls is" for "is"
    using that by (induction rule: list_all2_induct) (auto simp: parse_item_def split: if_splits)
  show ?thesis
  proof (cases "list_all utf8 ls")
    case True
    then show ?thesis
      using verify_suffix_lines_ok [OF True] split_terminator_unlines [OF assms]
      by (simp add: verify_suffix_bytes_def utf8_unlines items del: map_append)
  next
    case False
    with u show ?thesis by (auto simp: verify_suffix_bytes_def utf8_unlines items)
  qed
qed

end
