(* ===== verification/Witness_Ledger.thy ===== *)
theory Witness_Ledger
  imports Witness_Chain
begin

text \<open>
  The witness ledger handle (\<open>witness.rs\<close>): scanning the head of a file, verifying what another
  writer appended, opening and appending.  An operation takes the bytes of the file and returns its
  result together with the bytes it leaves; an \<open>IoFault\<close> says which system call of the operation
  fails, if any.
\<close>

datatype IoFault = ReadFault | TruncateFault | WriteFault nat | SyncFault | UnlockFault

record WitnessLedger =
  wl_head :: ChainHead
  wl_verified_offset :: nat

definition old_format_object :: "json_map \<Rightarrow> bool" where
  "old_format_object object \<longleftrightarrow>
     \<not> contains_key object ''schemaVersion'' \<and>
     list_ex (contains_key object) [''task_uuid'', ''transition_timestamp'', ''pool'', ''prev_hash'']"

definition looks_like_old_format :: "'c WitnessCodec \<Rightarrow> string \<Rightarrow> bool" where
  "looks_like_old_format cd bytes \<longleftrightarrow>
     utf8 bytes \<and>
     list_ex
       (\<lambda>line. case cd_parse cd line of
                 Inl _ \<Rightarrow> False
               | Inr v \<Rightarrow> is_some_and old_format_object (as_object v))
       (filter (\<lambda>line. \<not> is_blank line) (str_lines bytes))"

text \<open>
  The message of a failed verification is the JSON text of its problems; here it is the fixed text
  the source falls back to.
\<close>

definition last_head :: "'c WitnessCodec \<Rightarrow> string \<Rightarrow> WitnessError + ChainHead" where
  "last_head cd bytes =
     (if \<not> utf8 bytes then Inl (Corrupt ''ledger is not UTF-8'')
      else
        (case List.find (\<lambda>line. \<not> is_blank line) (rev (str_lines bytes)) of
           None \<Rightarrow> Inl (Corrupt ''ledger has no complete record'')
         | Some line \<Rightarrow>
             (case cd_parse cd line of
                Inl e \<Rightarrow> Inl (JsonError e)
              | Inr raw \<Rightarrow>
                  (case validate_record cd raw of
                     Inl f \<Rightarrow> Inl (Corrupt (vf_reason f))
                   | Inr r \<Rightarrow> Inr \<lparr>hd_seq = wr_seq r, hd_hash = wr_hash r\<rparr>))))"

definition scan_head ::
  "'c WitnessCodec \<Rightarrow> IoFault option \<Rightarrow> string \<Rightarrow> (WitnessError + ChainHead \<times> nat) \<times> string" where
  "scan_head cd fault bytes =
     (if fault = Some ReadFault then (Inl IoError, bytes)
      else if bytes = [] then (Inr (default_head, 0), bytes)
      else if looks_like_old_format cd bytes then (Inl OldFormat, bytes)
      else
        (let len = complete_len bytes
         in if len \<noteq> length bytes \<and> fault = Some TruncateFault then (Inl IoError, bytes)
            else
              (let kept = take len bytes;
                   report = verify_reader cd kept
               in if \<not> vr_ok report then (Inl (Corrupt ''verification failed''), kept)
                  else if vr_records report = 0 then (Inr (default_head, len), kept)
                  else
                    (case last_head cd kept of
                       Inl e \<Rightarrow> (Inl e, kept)
                     | Inr head \<Rightarrow> (Inr (head, len), kept)))))"

definition verify_suffix ::
  "'c WitnessCodec \<Rightarrow> IoFault option \<Rightarrow> string \<Rightarrow> ChainHead \<Rightarrow> nat
     \<Rightarrow> (WitnessError + ChainHead \<times> nat) \<times> string" where
  "verify_suffix cd fault bytes head offset =
     (let suffix = drop offset bytes
      in if fault = Some ReadFault then (Inl IoError, bytes)
         else if suffix = [] then (Inr (head, offset), bytes)
         else
           (let len = complete_len suffix
            in if len \<noteq> length suffix \<and> fault = Some TruncateFault then (Inl IoError, bytes)
               else
                 (let kept = take offset bytes @ take len suffix
                  in case verify_suffix_bytes cd (take len suffix) head of
                       Inl e \<Rightarrow> (Inl e, kept)
                     | Inr records \<Rightarrow>
                         (Inr ((if records = [] then head
                                else \<lparr>hd_seq = wr_seq (last records), hd_hash = wr_hash (last records)\<rparr>),
                               offset + len),
                          kept))))"

definition ledger_open ::
  "'c WitnessCodec \<Rightarrow> bool \<Rightarrow> IoFault option \<Rightarrow> string \<Rightarrow> (WitnessError + WitnessLedger) \<times> string" where
  "ledger_open cd created fault bytes =
     (case scan_head cd fault bytes of
        (Inl e, bytes') \<Rightarrow> (Inl e, bytes')
      | (Inr (head, offset), bytes') \<Rightarrow>
          if fault = Some UnlockFault \<or> (created \<and> fault = Some SyncFault) then (Inl IoError, bytes')
          else (Inr \<lparr>wl_head = head, wl_verified_offset = offset\<rparr>, bytes'))"

text \<open>Bringing the handle up to date with the file, under the lock.\<close>

definition refresh_head ::
  "'c WitnessCodec \<Rightarrow> IoFault option \<Rightarrow> WitnessLedger \<Rightarrow> string
     \<Rightarrow> (WitnessError + ChainHead \<times> nat) \<times> string" where
  "refresh_head cd fault l bytes =
     (if fault = Some ReadFault then (Inl IoError, bytes)
      else if length bytes < wl_verified_offset l then scan_head cd fault bytes
      else if length bytes > wl_verified_offset l
      then verify_suffix cd fault bytes (wl_head l) (wl_verified_offset l)
      else (Inr (wl_head l, wl_verified_offset l), bytes))"

definition ledger_append ::
  "'c WitnessCodec \<Rightarrow> IoFault option \<Rightarrow> WitnessLedger \<Rightarrow> 'c WitnessBody \<Rightarrow> string
     \<Rightarrow> (WitnessError + 'c WitnessRecord) \<times> WitnessLedger \<times> string" where
  "ledger_append cd fault l body bytes =
     (case refresh_head cd fault l bytes of
        (Inl e, bytes1) \<Rightarrow> (Inl e, l, bytes1)
      | (Inr (head, offset), bytes1) \<Rightarrow>
          (let l1 = \<lparr>wl_head = head, wl_verified_offset = offset\<rparr>
           in case build_record_with_raw cd body head of
                Inl e \<Rightarrow> (Inl e, l1, bytes1)
              | Inr (r, raw) \<Rightarrow>
                  (case canonical_record_bytes cd raw of
                     Inl e \<Rightarrow> (Inl e, l1, bytes1)
                   | Inr encoded \<Rightarrow>
                       (let line = encoded @ [LF]
                        in case fault of
                             Some (WriteFault k) \<Rightarrow>
                               (Inl IoError, l1, bytes1 @ take (min k (length line - 1)) line)
                           | Some SyncFault \<Rightarrow> (Inl IoError, l1, bytes1 @ line)
                           | _ \<Rightarrow>
                               (let l2 = \<lparr>wl_head = \<lparr>hd_seq = wr_seq r, hd_hash = wr_hash r\<rparr>,
                                          wl_verified_offset = offset + length line\<rparr>
                                in (if fault = Some UnlockFault then Inl IoError else Inr r,
                                    l2, bytes1 @ line))))))"

end
