(* ===== verification/Witness_Safety.thy ===== *)
theory Witness_Safety
  imports Witness_Ledger
begin

text \<open>
  The witness ledger under crashes and concurrent writers.  The laws are what the code relies on of
  \<open>serde_json\<close> and of the derived decoders.  Any number of handles open the file, append, and fail
  at any system call; the complete lines of the file stay a verified chain.
\<close>

section \<open>Laws of the codec\<close>

text \<open>
  Decoding what was encoded gives the value back, different values have different texts, and
  decoded values are well-formed.
\<close>

definition round_trip_law :: "'c WitnessCodec \<Rightarrow> bool" where
  "round_trip_law cd \<longleftrightarrow>
     (\<forall>v s w. wf_json v \<and> cd_print cd v = Inr s \<and> cd_parse cd s = Inr w \<longrightarrow> w = v) \<and>
     (\<forall>v w s. wf_json v \<and> wf_json w \<and> cd_print cd v = Inr s \<and> cd_print cd w = Inr s \<longrightarrow> w = v) \<and>
     (\<forall>s v. cd_parse cd s = Inr v \<longrightarrow> wf_json v)"

text \<open>
  Compact JSON is one non-blank line of UTF-8 without line breaks, and no proper prefix of the text
  of an object is a JSON text.
\<close>

definition compact_law :: "'c WitnessCodec \<Rightarrow> bool" where
  "compact_law cd \<longleftrightarrow>
     (\<forall>v s. cd_print cd v = Inr s \<longrightarrow> LF \<notin> set s \<and> CR \<notin> set s \<and> utf8 s \<and> \<not> is_blank s) \<and>
     (\<forall>m a b w. cd_print cd (JObject m) = Inr (a @ b) \<and> b \<noteq> [] \<longrightarrow> cd_parse cd a \<noteq> Inr w)"

text \<open>The chain fields of a record are members of its JSON object under their camel-case names.\<close>

definition chain_fields :: "'c WitnessRecord \<Rightarrow> Json \<Rightarrow> bool" where
  "chain_fields r v \<longleftrightarrow>
     (\<exists>n. value_get v ''seq'' = Some (JNumber n) \<and> parse_u64 n = Some (wr_seq r)) \<and>
     value_get v ''prevHash'' = Some (JString (wr_prev_hash r)) \<and>
     value_get v ''hash'' = Some (JString (wr_hash r))"

definition field_law :: "'c WitnessCodec \<Rightarrow> bool" where
  "field_law cd \<longleftrightarrow>
     (\<forall>v r. cd_decode cd v = Inr r \<longrightarrow> chain_fields r v) \<and>
     (\<forall>r s v. cd_encode cd r = Inr s \<and> cd_parse cd s = Inr v \<longrightarrow> chain_fields r v) \<and>
     (\<forall>n. cd_is_f64 cd n \<longrightarrow> parse_u64 n = None)"

definition codec_laws :: "'c WitnessCodec \<Rightarrow> bool" where
  "codec_laws cd \<longleftrightarrow> round_trip_law cd \<and> compact_law cd \<and> field_law cd"

section \<open>Normalisation\<close>

lemma collect_Inr_map [simp]: "collect (map Inr ys) = Inr ys"
  by (induction ys) auto

lemma collect_map: "collect xs = Inr ys \<longleftrightarrow> xs = map Inr ys"
  by (induction xs arbitrary: ys rule: collect.induct) (auto split: sum.splits)

lemma collect_Inr: "collect xs = Inr ys \<longleftrightarrow> list_all2 (\<lambda>x y. x = Inr y) xs ys"
  unfolding collect_map by (auto simp: list_all2_conv_all_nth list_eq_iff_nth_eq)

lemma map_sum_Inr: "map_sum f g x = Inr y \<longleftrightarrow> (\<exists>z. x = Inr z \<and> y = g z)"
  by (cases x) auto

lemma normalize_fields:
  "list_all2 (\<lambda>x y. x = Inr y)
     (map (\<lambda>p. map_sum id (Pair (fst p)) (normalize_witness_numbers cd (snd p))) m) m' \<longleftrightarrow>
   list_all2 (\<lambda>p q. fst q = fst p \<and> normalize_witness_numbers cd (snd p) = Inr (snd q)) m m'"
proof -
  have "(\<lambda>p q. \<exists>z. normalize_witness_numbers cd (snd p) = Inr z \<and> q = (fst p, z)) =
      (\<lambda>p q. fst q = fst p \<and> normalize_witness_numbers cd (snd p) = Inr (snd q))"
    by (intro ext) force
  note eq = this
  show ?thesis unfolding list_all2_map1 map_sum_Inr eq ..
qed

lemma normalize_object:
  "normalize_witness_numbers cd (JObject m) = Inr v \<longleftrightarrow>
     (\<exists>m'. v = JObject m' \<and>
        list_all2 (\<lambda>p q. fst q = fst p \<and> normalize_witness_numbers cd (snd p) = Inr (snd q)) m m')"
  by (auto simp: map_sum_Inr collect_Inr normalize_fields)

lemma normalize_get:
  assumes "list_all2 (\<lambda>p q. fst q = fst p \<and> normalize_witness_numbers cd (snd p) = Inr (snd q)) m m'"
    and "map_get m k = Some x" and "normalize_witness_numbers cd x = Inr y"
  shows "map_get m' k = Some y"
  using assms by (induction rule: list_all2_induct) (auto split: if_splits)

lemma normalize_wf: "normalize_witness_numbers cd v = Inr w \<Longrightarrow> wf_json v \<Longrightarrow> wf_json w"
proof (induction v arbitrary: w rule: wf_json.induct)
  case (1 vs)
  then obtain ws where w: "w = JArray ws"
    and ws: "list_all2 (\<lambda>v w. normalize_witness_numbers cd v = Inr w) vs ws"
    by (auto simp: map_sum_Inr collect_Inr list_all2_map1)
  have "list_all wf_json ws"
    using ws 1(1,3) by (induction rule: list_all2_induct) auto
  with w show ?case by simp
next
  case (2 m)
  then obtain m' where w: "w = JObject m'"
    and m': "list_all2 (\<lambda>p q. fst q = fst p \<and> normalize_witness_numbers cd (snd p) = Inr (snd q)) m m'"
    unfolding normalize_object by blast
  have keys: "map fst m' = map fst m" using m' by (induction rule: list_all2_induct) auto
  have "list_all (\<lambda>p. wf_json (snd p)) m'"
    using m' 2(1,3) by (induction rule: list_all2_induct) auto
  with w keys 2(3) show ?case by simp
qed (auto simp: map_sum_Inr split: if_splits)

lemma normalize_chain_fields:
  assumes "field_law cd" and "chain_fields r v" and "normalize_witness_numbers cd v = Inr w"
  shows "chain_fields r w"
proof -
  from assms(2) obtain m where v: "v = JObject m"
    by (cases v) (auto simp: chain_fields_def value_get_def)
  with assms(3) obtain m' where w: "w = JObject m'"
    and m': "list_all2 (\<lambda>p q. fst q = fst p \<and> normalize_witness_numbers cd (snd p) = Inr (snd q)) m m'"
    unfolding v normalize_object by blast
  from assms(2) obtain n where n: "map_get m ''seq'' = Some (JNumber n)" "parse_u64 n = Some (wr_seq r)"
    and s: "map_get m ''prevHash'' = Some (JString (wr_prev_hash r))"
      "map_get m ''hash'' = Some (JString (wr_hash r))"
    by (auto simp: chain_fields_def value_get_def v)
  have "\<not> cd_is_f64 cd n" using assms(1) n(2) by (auto simp: field_law_def)
  then have "map_get m' ''seq'' = Some (JNumber n)"
    using normalize_get [OF m' n(1)] by simp
  moreover have "map_get m' ''prevHash'' = Some (JString (wr_prev_hash r))"
      "map_get m' ''hash'' = Some (JString (wr_hash r))"
    using normalize_get [OF m' s(1)] normalize_get [OF m' s(2)] by simp_all
  ultimately show ?thesis using n(2) by (simp add: chain_fields_def value_get_def w)
qed

section \<open>The record that is appended\<close>

lemma stable_canonical_value_Inr:
  assumes "stable_canonical_value cd enc = Inr v"
  obtains s u where "enc = Inr s" "cd_parse cd s = Inr u" "normalize_witness_numbers cd u = Inr v"
  using assms by (auto simp: stable_canonical_value_def split: sum.splits if_splits)

lemma build_record_parts:
  assumes "build_record_with_raw cd body head = Inr (r, raw)"
  obtains pools sp drv r0 v h m where "r0 = unhashed_record body pools sp drv head"
    and "stable_canonical_value cd (cd_encode cd r0) = Inr v"
    and "compute_hash_value cd v = Inr h" and "v = JObject m"
    and "raw = JObject (map_insert ''hash'' (JString h) m)"
    and "r = r0\<lparr>wr_hash := h\<rparr>" and "\<exists>r'. validate_record cd raw = Inr r'"
proof -
  have obj: "as_object v = Some m \<longleftrightarrow> v = JObject m" for v m by (cases v) auto
  show thesis
    using assms that
    by (auto simp: build_record_with_raw_def Let_def obj split: sum.splits option.splits)
qed

lemma build_record_item:
  assumes laws: "codec_laws cd" and build: "build_record_with_raw cd body head = Inr (r, raw)"
    and bytes: "canonical_record_bytes cd raw = Inr l"
  shows "\<exists>r'. parse_item cd l = Some (raw, r') \<and> item_valid cd (raw, r') \<and>
    wr_seq r' = hd_seq head + 1 \<and> wr_prev_hash r' = hd_hash head \<and> wr_hash r' = wr_hash r \<and>
    wr_seq r = hd_seq head + 1 \<and> cd_print cd raw = Inr l \<and> (\<exists>m. raw = JObject m)"
proof -
  from build obtain pools sp drv r0 v h m where
    r0: "r0 = unhashed_record body pools sp drv head"
    and stable: "stable_canonical_value cd (cd_encode cd r0) = Inr v"
    and hash: "compute_hash_value cd v = Inr h" and v: "v = JObject m"
    and raw: "raw = JObject (map_insert ''hash'' (JString h) m)"
    and r: "r = r0\<lparr>wr_hash := h\<rparr>" and valid: "\<exists>r'. validate_record cd raw = Inr r'"
    by (rule build_record_parts)
  obtain s u where enc: "cd_encode cd r0 = Inr s" and u: "cd_parse cd s = Inr u"
    and norm: "normalize_witness_numbers cd u = Inr v"
    using stable by (rule stable_canonical_value_Inr)
  have rt: "round_trip_law cd" and compact: "compact_law cd" and field: "field_law cd"
    using laws by (simp_all add: codec_laws_def)
  have "chain_fields r0 u" using field enc u unfolding field_law_def by blast
  then have v_fields: "chain_fields r0 v" using field norm by (blast intro: normalize_chain_fields)
  have "wf_json u" using rt u unfolding round_trip_law_def by blast
  then have "wf_json v" using norm by (blast intro: normalize_wf)
  then have wf: "wf_json raw" unfolding raw v by (rule wf_json_insert) simp
  from bytes obtain w where print: "cd_print cd raw = Inr l" and "cd_parse cd l = Inr w"
    by (auto simp: canonical_record_bytes_def split: sum.splits if_splits)
  with rt wf have parse: "cd_parse cd l = Inr raw" unfolding round_trip_law_def by blast
  from valid obtain r' where r': "validate_record cd raw = Inr r'" by blast
  then have "cd_decode cd raw = Inr r'" unfolding validate_record_Inr by blast
  then have fields: "chain_fields r' raw" using field unfolding field_law_def by blast
  have get: "value_get raw k = (if k = ''hash'' then Some (JString h) else value_get v k)" for k
    by (simp add: value_get_def raw v)
  have "wr_seq r' = wr_seq r0" "wr_prev_hash r' = wr_prev_hash r0" "wr_hash r' = h"
    using fields v_fields by (auto simp: chain_fields_def get)
  moreover have "compute_hash_value cd raw = Inr h"
    using hash by (auto simp: compute_hash_value_Inr raw v contains_key_iff)
  moreover have "utf8 l" "\<not> is_blank l" using compact print unfolding compact_law_def by blast+
  ultimately show ?thesis
    using r' parse print
    by (auto simp: parse_item_def item_valid_def r r0 unhashed_record_def raw)
qed

section \<open>The invariant of the file and of a handle\<close>

text \<open>Complete lines that verify, with their items.\<close>

definition sound :: "'c WitnessCodec \<Rightarrow> string \<Rightarrow> (Json \<times> 'c WitnessRecord) list \<Rightarrow> bool" where
  "sound cd p is \<longleftrightarrow> ledger_items cd p is \<and> witness_chain cd default_head is"

text \<open>What a torn write leaves: a prefix of the text of a witness object, without its line feed.\<close>

definition torn :: "'c WitnessCodec \<Rightarrow> string \<Rightarrow> bool" where
  "torn cd t \<longleftrightarrow>
     t = [] \<or>
     (\<exists>m u. cd_print cd (JObject m) = Inr (t @ u) \<and> wf_json (JObject m) \<and>
        contains_key m ''schemaVersion'')"

definition handle_at :: "'c WitnessCodec \<Rightarrow> string \<Rightarrow> WitnessLedger \<Rightarrow> bool" where
  "handle_at cd p l \<longleftrightarrow>
     (\<exists>q s is. p = q @ s \<and> wl_verified_offset l = length q \<and> sound cd q is \<and>
        wl_head l = witness_head default_head is)"

lemma torn_no_LF: "codec_laws cd \<Longrightarrow> torn cd t \<Longrightarrow> LF \<notin> set t"
  unfolding torn_def codec_laws_def compact_law_def by fastforce

lemma handle_at_append: "handle_at cd p l \<Longrightarrow> handle_at cd (p @ s) l"
  unfolding handle_at_def by (metis append.assoc)

lemma handle_at_self:
  "sound cd p is \<Longrightarrow>
   handle_at cd p \<lparr>wl_head = witness_head default_head is, wl_verified_offset = length p\<rparr>"
  unfolding handle_at_def by (intro exI [of _ p] exI [of _ "[]"] exI [of _ "is"]) simp

lemma sound_lines: "sound cd p is \<Longrightarrow> \<exists>ls. p = unlines ls \<and> list_all line_text ls"
  unfolding sound_def ledger_items_def by blast

lemma sound_complete_len:
  "sound cd p is \<Longrightarrow> LF \<notin> set t \<Longrightarrow> complete_len (p @ t) = length p"
  using sound_lines complete_len_unlines by metis

lemma sound_split:
  assumes "sound cd (q @ s) is" and "sound cd q js"
  obtains ks where "is = js @ ks" "ledger_items cd s ks"
    "witness_chain cd (witness_head default_head js) ks"
proof -
  from assms have "ledger_items cd (q @ s) is" and q: "ledger_items cd q js" by (simp_all add: sound_def)
  with ledger_items_append [OF q] obtain ks where "is = js @ ks" "ledger_items cd s ks" by blast
  moreover from this assms(1) have "witness_chain cd (witness_head default_head js) ks"
    by (simp add: sound_def)
  ultimately show thesis by (rule that)
qed

lemma sound_verified: "sound cd p is \<Longrightarrow> vr_ok (verify_reader cd p)"
  by (auto simp: sound_def verify_reader_ok)

lemma sound_extend:
  assumes "sound cd p is" and "parse_item cd l = Some i" and "line_text l"
    and "witness_chain cd (witness_head default_head is) [i]"
  shows "sound cd (p @ l @ [LF]) (is @ [i])"
proof -
  have "ledger_items cd (l @ LF # []) [i]" using assms(2,3) by (simp add: ledger_items_line)
  with assms(1,4) show ?thesis
    using ledger_items_append [of cd p "is" "l @ [LF]"] by (auto simp: sound_def)
qed

subsection \<open>Refreshing a handle\<close>

lemma refresh_sound:
  assumes laws: "codec_laws cd" and p: "sound cd p is" and t: "torn cd t" and l: "handle_at cd p l"
  shows "refresh_head cd fault l (p @ t) = (Inl IoError, p @ t) \<and> fault \<noteq> None \<or>
         refresh_head cd fault l (p @ t) = (Inr (witness_head default_head is, length p), p)"
proof -
  from l obtain q s js where q: "p = q @ s" "wl_verified_offset l = length q" "sound cd q js"
    "wl_head l = witness_head default_head js" unfolding handle_at_def by blast
  from p q(1,3) obtain ks where ks: "is = js @ ks" "ledger_items cd s ks"
    "witness_chain cd (witness_head default_head js) ks" using sound_split by metis
  from ks(2) obtain ls where ls: "s = unlines ls" "list_all line_text ls"
    unfolding ledger_items_def by blast
  have LF: "LF \<notin> set t" using laws t by (rule torn_no_LF)
  have len: "complete_len (s @ t) = length s" using LF by (simp add: ls complete_len_unlines)
  have suffix: "verify_suffix_bytes cd s (wl_head l) = Inr (map snd ks)"
    using ks(2,3) verify_suffix_bytes_ok [OF ls(2)] by (auto simp: ls(1) q(4))
  have head: "(if map snd ks = [] then wl_head l
      else \<lparr>hd_seq = wr_seq (last (map snd ks)), hd_hash = wr_hash (last (map snd ks))\<rparr>) =
      witness_head default_head is"
    using wl.head_after_last [of ks "witness_head default_head js"]
    by (simp add: ks(1) q(4) last_map wl.item_head_def)
  show ?thesis
  proof (cases "s @ t = []")
    case True
    then show ?thesis using ks ls by (auto simp: refresh_head_def q)
  next
    case False
    then have "refresh_head cd fault l (p @ t) = verify_suffix cd fault (p @ t) (wl_head l) (length q) \<or>
        refresh_head cd fault l (p @ t) = (Inl IoError, p @ t) \<and> fault = Some ReadFault"
      by (auto simp: refresh_head_def q(1,2))
    moreover have "verify_suffix cd fault (p @ t) (wl_head l) (length q) =
        (if fault = Some ReadFault \<or> (t \<noteq> [] \<and> fault = Some TruncateFault) then (Inl IoError, p @ t)
         else (Inr (witness_head default_head is, length p), p))"
      using False head by (auto simp: verify_suffix_def Let_def q(1) len suffix)
    ultimately show ?thesis by (auto split: if_splits)
  qed
qed

subsection \<open>Scanning a file\<close>

lemma strip_eol_tail: "LF \<notin> set t \<Longrightarrow> strip_eol t = t"
  by (cases t rule: rev_cases) (auto simp: strip_eol_def)

lemma str_lines_unlines:
  assumes "list_all line_text ls" and "list_all (\<lambda>l. CR \<notin> set l) ls" and "LF \<notin> set t"
  shows "str_lines (unlines ls @ t) = ls @ (if t = [] then [] else [t])"
  using assms(1,2)
proof (induction ls)
  case Nil
  then show ?case
    using assms(3)
    by (simp add: str_lines.simps [of t] str_lines.simps [of "[]"] read_line_last strip_eol_tail)
next
  case (Cons l ls)
  then show ?case
    by (simp add: str_lines.simps [of "l @ LF # unlines ls @ t"] strip_eol_line)
qed

lemma validated_schema:
  assumes "validate_record cd raw = Inr r"
  obtains m where "raw = JObject m" "contains_key m ''schemaVersion''"
proof -
  from assms obtain m where m: "raw = JObject m" "first_failure (object_checks m) = None"
    unfolding validate_record_Inr by blast
  then have "Option.bind (map_get m ''schemaVersion'') as_u64 = Some (ucast WITNESS_SCHEMA_VERSION)"
    by (auto simp: object_checks_def first_failure_None split: if_splits)
  then have "contains_key m ''schemaVersion''" by (auto simp: contains_key_iff bind_eq_Some_conv)
  with m(1) show thesis by (rule that)
qed

lemma parse_itemD:
  assumes "parse_item cd l = Some (raw, r)"
  shows "cd_parse cd l = Inr raw" "cd_print cd raw = Inr l" "validate_record cd raw = Inr r"
    "utf8 l" "\<not> is_blank l"
  using assms by (auto simp: parse_item_def split: if_splits sum.splits)

lemma sound_not_old:
  assumes laws: "codec_laws cd" and p: "sound cd p is" and t: "torn cd t"
  shows "\<not> looks_like_old_format cd (p @ t)"
proof -
  from p obtain ls where ls: "p = unlines ls" "list_all line_text ls"
    "list_all2 (\<lambda>l i. parse_item cd l = Some i) ls is" unfolding sound_def ledger_items_def by blast
  have LF: "LF \<notin> set t" using laws t by (rule torn_no_LF)
  have line: "CR \<notin> set l \<and> (\<forall>v. cd_parse cd l = Inr v \<longrightarrow>
      \<not> is_some_and old_format_object (as_object v))" if "parse_item cd l = Some i" for l i
  proof -
    obtain raw r where i: "i = (raw, r)" by (cases i)
    note d = parse_itemD [OF that [unfolded i]]
    obtain m where "raw = JObject m" "contains_key m ''schemaVersion''"
      using d(3) by (rule validated_schema)
    moreover have "CR \<notin> set l" using laws d(2) by (auto simp: codec_laws_def compact_law_def)
    ultimately show ?thesis using d(1) by (simp add: old_format_object_def)
  qed
  have all: "list_all (\<lambda>l. CR \<notin> set l \<and> (\<forall>v. cd_parse cd l = Inr v \<longrightarrow>
      \<not> is_some_and old_format_object (as_object v))) ls"
    using ls(3) line by (induction rule: list_all2_induct) simp_all
  have tail: "\<not> is_some_and old_format_object (as_object v)" if v: "cd_parse cd t = Inr v" "t \<noteq> []" for v
  proof -
    from t v(2) obtain m u where m: "cd_print cd (JObject m) = Inr (t @ u)" "wf_json (JObject m)"
      "contains_key m ''schemaVersion''" unfolding torn_def by blast
    with laws v have "u = []" unfolding codec_laws_def compact_law_def by blast
    with m v laws have "v = JObject m" unfolding codec_laws_def round_trip_law_def by auto
    with m(3) show ?thesis by (simp add: old_format_object_def)
  qed
  have "list_all (\<lambda>l. CR \<notin> set l) ls" using all by (auto simp: list_all_iff)
  from str_lines_unlines [OF ls(2) this LF]
  show ?thesis
    using all tail
    by (auto simp: looks_like_old_format_def ls(1) list_all_iff list_ex_iff split: sum.splits if_splits)
qed

lemma verify_reader_records:
  "ledger_items cd p is \<Longrightarrow> vr_records (verify_reader cd p) = length is"
  using verify_lines_items [of cd 0 p "is"]
  by (auto simp: verify_reader_def Let_def case_prod_beta)

lemma last_head_sound:
  assumes laws: "codec_laws cd" and p: "sound cd p is" and ne: "is \<noteq> []"
  shows "last_head cd p = Inr (witness_head default_head is)"
proof -
  from p obtain ls where ls: "p = unlines ls" "list_all line_text ls"
    "list_all2 (\<lambda>l i. parse_item cd l = Some i) ls is" unfolding sound_def ledger_items_def by blast
  from ls(3) have ok: "list_all (\<lambda>l. CR \<notin> set l \<and> utf8 l) ls"
  proof (induction rule: list_all2_induct)
    case (Cons l ls i "is")
    obtain raw r where "i = (raw, r)" by (cases i)
    with Cons(1) have "cd_print cd raw = Inr l" "utf8 l" using parse_itemD by blast+
    moreover from this laws have "CR \<notin> set l" unfolding codec_laws_def compact_law_def by blast
    ultimately show ?case using Cons(3) by simp
  qed simp
  have lines: "str_lines p = ls"
    using str_lines_unlines [OF ls(2), of "[]"] ok by (simp add: ls(1) list_all_iff)
  from ne ls(3) obtain ls' l is' i where last: "ls = ls' @ [l]" "is = is' @ [i]"
    by (metis list_all2_Nil2 list_all2_Nil rev_exhaust)
  with list_all2_lengthD [OF ls(3)] have "length ls' = length is'" by simp
  with ls(3) last have "parse_item cd l = Some i" by (simp add: list_all2_append)
  moreover obtain raw r where i: "i = (raw, r)" by (cases i)
  ultimately have d: "parse_item cd l = Some (raw, r)" by simp
  have "utf8 p" using ok by (simp add: ls(1) utf8_unlines list_all_iff)
  with parse_itemD [OF d] show ?thesis
    by (simp add: last_head_def lines last i wl.item_head_def)
qed

lemma scan_sound:
  assumes laws: "codec_laws cd" and p: "sound cd p is" and t: "torn cd t"
  shows "scan_head cd fault (p @ t) = (Inl IoError, p @ t) \<and> fault \<noteq> None \<or>
         scan_head cd fault (p @ t) = (Inr (witness_head default_head is, length p), p)"
proof -
  have items: "ledger_items cd p is" using p by (simp add: sound_def)
  have LF: "LF \<notin> set t" using laws t by (rule torn_no_LF)
  have empty: "is = [] \<longleftrightarrow> p = []"
    using items by (auto simp: ledger_items_def)
  have "scan_head cd fault (p @ t) =
      (if fault = Some ReadFault \<or> (t \<noteq> [] \<and> fault = Some TruncateFault) then (Inl IoError, p @ t)
       else (Inr (witness_head default_head is, length p), p))"
    using sound_not_old [OF laws p t] sound_complete_len [OF p LF] sound_verified [OF p] empty
      verify_reader_records [OF items] last_head_sound [OF laws p]
    by (auto simp: scan_head_def Let_def)
  then show ?thesis by auto
qed

section \<open>Appending\<close>

text \<open>The file after an append attempt: the old complete lines, perhaps a new one, perhaps a tail.\<close>

lemma append_sound:
  assumes laws: "codec_laws cd" and p: "sound cd p is" and t: "torn cd t" and l: "handle_at cd p l"
    and app: "ledger_append cd fault l body (p @ t) = (res, l', bytes)"
  obtains s js u where "bytes = (p @ s) @ u" "sound cd (p @ s) (is @ js)" "torn cd u"
    "handle_at cd (p @ s) l'"
    "\<And>r. res = Inr r \<Longrightarrow> u = [] \<and>
       (\<exists>i. js = [i] \<and> wr_seq (snd i) = wr_seq r \<and> wr_hash (snd i) = wr_hash r)"
proof -
  from refresh_sound [OF laws p t l, of fault] show thesis
  proof
    assume "refresh_head cd fault l (p @ t) = (Inl IoError, p @ t) \<and> fault \<noteq> None"
    with app have "res = Inl IoError" "l' = l" "bytes = p @ t" by (auto simp: ledger_append_def)
    with that [of "[]" t "[]"] p t l show thesis by simp
  next
    assume refresh: "refresh_head cd fault l (p @ t) = (Inr (witness_head default_head is, length p), p)"
    let ?h = "witness_head default_head is"
    let ?l1 = "\<lparr>wl_head = ?h, wl_verified_offset = length p\<rparr>"
    have l1: "handle_at cd p ?l1" using p by (rule handle_at_self)
    show thesis
    proof (cases "build_record_with_raw cd body ?h")
      case (Inl e)
      with app refresh have "res = Inl e" "l' = ?l1" "bytes = p" by (auto simp: ledger_append_def Let_def)
      with that [of "[]" "[]" "[]"] p l1 show thesis by (simp add: torn_def)
    next
      case build: (Inr rr)
      obtain r raw where rr: "rr = (r, raw)" by (cases rr)
      show thesis
      proof (cases "canonical_record_bytes cd raw")
        case (Inl e)
        with app refresh build rr have "res = Inl e" "l' = ?l1" "bytes = p"
          by (auto simp: ledger_append_def Let_def)
        with that [of "[]" "[]" "[]"] p l1 show thesis by (simp add: torn_def)
      next
        case enc: (Inr line)
        obtain r' m where item: "parse_item cd line = Some (raw, r')" "item_valid cd (raw, r')"
          "wr_seq r' = hd_seq ?h + 1" "wr_prev_hash r' = hd_hash ?h" "wr_hash r' = wr_hash r"
          "wr_seq r = hd_seq ?h + 1" "cd_print cd raw = Inr line" "raw = JObject m"
          using build_record_item [OF laws build [unfolded rr] enc] by blast
        have lt: "line_text line"
          using laws item(7) by (auto simp: codec_laws_def compact_law_def line_text_def)
        have "witness_chain cd ?h [(raw, r')]" using item(2-4) by simp
        with sound_extend [OF p item(1) lt]
        have ext: "sound cd (p @ line @ [LF]) (is @ [(raw, r')])" by simp
        have schema: "contains_key m ''schemaVersion''"
          using parse_itemD(3) [OF item(1)] item(8) by (auto elim: validated_schema)
        have "wf_json raw"
          using laws parse_itemD(1) [OF item(1)] unfolding codec_laws_def round_trip_law_def by blast
        then have torn: "torn cd (take k line)" for k
          using item(7,8) schema unfolding torn_def by (metis append_take_drop_id)
        have l2: "handle_at cd (p @ line @ [LF])
            \<lparr>wl_head = \<lparr>hd_seq = wr_seq r, hd_hash = wr_hash r\<rparr>,
             wl_verified_offset = length p + length (line @ [LF])\<rparr>"
          unfolding handle_at_def
          using ext item(3,5,6)
          by (intro exI [of _ "p @ line @ [LF]"] exI [of _ "[]"] exI [of _ "is @ [(raw, r')]"])
            (simp add: wl.item_head_def)
        have l1': "handle_at cd (p @ line @ [LF]) ?l1" using l1 by (rule handle_at_append)
        have cases: "(\<exists>k. res = Inl IoError \<and> l' = ?l1 \<and> bytes = p @ take k line) \<or>
            (res = Inl IoError \<and> (l' = ?l1 \<or> l' = \<lparr>wl_head = \<lparr>hd_seq = wr_seq r, hd_hash = wr_hash r\<rparr>,
               wl_verified_offset = length p + length (line @ [LF])\<rparr>) \<or>
             res = Inr r \<and> l' = \<lparr>wl_head = \<lparr>hd_seq = wr_seq r, hd_hash = wr_hash r\<rparr>,
               wl_verified_offset = length p + length (line @ [LF])\<rparr>) \<and> bytes = p @ line @ [LF]"
          using app refresh build rr enc
          by (auto simp: ledger_append_def Let_def split: option.splits IoFault.splits if_splits)
        then show thesis
        proof (elim disjE exE conjE)
          fix k assume "res = Inl IoError" "l' = ?l1" "bytes = p @ take k line"
          with that [of "[]" "take k line" "[]"] p l1 torn show thesis by simp
        qed (use that [of "line @ [LF]" "[]" "[(raw, r')]"] ext l1' l2 item in \<open>auto simp: torn_def\<close>)
      qed
    qed
  qed
qed

section \<open>The system of handles\<close>

record LedgerSystem =
  ls_file :: string
  ls_handles :: "WitnessLedger list"

inductive ledger_step :: "'c WitnessCodec \<Rightarrow> LedgerSystem \<Rightarrow> LedgerSystem \<Rightarrow> bool" for cd where
  opened: "ledger_open cd created fault (ls_file s) = (Inr l, bytes) \<Longrightarrow>
     ledger_step cd s (s\<lparr>ls_file := bytes, ls_handles := ls_handles s @ [l]\<rparr>)"
| open_failed: "ledger_open cd created fault (ls_file s) = (Inl e, bytes) \<Longrightarrow>
     ledger_step cd s (s\<lparr>ls_file := bytes\<rparr>)"
| appended: "i < length (ls_handles s) \<Longrightarrow>
     ledger_append cd fault (ls_handles s ! i) body (ls_file s) = (res, l, bytes) \<Longrightarrow>
     ledger_step cd s (s\<lparr>ls_file := bytes, ls_handles := (ls_handles s)[i := l]\<rparr>)"
| closed: "ledger_step cd s (s\<lparr>ls_handles := []\<rparr>)"

definition ledger_init :: "LedgerSystem \<Rightarrow> bool" where
  "ledger_init s \<longleftrightarrow> s = \<lparr>ls_file = [], ls_handles = []\<rparr>"

definition ledger_inv :: "'c WitnessCodec \<Rightarrow> LedgerSystem \<Rightarrow> bool" where
  "ledger_inv cd s \<longleftrightarrow>
     (codec_laws cd \<longrightarrow>
      (\<exists>p t is. ls_file s = p @ t \<and> sound cd p is \<and> torn cd t \<and>
         (\<forall>l \<in> set (ls_handles s). handle_at cd p l)))"

lemma open_sound:
  assumes laws: "codec_laws cd" and p: "sound cd p is" and t: "torn cd t"
    and op: "ledger_open cd created fault (p @ t) = (res, bytes)"
  shows "(bytes = p @ t \<or> bytes = p) \<and> (\<forall>l. res = Inr l \<longrightarrow> handle_at cd p l) \<and>
     (fault = None \<longrightarrow> bytes = p \<and>
        res = Inr \<lparr>wl_head = witness_head default_head is, wl_verified_offset = length p\<rparr>)"
  using scan_sound [OF laws p t, of fault]
proof
  assume "scan_head cd fault (p @ t) = (Inl IoError, p @ t) \<and> fault \<noteq> None"
  with op show ?thesis by (auto simp: ledger_open_def)
next
  assume "scan_head cd fault (p @ t) = (Inr (witness_head default_head is, length p), p)"
  with op handle_at_self [OF p] show ?thesis by (auto simp: ledger_open_def split: if_splits)
qed

lemma ledger_step_inv:
  assumes "ledger_inv cd s" and "ledger_step cd s s'"
  shows "ledger_inv cd s'"
  unfolding ledger_inv_def
proof
  assume laws: "codec_laws cd"
  with assms(1) obtain p t "is" where fl: "ls_file s = p @ t" and p: "sound cd p is"
    and t: "torn cd t" and h: "\<forall>l \<in> set (ls_handles s). handle_at cd p l"
    unfolding ledger_inv_def by blast
  have nil: "torn cd []" by (simp add: torn_def)
  have goal: "\<exists>p t is. ls_file s' = p @ t \<and> sound cd p is \<and> torn cd t \<and>
      (\<forall>l \<in> set (ls_handles s'). handle_at cd p l)"
    if "ls_file s' = p' @ t'" "sound cd p' is'" "torn cd t'"
      "\<forall>l \<in> set (ls_handles s'). handle_at cd p' l" for p' t' is'
    using that by blast
  from assms(2) show "\<exists>p t is. ls_file s' = p @ t \<and> sound cd p is \<and> torn cd t \<and>
      (\<forall>l \<in> set (ls_handles s'). handle_at cd p l)"
  proof cases
    case (opened created fault l bytes)
    with open_sound [OF laws p t, of created fault "Inr l" bytes] fl
    have "bytes = p @ t \<or> bytes = p @ []" and l: "handle_at cd p l" by simp_all
    then obtain u where "bytes = p @ u" "torn cd u" using t nil by blast
    then show ?thesis using h l by (intro goal [OF _ p]) (simp_all add: opened(1))
  next
    case (open_failed created fault e bytes)
    with open_sound [OF laws p t, of created fault "Inl e" bytes] fl
    have "bytes = p @ t \<or> bytes = p @ []" by simp
    then obtain u where "bytes = p @ u" "torn cd u" using t nil by blast
    then show ?thesis using h by (intro goal [OF _ p]) (simp_all add: open_failed(1))
  next
    case (appended i fault body res l bytes)
    with h fl have "handle_at cd p (ls_handles s ! i)"
      and app: "ledger_append cd fault (ls_handles s ! i) body (p @ t) = (res, l, bytes)" by simp_all
    from append_sound [OF laws p t this] obtain q js u where q: "bytes = (p @ q) @ u"
      "sound cd (p @ q) (is @ js)" "torn cd u" "handle_at cd (p @ q) l" by metis
    have "set ((ls_handles s)[i := l]) \<subseteq> insert l (set (ls_handles s))"
      by (rule set_update_subset_insert)
    then have "\<forall>k \<in> set ((ls_handles s)[i := l]). handle_at cd (p @ q) k"
      using h q(4) handle_at_append by blast
    then show ?thesis using q(1,3) by (intro goal [OF _ q(2)]) (simp_all add: appended(1))
  next
    case closed
    show ?thesis by (rule goal [OF _ p t]) (simp_all add: closed fl)
  qed
qed

interpretation wls: invariant_system ledger_init "ledger_step cd" "ledger_inv cd"
  for cd :: "'c WitnessCodec"
proof unfold_locales
  show "ledger_inv cd s" if "ledger_init s" for s
    using that by (auto simp: ledger_init_def ledger_inv_def sound_def torn_def)
qed (rule ledger_step_inv)

end
