(* ===== verification/Witness_Samples.thy ===== *)
theory Witness_Samples
  imports Witness_Safety
begin

text \<open>A concrete codec that knows the values of a one-record ledger, for the examples.\<close>

definition sample_body :: "unit WitnessBody" where
  "sample_body =
     \<lparr>wb_task_uuid = None, wb_transition_timestamp = ''t'', wb_verdict = Pass, wb_exit_code = 0,
      wb_artifact_content_hash = None, wb_store_paths = None, wb_drv = None, wb_gpu_seconds = None,
      wb_wall_clock = 0, wb_attempt = 1, wb_lease_epoch = 1, wb_dedup_key = None,
      wb_payload_hash = None, wb_brief_hash = None, wb_origin = origin_direct ManualSource,
      wb_orchestration = None, wb_labor_class = Fresh, wb_trace_ref = None, wb_pools = [''build''],
      wb_executor = None, wb_host_id = None, wb_charge = None, wb_model = None,
      wb_evidence_class = None, wb_manifest_hash = None, wb_completion = None, wb_error = None,
      wb_result_revision = None\<rparr>"

definition sample_hash :: string where
  "sample_hash = ''sha256:'' @ replicate 64 (CHR ''a'')"

definition sample_record :: "unit WitnessRecord" where
  "sample_record = (unhashed_record sample_body [''build''] None None default_head)\<lparr>wr_hash := sample_hash\<rparr>"

definition sample_object :: "string \<Rightarrow> json_map" where
  "sample_object h =
     [(''schemaVersion'', JNumber ''2''), (''recordType'', JString ''verdict''),
      (''transitionTimestamp'', JString ''t''), (''verdict'', JString ''pass''),
      (''exitCode'', JNumber ''0''), (''wallClock'', JNumber ''0.0''), (''attempt'', JNumber ''1''),
      (''leaseEpoch'', JNumber ''1''), (''origin'', origin_value (origin_direct ManualSource)),
      (''laborClass'', JString ''fresh''), (''pools'', JArray [JString ''build'']),
      (''seq'', JNumber ''1''), (''prevHash'', JString GENESIS_PREV_HASH), (''hash'', JString h)]"

definition sample_texts :: "(Json \<times> string) list" where
  "sample_texts =
     [(JObject (sample_object []), ''{u}''), (JObject (sample_object sample_hash), ''{h}''),
      (origin_value (origin_direct ManualSource), ''{o}''), (JNumber ''0.0'', ''0.0'')]"

text \<open>Encoder and decoder of a finite table of values and their texts.\<close>

definition table_print :: "(Json \<times> string) list \<Rightarrow> Json \<Rightarrow> string + string" where
  "table_print T v = (case map_of T v of None \<Rightarrow> Inl ''unknown value'' | Some s \<Rightarrow> Inr s)"

definition table_parse :: "(Json \<times> string) list \<Rightarrow> string \<Rightarrow> string + Json" where
  "table_parse T s =
     (case map_of (map prod.swap T) s of None \<Rightarrow> Inl ''unknown text'' | Some v \<Rightarrow> Inr v)"

definition table_ok :: "(Json \<times> string) list \<Rightarrow> bool" where
  "table_ok T \<longleftrightarrow> distinct (map fst T) \<and> distinct (map snd T) \<and>
     list_all (\<lambda>(v, s). wf_json v \<and> length s = 3 \<and> LF \<notin> set s \<and> CR \<notin> set s \<and> utf8 s \<and> \<not> is_blank s) T"

lemma table_print_Inr: "table_ok T \<Longrightarrow> table_print T v = Inr s \<longleftrightarrow> (v, s) \<in> set T"
proof -
  assume "table_ok T"
  then have "distinct (map fst T)" by (simp add: table_ok_def)
  from map_of_eq_Some_iff [OF this, of v s] show ?thesis
    by (cases "map_of T v") (simp_all add: table_print_def)
qed

lemma table_parse_Inr: "table_ok T \<Longrightarrow> table_parse T s = Inr v \<longleftrightarrow> (v, s) \<in> set T"
proof -
  assume "table_ok T"
  then have "distinct (map fst (map prod.swap T))" by (simp add: table_ok_def comp_def)
  then have "map_of (map prod.swap T) s = Some v \<longleftrightarrow> (s, v) \<in> set (map prod.swap T)" by simp
  also have "\<dots> \<longleftrightarrow> (v, s) \<in> set T" by force
  finally show ?thesis by (auto simp: table_parse_def split: option.splits)
qed

lemma table_laws:
  assumes T: "table_ok T" and cd: "cd_parse cd = table_parse T" "cd_print cd = table_print T"
  shows "round_trip_law cd \<and> compact_law cd"
proof -
  have ok: "\<forall>x \<in> set T. case x of (v, s) \<Rightarrow>
      wf_json v \<and> length s = 3 \<and> LF \<notin> set s \<and> CR \<notin> set s \<and> utf8 s \<and> \<not> is_blank s"
    using T by (simp add: table_ok_def list_all_iff)
  note in_table = table_print_Inr [OF T] table_parse_Inr [OF T]
  have unique: "v = w" if "(v, s) \<in> set T" "(w, s) \<in> set T" for v w s
    using that by (metis in_table(2) sum.inject(2))
  have "b = []" if "(v, a @ b) \<in> set T" "(w, a) \<in> set T" for v w a b
    using bspec [OF ok that(1)] bspec [OF ok that(2)] by simp
  then have "compact_law cd"
    using ok by (auto simp: compact_law_def cd in_table)
  moreover have "round_trip_law cd"
    using ok unique by (auto simp: round_trip_law_def cd in_table)
  ultimately show ?thesis by simp
qed

definition sample_codec :: "unit WitnessCodec" where
  "sample_codec =
     \<lparr>cd_parse = table_parse sample_texts, cd_print = table_print sample_texts,
      cd_decode = (\<lambda>v. if v = JObject (sample_object sample_hash) then Inr sample_record else Inl []),
      cd_encode = (\<lambda>r. if wr_seq r = 1 \<and> wr_prev_hash r = GENESIS_PREV_HASH \<and> wr_hash r = []
                       then Inr ''{u}'' else Inl []),
      cd_f64_value = (\<lambda>_. JNumber ''0.0''), cd_is_f64 = (\<lambda>n. n = ''0.0''), cd_f64_lexeme = Inr,
      cd_digest = (\<lambda>_. replicate 64 (CHR ''a'')), cd_timestamp = Some, cd_uuid_ok = (\<lambda>_. True),
      cd_pool_error = (\<lambda>_. [])\<rparr>"

lemma sample_texts_ok: "table_ok sample_texts"
  by code_simp

lemma sample_codec_laws: "codec_laws sample_codec"
proof -
  have "round_trip_law sample_codec \<and> compact_law sample_codec"
    by (rule table_laws [OF sample_texts_ok]) (simp_all add: sample_codec_def)
  moreover have fields: "chain_fields r (JObject (sample_object (wr_hash r)))"
    if "wr_seq r = 1" "wr_prev_hash r = GENESIS_PREV_HASH" for r :: "unit WitnessRecord"
  proof -
    have "parse_u64 ''1'' = Some 1" by code_simp
    with that show ?thesis by (simp add: chain_fields_def value_get_def sample_object_def)
  qed
  moreover have "chain_fields sample_record (JObject (sample_object sample_hash))"
    using fields [of sample_record]
    by (simp add: sample_record_def unhashed_record_def default_head_def)
  moreover have "chain_fields r (JObject (sample_object []))"
    if "wr_seq r = 1" "wr_prev_hash r = GENESIS_PREV_HASH" "wr_hash r = []" for r :: "unit WitnessRecord"
    using fields [of r] that by simp
  moreover have "parse_u64 ''0.0'' = None" by code_simp
  moreover have "table_parse sample_texts ''{u}'' = Inr (JObject (sample_object []))"
    unfolding table_parse_Inr [OF sample_texts_ok] by (simp add: sample_texts_def)
  ultimately show ?thesis
    by (auto simp: codec_laws_def field_law_def sample_codec_def split: if_splits)
qed

definition sample_ledger :: WitnessLedger where
  "sample_ledger = \<lparr>wl_head = \<lparr>hd_seq = 1, hd_hash = sample_hash\<rparr>, wl_verified_offset = 4\<rparr>"

lemma sample_ledger_open:
  "ledger_open sample_codec True None [] = (Inr \<lparr>wl_head = default_head, wl_verified_offset = 0\<rparr>, [])"
  by code_simp

lemma sample_ledger_append:
  "ledger_append sample_codec None \<lparr>wl_head = default_head, wl_verified_offset = 0\<rparr> sample_body [] =
     (Inr sample_record, sample_ledger, ''{h}'' @ [LF])"
  by code_simp

end
