(* ===== verification/Witness_Theorems.thy ===== *)
theory Witness_Theorems
  imports Witness_Samples
begin

text \<open>The properties of the witness ledger.\<close>

section \<open>Helpers\<close>

lemma chain_nth:
  "witness_chain cd h is \<longleftrightarrow>
     (\<forall>k < length is. item_valid cd (is ! k) \<and>
        wr_seq (snd (is ! k)) = hd_seq h + of_nat k + 1 \<and>
        wr_prev_hash (snd (is ! k)) = (if k = 0 then hd_hash h else wr_hash (snd (is ! (k - 1)))))"
proof (induction "is" arbitrary: h)
  case Nil
  then show ?case by simp
next
  case (Cons i "is")
  show ?case
    by (simp add: Cons.IH All_less_Suc2 wl.item_head_def ac_simps) (auto simp: nth_Cons')
qed

lemma chain_from_genesis:
  "witness_chain cd default_head is \<longleftrightarrow>
     (\<forall>k < length is. item_valid cd (is ! k) \<and> unat (wr_seq (snd (is ! k))) = k + 1 \<and>
        wr_prev_hash (snd (is ! k)) =
          (if k = 0 then GENESIS_PREV_HASH else wr_hash (snd (is ! (k - 1)))))"
proof -
  have short: "length is < 2 ^ 64" if "witness_chain cd default_head is"
  proof (rule wl.chain_short [OF that])
    show "hd_seq default_head = 0" by (simp add: default_head_def)
    show "wr_seq (snd i) \<noteq> 0" if "i \<in> set is" for i
      using wl.chain_valid [OF \<open>witness_chain cd default_head is\<close> that] validate_record_seq
      by (auto simp: item_valid_def)
  qed
  have eq: "unat w = k + 1 \<longleftrightarrow> w = of_nat k + 1" if "k + 1 < 2 ^ 64" for w :: u64 and k
  proof -
    have "unat (of_nat (k + 1) :: u64) = k + 1" unfolding unat_of_nat using that by simp
    moreover have "of_nat k + 1 = (of_nat (k + 1) :: u64)" by simp
    ultimately show ?thesis by (metis word_unat_eq_iff)
  qed
  have small: "k + 1 < 2 ^ 64" if "unat (w :: u64) = k + 1" for w k
    using unsigned_less [of w, where 'a = nat] that by simp
  show ?thesis
  proof
    assume c: "witness_chain cd default_head is"
    show "\<forall>k < length is. item_valid cd (is ! k) \<and> unat (wr_seq (snd (is ! k))) = k + 1 \<and>
        wr_prev_hash (snd (is ! k)) =
          (if k = 0 then GENESIS_PREV_HASH else wr_hash (snd (is ! (k - 1))))"
      using c [unfolded chain_nth] short [OF c] eq by (auto simp: default_head_def)
  next
    assume "\<forall>k < length is. item_valid cd (is ! k) \<and> unat (wr_seq (snd (is ! k))) = k + 1 \<and>
        wr_prev_hash (snd (is ! k)) =
          (if k = 0 then GENESIS_PREV_HASH else wr_hash (snd (is ! (k - 1))))"
    note a = this
    have "wr_seq (snd (is ! k)) = of_nat k + 1" if "k < length is" for k
    proof -
      from a that have u: "unat (wr_seq (snd (is ! k))) = k + 1" by simp
      with eq [OF small [OF u]] show ?thesis by simp
    qed
    with a show "witness_chain cd default_head is"
      unfolding chain_nth by (simp add: default_head_def)
  qed
qed

lemma chain_last_seq:
  "witness_chain cd default_head (js @ [i]) \<Longrightarrow> unat (wr_seq (snd i)) = length js + 1"
  unfolding chain_from_genesis by (drule spec [of _ "length js"]) simp

lemma sample_reachable:
  "reachable ledger_init (ledger_step sample_codec)
     \<lparr>ls_file = [], ls_handles = [\<lparr>wl_head = default_head, wl_verified_offset = 0\<rparr>]\<rparr>"
  "reachable ledger_init (ledger_step sample_codec)
     \<lparr>ls_file = ''{h}'' @ [LF], ls_handles = [sample_ledger]\<rparr>"
proof -
  let ?s0 = "\<lparr>ls_file = [], ls_handles = []\<rparr>"
  let ?l0 = "\<lparr>wl_head = default_head, wl_verified_offset = 0\<rparr>"
  let ?s1 = "\<lparr>ls_file = [], ls_handles = [?l0]\<rparr>"
  have "reachable ledger_init (ledger_step sample_codec) ?s0"
    by (rule reach_init) (simp add: ledger_init_def)
  moreover have "ledger_step sample_codec ?s0 ?s1"
    using ledger_step.opened [of sample_codec True None ?s0 ?l0 "[]"] sample_ledger_open by simp
  ultimately show r1: "reachable ledger_init (ledger_step sample_codec) ?s1" by (rule reach_step)
  have "ledger_step sample_codec ?s1 \<lparr>ls_file = ''{h}'' @ [LF], ls_handles = [sample_ledger]\<rparr>"
    using ledger_step.appended [of 0 ?s1 sample_codec None sample_body] sample_ledger_append by simp
  with r1 show "reachable ledger_init (ledger_step sample_codec)
      \<lparr>ls_file = ''{h}'' @ [LF], ls_handles = [sample_ledger]\<rparr>" by (rule reach_step)
qed

text \<open>
  C20. What a passing verification of the whole ledger means: the file consists of complete lines,
  each the compact canonical JSON of a valid record; the k-th record carries sequence number k, its
  hash is the digest of its own canonical text with the hash cleared, and it names the hash of its
  predecessor, the first one the genesis hash.  Every such file passes.
\<close>

theorem verification_means_chain:
  "vr_ok (verify_reader cd bytes) \<longleftrightarrow>
     (\<exists>ls is. bytes = unlines ls \<and> list_all line_text ls \<and>
        list_all2 (\<lambda>l i. parse_item cd l = Some i) ls is \<and>
        (\<forall>k < length is. item_valid cd (is ! k) \<and> unat (wr_seq (snd (is ! k))) = k + 1 \<and>
           wr_prev_hash (snd (is ! k)) =
             (if k = 0 then GENESIS_PREV_HASH else wr_hash (snd (is ! (k - 1))))))"
  unfolding verify_reader_ok ledger_items_def chain_from_genesis by blast

theorem verification_means_chain_witness:
  "\<exists>l raw r. ''{h}'' @ [LF] = unlines [l] \<and> parse_item sample_codec l = Some (raw, r) \<and>
     unat (wr_seq r) = 1 \<and> wr_prev_hash r = GENESIS_PREV_HASH"
proof -
  have "vr_ok (verify_reader sample_codec (''{h}'' @ [LF]))" by code_simp
  with verification_means_chain [of sample_codec "''{h}'' @ [LF]"] obtain ls "is" where
    ls: "''{h}'' @ [LF] = unlines ls" "list_all line_text ls"
      "list_all2 (\<lambda>l i. parse_item sample_codec l = Some i) ls is"
    and c: "\<forall>k < length is. unat (wr_seq (snd (is ! k))) = k + 1 \<and>
      wr_prev_hash (snd (is ! k)) = (if k = 0 then GENESIS_PREV_HASH else wr_hash (snd (is ! (k - 1))))"
    by blast
  have "list_all line_text [''{h}'']" by (simp add: line_text_def)
  with ls(1,2) have "ls = [''{h}'']" using unlines_inject [of "[''{h}'']" ls] by simp
  with ls(3) obtain i where "is = [i]" "parse_item sample_codec ''{h}'' = Some i"
    by (auto simp: list_all2_Cons1)
  with c show ?thesis by (intro exI [of _ "''{h}''"] exI [of _ "fst i"] exI [of _ "snd i"]) simp
qed

text \<open>
  C21. Incremental verification is full verification: for a verified prefix and a suffix of complete
  lines, chaining the suffix from the last record of the prefix succeeds exactly when verifying the
  whole file does.
\<close>

theorem incremental_verification:
  assumes "vr_ok (verify_reader cd p)" and "s = [] \<or> last s = LF"
  shows "\<exists>rs. verify_suffix_bytes cd p default_head = Inr rs \<and>
    (vr_ok (verify_reader cd (p @ s)) \<longleftrightarrow>
     (\<exists>rs'. verify_suffix_bytes cd s
        (if rs = [] then default_head
         else \<lparr>hd_seq = wr_seq (last rs), hd_hash = wr_hash (last rs)\<rparr>) = Inr rs'))"
proof -
  from assms(1) obtain "is" where p: "ledger_items cd p is" "witness_chain cd default_head is"
    unfolding verify_reader_ok by blast
  from p(1) obtain ls where ls: "p = unlines ls" "list_all line_text ls"
    unfolding ledger_items_def by blast
  obtain ms t where s: "s = unlines ms @ t" "list_all line_text ms" "LF \<notin> set t"
    using complete_lines [of s] by blast
  have "t = []" using assms(2) s(1,3) by (cases t rule: rev_cases) auto
  with s have ms: "s = unlines ms" by simp
  have prefix: "verify_suffix_bytes cd p default_head = Inr (map snd is)"
    using p verify_suffix_bytes_ok [OF ls(2)] by (auto simp: ls(1))
  have head: "(if map snd is = [] then default_head
      else \<lparr>hd_seq = wr_seq (last (map snd is)), hd_hash = wr_hash (last (map snd is))\<rparr>) =
      witness_head default_head is"
    using wl.head_after_last [of "is" default_head] by (simp add: last_map wl.item_head_def)
  have "vr_ok (verify_reader cd (p @ s)) \<longleftrightarrow>
      (\<exists>ks. ledger_items cd s ks \<and> witness_chain cd (witness_head default_head is) ks)"
    using p(2) by (auto simp: verify_reader_ok ledger_items_append [OF p(1)])
  also have "\<dots> \<longleftrightarrow> (\<exists>rs'. verify_suffix_bytes cd s (witness_head default_head is) = Inr rs')"
    unfolding ms verify_suffix_bytes_ok [OF s(2)] by blast
  finally have full: "vr_ok (verify_reader cd (p @ s)) \<longleftrightarrow>
      (\<exists>rs'. verify_suffix_bytes cd s (witness_head default_head is) = Inr rs')" .
  show ?thesis by (intro exI [of _ "map snd is"] conjI prefix) (simp only: full head)
qed

theorem incremental_verification_witness:
  "\<exists>rs. verify_suffix_bytes sample_codec [] default_head = Inr rs \<and>
    (vr_ok (verify_reader sample_codec ([] @ ''{h}'' @ [LF])) \<longleftrightarrow>
     (\<exists>rs'. verify_suffix_bytes sample_codec (''{h}'' @ [LF])
        (if rs = [] then default_head
         else \<lparr>hd_seq = wr_seq (last rs), hd_hash = wr_hash (last rs)\<rparr>) = Inr rs'))"
proof (rule incremental_verification)
  show "vr_ok (verify_reader sample_codec [])" by (simp add: verify_reader_ok)
qed simp

text \<open>
  C22. However many writers open the ledger, append to it and fail at whatever system call, in every
  reachable state the complete lines of the file verify, and the head and offset every open handle
  has cached describe a verified prefix of them.
\<close>

theorem ledger_always_verifies:
  assumes "codec_laws cd" and "reachable ledger_init (ledger_step cd) s"
  shows "vr_ok (verify_reader cd (take (complete_len (ls_file s)) (ls_file s))) \<and>
    (\<forall>l \<in> set (ls_handles s). wl_verified_offset l \<le> complete_len (ls_file s) \<and>
       (\<exists>is. ledger_items cd (take (wl_verified_offset l) (ls_file s)) is \<and>
          witness_chain cd default_head is \<and> wl_head l = witness_head default_head is))"
proof -
  from wls.reachable_invar [OF assms(2)] assms(1) obtain p t "is" where
    s: "ls_file s = p @ t" "sound cd p is" "torn cd t" "\<forall>l \<in> set (ls_handles s). handle_at cd p l"
    unfolding ledger_inv_def by blast
  have len: "complete_len (p @ t) = length p"
    using sound_complete_len [OF s(2)] torn_no_LF [OF assms(1) s(3)] by simp
  have "wl_verified_offset l \<le> length p \<and>
      (\<exists>is. ledger_items cd (take (wl_verified_offset l) (p @ t)) is \<and>
         witness_chain cd default_head is \<and> wl_head l = witness_head default_head is)"
    if "handle_at cd p l" for l
    using that unfolding handle_at_def sound_def by force
  with s(4) have "\<forall>l \<in> set (ls_handles s). wl_verified_offset l \<le> length p \<and>
      (\<exists>is. ledger_items cd (take (wl_verified_offset l) (p @ t)) is \<and>
         witness_chain cd default_head is \<and> wl_head l = witness_head default_head is)" by blast
  moreover have "vr_ok (verify_reader cd (take (length p) (p @ t)))"
    using sound_verified [OF s(2)] by simp
  ultimately show ?thesis unfolding s(1) len by blast
qed

theorem ledger_always_verifies_witness:
  "vr_ok (verify_reader sample_codec (take 4 (''{h}'' @ [LF])))"
proof -
  from ledger_always_verifies [OF sample_codec_laws sample_reachable(2)] show ?thesis
    by (simp add: complete_len_def)
qed


text \<open>
  C23. A successful append commits: the file keeps every complete line it had, in order, gains exactly
  one, verifies, and the new record has the sequence number and hash that the call returned; the
  sequence number is one more than the number of records before.
\<close>

theorem append_commits:
  assumes "codec_laws cd" and "reachable ledger_init (ledger_step cd) s"
    and "i < length (ls_handles s)"
    and "ledger_append cd fault (ls_handles s ! i) body (ls_file s) = (Inr r, l, bytes)"
  shows "\<exists>line is raw r'. bytes = take (complete_len (ls_file s)) (ls_file s) @ line @ [LF] \<and>
    line_text line \<and> vr_ok (verify_reader cd bytes) \<and> ledger_items cd bytes (is @ [(raw, r')]) \<and>
    ledger_items cd (take (complete_len (ls_file s)) (ls_file s)) is \<and>
    wr_seq r' = wr_seq r \<and> wr_hash r' = wr_hash r \<and> unat (wr_seq r) = length is + 1"
proof -
  from wls.reachable_invar [OF assms(2)] assms(1) obtain p t "is" where
    s: "ls_file s = p @ t" "sound cd p is" "torn cd t" "\<forall>l \<in> set (ls_handles s). handle_at cd p l"
    unfolding ledger_inv_def by blast
  have len: "complete_len (p @ t) = length p"
    using sound_complete_len [OF s(2)] torn_no_LF [OF assms(1) s(3)] by simp
  from s(4) assms(3) have "handle_at cd p (ls_handles s ! i)" by simp
  from append_sound [OF assms(1) s(2,3) this assms(4) [unfolded s(1)]]
  obtain q js u where q: "bytes = (p @ q) @ u" "sound cd (p @ q) (is @ js)"
    and "u = [] \<and> (\<exists>i. js = [i] \<and> wr_seq (snd i) = wr_seq r \<and> wr_hash (snd i) = wr_hash r)" by metis
  then obtain raw r' where new: "u = []" "js = [(raw, r')]" "wr_seq r' = wr_seq r" "wr_hash r' = wr_hash r"
    by auto
  have p: "ledger_items cd p is" using s(2) by (simp add: sound_def)
  with q(2) have "ledger_items cd q [(raw, r')]"
    by (simp add: sound_def ledger_items_append new(2))
  then obtain ls where "q = unlines ls" "list_all line_text ls" "length ls = 1"
    unfolding ledger_items_def by (auto dest: list_all2_lengthD)
  then obtain line where line: "q = line @ [LF]" "line_text line" by (cases ls) auto
  have "witness_chain cd default_head (is @ [(raw, r')])" using q(2) new by (simp add: sound_def)
  from chain_last_seq [OF this] have seq: "unat (wr_seq r) = length is + 1" by (simp add: new(3))
  have bytes: "bytes = p @ line @ [LF]" using q(1) new(1) line(1) by simp
  show ?thesis
    unfolding s(1) len
    using bytes line q(2) new p seq sound_verified [OF q(2)]
    by (intro exI [of _ line] exI [of _ "is"] exI [of _ raw] exI [of _ r']) (simp add: sound_def)
qed

theorem append_commits_witness:
  "\<exists>line is raw r'. ''{h}'' @ [LF] = take (complete_len []) [] @ line @ [LF] \<and>
     line_text line \<and> vr_ok (verify_reader sample_codec (''{h}'' @ [LF])) \<and>
     ledger_items sample_codec (''{h}'' @ [LF]) (is @ [(raw, r')]) \<and>
     ledger_items sample_codec (take (complete_len []) []) is \<and>
     wr_seq r' = wr_seq sample_record \<and> wr_hash r' = wr_hash sample_record \<and>
     unat (wr_seq sample_record) = length is + 1"
proof -
  from append_commits [OF sample_codec_laws sample_reachable(1), of 0 None sample_body sample_record
      sample_ledger] sample_ledger_append show ?thesis by simp
qed

text \<open>
  C24. A crash never locks the ledger: whatever torn tail failed writes left, opening the file again
  without a system failure succeeds, keeps every complete line, removes only the torn tail, and
  starts from the head of all complete records.
\<close>

theorem ledger_recovers:
  assumes "codec_laws cd" and "reachable ledger_init (ledger_step cd) s"
  shows "\<exists>l is. ledger_open cd created None (ls_file s) =
      (Inr l, take (complete_len (ls_file s)) (ls_file s)) \<and>
    ledger_items cd (take (complete_len (ls_file s)) (ls_file s)) is \<and>
    wl_verified_offset l = complete_len (ls_file s) \<and> wl_head l = witness_head default_head is \<and>
    unat (hd_seq (wl_head l)) = length is"
proof -
  from wls.reachable_invar [OF assms(2)] assms(1) obtain p t "is" where
    s: "ls_file s = p @ t" "sound cd p is" "torn cd t"
    unfolding ledger_inv_def by blast
  have len: "complete_len (p @ t) = length p"
    using sound_complete_len [OF s(2)] torn_no_LF [OF assms(1) s(3)] by simp
  obtain res bytes where op: "ledger_open cd created None (p @ t) = (res, bytes)"
    by (cases "ledger_open cd created None (p @ t)")
  from open_sound [OF assms(1) s(2,3) op] have "bytes = p"
    "res = Inr \<lparr>wl_head = witness_head default_head is, wl_verified_offset = length p\<rparr>" by simp_all
  moreover have "unat (hd_seq (witness_head default_head is)) = length is"
  proof (cases "is" rule: rev_cases)
    case Nil
    then show ?thesis by (simp add: default_head_def)
  next
    case (snoc js i)
    have "witness_chain cd default_head is" using s(2) by (simp add: sound_def)
    from chain_last_seq [OF this [unfolded snoc]] show ?thesis
      by (simp add: snoc wl.item_head_def)
  qed
  moreover have "take (length p) (p @ t) = p" by simp
  ultimately show ?thesis
    unfolding s(1) len using op s(2) by (auto simp: sound_def)
qed

theorem ledger_recovers_witness:
  "\<exists>l. ledger_open sample_codec False None [] = (Inr l, []) \<and> unat (hd_seq (wl_head l)) = 0"
proof -
  have "reachable ledger_init (ledger_step sample_codec) \<lparr>ls_file = [], ls_handles = []\<rparr>"
    by (rule reach_init) (simp add: ledger_init_def)
  from ledger_recovers [OF sample_codec_laws this, of False] show ?thesis
    by (auto simp: complete_len_def)
qed


section \<open>Tamper evidence\<close>

lemma item_determined:
  assumes "round_trip_law cd" and "field_law cd"
    and "parse_item cd l = Some i" "parse_item cd l' = Some j" "item_valid cd i" "item_valid cd j"
    and "item_input cd i = item_input cd j" and "wr_hash (snd i) = wr_hash (snd j)"
  shows "i = j"
proof -
  obtain raw r raw' r' where ij: "i = (raw, r)" "j = (raw', r')" by (cases i, cases j)
  have wf: "wf_json raw" "wf_json raw'"
    using assms(1,3,4) parse_itemD(1) unfolding ij round_trip_law_def by blast+
  from assms(5,6) obtain m m' s s' where
    m: "raw = JObject m" "cd_print cd (JObject (map_insert ''hash'' (JString []) m)) = Inr s"
    and m': "raw' = JObject m'" "cd_print cd (JObject (map_insert ''hash'' (JString []) m')) = Inr s'"
    and has: "contains_key m ''hash''" "contains_key m' ''hash''"
    unfolding item_valid_def compute_hash_value_Inr ij by auto
  have "s = s'" using assms(7) m m' has by (simp add: item_input_def canonical_hash_input_def ij)
  moreover have "wf_json (JObject (map_insert ''hash'' (JString []) m))"
      "wf_json (JObject (map_insert ''hash'' (JString []) m'))"
    using wf wf_json_insert [of _ "JString []" "''hash''"] by (simp_all add: m m')
  ultimately have eq: "map_insert ''hash'' (JString []) m' = map_insert ''hash'' (JString []) m"
    using assms(1) m(2) m'(2) unfolding round_trip_law_def by (metis Json.inject(5))
  have dec: "cd_decode cd raw = Inr r" "cd_decode cd raw' = Inr r'"
    using assms(5,6) unfolding item_valid_def ij by (auto simp: validate_record_Inr)
  then have "chain_fields r raw" "chain_fields r' raw'" using assms(2) unfolding field_law_def by blast+
  then have "map_get m ''hash'' = map_get m' ''hash''"
    using assms(8) by (simp add: chain_fields_def value_get_def m m' ij)
  with eq has have "m' = m" by (metis map_insert_inject contains_key_iff)
  with dec m m' show ?thesis by (simp add: ij)
qed

text \<open>The texts a ledger file feeds to the digest.\<close>

definition hash_inputs :: "'c WitnessCodec \<Rightarrow> string \<Rightarrow> string set" where
  "hash_inputs cd p =
     {input. \<exists>l raw. l \<in> set (split_terminator p) \<and> cd_parse cd l = Inr raw \<and>
        canonical_hash_input cd raw = Inr input}"

lemma ledger_inputs:
  assumes "ledger_items cd p is" and "\<forall>i \<in> set is. item_valid cd i"
  shows "item_input cd ` set is \<subseteq> hash_inputs cd p"
proof
  fix x assume "x \<in> item_input cd ` set is"
  then obtain i where i: "i \<in> set is" "x = item_input cd i" by blast
  from assms(1) obtain ls where ls: "p = unlines ls" "list_all line_text ls"
    "list_all2 (\<lambda>l i. parse_item cd l = Some i) ls is" unfolding ledger_items_def by blast
  from list_all2_right [OF ls(3) i(1)] obtain l where l: "l \<in> set ls" "parse_item cd l = Some i" by blast
  from assms(2) i have "\<exists>h. compute_hash_value cd (fst i) = Inr h" by (auto simp: item_valid_def)
  then have "canonical_hash_input cd (fst i) = Inr x"
    by (auto simp: i(2) item_input_def compute_hash_value_def split: sum.splits)
  moreover have "cd_parse cd l = Inr (fst i)" using parse_itemD(1) [of cd l "fst i" "snd i"] l(2) by simp
  ultimately show "x \<in> hash_inputs cd p"
    using l(1) split_terminator_unlines [OF ls(2)] by (auto simp: hash_inputs_def ls(1))
qed

lemma items_determine_file:
  assumes "ledger_items cd p is" and "ledger_items cd q is"
  shows "p = q"
proof -
  from assms obtain ls ms where l: "p = unlines ls" "list_all2 (\<lambda>l i. parse_item cd l = Some i) ls is"
    and m: "q = unlines ms" "list_all2 (\<lambda>l i. parse_item cd l = Some i) ms is"
    unfolding ledger_items_def by blast
  have line: "cd_print cd (fst i) = Inr l" if "parse_item cd l = Some i" for l i
    using that parse_itemD(2) [of cd l "fst i" "snd i"] by simp
  have "ls = ms"
  proof (rule nth_equalityI)
    show "length ls = length ms" using l(2) m(2) by (simp add: list_all2_lengthD)
    show "ls ! k = ms ! k" if "k < length ls" for k
      using that l(2) m(2) line unfolding list_all2_conv_all_nth by (metis sum.inject(2))
  qed
  with l m show ?thesis by simp
qed

text \<open>
  C25. The head pins the whole history: two ledger files that verify and end in the same sequence
  number and hash are byte for byte the same, as long as the digest has no collision among the
  texts the two files hash.
\<close>

theorem tamper_evident:
  assumes "codec_laws cd"
    and "vr_ok (verify_reader cd p)" and "vr_ok (verify_reader cd q)"
    and "p \<noteq> []" and "q \<noteq> []" and "last_head cd p = last_head cd q"
    and "inj_on (cd_digest cd) (hash_inputs cd p \<union> hash_inputs cd q)"
  shows "p = q"
proof -
  from assms(2,3) obtain xs ys where x: "sound cd p xs" and y: "sound cd q ys"
    unfolding verify_reader_ok sound_def by blast
  have items: "ledger_items cd p xs" "ledger_items cd q ys"
    and chains: "witness_chain cd default_head xs" "witness_chain cd default_head ys"
    using x y by (simp_all add: sound_def)
  have "xs \<noteq> []" "ys \<noteq> []" using items assms(4,5) by (auto simp: ledger_items_def)
  with assms(6) last_head_sound [OF assms(1) x] last_head_sound [OF assms(1) y]
  have head: "witness_head default_head xs = witness_head default_head ys" by simp
  obtain xs' i ys' j where s: "xs = xs' @ [i]" "ys = ys' @ [j]"
    using \<open>xs \<noteq> []\<close> \<open>ys \<noteq> []\<close> by (metis rev_exhaust)
  have len: "length xs = length ys"
    using head chain_last_seq [OF chains(1) [unfolded s]] chain_last_seq [OF chains(2) [unfolded s]]
    by (simp add: s wl.item_head_def)
  have valid: "\<forall>i \<in> set xs. item_valid cd i" "\<forall>i \<in> set ys. item_valid cd i"
    using wl.chain_valid chains by blast+
  have inj: "inj_on (\<lambda>s. ''sha256:'' @ cd_digest cd s) (item_input cd ` (set xs \<union> set ys))"
  proof (rule inj_onI)
    fix a b assume ab: "a \<in> item_input cd ` (set xs \<union> set ys)" "b \<in> item_input cd ` (set xs \<union> set ys)"
      and eq: "''sha256:'' @ cd_digest cd a = ''sha256:'' @ cd_digest cd b"
    have sub: "item_input cd ` (set xs \<union> set ys) \<subseteq> hash_inputs cd p \<union> hash_inputs cd q"
      using ledger_inputs [OF items(1) valid(1)] ledger_inputs [OF items(2) valid(2)]
      by (simp only: image_Un Un_mono)
    from eq have "cd_digest cd a = cd_digest cd b" by simp
    then show "a = b" by (rule inj_onD [OF assms(7)]) (rule subsetD [OF sub], fact ab)+
  qed
  have det: "x = y" if "x \<in> set xs" "y \<in> set ys" "item_input cd x = item_input cd y"
    "wr_hash (snd x) = wr_hash (snd y)" for x y
  proof -
    from items obtain ls ms where "list_all2 (\<lambda>l i. parse_item cd l = Some i) ls xs"
      "list_all2 (\<lambda>l i. parse_item cd l = Some i) ms ys" unfolding ledger_items_def by blast
    from list_all2_right [OF this(1) that(1)] list_all2_right [OF this(2) that(2)]
    obtain l l' where "parse_item cd l = Some x" "parse_item cd l' = Some y" by blast
    then show ?thesis
      using item_determined [of cd l x l' y] that valid assms(1) by (simp add: codec_laws_def)
  qed
  have "xs = ys" by (rule wl.chain_determined [OF chains len _ inj det]) (simp_all add: head)
  with items show ?thesis using items_determine_file by blast
qed

theorem tamper_evident_witness:
  "vr_ok (verify_reader sample_codec (''{h}'' @ [LF])) \<and>
   last_head sample_codec (''{h}'' @ [LF]) = Inr \<lparr>hd_seq = 1, hd_hash = sample_hash\<rparr> \<and>
   ''{h}'' @ [LF] = ''{h}'' @ [LF]"
proof -
  have ok: "vr_ok (verify_reader sample_codec (''{h}'' @ [LF]))" by code_simp
  have head: "last_head sample_codec (''{h}'' @ [LF]) = Inr \<lparr>hd_seq = 1, hd_hash = sample_hash\<rparr>"
    by code_simp
  have "hash_inputs sample_codec (''{h}'' @ [LF]) \<subseteq> {''{u}''}"
  proof
    fix x assume "x \<in> hash_inputs sample_codec (''{h}'' @ [LF])"
    moreover have "split_terminator (''{h}'' @ [LF]) = [''{h}'']" by code_simp
    moreover have "cd_parse sample_codec ''{h}'' = Inr (JObject (sample_object sample_hash))" by code_simp
    moreover have "canonical_hash_input sample_codec (JObject (sample_object sample_hash)) = Inr ''{u}''"
      by code_simp
    ultimately show "x \<in> {''{u}''}" by (auto simp: hash_inputs_def)
  qed
  then have "inj_on (cd_digest sample_codec)
      (hash_inputs sample_codec (''{h}'' @ [LF]) \<union> hash_inputs sample_codec (''{h}'' @ [LF]))"
    by (intro inj_onI) blast
  from tamper_evident [OF sample_codec_laws ok ok _ _ refl this] ok head show ?thesis by simp
qed


end
