(* ===== verification/Attestation.thy ===== *)
theory Attestation
  imports Witness_Ledger
begin

text \<open>
  The advisory attestation chain (\<open>witness.rs\<close>, from \<open>AttestationRecord\<close> on): reading and verifying
  the chain, repairing a torn tail, the one-shot append and the long-lived handle.

  \<open>dec\<close> stands for the derived decoder \<open>serde_json::from_value::<AttestationRecord>\<close>; the other
  third-party functions come from the \<open>WitnessCodec\<close>.  A clock reading, already formatted, is an
  argument.  As for the witness ledger, an operation takes the bytes of the file and returns its
  result with the bytes it leaves.
\<close>

record AttestationRecord =
  at_observed_at :: string
  at_payload :: Json
  at_seq :: u64
  at_prev_hash :: string
  at_hash :: string

type_synonym attestation_decoder = "Json \<Rightarrow> string + AttestationRecord"

text \<open>\<open>serde_json::to_value\<close> of a record, and its text.\<close>

definition attestation_value :: "AttestationRecord \<Rightarrow> Json" where
  "attestation_value r =
     JObject [(''observed_at'', JString (at_observed_at r)), (''payload'', at_payload r),
              (''seq'', JNumber (show_nat (unat (at_seq r)))),
              (''prev_hash'', JString (at_prev_hash r)), (''hash'', JString (at_hash r))]"

section \<open>Reading the chain\<close>

text \<open>
  The loop that \<open>read_attestation_chain\<close>, \<open>scan_attestation_head\<close> and \<open>refresh_locked\<close> share; a line
  that is not UTF-8 is a read error.
\<close>

definition chain_breaks :: "AttestationRecord \<Rightarrow> WitnessError" where
  "chain_breaks r = Corrupt (''attestation chain breaks at seq '' @ show_nat (unat (at_seq r)))"

definition attestation_line ::
  "'c WitnessCodec \<Rightarrow> attestation_decoder \<Rightarrow> u64 \<Rightarrow> string \<Rightarrow> string \<Rightarrow> WitnessError + AttestationRecord" where
  "attestation_line cd dec expected_seq previous_hash line =
     (case cd_parse cd line of
        Inl e \<Rightarrow> Inl (JsonError e)
      | Inr raw \<Rightarrow>
          (case dec raw of
             Inl e \<Rightarrow> Inl (JsonError e)
           | Inr r \<Rightarrow>
               if at_seq r \<noteq> expected_seq \<or> at_prev_hash r \<noteq> previous_hash then Inl (chain_breaks r)
               else
                 (case compute_hash_value cd raw of
                    Inl e \<Rightarrow> Inl e
                  | Inr h \<Rightarrow> if h \<noteq> at_hash r then Inl (chain_breaks r) else Inr r)))"

fun attestation_lines ::
  "'c WitnessCodec \<Rightarrow> attestation_decoder \<Rightarrow> u64 \<Rightarrow> string \<Rightarrow> string list
     \<Rightarrow> WitnessError + AttestationRecord list" where
  "attestation_lines cd dec expected_seq previous_hash [] = Inr []"
| "attestation_lines cd dec expected_seq previous_hash (line # ls) =
     (if \<not> utf8 line then Inl IoError
      else if is_blank line then attestation_lines cd dec expected_seq previous_hash ls
      else
        (case attestation_line cd dec expected_seq previous_hash line of
           Inl e \<Rightarrow> Inl e
         | Inr r \<Rightarrow>
             (case attestation_lines cd dec (expected_seq + 1) (at_hash r) ls of
                Inl e \<Rightarrow> Inl e
              | Inr rs \<Rightarrow> Inr (r # rs))))"

definition read_attestation_chain ::
  "'c WitnessCodec \<Rightarrow> attestation_decoder \<Rightarrow> string \<Rightarrow> WitnessError + AttestationRecord list" where
  "read_attestation_chain cd dec bytes =
     attestation_lines cd dec 1 GENESIS_PREV_HASH (str_lines bytes)"

definition attestation_head :: "AttestationRecord list \<Rightarrow> u64 \<times> string" where
  "attestation_head rs =
     (if rs = [] then (0, GENESIS_PREV_HASH) else (at_seq (last rs), at_hash (last rs)))"

text \<open>\<open>scan_attestation_head\<close> returns the counter of the loop minus one and the last hash.\<close>

definition scan_attestation_head ::
  "'c WitnessCodec \<Rightarrow> attestation_decoder \<Rightarrow> string \<Rightarrow> WitnessError + u64 \<times> string" where
  "scan_attestation_head cd dec bytes =
     (case attestation_lines cd dec 1 GENESIS_PREV_HASH (str_lines bytes) of
        Inl e \<Rightarrow> Inl e
      | Inr rs \<Rightarrow>
          Inr ((1 + of_nat (length rs)) - 1, if rs = [] then GENESIS_PREV_HASH else at_hash (last rs)))"

section \<open>Repairing the tail\<close>

fun is_write_fault :: "IoFault option \<Rightarrow> bool" where
  "is_write_fault (Some (WriteFault _)) = True"
| "is_write_fault _ = False"

text \<open>\<open>serde_json::from_slice\<close> of the tail succeeds.\<close>

definition tail_parses :: "'c WitnessCodec \<Rightarrow> string \<Rightarrow> bool" where
  "tail_parses cd tail \<longleftrightarrow> utf8 tail \<and> (case cd_parse cd tail of Inl _ \<Rightarrow> False | Inr _ \<Rightarrow> True)"

definition truncate_incomplete_attestation_tail ::
  "'c WitnessCodec \<Rightarrow> attestation_decoder \<Rightarrow> IoFault option \<Rightarrow> string \<Rightarrow> (WitnessError + bool) \<times> string" where
  "truncate_incomplete_attestation_tail cd dec fault bytes =
     (if fault = Some ReadFault then (Inl IoError, bytes)
      else if bytes = [] \<or> last bytes = LF then (Inr False, bytes)
      else
        (let len = complete_len bytes
         in if tail_parses cd (drop len bytes)
            then
              (case scan_attestation_head cd dec bytes of
                 Inl e \<Rightarrow> (Inl e, bytes)
               | Inr _ \<Rightarrow>
                   if is_write_fault fault then (Inl IoError, bytes)
                   else (Inr True, bytes @ [LF]))
            else if fault = Some TruncateFault then (Inl IoError, bytes)
            else (Inr True, take len bytes)))"

definition repair_attestation_tail ::
  "'c WitnessCodec \<Rightarrow> attestation_decoder \<Rightarrow> IoFault option \<Rightarrow> FileContent \<Rightarrow> (WitnessError + unit) \<times> FileContent" where
  "repair_attestation_tail cd dec fault f =
     (case f of
        Absent \<Rightarrow> (Inr (), f)
      | Unreadable \<Rightarrow> (Inl IoError, f)
      | Content bytes \<Rightarrow>
          if bytes = [] \<or> last bytes = LF then (Inr (), f)
          else
            (case truncate_incomplete_attestation_tail cd dec fault bytes of
               (Inl e, bytes') \<Rightarrow> (Inl e, Content bytes')
             | (Inr True, bytes') \<Rightarrow>
                 (if fault = Some SyncFault then Inl IoError else Inr (), Content bytes')
             | (Inr False, bytes') \<Rightarrow> (Inr (), Content bytes')))"

section \<open>Appending\<close>

text \<open>The next record after a head, hashed.\<close>

definition next_attestation ::
  "'c WitnessCodec \<Rightarrow> string \<Rightarrow> Json \<Rightarrow> u64 \<Rightarrow> string \<Rightarrow> WitnessError + AttestationRecord" where
  "next_attestation cd now payload seq previous_hash =
     (let r = \<lparr>at_observed_at = now, at_payload = payload, at_seq = seq + 1,
               at_prev_hash = previous_hash, at_hash = []\<rparr>
      in case compute_hash_value cd (attestation_value r) of
           Inl e \<Rightarrow> Inl e
         | Inr h \<Rightarrow> Inr (r\<lparr>at_hash := h\<rparr>))"

definition append_attestation ::
  "'c WitnessCodec \<Rightarrow> attestation_decoder \<Rightarrow> IoFault option \<Rightarrow> string \<Rightarrow> Json \<Rightarrow> string
     \<Rightarrow> (WitnessError + AttestationRecord) \<times> string" where
  "append_attestation cd dec fault now payload bytes =
     (case truncate_incomplete_attestation_tail cd dec fault bytes of
        (Inl e, bytes1) \<Rightarrow> (Inl e, bytes1)
      | (Inr _, bytes1) \<Rightarrow>
          (case scan_attestation_head cd dec bytes1 of
             Inl e \<Rightarrow> (Inl e, bytes1)
           | Inr (seq, previous_hash) \<Rightarrow>
               (case next_attestation cd now payload seq previous_hash of
                  Inl e \<Rightarrow> (Inl e, bytes1)
                | Inr r \<Rightarrow>
                    (case cd_print cd (attestation_value r) of
                       Inl e \<Rightarrow> (Inl (JsonError e), bytes1)
                     | Inr encoded \<Rightarrow>
                         (let line = encoded @ [LF]
                          in case fault of
                               Some (WriteFault k) \<Rightarrow>
                                 (Inl IoError, bytes1 @ take (min k (length line - 1)) line)
                             | Some SyncFault \<Rightarrow> (Inl IoError, bytes1 @ line)
                             | _ \<Rightarrow> (Inr r, bytes1 @ line))))))"

section \<open>The long-lived handle\<close>

record AttestationLedger =
  al_records :: "AttestationRecord list"
  al_verified_offset :: nat

definition attestation_open ::
  "'c WitnessCodec \<Rightarrow> attestation_decoder \<Rightarrow> bool \<Rightarrow> IoFault option \<Rightarrow> string
     \<Rightarrow> (WitnessError + AttestationLedger) \<times> string" where
  "attestation_open cd dec created fault bytes =
     (case truncate_incomplete_attestation_tail cd dec fault bytes of
        (Inl e, bytes1) \<Rightarrow> (Inl e, bytes1)
      | (Inr _, bytes1) \<Rightarrow>
          (case read_attestation_chain cd dec bytes1 of
             Inl e \<Rightarrow> (Inl e, bytes1)
           | Inr rs \<Rightarrow>
               (if fault = Some UnlockFault \<or> (created \<and> fault = Some SyncFault) then Inl IoError
                else Inr \<lparr>al_records = rs, al_verified_offset = length bytes1\<rparr>, bytes1)))"

text \<open>The tail repair of \<open>refresh_locked\<close>: the suffix to read and the bytes of the file.\<close>

definition repair_suffix ::
  "'c WitnessCodec \<Rightarrow> IoFault option \<Rightarrow> nat \<Rightarrow> string \<Rightarrow> (WitnessError + string) \<times> string" where
  "repair_suffix cd fault offset bytes =
     (let suffix = drop offset bytes
      in if suffix \<noteq> [] \<and> last suffix = LF then (Inr suffix, bytes)
         else
           (let len = complete_len suffix
            in if tail_parses cd (drop len suffix)
               then (if is_write_fault fault then (Inl IoError, bytes)
                     else (Inr (suffix @ [LF]), bytes @ [LF]))
               else if fault = Some TruncateFault then (Inl IoError, bytes)
               else (Inr (take len suffix), take offset bytes @ take len suffix)))"

definition refresh_locked ::
  "'c WitnessCodec \<Rightarrow> attestation_decoder \<Rightarrow> IoFault option \<Rightarrow> AttestationLedger \<Rightarrow> string
     \<Rightarrow> (WitnessError + unit) \<times> AttestationLedger \<times> string" where
  "refresh_locked cd dec fault l bytes =
     (if fault = Some ReadFault then (Inl IoError, l, bytes)
      else if length bytes = al_verified_offset l then (Inr (), l, bytes)
      else if length bytes < al_verified_offset l
      then
        (case truncate_incomplete_attestation_tail cd dec fault bytes of
           (Inl e, bytes1) \<Rightarrow> (Inl e, l, bytes1)
         | (Inr _, bytes1) \<Rightarrow>
             (case read_attestation_chain cd dec bytes1 of
                Inl e \<Rightarrow> (Inl e, l, bytes1)
              | Inr rs \<Rightarrow> (Inr (), \<lparr>al_records = rs, al_verified_offset = length bytes1\<rparr>, bytes1)))
      else
        (case repair_suffix cd fault (al_verified_offset l) bytes of
           (Inl e, bytes1) \<Rightarrow> (Inl e, l, bytes1)
         | (Inr suffix, bytes1) \<Rightarrow>
             if \<not> utf8 suffix then (Inl (Corrupt ''attestation suffix is not UTF-8''), l, bytes1)
             else
               (case attestation_head (al_records l) of
                  (seq, previous_hash) \<Rightarrow>
                    (case attestation_lines cd dec (seq + 1) previous_hash (split_terminator suffix) of
                       Inl e \<Rightarrow> (Inl e, l, bytes1)
                     | Inr appended \<Rightarrow>
                         (Inr (), \<lparr>al_records = al_records l @ appended,
                                   al_verified_offset = al_verified_offset l + length suffix\<rparr>,
                          bytes1)))))"

definition attestation_records ::
  "'c WitnessCodec \<Rightarrow> attestation_decoder \<Rightarrow> IoFault option \<Rightarrow> AttestationLedger \<Rightarrow> string
     \<Rightarrow> (WitnessError + AttestationRecord list) \<times> AttestationLedger \<times> string" where
  "attestation_records cd dec fault l bytes =
     (case refresh_locked cd dec fault l bytes of
        (Inl e, l1, bytes1) \<Rightarrow> (Inl e, l1, bytes1)
      | (Inr _, l1, bytes1) \<Rightarrow>
          (if fault = Some UnlockFault then Inl IoError else Inr (al_records l1), l1, bytes1))"

definition attestation_append ::
  "'c WitnessCodec \<Rightarrow> attestation_decoder \<Rightarrow> IoFault option \<Rightarrow> string \<Rightarrow> Json \<Rightarrow> AttestationLedger
     \<Rightarrow> string \<Rightarrow> (WitnessError + AttestationRecord) \<times> AttestationLedger \<times> string" where
  "attestation_append cd dec fault now payload l bytes =
     (case refresh_locked cd dec fault l bytes of
        (Inl e, l1, bytes1) \<Rightarrow> (Inl e, l1, bytes1)
      | (Inr _, l1, bytes1) \<Rightarrow>
          (case attestation_head (al_records l1) of
             (seq, previous_hash) \<Rightarrow>
               (case next_attestation cd now payload seq previous_hash of
                  Inl e \<Rightarrow> (Inl e, l1, bytes1)
                | Inr r \<Rightarrow>
                    (case cd_print cd (attestation_value r) of
                       Inl e \<Rightarrow> (Inl (JsonError e), l1, bytes1)
                     | Inr encoded \<Rightarrow>
                         (let line = encoded @ [LF]
                          in case fault of
                               Some (WriteFault k) \<Rightarrow>
                                 (Inl IoError, l1, bytes1 @ take (min k (length line - 1)) line)
                             | Some SyncFault \<Rightarrow> (Inl IoError, l1, bytes1 @ line)
                             | _ \<Rightarrow>
                                 (if fault = Some UnlockFault then Inl IoError else Inr r,
                                  \<lparr>al_records = al_records l1 @ [r],
                                   al_verified_offset = al_verified_offset l1 + length line\<rparr>,
                                  bytes1 @ line))))))"

section \<open>Verification reports\<close>

record AttestationVerifyReport =
  av_ok :: bool
  av_records :: nat
  av_authentication :: string
  av_problem :: "string option"

definition attestation_report :: "bool \<Rightarrow> nat \<Rightarrow> string option \<Rightarrow> AttestationVerifyReport" where
  "attestation_report ok records problem =
     \<lparr>av_ok = ok, av_records = records, av_authentication = ''unauthenticated-by-construction'',
      av_problem = problem\<rparr>"

definition verify_attestations ::
  "'c WitnessCodec \<Rightarrow> attestation_decoder \<Rightarrow> FileContent \<Rightarrow> WitnessError + AttestationVerifyReport" where
  "verify_attestations cd dec f =
     (case f of
        Absent \<Rightarrow> Inr (attestation_report True 0 None)
      | Unreadable \<Rightarrow> Inl IoError
      | Content bytes \<Rightarrow>
          (case scan_attestation_head cd dec bytes of
             Inr (records, _) \<Rightarrow> Inr (attestation_report True (unat records) None)
           | Inl (Corrupt problem) \<Rightarrow> Inr (attestation_report False 0 (Some problem))
           | Inl e \<Rightarrow> Inl e))"

definition read_attestation_line ::
  "'c WitnessCodec \<Rightarrow> attestation_decoder \<Rightarrow> string \<Rightarrow> WitnessError + AttestationRecord" where
  "read_attestation_line cd dec line =
     (if \<not> utf8 line then Inl IoError
      else
        (case cd_parse cd line of
           Inl e \<Rightarrow> Inl (JsonError e)
         | Inr raw \<Rightarrow> (case dec raw of Inl e \<Rightarrow> Inl (JsonError e) | Inr r \<Rightarrow> Inr r)))"

definition read_verified_attestations ::
  "'c WitnessCodec \<Rightarrow> attestation_decoder \<Rightarrow> FileContent
     \<Rightarrow> WitnessError + AttestationVerifyReport \<times> AttestationRecord list" where
  "read_verified_attestations cd dec f =
     (case f of
        Absent \<Rightarrow> Inr (attestation_report True 0 None, [])
      | Unreadable \<Rightarrow> Inl IoError
      | Content bytes \<Rightarrow>
          (case scan_attestation_head cd dec bytes of
             Inr (records, _) \<Rightarrow>
               map_sum id (Pair (attestation_report True (unat records) None))
                 (collect (map (read_attestation_line cd dec)
                    (filter (\<lambda>l. \<not> (utf8 l \<and> is_blank l)) (str_lines bytes))))
           | Inl (Corrupt problem) \<Rightarrow> Inr (attestation_report False 0 (Some problem), [])
           | Inl e \<Rightarrow> Inl e))"

end
