(* ===== verification/Attestation_Chain.thy ===== *)
theory Attestation_Chain
  imports Attestation Witness_Samples
begin

text \<open>
  Correctness of the attestation chain: what is read back after an append, that the incremental
  refresh of a handle sees what a full read of the file sees, and that a payload of 127 nested arrays and
  objects makes the chain unreadable.
\<close>

section \<open>The chain behind the loop\<close>

definition attestation_valid ::
  "'c WitnessCodec \<Rightarrow> attestation_decoder \<Rightarrow> Json \<times> AttestationRecord \<Rightarrow> bool" where
  "attestation_valid cd dec i \<longleftrightarrow>
     dec (fst i) = Inr (snd i) \<and> compute_hash_value cd (fst i) = Inr (at_hash (snd i))"

interpretation al: hash_chain "\<lambda>i. at_seq (snd i)" "\<lambda>i. at_prev_hash (snd i)"
    "\<lambda>i. at_hash (snd i)"
    "\<lambda>i. case canonical_hash_input cd (fst i) of Inr s \<Rightarrow> s | Inl _ \<Rightarrow> []"
    "\<lambda>s. ''sha256:'' @ cd_digest cd s" "attestation_valid cd dec"
  for cd :: "'c WitnessCodec" and dec
  by unfold_locales
    (auto simp: attestation_valid_def compute_hash_value_def split: sum.splits)

abbreviation attestation_chain ::
  "'c WitnessCodec \<Rightarrow> attestation_decoder \<Rightarrow> ChainHead \<Rightarrow> (Json \<times> AttestationRecord) list \<Rightarrow> bool" where
  "attestation_chain cd dec \<equiv> hash_chain.chain (\<lambda>i. at_seq (snd i)) (\<lambda>i. at_prev_hash (snd i))
     (\<lambda>i. at_hash (snd i)) (attestation_valid cd dec)"

lemma attestation_line_Inr:
  "attestation_line cd dec e h l = Inr r \<longleftrightarrow>
     (\<exists>raw. cd_parse cd l = Inr raw \<and> attestation_valid cd dec (raw, r) \<and> at_seq r = e \<and>
        at_prev_hash r = h)"
  by (auto simp: attestation_line_def attestation_valid_def split: sum.splits if_splits)

abbreviation line_items ::
  "'c WitnessCodec \<Rightarrow> string list \<Rightarrow> (Json \<times> AttestationRecord) list \<Rightarrow> bool" where
  "line_items cd ls is \<equiv>
     list_all2 (\<lambda>l i. cd_parse cd l = Inr (fst i)) (filter (\<lambda>l. \<not> is_blank l) ls) is"

lemma attestation_lines_sound:
  "attestation_lines cd dec (hd_seq h + 1) (hd_hash h) ls = Inr rs \<Longrightarrow>
   list_all utf8 ls \<and> (\<exists>is. line_items cd ls is \<and> attestation_chain cd dec h is \<and> rs = map snd is)"
proof (induction ls arbitrary: h rs)
  case Nil
  then show ?case by auto
next
  case (Cons l ls)
  then have u: "utf8 l" by (auto split: if_splits)
  show ?case
  proof (cases "is_blank l")
    case True
    then show ?thesis using Cons.IH [of h rs] Cons.prems u by simp
  next
    case False
    from Cons.prems u False obtain r rs' where
      r: "attestation_line cd dec (hd_seq h + 1) (hd_hash h) l = Inr r" and rs: "rs = r # rs'"
      and rest: "attestation_lines cd dec (hd_seq h + 1 + 1) (at_hash r) ls = Inr rs'"
      by (auto split: sum.splits)
    from r obtain raw where raw: "cd_parse cd l = Inr raw" "attestation_valid cd dec (raw, r)"
      "at_seq r = hd_seq h + 1" "at_prev_hash r = hd_hash h" unfolding attestation_line_Inr by blast
    from Cons.IH [of "al.item_head (raw, r)" rs'] rest raw(3) obtain "is" where
      "list_all utf8 ls" "line_items cd ls is" "attestation_chain cd dec (al.item_head (raw, r)) is"
      "rs' = map snd is" by (auto simp: al.item_head_def)
    with u False raw rs show ?thesis by (intro conjI exI [of _ "(raw, r) # is"]) simp_all
  qed
qed

lemma attestation_lines_complete:
  "list_all utf8 ls \<Longrightarrow> line_items cd ls is \<Longrightarrow> attestation_chain cd dec h is \<Longrightarrow>
   attestation_lines cd dec (hd_seq h + 1) (hd_hash h) ls = Inr (map snd is)"
proof (induction ls arbitrary: h "is")
  case Nil
  then show ?case by simp
next
  case (Cons l ls)
  show ?case
  proof (cases "is_blank l")
    case True
    then show ?thesis using Cons.IH [of "is" h] Cons.prems by simp
  next
    case False
    with Cons.prems(2) obtain i js where js: "is = i # js" "cd_parse cd l = Inr (fst i)" "line_items cd ls js"
      by (auto simp: list_all2_Cons1)
    with Cons.prems(3) have i: "attestation_valid cd dec i" "at_prev_hash (snd i) = hd_hash h"
      "at_seq (snd i) = hd_seq h + 1" "attestation_chain cd dec (al.item_head i) js" by simp_all
    have line: "attestation_line cd dec (hd_seq h + 1) (hd_hash h) l = Inr (snd i)"
      unfolding attestation_line_Inr using js(2) i(1-3) by (intro exI [of _ "fst i"]) simp
    have "attestation_lines cd dec (hd_seq h + 1 + 1) (at_hash (snd i)) ls = Inr (map snd js)"
      using Cons.IH [OF _ js(3) i(4)] Cons.prems(1) i(3) by (simp add: al.item_head_def)
    with line False Cons.prems(1) js(1) show ?thesis by simp
  qed
qed

lemma read_attestation_chain_Inr:
  "read_attestation_chain cd dec bytes = Inr rs \<longleftrightarrow>
     list_all utf8 (str_lines bytes) \<and>
     (\<exists>is. line_items cd (str_lines bytes) is \<and> attestation_chain cd dec default_head is \<and> rs = map snd is)"
  using attestation_lines_sound [of cd dec default_head] attestation_lines_complete [of _ cd _ dec default_head]
  unfolding read_attestation_chain_def by (auto simp: default_head_def)

section \<open>Lines of concatenated files\<close>

abbreviation complete :: "string \<Rightarrow> bool" where
  "complete p \<equiv> p = [] \<or> last p = LF"

lemma complete_unlines: "complete p \<Longrightarrow> \<exists>ls. p = unlines ls \<and> list_all line_text ls"
proof -
  assume "complete p"
  moreover obtain ls t where p: "p = unlines ls @ t" "list_all line_text ls" "LF \<notin> set t"
    using complete_lines by blast
  ultimately have "t = []" by (cases t rule: rev_cases) auto
  with p show ?thesis by auto
qed

lemma str_lines_append:
  assumes "complete p"
  shows "str_lines (p @ s) = str_lines p @ str_lines s"
proof -
  obtain ls where p: "p = unlines ls" "list_all line_text ls" using complete_unlines [OF assms] by blast
  show ?thesis unfolding p(1) by (rule str_lines_unlines_append [OF p(2)])
qed

lemma str_lines_no_CR:
  assumes "complete s" and "CR \<notin> set s"
  shows "str_lines s = split_terminator s"
proof -
  from assms(1) obtain ls where s: "s = unlines ls" "list_all line_text ls" using complete_unlines by blast
  have "list_all (\<lambda>l. CR \<notin> set l) ls" using assms(2) unfolding s(1) by (induction ls) auto
  with str_lines_unlines [OF s(2), of "[]"] split_terminator_unlines [OF s(2)] show ?thesis
    by (simp add: s(1))
qed

lemma read_attestation_append:
  assumes "complete p" and "read_attestation_chain cd dec p = Inr rs"
    and "attestation_lines cd dec (fst (attestation_head rs) + 1) (snd (attestation_head rs)) (str_lines s) = Inr rs'"
  shows "read_attestation_chain cd dec (p @ s) = Inr (rs @ rs')"
proof -
  from assms(2) obtain "is" where p: "list_all utf8 (str_lines p)" "line_items cd (str_lines p) is"
    "attestation_chain cd dec default_head is" "rs = map snd is" unfolding read_attestation_chain_Inr by blast
  let ?h = "al.head_after default_head is"
  have "attestation_head rs = (hd_seq ?h, hd_hash ?h)"
    using al.head_after_last [of "is" default_head]
    by (auto simp: attestation_head_def p(4) default_head_def last_map al.item_head_def)
  with assms(3) attestation_lines_sound [of cd dec ?h "str_lines s" rs'] obtain js where
    s: "list_all utf8 (str_lines s)" "line_items cd (str_lines s) js" "attestation_chain cd dec ?h js"
    "rs' = map snd js" by auto
  show ?thesis
    unfolding read_attestation_chain_Inr str_lines_append [OF assms(1)]
    using p s by (intro conjI exI [of _ "is @ js"]) (simp_all add: list_all2_appendI)
qed

section \<open>Appending\<close>

text \<open>Nested arrays and objects of a value.\<close>

fun json_depth :: "Json \<Rightarrow> nat" where
  "json_depth (JArray vs) = Suc (foldr (\<lambda>v n. max (json_depth v) n) vs 0)"
| "json_depth (JObject m) = Suc (foldr (\<lambda>p n. max (json_depth (snd p)) n) m 0)"
| "json_depth _ = 0"

lemma attestation_depth: "json_depth (attestation_value r) = Suc (json_depth (at_payload r))"
  by (simp add: attestation_value_def)

text \<open>
  The recursion limit of \<open>serde_json\<close>: a printed value parses when it nests at most 127 arrays and objects,
  and is refused when it nests more. (\<open>cd_print\<close> fails on trees that are not \<open>serde_json\<close> values.)
\<close>

definition depth_law :: "'c WitnessCodec \<Rightarrow> bool" where
  "depth_law cd \<longleftrightarrow>
     (\<forall>v s. wf_json v \<and> cd_print cd v = Inr s \<longrightarrow> (json_depth v \<le> 127 \<longleftrightarrow> (\<exists>w. cd_parse cd s = Inr w)))"

definition decoder_law :: "attestation_decoder \<Rightarrow> bool" where
  "decoder_law dec \<longleftrightarrow> (\<forall>r. dec (attestation_value r) = Inr r)"

lemma unlines_complete: "complete (unlines ls)"
  by (cases ls rule: rev_cases) auto

lemma take_complete_len: "complete (take (complete_len s) s)"
proof -
  obtain ls t where s: "s = unlines ls @ t" "LF \<notin> set t" using complete_lines by blast
  then show ?thesis using take_complete [of t ls] unlines_complete [of ls] by simp
qed

lemma attestation_hash_input:
  "compute_hash_value cd (attestation_value (r\<lparr>at_hash := h\<rparr>)) = compute_hash_value cd (attestation_value r)"
  by (simp add: compute_hash_value_def canonical_hash_input_def attestation_value_def contains_key_def)

lemma next_attestation_Inr:
  assumes "next_attestation cd now payload seq prev = Inr r"
  shows "at_seq r = seq + 1" "at_prev_hash r = prev" "at_payload r = payload" "at_observed_at r = now"
    "compute_hash_value cd (attestation_value r) = Inr (at_hash r)"
  using assms attestation_hash_input [where cd = cd and r = "\<lparr>at_observed_at = now, at_payload = payload,
    at_seq = seq + 1, at_prev_hash = prev, at_hash = []\<rparr>"]
  by (auto simp: next_attestation_def Let_def split: sum.splits)

lemma appended_line:
  assumes laws: "round_trip_law cd" "compact_law cd" "depth_law cd" "decoder_law dec"
    and wf: "wf_json payload" "json_depth payload \<le> 126"
    and next_rec: "next_attestation cd now payload seq prev = Inr r"
    and print: "cd_print cd (attestation_value r) = Inr s"
  shows "attestation_lines cd dec (seq + 1) prev (str_lines (s @ [LF])) = Inr [r]"
    and "LF \<notin> set s"
proof -
  note r = next_attestation_Inr [OF next_rec]
  have wfr: "wf_json (attestation_value r)" using wf r(3) by (simp add: attestation_value_def)
  moreover have "json_depth (attestation_value r) \<le> 127" using wf(2) r(3) by (simp add: attestation_depth)
  ultimately obtain w where "cd_parse cd s = Inr w" using laws(3) print unfolding depth_law_def by blast
  with wfr laws(1) print have "cd_parse cd s = Inr (attestation_value r)"
    unfolding round_trip_law_def by blast
  moreover have s: "LF \<notin> set s" "CR \<notin> set s" "utf8 s" "\<not> is_blank s"
    using laws(2) print unfolding compact_law_def by blast+
  ultimately have line: "attestation_line cd dec (seq + 1) prev s = Inr r"
    unfolding attestation_line_Inr using laws(4) r by (simp add: attestation_valid_def decoder_law_def)
  have "str_lines (s @ [LF]) = [s]"
    using str_lines_unlines [of "[s]" "[]"] s by (simp add: line_text_def)
  with line s show "attestation_lines cd dec (seq + 1) prev (str_lines (s @ [LF])) = Inr [r]" by simp
  show "LF \<notin> set s" by (rule s(1))
qed

text \<open>A repair keeps the bytes, completes the last line, or removes an unterminated last line.\<close>

definition repaired :: "string \<Rightarrow> string \<Rightarrow> bool" where
  "repaired bytes p \<longleftrightarrow> p = bytes \<or> p = bytes @ [LF] \<or> p = take (complete_len bytes) bytes"

lemma truncated_complete:
  assumes "truncate_incomplete_attestation_tail cd dec fault bytes = (Inr b, bytes1)"
  shows "complete bytes1 \<and> repaired bytes bytes1"
  using assms take_complete_len [of bytes]
  by (auto simp: repaired_def truncate_incomplete_attestation_tail_def Let_def split: if_splits sum.splits)

lemma scan_is_read:
  "scan_attestation_head cd dec bytes = Inr (seq, prev) \<Longrightarrow>
   \<exists>rs. read_attestation_chain cd dec bytes = Inr rs \<and> attestation_head rs = (seq, prev) \<and> seq = of_nat (length rs)"
proof -
  assume scan: "scan_attestation_head cd dec bytes = Inr (seq, prev)"
  then obtain rs where rs: "read_attestation_chain cd dec bytes = Inr rs"
    and seq: "seq = of_nat (length rs)" "prev = (if rs = [] then GENESIS_PREV_HASH else at_hash (last rs))"
    by (auto simp: scan_attestation_head_def read_attestation_chain_def split: sum.splits)
  from rs obtain "is" where i: "attestation_chain cd dec default_head is" "rs = map snd is"
    unfolding read_attestation_chain_Inr by blast
  have "hd_seq (al.head_after default_head is) = of_nat (length is)"
    using al.head_after_seq [OF i(1)] by (simp add: default_head_def)
  then have "attestation_head rs = (seq, prev)"
    using al.head_after_last [of "is" default_head] seq i(2)
    by (auto simp: attestation_head_def last_map al.item_head_def)
  with rs seq show ?thesis by blast
qed

lemma append_attestation_Inr:
  assumes "append_attestation cd dec fault now payload bytes = (Inr r, bytes')"
  obtains p seq prev s where "complete p" "repaired bytes p" "scan_attestation_head cd dec p = Inr (seq, prev)"
    "next_attestation cd now payload seq prev = Inr r" "cd_print cd (attestation_value r) = Inr s"
    "bytes' = p @ s @ [LF]"
proof -
  obtain r0 p where t: "truncate_incomplete_attestation_tail cd dec fault bytes = (r0, p)" by fastforce
  obtain b where r0: "r0 = Inr b" using assms t by (cases r0) (auto simp: append_attestation_def)
  obtain seq prev where scan: "scan_attestation_head cd dec p = Inr (seq, prev)"
    using assms t r0 by (auto simp: append_attestation_def split: sum.splits)
  have r: "next_attestation cd now payload seq prev = Inr r"
    using assms t r0 scan
    by (auto simp: append_attestation_def Let_def split: sum.splits option.splits IoFault.splits)
  obtain s where s: "cd_print cd (attestation_value r) = Inr s"
    using assms t r0 scan r by (auto simp: append_attestation_def split: sum.splits)
  have "bytes' = p @ s @ [LF]"
    using assms t r0 scan r s
    by (auto simp: append_attestation_def Let_def split: option.splits IoFault.splits)
  with t r0 scan r s show thesis using truncated_complete [of cd dec fault bytes b p] that by blast
qed

text \<open>
  C27. What the one-shot append returns can be read back, for a payload of at most 126 nested arrays and
  objects (one less than \<open>serde_json\<close> parses, since the record wraps it): after a successful call the file is the
  repaired file with one line added, and the chain reads as the records of the repaired file followed by exactly
  the returned record, which carries the payload and the next sequence number.  The repair only completes or
  removes an unterminated last line.
\<close>

theorem append_attestation_reads_back:
  assumes "round_trip_law cd" and "compact_law cd" and "depth_law cd" and "decoder_law dec"
    and "wf_json payload" and "json_depth payload \<le> 126"
    and "append_attestation cd dec fault now payload bytes = (Inr r, bytes')"
  shows "\<exists>p rs s. repaired bytes p \<and> bytes' = p @ s @ [LF] \<and> LF \<notin> set s \<and>
    read_attestation_chain cd dec p = Inr rs \<and>
    read_attestation_chain cd dec bytes' = Inr (rs @ [r]) \<and>
    at_payload r = payload \<and> at_observed_at r = now \<and> at_seq r = of_nat (length rs) + 1"
proof -
  from assms(7) obtain p seq prev s where p: "complete p" "repaired bytes p"
    and scan: "scan_attestation_head cd dec p = Inr (seq, prev)"
    and r: "next_attestation cd now payload seq prev = Inr r"
    and s: "cd_print cd (attestation_value r) = Inr s" and bytes': "bytes' = p @ s @ [LF]"
    by (rule append_attestation_Inr)
  from scan_is_read [OF scan] obtain rs where rs: "read_attestation_chain cd dec p = Inr rs"
    "attestation_head rs = (seq, prev)" "seq = of_nat (length rs)" by blast
  note line = appended_line [OF assms(1-6) r s]
  have "read_attestation_chain cd dec bytes' = Inr (rs @ [r])"
    unfolding bytes' using p(1) rs line(1) by (intro read_attestation_append) simp_all
  with p bytes' rs line(2) next_attestation_Inr [OF r] show ?thesis by auto
qed

lemma unread_line:
  assumes "complete p" "\<nexists>w. cd_parse cd s = Inr w" "compact_law cd" "cd_print cd v = Inr s"
  shows "\<exists>e. read_attestation_chain cd dec (p @ s @ [LF]) = Inl e"
proof (cases "read_attestation_chain cd dec (p @ s @ [LF])")
  case (Inr rs)
  have s: "LF \<notin> set s" "CR \<notin> set s" "\<not> is_blank s" using assms(3,4) unfolding compact_law_def by blast+
  then have "str_lines (s @ [LF]) = [s]" using str_lines_unlines [of "[s]" "[]"] by (simp add: line_text_def)
  then have "\<exists>is. line_items cd (str_lines p @ [s]) is"
    using Inr str_lines_append [OF assms(1), of "s @ [LF]"] unfolding read_attestation_chain_Inr by auto
  with s(3) assms(2) show ?thesis by (auto simp: list_all2_append1 list_all2_Cons1)
qed simp

text \<open>
  C26. The record wraps its payload in one more object, and nothing checks its depth: an append of a payload of 127
  nested arrays and objects, which \<open>serde_json\<close> still parses, can succeed, and from then on the chain cannot be
  read and every one-shot append fails and leaves the file as it is, whatever it appends.
\<close>

theorem deep_attestation_bricks_chain:
  assumes "compact_law cd" and "depth_law cd" and "wf_json payload" and "127 \<le> json_depth payload"
    and "append_attestation cd dec fault now payload bytes = (Inr r, bytes')"
  shows "(\<exists>e. read_attestation_chain cd dec bytes' = Inl e) \<and>
    (\<forall>fault' now' payload'. \<exists>e. append_attestation cd dec fault' now' payload' bytes' = (Inl e, bytes'))"
proof -
  from assms(5) obtain p seq prev s where p: "complete p"
    and r: "next_attestation cd now payload seq prev = Inr r"
    and s: "cd_print cd (attestation_value r) = Inr s" and bytes': "bytes' = p @ s @ [LF]"
    by (rule append_attestation_Inr)
  have v: "wf_json (attestation_value r)" "\<not> json_depth (attestation_value r) \<le> 127"
    using assms(3,4) next_attestation_Inr(3) [OF r] by (simp_all add: attestation_depth) (simp add: attestation_value_def)
  then have "\<nexists>w. cd_parse cd s = Inr w" using assms(2) s unfolding depth_law_def by blast
  then obtain e where e: "read_attestation_chain cd dec bytes' = Inl e"
    using unread_line [OF p _ assms(1) s] bytes' by blast
  have "bytes' \<noteq> []" "last bytes' = LF" by (simp_all add: bytes')
  then have "\<exists>e. append_attestation cd dec fault' now' payload' bytes' = (Inl e, bytes')" for fault' now' payload'
    using e by (simp add: append_attestation_def truncate_incomplete_attestation_tail_def scan_attestation_head_def
        read_attestation_chain_def)
  with e show ?thesis by blast
qed

section \<open>The handle\<close>

definition attestation_handle ::
  "'c WitnessCodec \<Rightarrow> attestation_decoder \<Rightarrow> AttestationLedger \<Rightarrow> string \<Rightarrow> bool" where
  "attestation_handle cd dec l bytes \<longleftrightarrow>
     (\<exists>q s. bytes = q @ s \<and> complete q \<and> al_verified_offset l = length q \<and>
        read_attestation_chain cd dec q = Inr (al_records l))"

lemma attestation_handle_self:
  "complete p \<Longrightarrow> read_attestation_chain cd dec p = Inr (al_records l) \<Longrightarrow>
   al_verified_offset l = length p \<Longrightarrow> attestation_handle cd dec l p"
  unfolding attestation_handle_def by (intro exI [of _ p] exI [of _ "[]"]) simp

lemma repair_suffix_Inr:
  assumes "repair_suffix cd fault (length q) (q @ s) = (Inr suffix, bytes1)" and "s \<noteq> []"
  shows "bytes1 = q @ suffix \<and> complete suffix \<and> set suffix \<subseteq> insert LF (set s) \<and> repaired s suffix"
  using assms take_complete_len [of s] set_take_subset [of "complete_len s" s]
  by (auto simp: repaired_def repair_suffix_def Let_def split: if_splits)

lemma repaired_append:
  assumes "complete q" "repaired s t"
  shows "repaired (q @ s) (q @ t)"
proof -
  obtain ls where q: "q = unlines ls" using complete_unlines [OF assms(1)] by blast
  obtain ls' u where s: "s = unlines ls' @ u" "LF \<notin> set u" using complete_lines [of s] by blast
  have "complete_len (q @ s) = length q + complete_len s"
    using complete_len_unlines [OF s(2), of "ls @ ls'"] complete_len_unlines [OF s(2), of ls'] by (simp add: q s(1))
  with assms(2) show ?thesis by (auto simp: repaired_def)
qed

lemma refresh_agrees:
  assumes h: "attestation_handle cd dec l bytes" and cr: "CR \<notin> set bytes"
    and ref: "refresh_locked cd dec fault l bytes = (Inr (), l', bytes')"
  shows "complete bytes' \<and> repaired bytes bytes' \<and> read_attestation_chain cd dec bytes' = Inr (al_records l') \<and>
    al_verified_offset l' = length bytes' \<and> (\<exists>new. al_records l' = al_records l @ new)"
proof -
  from h obtain q s where q: "bytes = q @ s" "complete q" "al_verified_offset l = length q"
    "read_attestation_chain cd dec q = Inr (al_records l)" unfolding attestation_handle_def by blast
  show ?thesis
  proof (cases "s = []")
    case True
    with ref q show ?thesis by (auto simp: refresh_locked_def repaired_def split: if_splits)
  next
    case False
    with ref q obtain suffix appended where
      rep: "repair_suffix cd fault (length q) (q @ s) = (Inr suffix, bytes')"
      and app: "attestation_lines cd dec (fst (attestation_head (al_records l)) + 1)
        (snd (attestation_head (al_records l))) (split_terminator suffix) = Inr appended"
      and l': "l' = \<lparr>al_records = al_records l @ appended, al_verified_offset = length q + length suffix\<rparr>"
      by (auto simp: refresh_locked_def split: if_splits prod.splits sum.splits)
    from repair_suffix_Inr [OF rep False] have b: "bytes' = q @ suffix" "complete suffix"
      "set suffix \<subseteq> insert LF (set s)" "repaired s suffix" by simp_all
    with cr q(1) have "CR \<notin> set suffix" by auto
    with app str_lines_no_CR [OF b(2)] have "attestation_lines cd dec (fst (attestation_head (al_records l)) + 1)
        (snd (attestation_head (al_records l))) (str_lines suffix) = Inr appended" by simp
    from read_attestation_append [OF q(2,4) this]
    have "read_attestation_chain cd dec (q @ suffix) = Inr (al_records l @ appended)" .
    moreover have "complete (q @ suffix)" using q(2) b(2) by (cases suffix) auto
    ultimately show ?thesis using b(1) l' repaired_append [OF q(2) b(4)] q(1) by simp
  qed
qed

text \<open>
  C28. A long-lived handle sees the file: as long as its cached records are those of a prefix of the
  file (complete lines) and the file has no carriage return, refreshing it, whatever other writers appended
  meanwhile, repairs at most an unterminated last line and yields exactly the records a full read of the file
  yields, the cached ones first. A successful append through it, of a payload of at most 126 nested arrays and
  objects, adds one line to the repaired file; afterwards a full read and the handle both have exactly the
  records of the repaired file, the cached ones first, followed by the returned record.
\<close>

theorem attestation_handle_agrees:
  assumes "round_trip_law cd" and "compact_law cd" and "depth_law cd" and "decoder_law dec"
    and "wf_json payload" and "json_depth payload \<le> 126"
    and "attestation_handle cd dec l bytes" and "CR \<notin> set bytes"
  shows "(\<forall>rs l' bytes'. attestation_records cd dec fault l bytes = (Inr rs, l', bytes') \<longrightarrow>
      repaired bytes bytes' \<and> read_attestation_chain cd dec bytes' = Inr rs \<and>
      (\<exists>new. rs = al_records l @ new) \<and> al_records l' = rs \<and> attestation_handle cd dec l' bytes') \<and>
    (\<forall>r l' bytes'. attestation_append cd dec fault now payload l bytes = (Inr r, l', bytes') \<longrightarrow>
      (\<exists>p rs s. repaired bytes p \<and> read_attestation_chain cd dec p = Inr rs \<and> (\<exists>new. rs = al_records l @ new) \<and>
         bytes' = p @ s @ [LF] \<and> LF \<notin> set s \<and> read_attestation_chain cd dec bytes' = Inr (rs @ [r]) \<and>
         al_records l' = rs @ [r] \<and> at_payload r = payload \<and> attestation_handle cd dec l' bytes'))"
proof (intro conjI allI impI)
  fix rs l' bytes'
  assume "attestation_records cd dec fault l bytes = (Inr rs, l', bytes')"
  then have "refresh_locked cd dec fault l bytes = (Inr (), l', bytes')" "al_records l' = rs"
    by (auto simp: attestation_records_def split: prod.splits sum.splits if_splits)
  with refresh_agrees [OF assms(7,8)]
  show "repaired bytes bytes'" "read_attestation_chain cd dec bytes' = Inr rs" "\<exists>new. rs = al_records l @ new"
    "al_records l' = rs" "attestation_handle cd dec l' bytes'"
    by (auto intro: attestation_handle_self)
next
  fix r l' bytes'
  assume "attestation_append cd dec fault now payload l bytes = (Inr r, l', bytes')"
  then obtain l1 p s where ref: "refresh_locked cd dec fault l bytes = (Inr (), l1, p)"
    and r: "next_attestation cd now payload (fst (attestation_head (al_records l1)))
      (snd (attestation_head (al_records l1))) = Inr r"
    and s: "cd_print cd (attestation_value r) = Inr s"
    and new: "l' = \<lparr>al_records = al_records l1 @ [r],
      al_verified_offset = al_verified_offset l1 + length (s @ [LF])\<rparr>" "bytes' = p @ s @ [LF]"
    by (auto simp: attestation_append_def Let_def
        split: prod.splits sum.splits option.splits IoFault.splits if_splits)
  note p = refresh_agrees [OF assms(7,8) ref] and line = appended_line [OF assms(1-6) r s]
  have "read_attestation_chain cd dec (p @ s @ [LF]) = Inr (al_records l1 @ [r])"
    using p line(1) by (intro read_attestation_append) simp_all
  moreover from this have "attestation_handle cd dec l' bytes'"
    using p new by (intro attestation_handle_self) simp_all
  ultimately show "\<exists>p rs s. repaired bytes p \<and> read_attestation_chain cd dec p = Inr rs \<and> (\<exists>new. rs = al_records l @ new) \<and>
      bytes' = p @ s @ [LF] \<and> LF \<notin> set s \<and> read_attestation_chain cd dec bytes' = Inr (rs @ [r]) \<and>
      al_records l' = rs @ [r] \<and> at_payload r = payload \<and> attestation_handle cd dec l' bytes'"
    using p line(2) new next_attestation_Inr(3) [OF r]
    by (intro exI [of _ p] exI [of _ "al_records l1"] exI [of _ s]) simp
qed

section \<open>Examples\<close>

definition sample_attestation :: AttestationRecord where
  "sample_attestation =
     \<lparr>at_observed_at = ''t'', at_payload = JNull, at_seq = 1, at_prev_hash = GENESIS_PREV_HASH,
      at_hash = sample_hash\<rparr>"

definition attestation_texts :: "(Json \<times> string) list" where
  "attestation_texts =
     [(attestation_value (sample_attestation\<lparr>at_hash := []\<rparr>), ''{u}''),
      (attestation_value sample_attestation, ''{h}'')]"

definition attestation_codec :: "unit WitnessCodec" where
  "attestation_codec =
     sample_codec\<lparr>cd_parse := table_parse attestation_texts, cd_print := table_print attestation_texts\<rparr>"

text \<open>A decoder for the object form of a record.\<close>

fun decode_fields :: "json_map \<Rightarrow> string + AttestationRecord" where
  "decode_fields [(k1, JString t), (k2, p), (k3, JNumber n), (k4, JString prev), (k5, JString h)] =
     (case parse_u64 n of
        None \<Rightarrow> Inl ''invalid seq''
      | Some s \<Rightarrow> Inr \<lparr>at_observed_at = t, at_payload = p, at_seq = s, at_prev_hash = prev, at_hash = h\<rparr>)"
| "decode_fields _ = Inl ''missing field''"

definition sample_decoder :: attestation_decoder where
  "sample_decoder v = (case as_object v of None \<Rightarrow> Inl ''not an object'' | Some m \<Rightarrow> decode_fields m)"

lemma sample_decoder_law: "decoder_law sample_decoder"
  by (simp add: decoder_law_def sample_decoder_def attestation_value_def parse_show_u64)

lemma attestation_codec_laws: "round_trip_law attestation_codec" "compact_law attestation_codec"
proof -
  have "table_ok attestation_texts" by code_simp
  from table_laws [OF this, of attestation_codec]
  show "round_trip_law attestation_codec" "compact_law attestation_codec"
    by (simp_all add: attestation_codec_def)
qed

lemma attestation_codec_depth: "depth_law attestation_codec"
proof -
  have T: "table_ok attestation_texts" by code_simp
  have "list_all (\<lambda>(v, s). json_depth v \<le> 127) attestation_texts" by (simp add: attestation_texts_def attestation_depth sample_attestation_def)
  then show ?thesis
    by (auto simp: depth_law_def attestation_codec_def table_print_Inr [OF T] table_parse_Inr [OF T] list_all_iff)
qed

theorem append_attestation_reads_back_witness:
  "\<exists>p rs. read_attestation_chain attestation_codec sample_decoder p = Inr rs \<and>
     read_attestation_chain attestation_codec sample_decoder (''{h}'' @ [LF]) =
       Inr (rs @ [sample_attestation])"
proof -
  have "append_attestation attestation_codec sample_decoder None ''t'' JNull [] =
      (Inr sample_attestation, ''{h}'' @ [LF])" by code_simp
  from append_attestation_reads_back [OF attestation_codec_laws attestation_codec_depth sample_decoder_law _ _ this]
  show ?thesis by auto
qed

theorem attestation_handle_agrees_witness:
  "\<exists>l. attestation_append attestation_codec sample_decoder None ''t'' JNull
      \<lparr>al_records = [], al_verified_offset = 0\<rparr> [] = (Inr sample_attestation, l, ''{h}'' @ [LF]) \<and>
     read_attestation_chain attestation_codec sample_decoder (''{h}'' @ [LF]) = Inr (al_records l)"
proof -
  let ?l = "\<lparr>al_records = [], al_verified_offset = 0\<rparr>"
  let ?l' = "\<lparr>al_records = [sample_attestation], al_verified_offset = 4\<rparr>"
  have app: "attestation_append attestation_codec sample_decoder None ''t'' JNull ?l [] =
      (Inr sample_attestation, ?l', ''{h}'' @ [LF])" by code_simp
  have "attestation_handle attestation_codec sample_decoder ?l []"
    by (rule attestation_handle_self) (simp_all add: read_attestation_chain_def str_lines.simps)
  from attestation_handle_agrees [OF attestation_codec_laws attestation_codec_depth sample_decoder_law _ _ this,
      where payload = JNull and fault = None and now = "''t''"] app
  show ?thesis by fastforce
qed

text \<open>A codec with the recursion limit that prints the record of a payload of 127 nested arrays.\<close>

definition deep_payload :: Json where
  "deep_payload = ((\<lambda>v. JArray [v]) ^^ 127) JNull"

definition deep_attestation :: AttestationRecord where
  "deep_attestation = sample_attestation\<lparr>at_payload := deep_payload\<rparr>"

definition deep_codec :: "unit WitnessCodec" where
  "deep_codec =
     sample_codec\<lparr>cd_parse := (\<lambda>_. Inl ''recursion limit exceeded''),
       cd_print := table_print [(attestation_value (deep_attestation\<lparr>at_hash := []\<rparr>), ''{u}''),
                                (attestation_value deep_attestation, ''{h}'')]\<rparr>"

lemma nested_arrays: "json_depth (((\<lambda>v. JArray [v]) ^^ n) JNull) = n" "wf_json (((\<lambda>v. JArray [v]) ^^ n) JNull)"
  by (induction n) simp_all

lemma deep_payload_depth: "json_depth deep_payload = 127" "wf_json deep_payload"
  unfolding deep_payload_def by (rule nested_arrays)+

lemma deep_codec_laws: "depth_law deep_codec" "compact_law deep_codec"
proof -
  have print: "cd_print deep_codec v = Inr s \<Longrightarrow> (json_depth v = 128 \<and> (s = ''{u}'' \<or> s = ''{h}''))" for v s
    using deep_payload_depth(1)
    by (auto simp: deep_codec_def table_print_def attestation_depth deep_attestation_def split: if_splits)
  then show "depth_law deep_codec" by (fastforce simp: depth_law_def deep_codec_def)
  have "LF \<notin> set s \<and> CR \<notin> set s \<and> utf8 s \<and> \<not> is_blank s" if "s = ''{u}'' \<or> s = ''{h}''" for s
    using that by (elim disjE) (hypsubst, code_simp)+
  with print show "compact_law deep_codec" unfolding compact_law_def by (auto simp: deep_codec_def)
qed

theorem deep_attestation_bricks_chain_witness:
  "append_attestation deep_codec sample_decoder None ''t'' deep_payload [] = (Inr deep_attestation, ''{h}'' @ [LF]) \<and>
   (\<exists>e. read_attestation_chain deep_codec sample_decoder (''{h}'' @ [LF]) = Inl e)"
proof -
  have app: "append_attestation deep_codec sample_decoder None ''t'' deep_payload [] = (Inr deep_attestation, ''{h}'' @ [LF])"
    by code_simp
  from deep_attestation_bricks_chain [OF deep_codec_laws(2,1) deep_payload_depth(2) _ app] deep_payload_depth(1) app
  show ?thesis by simp
qed

end
