(* ===== verification/Sha256_Spec.thy ===== *)
theory Sha256_Spec
  imports Tally_Prelude
begin

text \<open>
  SHA-256 as FIPS 180-4 describes it, written without reference to the code: the six logical functions,
  the constants as the leading fractional bits of roots of the first primes, the message schedule as a
  recurrence, the rounds, the padding and the fold over the blocks.
\<close>

unbundle bit_operations_syntax

section \<open>Words and bytes\<close>

text \<open>Words as bytes, the most significant byte first.\<close>

definition from_be_bytes :: "u8 list \<Rightarrow> u32" where
  "from_be_bytes bs = foldl (\<lambda>acc b. push_bit 8 acc OR ucast b) 0 bs"

definition to_be_bytes32 :: "u32 \<Rightarrow> u8 list" where
  "to_be_bytes32 w = map (\<lambda>i. ucast (drop_bit (8 * i) w)) [3, 2, 1, 0]"

definition to_be_bytes64 :: "u64 \<Rightarrow> u8 list" where
  "to_be_bytes64 w = map (\<lambda>i. ucast (drop_bit (8 * i) w)) [7, 6, 5, 4, 3, 2, 1, 0]"

section \<open>Constants\<close>

text \<open>The largest number whose power does not exceed the argument.\<close>

definition int_root :: "nat \<Rightarrow> nat \<Rightarrow> nat" where
  "int_root k n = (GREATEST r. r ^ k \<le> n)"

definition first_primes :: "nat list" where
  "first_primes =
     [2, 3, 5, 7, 11, 13, 17, 19, 23, 29, 31, 37, 41, 43, 47, 53,
       59, 61, 67, 71, 73, 79, 83, 89, 97, 101, 103, 107, 109, 113, 127, 131,
       137, 139, 149, 151, 157, 163, 167, 173, 179, 181, 191, 193, 197, 199, 211, 223,
       227, 229, 233, 239, 241, 251, 257, 263, 269, 271, 277, 281, 283, 293, 307, 311]"

text \<open>
  The first 32 bits of the fractional parts of the cube roots of the first 64 primes, and of the square
  roots of the first 8: the root of the scaled prime, reduced to a word.
\<close>

definition fips_K :: "u32 list" where
  "fips_K = map (\<lambda>p. of_nat (int_root 3 (p * 2 ^ 96))) first_primes"

definition fips_H0 :: "u32 list" where
  "fips_H0 = map (\<lambda>p. of_nat (int_root 2 (p * 2 ^ 64))) (take 8 first_primes)"

section \<open>Functions\<close>

definition fips_Ch :: "u32 \<Rightarrow> u32 \<Rightarrow> u32 \<Rightarrow> u32" where
  "fips_Ch x y z = (x AND y) XOR (NOT x AND z)"

definition fips_Maj :: "u32 \<Rightarrow> u32 \<Rightarrow> u32 \<Rightarrow> u32" where
  "fips_Maj x y z = (x AND y) XOR (x AND z) XOR (y AND z)"

definition fips_Sigma0 :: "u32 \<Rightarrow> u32" where
  "fips_Sigma0 x = word_rotr 2 x XOR word_rotr 13 x XOR word_rotr 22 x"

definition fips_Sigma1 :: "u32 \<Rightarrow> u32" where
  "fips_Sigma1 x = word_rotr 6 x XOR word_rotr 11 x XOR word_rotr 25 x"

definition fips_sigma0 :: "u32 \<Rightarrow> u32" where
  "fips_sigma0 x = word_rotr 7 x XOR word_rotr 18 x XOR drop_bit 3 x"

definition fips_sigma1 :: "u32 \<Rightarrow> u32" where
  "fips_sigma1 x = word_rotr 17 x XOR word_rotr 19 x XOR drop_bit 10 x"

section \<open>Hash computation\<close>

definition fips_words :: "u8 list \<Rightarrow> u32 list" where
  "fips_words block = map (\<lambda>i. from_be_bytes (take 4 (drop (4 * i) block))) [0..<16]"

fun message_schedule :: "u32 list \<Rightarrow> nat \<Rightarrow> u32" where
  "message_schedule m t =
     (if t < 16 then m ! t
      else fips_sigma1 (message_schedule m (t - 2)) + message_schedule m (t - 7)
           + fips_sigma0 (message_schedule m (t - 15)) + message_schedule m (t - 16))"

declare message_schedule.simps [simp del]

fun fips_round :: "(nat \<Rightarrow> u32) \<Rightarrow> nat \<Rightarrow> u32 list \<Rightarrow> u32 list" where
  "fips_round W t [a, b, c, d, e, f, g, h] =
     (let T1 = h + fips_Sigma1 e + fips_Ch e f g + fips_K ! t + W t;
          T2 = fips_Sigma0 a + fips_Maj a b c
      in [T1 + T2, a, b, c, d + T1, e, f, g])"
| "fips_round W t vs = vs"

definition fips_compress :: "u8 list \<Rightarrow> u32 list \<Rightarrow> u32 list" where
  "fips_compress block s = map2 (+) s (fold (fips_round (message_schedule (fips_words block))) [0..<64] s)"

definition blocks :: "u8 list \<Rightarrow> u8 list list" where
  "blocks bs = map (\<lambda>i. take 64 (drop (64 * i) bs)) [0..<length bs div 64]"

definition fips_padding :: "u8 list \<Rightarrow> u8 list" where
  "fips_padding m =
     m @ 0x80 # replicate ((119 - length m mod 64) mod 64) 0 @ to_be_bytes64 (of_nat (8 * length m))"

definition fips_sha256 :: "u8 list \<Rightarrow> u8 list" where
  "fips_sha256 m = concat (map to_be_bytes32 (fold fips_compress (blocks (fips_padding m)) fips_H0))"

section \<open>The roots\<close>

lemma int_root_eq:
  assumes "0 < k" "r ^ k \<le> n" "n < (r + 1) ^ k"
  shows "int_root k n = r"
  unfolding int_root_def
proof (rule Greatest_equality)
  fix y
  assume "y ^ k \<le> n"
  with assms(3) have "y ^ k < (r + 1) ^ k" by simp
  then show "y \<le> r" using power_less_imp_less_base [of y k "r + 1"] by simp
qed (rule assms)

lemma map_int_root:
  "0 < k \<Longrightarrow> list_all2 (\<lambda>p r. r ^ k \<le> p * s \<and> p * s < (r + 1) ^ k) ps rs \<Longrightarrow> map (\<lambda>p. int_root k (p * s)) ps = rs"
  by (induction ps arbitrary: rs) (auto simp: list_all2_Cons1 int_root_eq)

lemma cube_roots:
  "map (\<lambda>p. int_root 3 (p * 2 ^ 96)) first_primes =
     [5411319704, 6194414737, 7344290767, 8215976869, 9551921755, 10098905585, 11043570340, 11460697813,
       12214315672, 13195500289, 13492127166, 14311783875, 14809980276, 15046980094, 15499789991, 16133124468,
       16720292289, 16907126662, 17444216262, 17784676812, 17950125167, 18429019306, 18734950876, 19175934170,
       19734090066, 20001703533, 20132865992, 20390182855, 20516441075, 20764397895, 21588763473, 21813078375,
       22141143685, 22248366392, 22769593852, 22871018771, 23170020180, 23461497531, 23651862830, 23931792517,
       24205322401, 24295138891, 24734567280, 24820601251, 24990902297, 25075189284, 25569408389, 26045227120,
       26200031510, 26276752392, 26428864332, 26653801653, 26727943347, 27092625994, 27306805839, 27517677555,
       27725365998, 27793908591, 27997534228, 28131656200, 28198240250, 28526537963, 28973835255, 29099129074]"
  by (rule map_int_root) (simp_all add: first_primes_def)

lemma square_roots:
  "map (\<lambda>p. int_root 2 (p * 2 ^ 64)) (take 8 first_primes) =
     [6074000999, 7439101573, 9603838834, 11363415354, 14244795007, 15485724812, 17708603819, 18721328409]"
  by (rule map_int_root) (simp_all add: first_primes_def)

end
