(* ===== verification/Sha256.thy ===== *)
theory Sha256
  imports Sha256_Spec
begin

text \<open>
  The driver's own SHA-256 (\<open>spec-build-driver/src/sha256.rs\<close>): the hasher with its 64-byte buffer,
  the compression function over 32-bit words that wrap, the padding, and the digest of a byte slice
  and of a reader.

  The reference is \<open>Sha256_Spec\<close>, which follows FIPS 180-4. The code is shown to compute it whenever every update either starts on a block boundary or completes the block it
  starts in. An update that does neither drops the bytes it was given and those buffered before.
\<close>

unbundle bit_operations_syntax

section \<open>The hasher\<close>

definition INITIAL :: "u32 list" where
  "INITIAL =
     [0x6a09e667, 0xbb67ae85, 0x3c6ef372, 0xa54ff53a,
      0x510e527f, 0x9b05688c, 0x1f83d9ab, 0x5be0cd19]"

definition ROUND :: "u32 list" where
  "ROUND = concat
      [[0x428a2f98, 0x71374491, 0xb5c0fbcf, 0xe9b5dba5, 0x3956c25b, 0x59f111f1, 0x923f82a4, 0xab1c5ed5],
       [0xd807aa98, 0x12835b01, 0x243185be, 0x550c7dc3, 0x72be5d74, 0x80deb1fe, 0x9bdc06a7, 0xc19bf174],
       [0xe49b69c1, 0xefbe4786, 0x0fc19dc6, 0x240ca1cc, 0x2de92c6f, 0x4a7484aa, 0x5cb0a9dc, 0x76f988da],
       [0x983e5152, 0xa831c66d, 0xb00327c8, 0xbf597fc7, 0xc6e00bf3, 0xd5a79147, 0x06ca6351, 0x14292967],
       [0x27b70a85, 0x2e1b2138, 0x4d2c6dfc, 0x53380d13, 0x650a7354, 0x766a0abb, 0x81c2c92e, 0x92722c85],
       [0xa2bfe8a1, 0xa81a664b, 0xc24b8b70, 0xc76c51a3, 0xd192e819, 0xd6990624, 0xf40e3585, 0x106aa070],
       [0x19a4c116, 0x1e376c08, 0x2748774c, 0x34b0bcb5, 0x391c0cb3, 0x4ed8aa4a, 0x5b9cca4f, 0x682e6ff3],
       [0x748f82ee, 0x78a5636f, 0x84c87814, 0x8cc70208, 0x90befffa, 0xa4506ceb, 0xbef9a3f7, 0xc67178f2]]"

record Sha256 =
  state :: "u32 list"
  buffer :: "u8 list"
  buffered :: nat
  bytes :: u64

definition new_sha :: Sha256 where
  "new_sha = \<lparr>state = INITIAL, buffer = replicate 64 0, buffered = 0, bytes = 0\<rparr>"

text \<open>\<open>chunks_exact(4)\<close> of the block, each read as a word.\<close>

definition block_words :: "u8 list \<Rightarrow> u32 list" where
  "block_words block = map (\<lambda>i. from_be_bytes (take 4 (drop (4 * i) block))) [0..<16]"

definition small_sigma0 :: "u32 \<Rightarrow> u32" where
  "small_sigma0 w = word_rotr 7 w XOR word_rotr 18 w XOR drop_bit 3 w"

definition small_sigma1 :: "u32 \<Rightarrow> u32" where
  "small_sigma1 w = word_rotr 17 w XOR word_rotr 19 w XOR drop_bit 10 w"

text \<open>One turn of the loop that extends the message schedule, on the array.\<close>

definition schedule_step :: "nat \<Rightarrow> u32 list \<Rightarrow> u32 list" where
  "schedule_step index words =
     (let s0 = small_sigma0 (words ! (index - 15));
          s1 = small_sigma1 (words ! (index - 2))
      in words[index := words ! (index - 16) + s0 + words ! (index - 7) + s1])"

definition schedule :: "u8 list \<Rightarrow> u32 list" where
  "schedule block = fold schedule_step [16..<64] (block_words block @ replicate 48 0)"

type_synonym vars = "u32 \<times> u32 \<times> u32 \<times> u32 \<times> u32 \<times> u32 \<times> u32 \<times> u32"

definition round_step :: "u32 list \<Rightarrow> nat \<Rightarrow> vars \<Rightarrow> vars" where
  "round_step words index v =
     (case v of (a, b, c, d, e, f, g, h) \<Rightarrow>
        let ch = (e AND f) XOR (NOT e AND g);
            majority = (a AND b) XOR (a AND c) XOR (b AND c);
            sum0 = word_rotr 2 a XOR word_rotr 13 a XOR word_rotr 22 a;
            sum1 = word_rotr 6 e XOR word_rotr 11 e XOR word_rotr 25 e;
            first = h + sum1 + ch + ROUND ! index + words ! index;
            second = sum0 + majority
        in (first + second, a, b, c, d + first, e, f, g))"

definition vars_of :: "u32 list \<Rightarrow> vars" where
  "vars_of s = (s ! 0, s ! 1, s ! 2, s ! 3, s ! 4, s ! 5, s ! 6, s ! 7)"

definition list_of_vars :: "vars \<Rightarrow> u32 list" where
  "list_of_vars v = (case v of (a, b, c, d, e, f, g, h) \<Rightarrow> [a, b, c, d, e, f, g, h])"

definition compress :: "u8 list \<Rightarrow> u32 list \<Rightarrow> u32 list" where
  "compress block s =
     map2 (+) s (list_of_vars (fold (round_step (schedule block)) [0..<64] (vars_of s)))"

text \<open>The loop over the whole blocks of the input: the state and what is left.\<close>

function compress_blocks :: "u32 list \<Rightarrow> u8 list \<Rightarrow> u32 list \<times> u8 list" where
  "compress_blocks s input =
     (if 64 \<le> length input then compress_blocks (compress (take 64 input) s) (drop 64 input)
      else (s, input))"
  by pat_completeness auto
termination
  by (relation "measure (\<lambda>(s, input). length input)") auto

declare compress_blocks.simps [simp del]

text \<open>\<open>dst[at..at + src.len()].copy_from_slice(src)\<close>, for a range inside the buffer.\<close>

definition copy_at :: "nat \<Rightarrow> u8 list \<Rightarrow> u8 list \<Rightarrow> u8 list" where
  "copy_at at src dst = take at dst @ src @ drop (at + length src) dst"

definition fill_buffer :: "Sha256 \<Rightarrow> u8 list \<Rightarrow> Sha256 \<times> u8 list" where
  "fill_buffer h input =
     (if buffered h \<noteq> 0
      then let copied = min (64 - buffered h) (length input);
               h1 = h\<lparr>buffer := copy_at (buffered h) (take copied input) (buffer h),
                      buffered := buffered h + copied\<rparr>
           in (if buffered h1 = 64 then h1\<lparr>state := compress (buffer h1) (state h1), buffered := 0\<rparr> else h1,
               drop copied input)
      else (h, input))"

definition update :: "Sha256 \<Rightarrow> u8 list \<Rightarrow> Sha256" where
  "update h input =
     (let h0 = h\<lparr>bytes := bytes h + of_nat (length input)\<rparr>;
          (h1, input1) = fill_buffer h0 input;
          (s, input2) = compress_blocks (state h1) input1
      in h1\<lparr>state := s, buffer := copy_at 0 input2 (buffer h1), buffered := length input2\<rparr>)"

definition finish :: "Sha256 \<Rightarrow> u8 list" where
  "finish h =
     (let bits = bytes h * 8;
          buf = (buffer h)[buffered h := 0x80];
          n = buffered h + 1;
          (s, buf1) = (if n > 56
                       then (compress (take n buf @ replicate (64 - n) 0) (state h), replicate 64 0)
                       else (state h, copy_at n (replicate (56 - n) 0) buf));
          s' = compress (copy_at 56 (to_be_bytes64 bits) buf1) s
      in concat (map to_be_bytes32 s'))"

definition DIGITS :: string where
  "DIGITS = ''0123456789abcdef''"

definition hex :: "u8 list \<Rightarrow> string" where
  "hex bs = concat (map (\<lambda>b. [DIGITS ! unat (drop_bit 4 b), DIGITS ! unat (b AND 0x0f)]) bs)"

definition digest :: "u8 list \<Rightarrow> string" where
  "digest input = hex (finish (update new_sha input))"

text \<open>
  A reader is the sequence of its results: the n-th call fails or returns bytes, none of them at the
  end of the file. The loop ends with the first failure or empty read.
\<close>

partial_function (option) read_loop ::
  "(nat \<Rightarrow> 'e + u8 list) \<Rightarrow> nat \<Rightarrow> Sha256 \<Rightarrow> ('e + string) option" where
  "read_loop read n h =
     (case read n of
        Inl e \<Rightarrow> Some (Inl e)
      | Inr chunk \<Rightarrow>
          if chunk = [] then Some (Inr (hex (finish h))) else read_loop read (Suc n) (update h chunk))"

definition digest_reader :: "(nat \<Rightarrow> 'e + u8 list) \<Rightarrow> ('e + string) option" where
  "digest_reader read = read_loop read 0 new_sha"


section \<open>The compression function\<close>

lemma length_block_words [simp]: "length (block_words b) = 16"
  by (simp add: block_words_def)

lemma sigma_fips: "small_sigma0 = fips_sigma0" "small_sigma1 = fips_sigma1"
  by (simp_all add: fun_eq_iff small_sigma0_def small_sigma1_def fips_sigma0_def fips_sigma1_def)

lemma schedule_prefix:
  assumes "16 \<le> n" "n \<le> 64"
  shows "length (fold schedule_step [16..<n] (block_words b @ replicate 48 0)) = 64 \<and>
         (\<forall>t < n. fold schedule_step [16..<n] (block_words b @ replicate 48 0) ! t
                   = message_schedule (block_words b) t)"
  using assms
proof (induction n rule: nat_induct_at_least)
  case base
  then show ?case by (simp add: nth_append message_schedule.simps)
next
  case (Suc n)
  let ?ws = "fold schedule_step [16..<n] (block_words b @ replicate 48 0)"
  from Suc have IH: "length ?ws = 64" "\<And>t. t < n \<Longrightarrow> ?ws ! t = message_schedule (block_words b) t"
    by auto
  have "message_schedule (block_words b) n
          = ?ws ! (n - 16) + small_sigma0 (?ws ! (n - 15)) + ?ws ! (n - 7) + small_sigma1 (?ws ! (n - 2))"
    using Suc.hyps by (simp add: IH message_schedule.simps [of _ n] sigma_fips algebra_simps)
  then show ?case
    using Suc.hyps Suc.prems IH by (auto simp: schedule_step_def [of n] Let_def nth_list_update less_Suc_eq)
qed

text \<open>The constants of the code are those of the standard, and a round on eight variables is its round.\<close>

lemma ROUND_fips: "ROUND = fips_K"
  using arg_cong [OF cube_roots, of "map (of_nat :: nat \<Rightarrow> u32)"] by (simp add: ROUND_def fips_K_def o_def)

lemma INITIAL_fips: "INITIAL = fips_H0"
  using arg_cong [OF square_roots, of "map (of_nat :: nat \<Rightarrow> u32)"] by (simp add: INITIAL_def fips_H0_def o_def)

lemma round_step_fips: "W i = ws ! i \<Longrightarrow> list_of_vars (round_step ws i v) = fips_round W i (list_of_vars v)"
  by (simp add: round_step_def list_of_vars_def Let_def ROUND_fips fips_Ch_def fips_Maj_def fips_Sigma0_def fips_Sigma1_def split: prod.split)

lemma rounds_fips:
  "\<forall>i \<in> set is. W i = ws ! i \<Longrightarrow> list_of_vars (fold (round_step ws) is v) = fold (fips_round W) is (list_of_vars v)"
  by (induction "is" arbitrary: v) (simp_all add: round_step_fips [of W])

lemma vars_of_list: "length s = 8 \<Longrightarrow> list_of_vars (vars_of s) = s"
  by (auto simp: list_of_vars_def vars_of_def numeral_eq_Suc length_Suc_conv)

lemma compress_fips: "length s = 8 \<Longrightarrow> compress b s = fips_compress b s"
proof -
  assume s: "length s = 8"
  have "schedule b = map (message_schedule (block_words b)) [0..<64]"
    using schedule_prefix [of 64 b] by (auto simp: schedule_def intro: nth_equalityI)
  then have "list_of_vars (fold (round_step (schedule b)) [0..<64] (vars_of s))
      = fold (fips_round (message_schedule (block_words b))) [0..<64] s"
    using s by (subst rounds_fips [where W = "message_schedule (block_words b)"]) (auto simp: vars_of_list)
  then show "compress b s = fips_compress b s" by (simp add: compress_def fips_compress_def fips_words_def block_words_def)
qed

lemma length_list_of_vars [simp]: "length (list_of_vars v) = 8"
  by (simp add: list_of_vars_def split: prod.split)

lemma fold_compress_fips:
  "length s = 8 \<Longrightarrow> fold compress bs s = fold fips_compress bs s \<and> length (fold compress bs s) = 8"
proof (induction bs arbitrary: s)
  case (Cons b bs)
  then have "length (compress b s) = 8" by (simp add: compress_def)
  from Cons.IH [OF this] compress_fips [OF Cons.prems] show ?case by auto
qed simp

lemma fips_sha256_eq: "fips_sha256 m = concat (map to_be_bytes32 (fold compress (blocks (fips_padding m)) INITIAL))"
  using fold_compress_fips [of INITIAL "blocks (fips_padding m)"]
  by (simp add: fips_sha256_def INITIAL_fips [symmetric]) (simp add: INITIAL_def)

section \<open>Blocks\<close>

lemma blocks_short: "length bs < 64 \<Longrightarrow> blocks bs = []"
  by (simp add: blocks_def)

lemma blocks_step:
  assumes "64 \<le> length bs"
  shows "blocks bs = take 64 bs # blocks (drop 64 bs)"
proof -
  obtain k where k: "length bs div 64 = Suc k" using assms by (cases "length bs div 64") auto
  then have "(length bs - 64) div 64 = k" using assms by (simp add: le_div_geq)
  moreover have "[0..<Suc k] = 0 # map Suc [0..<k]" by (simp only: upt_conv_Cons map_Suc_upt zero_less_Suc)
  ultimately show ?thesis
    by (simp add: blocks_def k o_def add.commute del: upt_Suc)
qed

lemma blocks_single [simp]: "length b = 64 \<Longrightarrow> blocks b = [b]"
  by (simp add: blocks_step blocks_short)

lemma blocks_append:
  "64 dvd length a \<Longrightarrow> blocks (a @ b) = blocks a @ blocks b"
proof (induction "length a div 64" arbitrary: a)
  case 0
  then show ?case by (auto simp: blocks_def dvd_def)
next
  case (Suc k)
  then have a: "64 \<le> length a" by (cases "length a < 64") auto
  have "k = length (drop 64 a) div 64" using Suc.hyps(2) a by (simp add: le_div_geq)
  moreover from Suc.prems have "64 dvd length (drop 64 a)" by (simp add: dvd_diff_nat)
  ultimately have "blocks (drop 64 a @ b) = blocks (drop 64 a) @ blocks b" by (rule Suc.hyps(1))
  then show ?case using a by (simp add: blocks_step [of "a @ b"] blocks_step [of a])
qed

lemma compress_blocks_eq:
  "compress_blocks s input = (fold compress (blocks input) s, drop (64 * (length input div 64)) input)"
proof (induction s input rule: compress_blocks.induct)
  case (1 s input)
  then show ?case
    by (cases "64 \<le> length input")
      (auto simp: compress_blocks.simps [of s input] blocks_step blocks_short le_div_geq add.commute)
qed

definition rest :: "u8 list \<Rightarrow> u8 list" where
  "rest m = drop (64 * (length m div 64)) m"

lemma length_rest: "length (rest m) = length m mod 64"
  by (simp add: rest_def minus_mult_div_eq_mod)

lemma blocks_cut: "blocks m @ blocks (rest m @ x) = blocks (m @ x)"
proof -
  let ?w = "take (64 * (length m div 64)) m"
  have "length ?w = 64 * (length m div 64)" by (simp add: min_absorb2)
  then have w: "64 dvd length ?w" by simp
  have m: "?w @ rest m = m" by (simp add: rest_def)
  have "blocks m = blocks ?w" using blocks_append [OF w, of "rest m"]
    by (simp add: m blocks_short length_rest)
  moreover have "blocks (?w @ rest m @ x) = blocks ?w @ blocks (rest m @ x)"
    by (rule blocks_append [OF w])
  ultimately show ?thesis by (simp add: append_assoc [symmetric] m del: append_assoc)
qed

lemma rest_append: "rest (rest m @ x) = rest (m @ x)"
proof -
  have "length (m @ x) = length (rest m @ x) + 64 * (length m div 64)"
    by (simp add: length_rest)
  then have len: "length (m @ x) div 64 = length m div 64 + length (rest m @ x) div 64"
    by (simp only: div_mult_self2 [of 64])
  have "rest (rest m @ x) = drop (64 * (length (rest m @ x) div 64)) (rest m @ x)"
    by (rule rest_def)
  also have "\<dots> = drop (64 * (length (rest m @ x) div 64)) (drop (64 * (length m div 64)) (m @ x))"
    by (simp add: rest_def)
  also have "\<dots> = rest (m @ x)" by (simp only: rest_def [of "m @ x"] drop_drop len add_mult_distrib2 add.commute)
  finally show ?thesis .
qed

section \<open>The hasher\<close>

text \<open>The hasher has absorbed the bytes \<open>m\<close>.\<close>

definition absorbed :: "Sha256 \<Rightarrow> u8 list \<Rightarrow> bool" where
  "absorbed h m \<longleftrightarrow>
     state h = fold compress (blocks m) INITIAL \<and> length (buffer h) = 64 \<and>
     buffered h = length m mod 64 \<and> take (buffered h) (buffer h) = rest m \<and>
     bytes h = of_nat (length m)"

lemma absorbed_new: "absorbed new_sha []"
  by (simp add: absorbed_def new_sha_def rest_def blocks_def)

lemma length_copy_at [simp]: "at + length src \<le> length dst \<Longrightarrow> length (copy_at at src dst) = length dst"
  by (simp add: copy_at_def)

lemma take_copy_at: "at \<le> length dst \<Longrightarrow> take (at + length src) (copy_at at src dst) = take at dst @ src"
  by (simp add: copy_at_def min_absorb2)

lemma update_fields:
  assumes "fill_buffer (h\<lparr>bytes := bytes h + of_nat (length x)\<rparr>) x = (h1, y)"
  shows "update h x =
    h1\<lparr>state := fold compress (blocks y) (state h1), buffer := copy_at 0 (rest y) (buffer h1),
       buffered := length y mod 64\<rparr>"
  using assms by (simp add: update_def Let_def compress_blocks_eq flip: rest_def) (simp add: length_rest)

lemma update_absorbs:
  assumes h: "absorbed h m" and ok: "buffered h = 0 \<or> 64 \<le> buffered h + length x"
  shows "absorbed (update h x) (m @ x)"
proof -
  let ?h0 = "h\<lparr>bytes := bytes h + of_nat (length x)\<rparr>"
  obtain h1 y where f: "fill_buffer ?h0 x = (h1, y)" by fastforce
  have *: "fold compress (blocks y) (state h1) = fold compress (blocks (m @ x)) INITIAL \<and>
           rest y = rest (m @ x) \<and> length y mod 64 = length (m @ x) mod 64 \<and>
           length (buffer h1) = 64 \<and> bytes h1 = of_nat (length (m @ x))"
  proof (cases "buffered h = 0")
    case True
    with h have "rest m = []" by (simp add: absorbed_def)
    then have "blocks (m @ x) = blocks m @ blocks x" "rest (m @ x) = rest x"
      using blocks_cut [of m x] rest_append [of m x] by auto
    with True h f show ?thesis
      by (auto simp: fill_buffer_def absorbed_def mod_add_left_eq [symmetric])
  next
    case False
    let ?c = "64 - buffered h"
    have b: "buffered h < 64" "length x \<ge> ?c" using h ok False by (auto simp: absorbed_def)
    have blk: "copy_at (buffered h) (take ?c x) (buffer h) = rest m @ take ?c x"
      using h b by (auto simp: absorbed_def copy_at_def)
    have l: "length (rest m @ take ?c x) = 64" using h b by (simp add: absorbed_def length_rest)
    have "rest m @ x = (rest m @ take ?c x) @ y" using f False b by (auto simp: fill_buffer_def Let_def min_absorb1)
    moreover from l have "rest (rest m @ take ?c x) = []" by (simp only: rest_def) simp
    ultimately have "blocks (m @ x) = blocks m @ (rest m @ take ?c x) # blocks y" "rest (m @ x) = rest y"
      using l blocks_append [of "rest m @ take ?c x" y] rest_append [of "rest m @ take ?c x" y]
      by (simp_all only: append_Nil blocks_single dvd_refl append_Cons
            blocks_cut [of m x, symmetric] rest_append [of m x, symmetric])
    moreover have "h1 = ?h0\<lparr>buffer := rest m @ take ?c x, buffered := 0,
                            state := compress (rest m @ take ?c x) (state h)\<rparr>"
      using f False b by (auto simp: fill_buffer_def Let_def min_absorb1 blk)
    moreover have "length (m @ x) mod 64 = length y mod 64"
      using \<open>rest (m @ x) = rest y\<close> by (metis length_rest)
    ultimately show ?thesis using h l by (simp add: absorbed_def)
  qed
  then show ?thesis unfolding update_fields [OF f] absorbed_def
    by (simp add: copy_at_def length_rest)
qed

lemma length_to_be_bytes [simp]: "length (to_be_bytes64 w) = 8" "length (to_be_bytes32 v) = 4"
  by (simp_all add: to_be_bytes64_def to_be_bytes32_def)

lemma pad_short: "n < 56 \<Longrightarrow> (119 - n) mod 64 = 55 - (n :: nat)"
proof -
  assume "n < 56"
  then have "119 - n = 64 + (55 - n)" by simp
  then show ?thesis by (simp only: mod_add_self1) simp
qed

lemma pad_long: "56 \<le> n \<Longrightarrow> n < 64 \<Longrightarrow> (119 - n) mod 64 = (63 - n) + (56 :: nat)"
  by (subst mod_less) auto

lemma finish_absorbed:
  assumes h: "absorbed h m"
  shows "finish h = fips_sha256 m"
proof -
  let ?n = "length m mod 64" and ?len = "to_be_bytes64 (of_nat (8 * length m))"
  have b: "length (buffer h) = 64" "buffered h = ?n" "take ?n (buffer h) = rest m" "length (rest m) = ?n"
    "bytes h * 8 = of_nat (8 * length m)" "state h = fold compress (blocks m) INITIAL"
    using h by (auto simp: absorbed_def length_rest algebra_simps)
  have n: "?n < 64" by simp
  have pad: "blocks (fips_padding m)
        = blocks m @ blocks (rest m @ 0x80 # replicate ((119 - ?n) mod 64) 0 @ ?len)"
    unfolding fips_padding_def by (rule blocks_cut [symmetric])
  have cut: "take (Suc ?n) ((buffer h)[?n := 0x80]) = rest m @ [0x80]"
    using n b by (simp add: take_Suc_conv_app_nth)
  show ?thesis
  proof (cases "?n < 56")
    case True
    then have "(119 - ?n) mod 64 = 55 - ?n" by (rule pad_short)
    moreover from True have "56 - ?n = Suc (55 - ?n)" by simp
    moreover from this True have "copy_at 56 ?len (copy_at (Suc ?n) (replicate (55 - ?n) 0) ((buffer h)[?n := 0x80]))
        = rest m @ 0x80 # replicate (55 - ?n) 0 @ ?len"
      using cut b by (simp add: copy_at_def) linarith
    ultimately show ?thesis using True b pad
      by (simp add: finish_def fips_sha256_eq Let_def)
  next
    case False
    then have k: "(119 - ?n) mod 64 = (63 - ?n) + 56" by (intro pad_long) (simp_all add: not_less)
    have "rest m @ 0x80 # replicate ((119 - ?n) mod 64) 0 @ ?len
        = (rest m @ 0x80 # replicate (63 - ?n) 0) @ (replicate 56 0 @ ?len)"
      unfolding k replicate_add by simp
    moreover have "length (rest m @ 0x80 # replicate (63 - ?n) 0) = 64" using n b by simp
    ultimately have "blocks (rest m @ 0x80 # replicate ((119 - ?n) mod 64) 0 @ ?len)
        = [rest m @ 0x80 # replicate (63 - ?n) 0, replicate 56 0 @ ?len]"
      using blocks_append [of "rest m @ 0x80 # replicate (63 - ?n) 0" "replicate 56 0 @ ?len"] by simp
    moreover have "copy_at 56 ?len (replicate 64 0) = replicate 56 0 @ ?len"
      by (simp add: copy_at_def)
    ultimately show ?thesis using False n b pad cut
      by (simp add: finish_def fips_sha256_eq Let_def)
  qed
qed

lemma length_fips_sha256: "length (fips_sha256 m) = 32"
  using fold_compress_fips [of INITIAL "blocks (fips_padding m)"]
  by (simp add: fips_sha256_eq length_concat o_def sum_list_triv) (simp add: INITIAL_def; metis)

lemma hex_digits: "length (hex bs) = 2 * length bs \<and> set (hex bs) \<subseteq> set DIGITS"
proof -
  have "unat (drop_bit 4 b) < length DIGITS" "unat (b AND 15) < length DIGITS" for b :: u8
  proof -
    have "unat (drop_bit 4 b) = unat b div 16" by (simp add: drop_bit_eq_div unat_div)
    moreover have "unat b < 256" using unsigned_less [of b, where 'a = nat] by simp
    ultimately show "unat (drop_bit 4 b) < length DIGITS" by (simp add: DIGITS_def)
    have "b AND 15 \<le> 15" by (rule word_and_le1)
    then have "unat (b AND 15) \<le> 15" by (simp add: word_le_nat_alt)
    then show "unat (b AND 15) < length DIGITS" by (simp add: DIGITS_def)
  qed
  then show ?thesis by (induction bs) (auto simp: hex_def intro: nth_mem)
qed

section \<open>Readers\<close>

definition ends :: "('e + u8 list) \<Rightarrow> bool" where
  "ends r = (case r of Inl _ \<Rightarrow> True | Inr c \<Rightarrow> c = [])"

lemma read_loop_finds_end:
  "read_loop read n h = Some y \<Longrightarrow> \<exists>k. ends (read k)"
proof (induction rule: read_loop.raw_induct [rotated, consumes 1])
  case (1 loop read n h y)
  show ?case
  proof (cases "ends (read n)")
    case False
    then obtain c where "read n = Inr c" "c \<noteq> []" by (auto simp: ends_def split: sum.splits)
    with 1 show ?thesis by simp
  qed blast
qed

lemma read_loop_returns:
  "ends (read (n + k)) \<Longrightarrow> \<exists>y. read_loop read n h = Some y"
proof (induction k arbitrary: n h)
  case 0
  then show ?case by (subst read_loop.simps) (auto simp: ends_def split: sum.splits)
next
  case (Suc k)
  from Suc.prems have "\<exists>y. read_loop read (Suc n) h' = Some y" for h' by (intro Suc.IH) simp
  then show ?case by (subst read_loop.simps) (auto split: sum.split)
qed

text \<open>The chunks arrive so that each starts on a block boundary or completes its block.\<close>

fun block_wise :: "nat \<Rightarrow> u8 list list \<Rightarrow> bool" where
  "block_wise n [] \<longleftrightarrow> True"
| "block_wise n (c # cs) \<longleftrightarrow>
     (n mod 64 = 0 \<or> 64 \<le> n mod 64 + length c) \<and> block_wise (n + length c) cs"

lemma read_loop_absorbs:
  assumes "absorbed h m" "block_wise (length m) cs"
    "\<And>i. i < length cs \<Longrightarrow> read (n + i) = Inr (cs ! i) \<and> cs ! i \<noteq> []" "read (n + length cs) = Inr []"
  shows "read_loop read n h = Some (Inr (hex (fips_sha256 (m @ concat cs))))"
  using assms
proof (induction cs arbitrary: h m n)
  case Nil
  then show ?case by (subst read_loop.simps) (simp add: finish_absorbed)
next
  case (Cons c cs)
  have "absorbed (update h c) (m @ c)"
    using Cons.prems by (intro update_absorbs) (auto simp: absorbed_def)
  moreover have "read (Suc n + i) = Inr (cs ! i) \<and> cs ! i \<noteq> []" if "i < length cs" for i
    using Cons.prems(3) [of "Suc i"] that by simp
  ultimately have "read_loop read (Suc n) (update h c) = Some (Inr (hex (fips_sha256 ((m @ c) @ concat cs))))"
    using Cons.prems by (intro Cons.IH) simp_all
  then show ?case using Cons.prems(3) [of 0] by (subst read_loop.simps) simp
qed

lemma update_drops:
  assumes "length (buffer h) = 64" "0 < buffered h" "buffered h + length x < 64"
  shows "update h x = h\<lparr>bytes := bytes h + of_nat (length x), buffer := copy_at (buffered h) x (buffer h), buffered := 0\<rparr>"
proof -
  have "fill_buffer (h\<lparr>bytes := bytes h + of_nat (length x)\<rparr>) x =
     (h\<lparr>bytes := bytes h + of_nat (length x), buffer := copy_at (buffered h) x (buffer h),
        buffered := buffered h + length x\<rparr>, [])"
    using assms by (simp add: fill_buffer_def Let_def min_absorb2)
  from update_fields [OF this] show ?thesis by (simp add: blocks_def rest_def copy_at_def)
qed

lemma finish_empty_buffer:
  assumes "length b = 64" "length c = 64"
  shows "finish (h\<lparr>buffer := b, buffered := 0\<rparr>) = finish (h\<lparr>buffer := c, buffered := 0\<rparr>)"
  using assms
  by (cases b; cases c) (simp_all add: finish_def Let_def copy_at_def)

section \<open>Properties\<close>

text \<open>
  C31. The digest of a byte slice is the SHA-256 of FIPS 180-4 in lower-case hexadecimal: 64
  characters. The standard's constants are the roots of primes, its schedule is a recurrence and its
  message is padded as a whole; the code has tables, an array and a buffer.
\<close>

theorem digest_is_sha256:
  "digest m = hex (fips_sha256 m) \<and> length (digest m) = 64 \<and> set (digest m) \<subseteq> set DIGITS"
  using update_absorbs [OF absorbed_new, of m] hex_digits [of "fips_sha256 m"]
  by (simp add: digest_def new_sha_def finish_absorbed length_fips_sha256)

text \<open>
  C33. Hashing a reader gives the SHA-256 of everything it returned, provided each read starts on a
  block boundary or completes the block it starts in, as with a buffer that fills to a multiple of
  64 bytes until the last read.
\<close>

theorem digest_reader_is_sha256:
  assumes "\<And>i. i < length cs \<Longrightarrow> read i = Inr (cs ! i) \<and> cs ! i \<noteq> []"
    and "read (length cs) = Inr []"
    and "block_wise 0 cs"
  shows "digest_reader read = Some (Inr (hex (fips_sha256 (concat cs))))"
  using read_loop_absorbs [OF absorbed_new, of cs read 0] assms by (simp add: digest_reader_def)

text \<open>The reads of a list of chunks, then the end of the file.\<close>

definition reads :: "u8 list list \<Rightarrow> nat \<Rightarrow> 'e + u8 list" where
  "reads cs i = (if i < length cs then Inr (cs ! i) else Inr [])"

theorem digest_reader_is_sha256_witness:
  "digest_reader (reads [replicate 64 7, [1, 2]] :: nat \<Rightarrow> string + u8 list)
     = Some (Inr (hex (fips_sha256 (replicate 64 7 @ [1, 2]))))"
proof -
  have "digest_reader (reads [replicate 64 7, [1, 2]] :: nat \<Rightarrow> string + u8 list)
     = Some (Inr (hex (fips_sha256 (concat [replicate 64 7, [1, 2]]))))"
    by (rule digest_reader_is_sha256) (auto simp: reads_def less_Suc_eq)
  then show ?thesis by simp
qed

text \<open>
  C32. Hashing a reader returns exactly when some read fails or is empty; a reader that goes on
  forever is the only way not to return.
\<close>

theorem digest_reader_terminates:
  "(\<exists>y. digest_reader read = Some y) \<longleftrightarrow> (\<exists>n. read n = Inr [] \<or> (\<exists>e. read n = Inl e))"
proof -
  have "(\<exists>n. read n = Inr [] \<or> (\<exists>e. read n = Inl e)) \<longleftrightarrow> (\<exists>n. ends (read n))"
    unfolding ends_def by (intro iff_exI) (auto split: sum.split)
  then show ?thesis
    using read_loop_finds_end [of read 0 new_sha] read_loop_returns [of read 0 _ new_sha]
    unfolding digest_reader_def by (metis add_0)
qed

text \<open>
  C34. Short reads lose data: two files of equal length below 64 bytes that differ only in what the
  second read returns have the same digest, since the second update drops the buffered block.
\<close>

theorem short_reads_collide:
  assumes "a \<noteq> []" "x \<noteq> []" "length y = length x" "length a + length x < 64"
  shows "digest_reader (reads [a, x] :: nat \<Rightarrow> 'e + u8 list) = digest_reader (reads [a, y])"
proof -
  define h where "h = update new_sha a"
  have h: "absorbed h a" unfolding h_def using update_absorbs [OF absorbed_new, of a] by (simp add: new_sha_def)
  then have b: "length (buffer h) = 64" "buffered h = length a" using assms by (auto simp: absorbed_def)
  have y: "y \<noteq> []" using assms by auto
  have loop: "digest_reader (reads [a, z] :: nat \<Rightarrow> 'e + u8 list) = Some (Inr (hex (finish (update h z))))"
    if "z \<noteq> []" for z
    using assms(1) that unfolding digest_reader_def
    by (subst read_loop.simps, simp add: reads_def, subst read_loop.simps, simp add: reads_def,
        subst read_loop.simps, simp add: reads_def h_def)
  let ?h = "h\<lparr>bytes := bytes h + of_nat (length x)\<rparr>"
  have "finish (?h\<lparr>buffer := copy_at (buffered h) x (buffer h), buffered := 0\<rparr>)
      = finish (?h\<lparr>buffer := copy_at (buffered h) y (buffer h), buffered := 0\<rparr>)"
    using assms b by (intro finish_empty_buffer) simp_all
  then have "finish (update h x) = finish (update h y)"
    using assms b by (simp add: update_drops)
  then show ?thesis by (simp add: loop assms(2) y)
qed

theorem short_reads_collide_witness:
  "digest_reader (reads [[1], [2]] :: nat \<Rightarrow> string + u8 list) = digest_reader (reads [[1], [3]])"
  using short_reads_collide [of "[1]" "[2]" "[3]"] by simp

end
