(* ===== verification/Driver_Json.thy ===== *)
theory Driver_Json
  imports Text_Lines
begin

text \<open>
  The driver's JSON (\<open>spec-build-driver/src/json.rs\<close>): values whose numbers keep their lexeme and
  whose objects are ordered maps, the canonical printer, and the recursive-descent parser with its
  positions and error messages. The parser state is the cursor and the input from the cursor on.
  Strings are their UTF-8 bytes; the printer escapes only characters below 128, so it can be read
  byte by byte.
\<close>

section \<open>Values\<close>

datatype DJson =
    DNull
  | DBool bool
  | DNumber string
  | DString string
  | DArray "DJson list"
  | DObject "(string \<times> DJson) list"

type_synonym DriverError = string

fun as_object :: "DJson \<Rightarrow> (string \<times> DJson) list option" where
  "as_object (DObject m) = Some m"
| "as_object _ = None"

fun as_array :: "DJson \<Rightarrow> DJson list option" where
  "as_array (DArray xs) = Some xs"
| "as_array _ = None"

fun as_string :: "DJson \<Rightarrow> string option" where
  "as_string (DString s) = Some s"
| "as_string _ = None"

fun as_bool :: "DJson \<Rightarrow> bool option" where
  "as_bool (DBool b) = Some b"
| "as_bool _ = None"

fun number_u64 :: "DJson \<Rightarrow> u64 option" where
  "number_u64 (DNumber n) =
     (if \<not> starts_with n ''-'' \<and> CHR ''.'' \<notin> set n \<and> CHR ''e'' \<notin> set n \<and> CHR ''E'' \<notin> set n
      then parse_u64 n else None)"
| "number_u64 _ = None"

text \<open>\<open>BTreeMap::insert\<close> and \<open>get\<close> on the sorted list of the entries.\<close>

fun btree_insert :: "string \<Rightarrow> 'v \<Rightarrow> (string \<times> 'v) list \<Rightarrow> (string \<times> 'v) list" where
  "btree_insert k v [] = [(k, v)]"
| "btree_insert k v ((k', v') # m) =
     (if k < k' then (k, v) # (k', v') # m
      else if k = k' then (k, v) # m
      else (k', v') # btree_insert k v m)"

definition json_object :: "(string \<times> DJson) list \<Rightarrow> DJson" where
  "json_object entries = DObject (fold (\<lambda>(k, v). btree_insert k v) entries [])"

definition json_usize :: "nat \<Rightarrow> DJson" where
  "json_usize n = DNumber (show_nat n)"

section \<open>Printing\<close>

definition hex_digit :: "nat \<Rightarrow> char" where
  "hex_digit n = (if n < 10 then char_of (48 + n) else char_of (87 + n))"

definition escape_byte :: "char \<Rightarrow> string" where
  "escape_byte c =
     (if c = CHR 34 then [CHR 92, CHR 34]
      else if c = CHR 92 then [CHR 92, CHR 92]
      else if c = CHR 8 then [CHR 92, CHR ''b'']
      else if c = CHR 12 then [CHR 92, CHR ''f'']
      else if c = CHR 10 then [CHR 92, CHR ''n'']
      else if c = CHR 13 then [CHR 92, CHR ''r'']
      else if c = CHR 9 then [CHR 92, CHR ''t'']
      else if byte c \<le> 31
      then [CHR 92, CHR ''u'', CHR ''0'', CHR ''0'', hex_digit (byte c div 16), hex_digit (byte c mod 16)]
      else [c])"

definition write_string :: "string \<Rightarrow> string" where
  "write_string s = CHR 34 # concat (map escape_byte s) @ [CHR 34]"

fun write_to :: "DJson \<Rightarrow> string" and write_items :: "DJson list \<Rightarrow> string"
  and write_entries :: "(string \<times> DJson) list \<Rightarrow> string" where
  "write_to DNull = ''null''"
| "write_to (DBool b) = (if b then ''true'' else ''false'')"
| "write_to (DNumber n) = n"
| "write_to (DString s) = write_string s"
| "write_to (DArray vs) = CHR ''['' # write_items vs @ '']''"
| "write_to (DObject m) = CHR ''{'' # write_entries m @ ''}''"
| "write_items [] = []"
| "write_items [v] = write_to v"
| "write_items (v # vs) = write_to v @ CHR '','' # write_items vs"
| "write_entries [] = []"
| "write_entries [(k, v)] = write_string k @ CHR '':'' # write_to v"
| "write_entries ((k, v) # m) = write_string k @ CHR '':'' # write_to v @ CHR '','' # write_entries m"

definition stringify :: "DJson \<Rightarrow> string" where
  "stringify v = write_to v"

section \<open>Parsing\<close>

record Parser =
  cursor :: nat
  ahead :: string

definition advance :: "nat \<Rightarrow> Parser \<Rightarrow> Parser" where
  "advance n p = \<lparr>cursor = cursor p + n, ahead = drop n (ahead p)\<rparr>"

definition peek :: "Parser \<Rightarrow> char option" where
  "peek p = (case ahead p of [] \<Rightarrow> None | c # _ \<Rightarrow> Some c)"

definition take_byte :: "char \<Rightarrow> Parser \<Rightarrow> bool \<times> Parser" where
  "take_byte c p = (if peek p = Some c then (True, advance 1 p) else (False, p))"

definition error_at :: "Parser \<Rightarrow> string \<Rightarrow> DriverError" where
  "error_at p message = ''invalid JSON at byte '' @ show_nat (cursor p) @ '': '' @ message"

definition is_space :: "char \<Rightarrow> bool" where
  "is_space c \<longleftrightarrow> c = CHR 32 \<or> c = CHR 10 \<or> c = CHR 13 \<or> c = CHR 9"

text \<open>A loop that skips bytes while they satisfy a test.\<close>

definition skip_while :: "(char \<Rightarrow> bool) \<Rightarrow> Parser \<Rightarrow> Parser" where
  "skip_while test p = advance (length (takeWhile test (ahead p))) p"

definition skip_space :: "Parser \<Rightarrow> Parser" where
  "skip_space p = skip_while is_space p"

definition literal :: "string \<Rightarrow> Parser \<Rightarrow> DriverError + Parser" where
  "literal l p =
     (if take (length l) (ahead p) \<noteq> l then Inl (error_at p ''invalid literal'')
      else Inr (advance (length l) p))"

definition peek_digit :: "Parser \<Rightarrow> bool" where
  "peek_digit p = is_some_and is_ascii_digit (peek p)"

definition integer_part :: "Parser \<Rightarrow> DriverError + Parser" where
  "integer_part p =
     (case peek p of
        Some c \<Rightarrow>
          if c = CHR ''0''
          then if peek_digit (advance 1 p) then Inl (error_at (advance 1 p) ''leading zero in number'')
               else Inr (advance 1 p)
          else if is_ascii_digit c then Inr (skip_while is_ascii_digit (advance 1 p))
          else Inl (error_at p ''invalid number'')
      | None \<Rightarrow> Inl (error_at p ''invalid number''))"

definition fraction_part :: "Parser \<Rightarrow> DriverError + Parser" where
  "fraction_part p =
     (case take_byte (CHR ''.'') p of
        (True, p1) \<Rightarrow>
          if peek_digit p1 then Inr (skip_while is_ascii_digit p1)
          else Inl (error_at p1 ''fraction has no digits'')
      | (False, p1) \<Rightarrow> Inr p1)"

definition exponent_part :: "Parser \<Rightarrow> DriverError + Parser" where
  "exponent_part p =
     (if peek p = Some (CHR ''e'') \<or> peek p = Some (CHR ''E'')
      then let p1 = advance 1 p;
               p2 = (if peek p1 = Some (CHR ''+'') \<or> peek p1 = Some (CHR ''-'') then advance 1 p1 else p1)
           in if peek_digit p2 then Inr (skip_while is_ascii_digit p2)
              else Inl (error_at p2 ''exponent has no digits'')
      else Inr p)"

definition number :: "Parser \<Rightarrow> DriverError + string \<times> Parser" where
  "number p =
     (case integer_part (snd (take_byte (CHR ''-'') p)) of
        Inl e \<Rightarrow> Inl e
      | Inr p1 \<Rightarrow>
          (case fraction_part p1 of
             Inl e \<Rightarrow> Inl e
           | Inr p2 \<Rightarrow>
               (case exponent_part p2 of
                  Inl e \<Rightarrow> Inl e
                | Inr p3 \<Rightarrow>
                    let lexeme = take (cursor p3 - cursor p) (ahead p)
                    in if utf8 lexeme then Inr (lexeme, p3) else Inl ''invalid number encoding'')))"

definition hex_value :: "char \<Rightarrow> nat option" where
  "hex_value c =
     (if 48 \<le> byte c \<and> byte c \<le> 57 then Some (byte c - 48)
      else if 97 \<le> byte c \<and> byte c \<le> 102 then Some (byte c - 97 + 10)
      else if 65 \<le> byte c \<and> byte c \<le> 70 then Some (byte c - 65 + 10)
      else None)"

text \<open>The four turns of the loop, with the checked 16-bit arithmetic.\<close>

fun hex_quad_loop :: "nat \<Rightarrow> nat \<Rightarrow> Parser \<Rightarrow> DriverError + nat \<times> Parser" where
  "hex_quad_loop 0 acc p = Inr (acc, p)"
| "hex_quad_loop (Suc n) acc p =
     (case peek p of
        None \<Rightarrow> Inl ''invalid Unicode escape''
      | Some c \<Rightarrow>
          if 65536 \<le> acc * 16 then Inl ''invalid Unicode escape''
          else (case hex_value c of
                  None \<Rightarrow> Inl ''invalid Unicode escape''
                | Some d \<Rightarrow>
                    if 65536 \<le> acc * 16 + d then Inl ''invalid Unicode escape''
                    else hex_quad_loop n (acc * 16 + d) (advance 1 p)))"

definition hex_quad :: "Parser \<Rightarrow> DriverError + nat \<times> Parser" where
  "hex_quad p =
     (if length (ahead p) < 4 then Inl (error_at p ''incomplete Unicode escape'')
      else hex_quad_loop 4 0 p)"

text \<open>\<open>char::encode_utf8\<close>.\<close>

definition encode_utf8 :: "nat \<Rightarrow> string" where
  "encode_utf8 n =
     map char_of
       (if n < 128 then [n]
        else if n < 2048 then [192 + n div 64, 128 + n mod 64]
        else if n < 65536 then [224 + n div 4096, 128 + n div 64 mod 64, 128 + n mod 64]
        else [240 + n div 262144, 128 + n div 4096 mod 64, 128 + n div 64 mod 64, 128 + n mod 64])"

definition is_scalar_value :: "nat \<Rightarrow> bool" where
  "is_scalar_value n \<longleftrightarrow> n < 55296 \<or> 57343 < n \<and> n < 1114112"

definition low_surrogate :: "nat \<Rightarrow> Parser \<Rightarrow> DriverError + nat \<times> Parser" where
  "low_surrogate first p =
     (case take_byte (CHR 92) p of
        (False, p1) \<Rightarrow> Inl (error_at p1 ''high surrogate without a low surrogate'')
      | (True, p1) \<Rightarrow>
          (case take_byte (CHR ''u'') p1 of
             (False, p2) \<Rightarrow> Inl (error_at p2 ''high surrogate without a low surrogate'')
           | (True, p2) \<Rightarrow>
               (case hex_quad p2 of
                  Inl e \<Rightarrow> Inl e
                | Inr (second, p3) \<Rightarrow>
                    if 56320 \<le> second \<and> second \<le> 57343
                    then Inr (65536 + (first - 55296) * 1024 + (second - 56320), p3)
                    else Inl (error_at p3 ''invalid low surrogate''))))"

definition unicode_escape :: "Parser \<Rightarrow> DriverError + string \<times> Parser" where
  "unicode_escape p =
     (case hex_quad p of
        Inl e \<Rightarrow> Inl e
      | Inr (first, p1) \<Rightarrow>
          (case (if 55296 \<le> first \<and> first \<le> 56319 then low_surrogate first p1
                 else if 56320 \<le> first \<and> first \<le> 57343
                 then Inl (error_at p1 ''low surrogate without a high surrogate'')
                 else Inr (first, p1)) of
             Inl e \<Rightarrow> Inl e
           | Inr (scalar, p2) \<Rightarrow>
               if is_scalar_value scalar then Inr (encode_utf8 scalar, p2)
               else Inl ''invalid Unicode scalar in JSON string''))"

text \<open>The bytes an escape stands for.\<close>

definition escape :: "Parser \<Rightarrow> DriverError + string \<times> Parser" where
  "escape p =
     (case peek p of
        None \<Rightarrow> Inl (error_at p ''unterminated escape'')
      | Some c \<Rightarrow>
          let p1 = advance 1 p
          in if c = CHR 34 \<or> c = CHR 92 \<or> c = CHR ''/'' then Inr ([c], p1)
             else if c = CHR ''b'' then Inr ([CHR 8], p1)
             else if c = CHR ''f'' then Inr ([CHR 12], p1)
             else if c = CHR ''n'' then Inr ([CHR 10], p1)
             else if c = CHR ''r'' then Inr ([CHR 13], p1)
             else if c = CHR ''t'' then Inr ([CHR 9], p1)
             else if c = CHR ''u'' then unicode_escape p1
             else Inl (error_at p1 ''invalid string escape''))"

subsection \<open>Nothing moves backwards\<close>

lemma bind_eq_Inr:
  "(case r of Inl e \<Rightarrow> Inl e | Inr x \<Rightarrow> f x) = Inr y \<longleftrightarrow> (\<exists>x. r = Inr x \<and> f x = Inr y)"
  by (cases r) auto

lemma bool_case_eq:
  "(case t of (True, q) \<Rightarrow> f q | (False, q) \<Rightarrow> g q) = z \<longleftrightarrow>
     (\<exists>q. t = (True, q) \<and> f q = z \<or> t = (False, q) \<and> g q = z)"
  by (cases t rule: prod.exhaust) (auto split: bool.splits)

lemmas parse_cases = bind_eq_Inr bool_case_eq

abbreviation left :: "Parser \<Rightarrow> nat" where
  "left p \<equiv> length (ahead p)"

lemma left_advance [simp]: "left (advance n p) = left p - n"
  by (simp add: advance_def)

lemma left_skip_while [simp]: "left (skip_while t p) \<le> left p"
  by (simp add: skip_while_def)

lemma left_skip_space: "left (skip_space p) \<le> left p"
  by (simp add: skip_space_def)

lemma peek_Some_left: "peek p = Some c \<Longrightarrow> 0 < left p"
  by (simp add: peek_def split: list.splits)

lemma take_byte_left: "take_byte c p = (b, p') \<Longrightarrow> left p' \<le> left p \<and> (b \<longrightarrow> left p' < left p)"
  by (auto simp: take_byte_def dest: peek_Some_left split: if_splits)

lemma take_space_left:
  assumes "take_byte c (skip_space p) = (b, q)"
  shows "left q \<le> left p" "b \<Longrightarrow> left q < left p"
  using take_byte_left [OF assms] left_skip_space [of p] by linarith+

lemma hex_quad_loop_left: "hex_quad_loop n acc p = Inr (v, p') \<Longrightarrow> left p' \<le> left p"
proof (induction n acc p rule: hex_quad_loop.induct)
  case (2 n acc p)
  then show ?case by (fastforce split: option.splits if_splits)
qed simp

lemma hex_quad_left: "hex_quad p = Inr (v, p') \<Longrightarrow> left p' \<le> left p"
  by (auto simp: hex_quad_def dest: hex_quad_loop_left split: if_splits)

lemma low_surrogate_left: "low_surrogate f p = Inr (v, p') \<Longrightarrow> left p' \<le> left p"
  by (fastforce simp: low_surrogate_def dest: take_byte_left hex_quad_left
      split: prod.splits bool.splits sum.splits if_splits)

lemma unicode_escape_left: "unicode_escape p = Inr (v, p') \<Longrightarrow> left p' \<le> left p"
  by (fastforce simp: unicode_escape_def dest: hex_quad_left low_surrogate_left
      split: prod.splits sum.splits if_splits)

lemma escape_left: "escape p = Inr (v, p') \<Longrightarrow> left p' \<le> left p"
  by (fastforce simp: escape_def Let_def dest: unicode_escape_left split: option.splits if_splits)

lemma peek_left_less: "peek p = Some c \<Longrightarrow> left p - Suc 0 < left p"
  by (auto dest: peek_Some_left)

lemma escape_left_less:
  assumes "escape (advance (Suc 0) p) = Inr (v, p')" "peek p = Some c"
  shows "left p' < left p"
  using escape_left [OF assms(1)] peek_left_less [OF assms(2)] by (simp only: left_advance)

function string_loop :: "string \<Rightarrow> Parser \<Rightarrow> DriverError + string \<times> Parser" where
  "string_loop bytes p =
     (case peek p of
        None \<Rightarrow> Inl (error_at p ''unterminated string'')
      | Some c \<Rightarrow>
          if c = CHR 34
          then if utf8 bytes then Inr (bytes, advance 1 p) else Inl ''invalid UTF-8 in JSON string''
          else if c = CHR 92
          then (case escape (advance 1 p) of
                  Inl e \<Rightarrow> Inl e
                | Inr (out, p') \<Rightarrow> string_loop (bytes @ out) p')
          else if byte c \<le> 31 then Inl (error_at (advance 1 p) ''control character in string'')
          else string_loop (bytes @ [c]) (advance 1 p))"
  by pat_completeness auto
termination
  by (relation "measure (left \<circ> snd)") (auto dest: peek_left_less escape_left_less)

declare string_loop.simps [simp del]

definition parse_string :: "Parser \<Rightarrow> DriverError + string \<times> Parser" where
  "parse_string p = string_loop [] (advance 1 p)"

lemma string_loop_left: "string_loop bs p = Inr (v, p') \<Longrightarrow> left p' \<le> left p"
proof (induction bs p rule: string_loop.induct)
  case (1 bs p)
  from 1(3) obtain c where c: "peek p = Some c" by (auto simp: string_loop.simps [of bs p] split: option.splits)
  show ?case
  proof (cases "c = CHR 92")
    case True
    with 1(3) c obtain out q where q: "escape (advance 1 p) = Inr (out, q)" "string_loop (bs @ out) q = Inr (v, p')"
      by (auto simp: string_loop.simps [of bs p] split: sum.splits)
    have "left p' \<le> left q" by (rule 1(1) [OF c _ True q(1) refl q(2)]) (simp add: True)
    with escape_left_less [of p out q c] q(1) c show ?thesis by simp
  next
    case False
    with 1(3) c 1(2) [OF c _ False] show ?thesis
      by (auto simp: string_loop.simps [of bs p] split: if_splits)
  qed
qed

lemma parse_string_left: "parse_string p = Inr (v, p') \<Longrightarrow> left p' \<le> left p - 1"
  by (auto simp: parse_string_def dest: string_loop_left)

lemma literal_left: "literal l p = Inr q \<Longrightarrow> left q \<le> left p"
  by (auto simp: literal_def split: if_splits)

lemma integer_part_left: "integer_part p = Inr q \<Longrightarrow> left q \<le> left p"
  using left_skip_while [of is_ascii_digit "advance (Suc 0) p"]
  by (auto simp: integer_part_def split: option.splits if_splits simp del: left_skip_while)

lemma fraction_part_left: "fraction_part p = Inr q \<Longrightarrow> left q \<le> left p"
  by (auto simp: fraction_part_def split: prod.splits bool.splits if_splits
      dest!: take_byte_left intro: order_trans [OF left_skip_while])

lemma exponent_part_left: "exponent_part p = Inr q \<Longrightarrow> left q \<le> left p"
  by (auto simp: exponent_part_def Let_def split: if_splits intro!: order_trans [OF left_skip_while])

lemma number_left: "number p = Inr (n, q) \<Longrightarrow> left q \<le> left p"
  by (auto simp: number_def Let_def take_byte_def split: sum.splits if_splits
      dest!: integer_part_left fraction_part_left exponent_part_left)

function parse_value :: "Parser \<Rightarrow> DriverError + DJson \<times> Parser"
  and array_loop :: "DJson list \<Rightarrow> Parser \<Rightarrow> DriverError + DJson \<times> Parser"
  and object_loop :: "(string \<times> DJson) list \<Rightarrow> Parser \<Rightarrow> DriverError + DJson \<times> Parser" where
  "parse_value p =
     (case peek p of
        None \<Rightarrow> Inl (error_at p ''unexpected end of input'')
      | Some c \<Rightarrow>
          if c = CHR ''n'' then (case literal ''null'' p of Inl e \<Rightarrow> Inl e | Inr q \<Rightarrow> Inr (DNull, q))
          else if c = CHR ''t'' then (case literal ''true'' p of Inl e \<Rightarrow> Inl e | Inr q \<Rightarrow> Inr (DBool True, q))
          else if c = CHR ''f'' then (case literal ''false'' p of Inl e \<Rightarrow> Inl e | Inr q \<Rightarrow> Inr (DBool False, q))
          else if c = CHR 34 then (case parse_string p of Inl e \<Rightarrow> Inl e | Inr (t, q) \<Rightarrow> Inr (DString t, q))
          else if c = CHR ''['' then
            (case take_byte (CHR '']'') (skip_space (advance 1 p)) of
               (True, q) \<Rightarrow> Inr (DArray [], q)
             | (False, q) \<Rightarrow> array_loop [] q)
          else if c = CHR ''{'' then
            (case take_byte (CHR ''}'') (skip_space (advance 1 p)) of
               (True, q) \<Rightarrow> Inr (DObject [], q)
             | (False, q) \<Rightarrow> object_loop [] q)
          else if c = CHR ''-'' \<or> is_ascii_digit c
          then (case number p of Inl e \<Rightarrow> Inl e | Inr (n, q) \<Rightarrow> Inr (DNumber n, q))
          else Inl (error_at p ''expected a JSON value''))"
| "array_loop values p =
     (case parse_value (skip_space p) of
        Inl e \<Rightarrow> Inl e
      | Inr (v, q) \<Rightarrow>
          (case take_byte (CHR '']'') (skip_space q) of
             (True, q1) \<Rightarrow> Inr (DArray (values @ [v]), q1)
           | (False, q1) \<Rightarrow>
               (case take_byte (CHR '','') q1 of
                  (True, q2) \<Rightarrow> array_loop (values @ [v]) q2
                | (False, q2) \<Rightarrow> Inl (error_at q2 ''expected ',' or ']' in array''))))"
| "object_loop values p =
     (if peek (skip_space p) \<noteq> Some (CHR 34) then Inl (error_at (skip_space p) ''expected an object key'')
      else (case parse_string (skip_space p) of
              Inl e \<Rightarrow> Inl e
            | Inr (key, q) \<Rightarrow>
                (case take_byte (CHR '':'') (skip_space q) of
                   (False, q1) \<Rightarrow> Inl (error_at q1 ''expected ':' after object key'')
                 | (True, q1) \<Rightarrow>
                     (case parse_value (skip_space q1) of
                        Inl e \<Rightarrow> Inl e
                      | Inr (v, q2) \<Rightarrow>
                          (case take_byte (CHR ''}'') (skip_space q2) of
                             (True, q3) \<Rightarrow> Inr (DObject (btree_insert key v values), q3)
                           | (False, q3) \<Rightarrow>
                               (case take_byte (CHR '','') q3 of
                                  (True, q4) \<Rightarrow> object_loop (btree_insert key v values) q4
                                | (False, q4) \<Rightarrow> Inl (error_at q4 ''expected ',' or '}' in object'')))))))"
  by pat_completeness auto

abbreviation parse_dom :: "Parser + (DJson list \<times> Parser) + ((string \<times> DJson) list \<times> Parser) \<Rightarrow> bool" where
  "parse_dom \<equiv> parse_value_array_loop_object_loop_dom"

lemma bracket_left:
  assumes "peek p = Some c" "(b, q) = take_byte d (skip_space (advance (Suc 0) p))"
  shows "Suc (2 * left q) < 2 * left p"
  using take_space_left(1) [OF assms(2) [symmetric]] peek_Some_left [OF assms(1)]
  by (simp only: left_advance)

lemma skip_space_call: "2 * left (skip_space p) < Suc (2 * left p)"
  using left_skip_space [of p] by linarith

lemma next_item_left:
  assumes "left q \<le> left (skip_space p)" "(b, r) = take_byte d (skip_space q)" "(True, t) = take_byte e r"
  shows "left t < left p"
  using assms(1) take_space_left(1) [OF assms(2) [symmetric]] take_byte_left [OF assms(3) [symmetric]]
    left_skip_space [of p] by auto

lemma entry_value_left:
  assumes "parse_string (skip_space p) = Inr (k, q)" "(b, r) = take_byte d (skip_space q)"
  shows "left r \<le> left p"
  using parse_string_left [OF assms(1)] take_space_left(1) [OF assms(2) [symmetric]] left_skip_space [of p]
  by linarith

lemma left_dom:
  "parse_dom (Inl p) \<Longrightarrow> parse_value p = Inr (v, p') \<Longrightarrow> left p' \<le> left p"
  "parse_dom (Inr (Inl (vs, p))) \<Longrightarrow> array_loop vs p = Inr (v, p') \<Longrightarrow> left p' \<le> left p"
  "parse_dom (Inr (Inr (m, p))) \<Longrightarrow> object_loop m p = Inr (v, p') \<Longrightarrow> left p' \<le> left p"
proof (induction arbitrary: v p' and v p' and v p' rule: parse_value_array_loop_object_loop.pinduct)
  case (1 p)
  note eq = 1(4) [unfolded parse_value.psimps [OF 1(1)]]
  then obtain c where c: "peek p = Some c" by (auto split: option.splits)
  consider "c = CHR ''[''" | "c = CHR ''{''" | "c \<noteq> CHR ''[''" "c \<noteq> CHR ''{''" by blast
  then show ?case
  proof cases
    case 1
    with eq c obtain b q where q: "take_byte (CHR '']'') (skip_space (advance 1 p)) = (b, q)"
      "p' = q \<or> \<not> b \<and> array_loop [] q = Inr (v, p')" by (auto split: prod.splits bool.splits)
    moreover have "left q \<le> left p" using take_space_left(1) [OF q(1)] by simp
    moreover have "\<not> b \<Longrightarrow> array_loop [] q = Inr (v, p') \<Longrightarrow> left p' \<le> left q"
      using \<open>c = CHR ''[''\<close> by (intro "1.IH"(1) [OF c _ _ _ _ _ q(1) [symmetric]]) auto
    ultimately show ?thesis by auto
  next
    case 2
    with eq c obtain b q where q: "take_byte (CHR ''}'') (skip_space (advance 1 p)) = (b, q)"
      "p' = q \<or> \<not> b \<and> object_loop [] q = Inr (v, p')" by (auto split: prod.splits bool.splits)
    moreover have "left q \<le> left p" using take_space_left(1) [OF q(1)] by simp
    moreover have "\<not> b \<Longrightarrow> object_loop [] q = Inr (v, p') \<Longrightarrow> left p' \<le> left q"
      using \<open>c = CHR ''{''\<close> by (intro "1.IH"(2) [OF c _ _ _ _ _ _ q(1) [symmetric]]) auto
    ultimately show ?thesis by auto
  next
    case 3
    then have "(\<exists>l. literal l p = Inr p') \<or> (\<exists>t. parse_string p = Inr (t, p')) \<or> (\<exists>n. number p = Inr (n, p'))"
      using eq unfolding c option.case by (simp add: parse_cases split: if_split_asm) blast+
    then show ?thesis by (auto dest: literal_left number_left parse_string_left)
  qed
next
  case (2 vs p)
  from 2(4) obtain v1 q b q1 where q: "parse_value (skip_space p) = Inr (v1, q)"
      "take_byte (CHR '']'') (skip_space q) = (b, q1)"
    and r: "p' = q1 \<or> \<not> b \<and> (\<exists>q2. take_byte (CHR '','') q1 = (True, q2) \<and> array_loop (vs @ [v1]) q2 = Inr (v, p'))"
    unfolding array_loop.psimps [OF 2(1)] by (auto split: sum.splits prod.splits bool.splits)
  have "left q \<le> left p" using 2(2) [OF q(1)] left_skip_space [of p] by linarith
  then have "left q1 \<le> left p" using take_space_left(1) [OF q(2)] by simp
  with r show ?case
    using 2(3) [OF q(1) refl q(2) [symmetric] _ sym] by (fastforce dest: take_byte_left)
next
  case (3 m p)
  from 3(4) obtain k q q1 v1 q2 b q3 where q: "peek (skip_space p) = Some (CHR 34)"
      "parse_string (skip_space p) = Inr (k, q)" "take_byte (CHR '':'') (skip_space q) = (True, q1)"
      "parse_value (skip_space q1) = Inr (v1, q2)" "take_byte (CHR ''}'') (skip_space q2) = (b, q3)"
    and r: "p' = q3 \<or> \<not> b \<and> (\<exists>q4. take_byte (CHR '','') q3 = (True, q4) \<and> object_loop (btree_insert k v1 m) q4 = Inr (v, p'))"
    unfolding object_loop.psimps [OF 3(1)] by (auto split: sum.splits prod.splits bool.splits if_splits)
  have "left q2 \<le> left (skip_space q1)" using 3(2) [OF _ q(2) refl q(3) [symmetric] refl q(4)] q(1) by simp
  then have "left q3 \<le> left p"
    using take_space_left(1) [OF q(5)] left_skip_space [of q1] take_space_left(1) [OF q(3)]
      parse_string_left [OF q(2)] left_skip_space [of p] by linarith
  with r show ?case
    using 3(3) [OF _ q(2) refl q(3) [symmetric] refl q(4) refl q(5) [symmetric] _ sym] q(1)
    by (fastforce dest: take_byte_left)
qed

termination parse_value
proof (relation "measure (\<lambda>x. case x of Inl p \<Rightarrow> 2 * left p | Inr (Inl (vs, p)) \<Rightarrow> 2 * left p + 1
                                    | Inr (Inr (m, p)) \<Rightarrow> 2 * left p + 1)", goal_cases)
  case (5 p b v q x r y t)
  then show ?case using next_item_left [OF left_dom(1)] by auto
next
  case (6 m p b k q x r)
  then show ?case using entry_value_left [of p k q x r "CHR '':''"] left_skip_space [of r] by auto
next
  case (7 m p b k q x r bb v t y u z w)
  then have "left w < left r" using next_item_left [OF left_dom(1), of r v t y u] by auto
  moreover have "left r \<le> left p" using 7 entry_value_left [of p k q x r "CHR '':''"] by auto
  ultimately show ?case by simp
qed (auto intro: bracket_left skip_space_call)

declare parse_value.simps [simp del] array_loop.simps [simp del] object_loop.simps [simp del]

definition new_parser :: "string \<Rightarrow> Parser" where
  "new_parser input = \<lparr>cursor = 0, ahead = input\<rparr>"

definition parse :: "string \<Rightarrow> DriverError + DJson" where
  "parse input =
     (case parse_value (skip_space (new_parser input)) of
        Inl e \<Rightarrow> Inl e
      | Inr (v, q) \<Rightarrow>
          if ahead (skip_space q) \<noteq> [] then Inl (error_at (skip_space q) ''trailing content'') else Inr v)"

section \<open>Inserted entries\<close>

lemma fst_btree_insert: "fst ` set (btree_insert k v m) = insert k (fst ` set m)"
  by (induction k v m rule: btree_insert.induct) auto

lemma btree_insert_sorted:
  "sorted_wrt (<) (map fst m) \<Longrightarrow> sorted_wrt (<) (map fst (btree_insert k v m))"
proof (induction k v m rule: btree_insert.induct)
  case (2 k v k' v' m)
  have "\<And>x. x \<in> fst ` set (btree_insert k v m) \<Longrightarrow> x = k \<or> x \<in> fst ` set m"
    by (simp add: fst_btree_insert)
  with 2 show ?case by (auto simp: fst_btree_insert)
qed simp

lemma map_of_btree_insert: "map_of (btree_insert k v m) k' = (if k' = k then Some v else map_of m k')"
  by (induction m) (auto split: if_splits)

end
