(* ===== verification/Driver_Json_Roundtrip.thy ===== *)
theory Driver_Json_Roundtrip
  imports Driver_Json
begin

text \<open>
  Printing and parsing of the driver's JSON: every value the parser returns is well formed, and
  parsing what the printer wrote of a well-formed value returns that value.
\<close>

section \<open>Well-formed values\<close>

text \<open>The number grammar of JSON.\<close>

definition digits :: "string \<Rightarrow> bool" where
  "digits ds \<longleftrightarrow> ds \<noteq> [] \<and> list_all is_ascii_digit ds"

definition is_integer :: "string \<Rightarrow> bool" where
  "is_integer i \<longleftrightarrow> i = ''0'' \<or> digits i \<and> hd i \<noteq> CHR ''0''"

definition is_fraction :: "string \<Rightarrow> bool" where
  "is_fraction f \<longleftrightarrow> f = [] \<or> hd f = CHR ''.'' \<and> digits (tl f)"

definition is_exponent :: "string \<Rightarrow> bool" where
  "is_exponent e \<longleftrightarrow>
     e = [] \<or> (\<exists>c s ds. e = c # s @ ds \<and> (c = CHR ''e'' \<or> c = CHR ''E'') \<and>
                        (s = [] \<or> s = ''+'' \<or> s = ''-'') \<and> digits ds)"

definition is_number :: "string \<Rightarrow> bool" where
  "is_number n \<longleftrightarrow>
     (\<exists>s i f e. n = s @ i @ f @ e \<and> (s = [] \<or> s = ''-'') \<and> is_integer i \<and> is_fraction f \<and> is_exponent e)"

fun wf_djson :: "DJson \<Rightarrow> bool" where
  "wf_djson (DNumber n) \<longleftrightarrow> is_number n"
| "wf_djson (DString s) \<longleftrightarrow> utf8 s"
| "wf_djson (DArray vs) \<longleftrightarrow> (\<forall>v \<in> set vs. wf_djson v)"
| "wf_djson (DObject m) \<longleftrightarrow>
     sorted_wrt (<) (map fst m) \<and> (\<forall>e \<in> set m. utf8 (fst e) \<and> wf_djson (snd e))"
| "wf_djson _ \<longleftrightarrow> True"

section \<open>The cursor moves over what is consumed\<close>

definition eats :: "Parser \<Rightarrow> string \<Rightarrow> Parser \<Rightarrow> bool" where
  "eats p x q \<longleftrightarrow> ahead p = x @ ahead q \<and> cursor q = cursor p + length x"

lemma eats_refl [intro]: "eats p [] p"
  by (simp add: eats_def)

lemma eats_trans: "eats p x q \<Longrightarrow> eats q y r \<Longrightarrow> eats p (x @ y) r"
  by (simp add: eats_def)

lemma eats_advance: "peek p = Some c \<Longrightarrow> eats p [c] (advance (Suc 0) p)"
  by (cases "ahead p") (auto simp: eats_def peek_def advance_def)

lemma eats_skip_while: "eats p (takeWhile t (ahead p)) (skip_while t p)"
  by (simp add: eats_def skip_while_def advance_def dropWhile_eq_drop [symmetric])

lemma peek_eats: "peek p = Some c \<Longrightarrow> eats p x q \<Longrightarrow> x \<noteq> [] \<Longrightarrow> hd x = c"
  by (cases x) (auto simp: eats_def peek_def)

lemma skip_digits:
  assumes "peek_digit p"
  obtains ds where "digits ds" "eats p ds (skip_while is_ascii_digit p)"
proof
  show "eats p (takeWhile is_ascii_digit (ahead p)) (skip_while is_ascii_digit p)" by (rule eats_skip_while)
  show "digits (takeWhile is_ascii_digit (ahead p))"
    using assms by (cases "ahead p") (auto simp: digits_def peek_digit_def peek_def list_all_iff dest: set_takeWhileD)
qed

lemma integer_part_eats:
  assumes "integer_part p = Inr q"
  obtains i where "is_integer i" "eats p i q"
proof -
  from assms obtain c where c: "peek p = Some c" by (auto simp: integer_part_def split: option.splits)
  show thesis
  proof (cases "c = CHR ''0''")
    case True
    with assms c have "q = advance (Suc 0) p" by (auto simp: integer_part_def split: if_splits)
    with eats_advance [OF c] True show thesis by (intro that [of "''0''"]) (auto simp: is_integer_def)
  next
    case False
    with assms c have q: "is_ascii_digit c" "q = skip_while is_ascii_digit (advance (Suc 0) p)"
      by (auto simp: integer_part_def split: if_splits)
    let ?ds = "takeWhile is_ascii_digit (ahead (advance (Suc 0) p))"
    have "eats p ([c] @ ?ds) q" unfolding q by (rule eats_trans [OF eats_advance [OF c] eats_skip_while])
    moreover have "digits ([c] @ ?ds)" using q by (auto simp: digits_def list_all_iff dest: set_takeWhileD)
    ultimately show thesis using False by (intro that) (auto simp: is_integer_def)
  qed
qed

lemma fraction_part_eats:
  assumes "fraction_part p = Inr q"
  obtains f where "is_fraction f" "eats p f q"
proof (cases "peek p = Some (CHR ''.'')")
  case True
  with assms have q: "peek_digit (advance (Suc 0) p)" "q = skip_while is_ascii_digit (advance (Suc 0) p)"
    by (auto simp: fraction_part_def take_byte_def split: if_splits)
  from q(1) obtain ds where "digits ds" "eats (advance (Suc 0) p) ds q" unfolding q(2) by (rule skip_digits)
  with eats_trans [OF eats_advance [OF True]] show thesis by (intro that [of "CHR ''.'' # ds"]) (auto simp: is_fraction_def)
next
  case False
  with assms have "q = p" by (auto simp: fraction_part_def take_byte_def)
  then show thesis by (intro that [of "[]"]) (auto simp: is_fraction_def)
qed

lemma exponent_part_eats:
  assumes "exponent_part p = Inr q"
  obtains e where "is_exponent e" "eats p e q"
proof (cases "peek p = Some (CHR ''e'') \<or> peek p = Some (CHR ''E'')")
  case True
  then obtain c where c: "peek p = Some c" "c = CHR ''e'' \<or> c = CHR ''E''" by auto
  let ?p = "advance (Suc 0) p"
  define r where "r = (if peek ?p = Some (CHR ''+'') \<or> peek ?p = Some (CHR ''-'') then advance (Suc 0) ?p else ?p)"
  from assms True have q: "peek_digit r" "q = skip_while is_ascii_digit r"
    by (auto simp: exponent_part_def r_def Let_def split: if_splits)
  from q(1) obtain ds where ds: "digits ds" "eats r ds q" unfolding q(2) by (rule skip_digits)
  have "\<exists>s. (s = [] \<or> s = ''+'' \<or> s = ''-'') \<and> eats ?p s r" unfolding r_def using eats_advance [of ?p] by auto
  then obtain s where s: "s = [] \<or> s = ''+'' \<or> s = ''-''" "eats ?p s r" by blast
  have "eats p ([c] @ s @ ds) q" using eats_trans [OF eats_advance [OF c(1)] eats_trans [OF s(2) ds(2)]] .
  moreover have "is_exponent ([c] @ s @ ds)" using c(2) s(1) ds(1) by (auto simp: is_exponent_def)
  ultimately show thesis by (intro that)
next
  case False
  with assms have "q = p" by (auto simp: exponent_part_def)
  then show thesis by (intro that [of "[]"]) (auto simp: is_exponent_def)
qed

lemma number_eats:
  assumes "number p = Inr (n, q)"
  shows "is_number n" "eats p n q"
proof -
  obtain s p0 where s: "s = [] \<or> s = ''-''" "eats p s p0" "snd (take_byte (CHR ''-'') p) = p0"
    using eats_advance [of p "CHR ''-''"] by (cases "peek p = Some (CHR ''-'')") (auto simp: take_byte_def)
  from assms s(3) obtain p1 p2 where "integer_part p0 = Inr p1" "fraction_part p1 = Inr p2" "exponent_part p2 = Inr q"
    and n: "n = take (cursor q - cursor p) (ahead p)"
    by (auto simp: number_def bind_eq_Inr Let_def split: if_splits)
  then obtain i f e where *: "is_integer i" "is_fraction f" "is_exponent e"
    and "eats p0 i p1" "eats p1 f p2" "eats p2 e q"
    by (metis integer_part_eats fraction_part_eats exponent_part_eats)
  then have e: "eats p (s @ i @ f @ e) q" using s(2) by (intro eats_trans)
  then have "n = s @ i @ f @ e" by (auto simp: n eats_def)
  with e * s(1) show "is_number n" "eats p n q" by (auto simp: is_number_def)
qed

section \<open>What the parser returns is well formed\<close>

lemma string_loop_utf8: "string_loop bs p = Inr (s, q) \<Longrightarrow> utf8 s"
proof (induction bs p rule: string_loop.induct)
  case (1 bs p)
  from 1(3) obtain c where c: "peek p = Some c" by (auto simp: string_loop.simps [of bs p] split: option.splits)
  consider "c = CHR 34" | "c = CHR 92" | "c \<noteq> CHR 34" "c \<noteq> CHR 92" by blast
  then show ?case
  proof cases
    case 2
    with 1(3) c obtain out r where "escape (advance 1 p) = Inr (out, r)" "string_loop (bs @ out) r = Inr (s, q)"
      by (auto simp: string_loop.simps [of bs p] bind_eq_Inr)
    with "1.IH"(1) [OF c] 2 show ?thesis by auto
  next
    case 3
    with 1(3) c "1.IH"(2) [OF c] show ?thesis by (auto simp: string_loop.simps [of bs p] split: if_splits)
  qed (use 1(3) c in \<open>auto simp: string_loop.simps [of bs p] split: if_splits\<close>)
qed

lemma parse_string_utf8: "parse_string p = Inr (s, q) \<Longrightarrow> utf8 s"
  unfolding parse_string_def by (rule string_loop_utf8)

lemma set_btree_insert: "set (btree_insert k v m) \<subseteq> insert (k, v) (set m)"
  by (induction k v m rule: btree_insert.induct) auto

lemma wf_object_insert:
  assumes "wf_djson (DObject m)" "utf8 k" "wf_djson v"
  shows "wf_djson (DObject (btree_insert k v m))"
proof -
  have "utf8 (fst e) \<and> wf_djson (snd e)" if "e \<in> set (btree_insert k v m)" for e
    using that assms set_btree_insert [of k v m] by auto
  with assms(1) btree_insert_sorted [of m k v] show ?thesis by simp
qed

lemma parse_wf:
  "parse_value p = Inr (v, q) \<Longrightarrow> wf_djson v"
  "array_loop vs p = Inr (v, q) \<Longrightarrow> wf_djson (DArray vs) \<Longrightarrow> wf_djson v"
  "object_loop m p = Inr (v, q) \<Longrightarrow> wf_djson (DObject m) \<Longrightarrow> wf_djson v"
proof (induction p and vs p and m p arbitrary: v q and v q and v q
    rule: parse_value_array_loop_object_loop.induct)
  case (1 p)
  note eq = 1(3) [unfolded parse_value.simps [of p]]
  then obtain c where c: "peek p = Some c" by (auto split: option.splits)
  consider "c = CHR ''[''" | "c = CHR ''{''" | "c \<noteq> CHR ''[''" "c \<noteq> CHR ''{''" by blast
  then show ?case
  proof cases
    case 1
    with eq c obtain b r where r: "take_byte (CHR '']'') (skip_space (advance 1 p)) = (b, r)"
      "v = DArray [] \<or> \<not> b \<and> array_loop [] r = Inr (v, q)" by (auto split: prod.splits bool.splits)
    moreover have "\<not> b \<Longrightarrow> array_loop [] r = Inr (v, q) \<Longrightarrow> wf_djson v"
      using \<open>c = CHR ''[''\<close> by - (rule "1.IH"(1) [OF c _ _ _ _ _ r(1) [symmetric]], auto)
    ultimately show ?thesis by auto
  next
    case 2
    with eq c obtain b r where r: "take_byte (CHR ''}'') (skip_space (advance 1 p)) = (b, r)"
      "v = DObject [] \<or> \<not> b \<and> object_loop [] r = Inr (v, q)" by (auto split: prod.splits bool.splits)
    moreover have "\<not> b \<Longrightarrow> object_loop [] r = Inr (v, q) \<Longrightarrow> wf_djson v"
      using \<open>c = CHR ''{''\<close> by - (rule "1.IH"(2) [OF c _ _ _ _ _ _ r(1) [symmetric]], auto)
    ultimately show ?thesis by auto
  next
    case 3
    then have "v = DNull \<or> (\<exists>b. v = DBool b) \<or> (\<exists>t r. v = DString t \<and> parse_string p = Inr (t, r)) \<or>
        (\<exists>n r. v = DNumber n \<and> number p = Inr (n, r))"
      using eq unfolding c option.case by (simp add: parse_cases split: if_split_asm) blast+
    then show ?thesis by (auto dest: parse_string_utf8 number_eats(1))
  qed
next
  case (2 vs p)
  from 2(3) obtain v1 r b r1 where r: "parse_value (skip_space p) = Inr (v1, r)"
      "take_byte (CHR '']'') (skip_space r) = (b, r1)"
    and eq: "v = DArray (vs @ [v1]) \<or> \<not> b \<and> (\<exists>r2. take_byte (CHR '','') r1 = (True, r2) \<and> array_loop (vs @ [v1]) r2 = Inr (v, q))"
    unfolding array_loop.simps [of vs p] by (auto split: sum.splits prod.splits bool.splits)
  have wf: "wf_djson (DArray (vs @ [v1]))" using 2(1) [OF r(1)] 2(4) by auto
  from eq show ?case
  proof
    assume "\<not> b \<and> (\<exists>r2. take_byte (CHR '','') r1 = (True, r2) \<and> array_loop (vs @ [v1]) r2 = Inr (v, q))"
    then obtain r2 where "b = False" "take_byte (CHR '','') r1 = (True, r2)" "array_loop (vs @ [v1]) r2 = Inr (v, q)" by auto
    from 2(2) [OF r(1) refl r(2) [symmetric] this(1) this(2) [symmetric] refl this(3) wf] show ?thesis .
  qed (use wf in simp)
next
  case (3 m p)
  from 3(3) obtain k r r1 v1 r2 b r3 where r: "\<not> peek (skip_space p) \<noteq> Some (CHR 34)"
      "parse_string (skip_space p) = Inr (k, r)" "take_byte (CHR '':'') (skip_space r) = (True, r1)"
      "parse_value (skip_space r1) = Inr (v1, r2)" "take_byte (CHR ''}'') (skip_space r2) = (b, r3)"
    and eq: "v = DObject (btree_insert k v1 m) \<or>
      \<not> b \<and> (\<exists>r4. take_byte (CHR '','') r3 = (True, r4) \<and> object_loop (btree_insert k v1 m) r4 = Inr (v, q))"
    unfolding object_loop.simps [of m p] by (auto split: sum.splits prod.splits bool.splits if_splits)
  have "wf_djson v1" by (rule 3(1) [OF r(1,2) refl r(3) [symmetric] refl r(4)])
  then have wf: "wf_djson (DObject (btree_insert k v1 m))"
    using 3(4) parse_string_utf8 [OF r(2)] by (intro wf_object_insert)
  from eq show ?case
  proof
    assume "\<not> b \<and> (\<exists>r4. take_byte (CHR '','') r3 = (True, r4) \<and> object_loop (btree_insert k v1 m) r4 = Inr (v, q))"
    then obtain r4 where "b = False" "take_byte (CHR '','') r3 = (True, r4)" "object_loop (btree_insert k v1 m) r4 = Inr (v, q)" by auto
    from 3(2) [OF r(1,2) refl r(3) [symmetric] refl r(4) refl r(5) [symmetric] this(1) this(2) [symmetric] refl this(3) wf]
    show ?thesis .
  qed (use wf in simp)
qed

section \<open>Reading back what was printed\<close>

abbreviation at :: "nat \<Rightarrow> string \<Rightarrow> Parser" where
  "at n s \<equiv> \<lparr>cursor = n, ahead = s\<rparr>"

lemma at_simps [simp]:
  "peek (at n (c # s)) = Some c" "peek (at n []) = None"
  "advance (Suc 0) (at n (c # s)) = at (Suc n) s"
  "take_byte c (at n (d # s)) = (if c = d then (True, at (Suc n) s) else (False, at n (d # s)))"
  "take_byte c (at n []) = (False, at n [])"
  "skip_space (at n []) = at n []"
  by (simp_all add: peek_def advance_def take_byte_def skip_space_def skip_while_def)

lemma skip_space_at [simp]: "\<not> is_space c \<Longrightarrow> skip_space (at n (c # s)) = at n (c # s)"
  by (simp add: advance_def skip_space_def skip_while_def)

definition halts :: "(char \<Rightarrow> bool) \<Rightarrow> string \<Rightarrow> bool" where
  "halts t r \<longleftrightarrow> (case r of [] \<Rightarrow> True | c # _ \<Rightarrow> \<not> t c)"

lemma halts_simps [simp]: "halts t []" "halts t (c # r) \<longleftrightarrow> \<not> t c"
  by (simp_all add: halts_def)

lemma skip_while_at: "list_all t ds \<Longrightarrow> halts t r \<Longrightarrow> skip_while t (at n (ds @ r)) = at (n + length ds) r"
  by (cases r) (auto simp: skip_while_def advance_def takeWhile_append list_all_iff takeWhile_eq_all_conv [THEN iffD2])

lemma peek_digit_at [simp]: "peek_digit (at n (c # s)) \<longleftrightarrow> is_ascii_digit c" "\<not> peek_digit (at n [])"
  by (simp_all add: peek_digit_def)

lemma digit_bytes: "is_ascii_digit c \<longleftrightarrow> 48 \<le> byte c \<and> byte c \<le> 57"
  by (simp add: is_ascii_digit_def)

lemma digits_cases:
  assumes "digits ds"
  obtains c cs where "ds = c # cs" "is_ascii_digit c" "list_all is_ascii_digit cs"
  using assms by (cases ds) (auto simp: digits_def)

lemma integer_part_at:
  assumes "is_integer i" "halts is_ascii_digit r"
  shows "integer_part (at n (i @ r)) = Inr (at (n + length i) r)"
proof (cases "i = ''0''")
  case True
  then show ?thesis using assms(2) by (cases r) (auto simp: integer_part_def)
next
  case False
  with assms(1) obtain c cs where "i = c # cs" "is_ascii_digit c" "list_all is_ascii_digit cs" "c \<noteq> CHR ''0''"
    by (auto simp: is_integer_def elim!: digits_cases)
  then show ?thesis using skip_while_at [OF _ assms(2)] by (simp add: integer_part_def)
qed

lemma fraction_part_at:
  assumes "is_fraction f" "halts is_ascii_digit r" "f = [] \<Longrightarrow> halts (\<lambda>c. c = CHR ''.'') r"
  shows "fraction_part (at n (f @ r)) = Inr (at (n + length f) r)"
proof (cases f)
  case Nil
  then show ?thesis using assms(3) by (cases r) (auto simp: fraction_part_def)
next
  case (Cons d ds)
  with assms(1) have d: "d = CHR ''.''" "digits ds" by (auto simp: is_fraction_def)
  from d(2) obtain c cs where "ds = c # cs" "is_ascii_digit c" by (rule digits_cases)
  moreover have "list_all is_ascii_digit ds" using d(2) by (simp add: digits_def)
  ultimately show ?thesis using Cons d(1) skip_while_at [of is_ascii_digit ds r "Suc n"] assms(2)
    by (simp add: fraction_part_def)
qed

lemma exponent_part_at:
  assumes "is_exponent e" "halts is_ascii_digit r" "halts (\<lambda>c. c = CHR ''e'' \<or> c = CHR ''E'') r"
  shows "exponent_part (at n (e @ r)) = Inr (at (n + length e) r)"
proof (cases e)
  case Nil
  then show ?thesis using assms(3) by (cases r) (auto simp: exponent_part_def)
next
  case (Cons d ds)
  with assms(1) obtain s cs where d: "d = CHR ''e'' \<or> d = CHR ''E''"
    and s: "ds = s @ cs" "s = [] \<or> s = ''+'' \<or> s = ''-''" "digits cs"
    unfolding is_exponent_def by blast
  from s(3) obtain c cs' where c: "cs = c # cs'" "is_ascii_digit c" by (rule digits_cases)
  have "list_all is_ascii_digit cs" using s(3) by (simp add: digits_def)
  then have sk: "skip_while is_ascii_digit (at k (cs @ r)) = at (k + length cs) r" for k
    by (rule skip_while_at [OF _ assms(2)])
  have "c \<noteq> CHR ''+''" "c \<noteq> CHR ''-''" using c(2) by (auto simp: is_ascii_digit_def byte_def)
  then show ?thesis using Cons d s(1,2) c sk [unfolded c(1)] by (auto simp: exponent_part_def Let_def)
qed

lemma digits_ascii: "list_all is_ascii_digit ds \<Longrightarrow> list_all (\<lambda>c. byte c < 128) ds"
  by (auto simp: list_all_iff is_ascii_digit_def)

lemma number_ascii: "is_number n \<Longrightarrow> list_all (\<lambda>c. byte c < 128) n"
proof -
  have i: "is_integer i \<Longrightarrow> list_all (\<lambda>c. byte c < 128) i" for i
    by (auto simp: is_integer_def digits_def byte_def [of "CHR ''0''"] dest: digits_ascii)
  have f: "is_fraction f \<Longrightarrow> list_all (\<lambda>c. byte c < 128) f" for f
    by (cases f) (auto simp: is_fraction_def digits_def byte_def [of "CHR ''.''"] dest: digits_ascii)
  have e: "is_exponent e \<Longrightarrow> list_all (\<lambda>c. byte c < 128) e" for e
    by (auto simp: is_exponent_def digits_def byte_def [of "CHR ''e''"]
        byte_def [of "CHR ''E''"] byte_def [of "CHR ''+''"] byte_def [of "CHR ''-''"] dest: digits_ascii)
  assume "is_number n"
  then show ?thesis using i f e by (auto simp: is_number_def byte_def [of "CHR ''-''"])
qed

text \<open>What follows a printed value: the end, or a separator.\<close>

definition stop :: "string \<Rightarrow> bool" where
  "stop r \<longleftrightarrow> r = [] \<or> hd r \<in> {CHR '','', CHR '']'', CHR ''}''}"

lemma stop_halts:
  "stop r \<Longrightarrow> halts is_ascii_digit r" "stop r \<Longrightarrow> halts (\<lambda>c. c = CHR ''.'') r"
  "stop r \<Longrightarrow> halts (\<lambda>c. c = CHR ''e'' \<or> c = CHR ''E'') r"
  by (cases r; auto simp: stop_def is_ascii_digit_def byte_def)+

lemma number_at:
  assumes "is_number m" "stop r"
  shows "number (at n (m @ r)) = Inr (m, at (n + length m) r)"
proof -
  obtain s i f e where m: "m = s @ i @ f @ e" and s: "s = [] \<or> s = ''-''"
    and p: "is_integer i" "is_fraction f" "is_exponent e"
    using assms(1) by (auto simp: is_number_def)
  have hi: "i \<noteq> []" "hd i \<noteq> CHR ''-''" using p(1) by (auto simp: is_integer_def is_ascii_digit_def byte_def elim!: digits_cases)
  have sign: "snd (take_byte (CHR ''-'') (at n (m @ r))) = at (n + length s) (i @ f @ e @ r)"
    using s hi by (cases i) (auto simp: m)
  have he: "halts is_ascii_digit (e @ r)" "f = [] \<Longrightarrow> halts (\<lambda>c. c = CHR ''.'') (e @ r)"
    using p(3) stop_halts [OF assms(2)] by (cases e; auto simp: is_exponent_def is_ascii_digit_def byte_def)+
  have hf: "halts is_ascii_digit (f @ e @ r)"
    using p(2) he(1) by (cases f) (auto simp: is_fraction_def is_ascii_digit_def byte_def)
  have "utf8 m" by (rule ascii_utf8 [OF number_ascii [OF assms(1)]])
  then show ?thesis
    unfolding number_def sign
    using integer_part_at [OF p(1) hf] fraction_part_at [OF p(2) he] exponent_part_at [OF p(3) stop_halts(1,3) [OF assms(2)]]
    by (simp add: m Let_def)
qed

lemma hex_value_digit: "n < 16 \<Longrightarrow> hex_value (hex_digit n) = Some n"
  by (auto simp: hex_value_def hex_digit_def byte_def)

lemma encode_ascii: "byte c < 128 \<Longrightarrow> encode_utf8 (byte c) = [c]"
  by (simp add: encode_utf8_def) (simp add: byte_def)

lemma hex_quad_at:
  "hex_quad (at n (a # b # c # d # r)) = hex_quad_loop (Suc (Suc (Suc (Suc 0)))) 0 (at n (a # b # c # d # r))"
  by (simp add: hex_quad_def eval_nat_numeral del: hex_quad_loop.simps)

lemma control_escape:
  assumes "byte c \<le> 31"
  shows "escape (at n (CHR ''u'' # CHR ''0'' # CHR ''0'' # hex_digit (byte c div 16) # hex_digit (byte c mod 16) # r))
           = Inr ([c], at (Suc (Suc (Suc (Suc (Suc n))))) r)"
proof -
  have z: "hex_value (CHR ''0'') = Some 0" by (simp add: hex_value_def byte_def)
  have "hex_quad (at (Suc n) (CHR ''0'' # CHR ''0'' # hex_digit (byte c div 16) # hex_digit (byte c mod 16) # r))
      = Inr (byte c, at (Suc (Suc (Suc (Suc (Suc n))))) r)"
    using assms by (simp add: hex_quad_at z hex_value_digit)
  then show ?thesis
    using assms by (simp add: escape_def Let_def unicode_escape_def is_scalar_value_def encode_ascii)
qed

lemma string_loop_at:
  assumes "utf8 (bs @ s)"
  shows "string_loop bs (at n (concat (map escape_byte s) @ CHR 34 # r))
           = Inr (bs @ s, at (n + length (concat (map escape_byte s)) + 1) r)"
  using assms
proof (induction s arbitrary: bs n)
  case Nil
  then show ?case by (simp add: string_loop.simps)
next
  case (Cons c s)
  let ?rest = "concat (map escape_byte s) @ CHR 34 # r"
  have step: "string_loop bs (at n (escape_byte c @ ?rest)) = string_loop (bs @ [c]) (at (n + length (escape_byte c)) ?rest)"
  proof -
    consider (short) d where "escape_byte c = [CHR 92, d]" "escape (at (Suc n) (d # ?rest)) = Inr ([c], at (Suc (Suc n)) ?rest)"
      | (ctrl) "byte c \<le> 31" "escape_byte c = [CHR 92, CHR ''u'', CHR ''0'', CHR ''0'', hex_digit (byte c div 16), hex_digit (byte c mod 16)]"
      | (plain) "escape_byte c = [c]" "c \<noteq> CHR 34" "c \<noteq> CHR 92" "\<not> byte c \<le> 31"
      by (force simp: escape_byte_def escape_def Let_def split: if_splits)
    then show ?thesis
    proof cases
      case short
      then show ?thesis by (simp add: string_loop.simps [of bs])
    next
      case ctrl
      then show ?thesis using control_escape [of c "Suc n" ?rest] by (simp add: string_loop.simps [of bs])
    next
      case plain
      then show ?thesis by (simp add: string_loop.simps [of bs])
    qed
  qed
  have "utf8 ((bs @ [c]) @ s)" using Cons.prems by simp
  from Cons.IH [OF this, of "n + length (escape_byte c)"] show ?case using step by simp
qed

lemma parse_string_at:
  "utf8 s \<Longrightarrow> parse_string (at n (write_string s @ r)) = Inr (s, at (n + length (write_string s)) r)"
  using string_loop_at [of "[]" s "Suc n" r] by (simp add: parse_string_def write_string_def)

lemma write_string_Cons: "\<exists>t. write_string s = CHR 34 # t"
  by (simp add: write_string_def)

text \<open>How a printed value starts.\<close>

definition starts_value :: "char \<Rightarrow> bool" where
  "starts_value c \<longleftrightarrow> \<not> is_space c \<and> c \<noteq> CHR '']'' \<and> c \<noteq> CHR ''}''"

lemma starts_value_chars [simp]:
  "starts_value (CHR ''n'')" "starts_value (CHR ''t'')" "starts_value (CHR ''f'')" "starts_value (CHR 34)"
  "starts_value (CHR ''['')" "starts_value (CHR ''{'')" "starts_value (CHR ''-'')"
  by (simp_all add: starts_value_def is_space_def)

lemma starts_value_digit: "is_ascii_digit c \<Longrightarrow> starts_value c"
  by (auto simp: starts_value_def is_space_def is_ascii_digit_def byte_def)

lemma number_starts:
  assumes "is_number n"
  obtains c t where "n = c # t" "c = CHR ''-'' \<or> is_ascii_digit c"
proof -
  obtain s i f e where n: "n = s @ i @ f @ e" "s = [] \<or> s = ''-''" "is_integer i" using assms by (auto simp: is_number_def)
  obtain c t where i: "i = c # t" "is_ascii_digit c"
  proof (cases "i = ''0''")
    case True
    then show thesis by (intro that [of "CHR ''0''" "[]"]) (simp_all add: is_ascii_digit_def byte_def)
  next
    case False
    then have "digits i" using n(3) by (simp add: is_integer_def)
    then show thesis by (elim digits_cases) (rule that)
  qed
  show thesis
  proof (cases "s = []")
    case True
    with n(1) i show thesis by (intro that [of c "t @ f @ e"]) simp_all
  next
    case False
    with n(1,2) show thesis by (intro that [of "CHR ''-''" "i @ f @ e"]) simp_all
  qed
qed

lemma write_to_starts:
  assumes "wf_djson v"
  obtains c t where "write_to v = c # t" "starts_value c"
proof (cases v)
  case (DNumber n)
  with assms obtain c t where "n = c # t" "c = CHR ''-'' \<or> is_ascii_digit c"
    by (auto elim: number_starts)
  with DNumber show thesis by (intro that [of c t]) (auto simp: starts_value_digit)
next
  case (DBool b)
  then show thesis using that by (cases b) auto
qed (use that in \<open>auto simp: write_string_def split: if_splits\<close>)

lemma btree_insert_last: "(\<forall>e \<in> set m. fst e < k) \<Longrightarrow> btree_insert k v m = m @ [(k, v)]"
  by (induction k v m rule: btree_insert.induct) auto

lemma fold_insert_sorted:
  "sorted_wrt (<) (map fst es) \<Longrightarrow> (\<forall>e \<in> set m. \<forall>k \<in> fst ` set es. fst e < k) \<Longrightarrow>
     fold (\<lambda>(k, v). btree_insert k v) es m = m @ es"
proof (induction es arbitrary: m)
  case (Cons e es)
  obtain k v where e: "e = (k, v)" by fastforce
  have "btree_insert k v m = m @ [(k, v)]" using Cons.prems by (intro btree_insert_last) (auto simp: e)
  with Cons show ?case by (auto simp: e)
qed simp

lemma number_start_char:
  assumes "c = CHR ''-'' \<or> is_ascii_digit c"
  shows "c \<noteq> CHR ''n'' \<and> c \<noteq> CHR ''t'' \<and> c \<noteq> CHR ''f'' \<and> c \<noteq> CHR 34 \<and> c \<noteq> CHR ''['' \<and> c \<noteq> CHR ''{''"
  using assms by (auto simp: is_ascii_digit_def byte_def)

lemma literal_at: "literal l (at n (l @ r)) = Inr (at (n + length l) r)"
  by (simp add: literal_def advance_def)

lemma stop_simps [simp]: "stop []" "stop (CHR '','' # r)" "stop (CHR '']'' # r)" "stop (CHR ''}'' # r)"
  by (simp_all add: stop_def)

lemma separators_not_space [simp]: "\<not> is_space (CHR '','')" "\<not> is_space (CHR '']'')" "\<not> is_space (CHR ''}'')" "\<not> is_space (CHR '':'')" "\<not> is_space (CHR 34)"
  by (simp_all add: is_space_def)

lemma skip_space_value: "wf_djson v \<Longrightarrow> skip_space (at n (write_to v @ r)) = at n (write_to v @ r)"
  by (auto simp: starts_value_def elim!: write_to_starts)

lemma skip_space_string: "skip_space (at n (write_string s @ r)) = at n (write_string s @ r)"
  by (simp add: write_string_def)

lemma not_closed:
  "wf_djson v \<Longrightarrow> d \<in> {CHR '']'', CHR ''}''} \<Longrightarrow> take_byte d (at n (write_to v @ r)) = (False, at n (write_to v @ r))"
  by (auto simp: starts_value_def elim!: write_to_starts)

lemma array_loop_step:
  assumes "wf_djson v" "\<And>n r. stop r \<Longrightarrow> parse_value (at n (write_to v @ r)) = Inr (v, at (n + length (write_to v)) r)"
  shows "array_loop vs (at n (write_to v @ CHR '']'' # r)) = Inr (DArray (vs @ [v]), at (n + length (write_to v) + 1) r)"
    "array_loop vs (at n (write_to v @ CHR '','' # r)) = array_loop (vs @ [v]) (at (n + length (write_to v) + 1) r)"
  by (simp_all add: array_loop.simps [of vs] skip_space_value [OF assms(1)] assms(2))

lemma object_loop_step:
  assumes "utf8 k" "wf_djson v" "\<And>n r. stop r \<Longrightarrow> parse_value (at n (write_to v @ r)) = Inr (v, at (n + length (write_to v)) r)"
  shows "object_loop m (at n (write_string k @ CHR '':'' # write_to v @ CHR ''}'' # r))
      = Inr (DObject (btree_insert k v m), at (n + length (write_string k) + length (write_to v) + 2) r)"
    "object_loop m (at n (write_string k @ CHR '':'' # write_to v @ CHR '','' # r))
      = object_loop (btree_insert k v m) (at (n + length (write_string k) + length (write_to v) + 2) r)"
proof -
  have "peek (at n (write_string k @ s)) = Some (CHR 34)" for s by (simp add: write_string_def)
  then show "object_loop m (at n (write_string k @ CHR '':'' # write_to v @ CHR ''}'' # r))
      = Inr (DObject (btree_insert k v m), at (n + length (write_string k) + length (write_to v) + 2) r)"
    "object_loop m (at n (write_string k @ CHR '':'' # write_to v @ CHR '','' # r))
      = object_loop (btree_insert k v m) (at (n + length (write_string k) + length (write_to v) + 2) r)"
    by (simp_all add: object_loop.simps [of m] skip_space_string skip_space_value [OF assms(2)] assms(3)
        parse_string_at [OF assms(1)])
qed

lemma write_items_Cons: "xs \<noteq> [] \<Longrightarrow> write_items (v # xs) = write_to v @ CHR '','' # write_items xs"
  by (cases xs) auto

lemma write_entries_Cons:
  "m \<noteq> [] \<Longrightarrow> write_entries ((k, v) # m) = write_string k @ CHR '':'' # write_to v @ CHR '','' # write_entries m"
  by (cases m) auto

abbreviation insert_all :: "(string \<times> DJson) list \<Rightarrow> (string \<times> DJson) list \<Rightarrow> (string \<times> DJson) list" where
  "insert_all es m \<equiv> fold (\<lambda>(k, v). btree_insert k v) es m"

lemma parse_scalar_at:
  "parse_value (at n (''null'' @ r)) = Inr (DNull, at (n + 4) r)"
  "parse_value (at n (''true'' @ r)) = Inr (DBool True, at (n + 4) r)"
  "parse_value (at n (''false'' @ r)) = Inr (DBool False, at (n + 5) r)"
  using literal_at [of "''null''" n r] literal_at [of "''true''" n r] literal_at [of "''false''" n r]
  by (simp_all add: parse_value.simps [of "at n _"])

lemma parse_number_at:
  assumes "is_number m" "stop r"
  shows "parse_value (at n (m @ r)) = Inr (DNumber m, at (n + length m) r)"
proof -
  from assms(1) obtain c t where m: "m = c # t" "c = CHR ''-'' \<or> is_ascii_digit c" by (rule number_starts)
  with number_start_char [OF m(2)] number_at [OF assms, of n] show ?thesis
    by (simp add: parse_value.simps [of "at n (c # t @ r)"])
qed

lemma parse_text_at:
  assumes "utf8 s"
  shows "parse_value (at n (write_string s @ r)) = Inr (DString s, at (n + length (write_string s)) r)"
proof -
  have "peek (at n (write_string s @ r)) = Some (CHR 34)" by (simp add: write_string_def)
  with parse_string_at [OF assms, of n r] show ?thesis by (simp add: parse_value.simps [of "at n _"])
qed

lemma read_back:
  "wf_djson v \<Longrightarrow> stop r \<Longrightarrow> parse_value (at n (write_to v @ r)) = Inr (v, at (n + length (write_to v)) r)"
  "xs \<noteq> [] \<Longrightarrow> wf_djson (DArray xs) \<Longrightarrow>
     array_loop vs (at n (write_items xs @ CHR '']'' # t))
       = Inr (DArray (vs @ xs), at (n + length (write_items xs) + 1) t)"
  "es \<noteq> [] \<Longrightarrow> \<forall>e \<in> set es. utf8 (fst e) \<and> wf_djson (snd e) \<Longrightarrow>
     object_loop m (at n (write_entries es @ CHR ''}'' # t))
       = Inr (DObject (insert_all es m), at (n + length (write_entries es) + 1) t)"
proof (induction v and xs and es arbitrary: n r and vs n t and m n t rule: write_to_write_items_write_entries.induct)
  case (5 xs)
  show ?case
  proof (cases xs)
    case Nil
    then show ?thesis by (simp add: parse_value.simps [of "at n _"])
  next
    case (Cons v xs')
    then have v: "wf_djson v" using "5.prems" by auto
    have w: "write_items xs = write_to v @ (if xs' = [] then [] else CHR '','' # write_items xs')"
      using Cons by (cases xs') auto
    have "parse_value (at n (write_to (DArray xs) @ r)) = array_loop [] (at (Suc n) (write_items xs @ CHR '']'' # r))"
      using not_closed [OF v, of "CHR '']''" "Suc n"] skip_space_value [OF v, of "Suc n"]
      by (simp add: parse_value.simps [of "at n _"] w)
    then show ?thesis using "5.IH" [of "[]" "Suc n" r] Cons "5.prems" by simp
  qed
next
  case (6 es)
  show ?case
  proof (cases es)
    case Nil
    then show ?thesis by (simp add: parse_value.simps [of "at n _"])
  next
    case (Cons e es')
    obtain u where w: "write_entries es = CHR 34 # u"
      using Cons by (cases e; cases es') (auto simp: write_string_def)
    have "parse_value (at n (write_to (DObject es) @ r)) = object_loop [] (at (Suc n) (write_entries es @ CHR ''}'' # r))"
      by (simp add: parse_value.simps [of "at n _"] w)
    moreover have "insert_all es [] = es" using fold_insert_sorted [of es "[]"] "6.prems" by simp
    ultimately show ?thesis using "6.IH" [of "[]" "Suc n" r] Cons "6.prems" by simp
  qed
next
  case (8 v)
  then show ?case using array_loop_step(1) [of v vs n t] by simp
next
  case (9 v w xs)
  have "array_loop vs (at n (write_to v @ CHR '','' # write_items (w # xs) @ CHR '']'' # t))
      = array_loop (vs @ [v]) (at (n + length (write_to v) + 1) (write_items (w # xs) @ CHR '']'' # t))"
    using "9.prems" "9.IH"(1) by (intro array_loop_step) auto
  then show ?case using "9.IH"(2) [of "vs @ [v]" "n + length (write_to v) + 1" t] "9.prems" by simp
next
  case (11 k v)
  then show ?case using object_loop_step(1) [of k v m n t] by simp
next
  case (12 k v e es)
  have "object_loop m (at n (write_string k @ CHR '':'' # write_to v @ CHR '','' # write_entries (e # es) @ CHR ''}'' # t))
      = object_loop (btree_insert k v m)
          (at (n + length (write_string k) + length (write_to v) + 2) (write_entries (e # es) @ CHR ''}'' # t))"
    using "12.prems" "12.IH"(1) by (intro object_loop_step) auto
  then show ?case
    using "12.IH"(2) [of "btree_insert k v m" "n + length (write_string k) + length (write_to v) + 2" t] "12.prems"
    by simp
qed (use parse_scalar_at parse_number_at parse_text_at in auto)

lemma parse_stringify_wf:
  assumes "wf_djson v"
  shows "parse (stringify v) = Inr v"
  using read_back(1) [OF assms, of "[]" 0] skip_space_value [OF assms, of 0 "[]"]
  by (simp add: parse_def stringify_def new_parser_def)

section \<open>Properties\<close>

text \<open>
  C35. Whatever document the driver accepts, the value it reads is well formed and survives printing:
  parsing its canonical text returns the same value.
\<close>

theorem parse_stringify:
  assumes "parse s = Inr v"
  shows "wf_djson v \<and> parse (stringify v) = Inr v"
proof -
  from assms obtain q where "parse_value (skip_space (new_parser s)) = Inr (v, q)"
    by (auto simp: parse_def bind_eq_Inr split: if_splits)
  then have "wf_djson v" by (rule parse_wf(1))
  then show ?thesis by (simp add: parse_stringify_wf)
qed

theorem parse_stringify_witness:
  "parse (stringify (DObject [(''a'', DNumber ''2''), (''b'', DArray [DNumber ''-1'', DNull])]))
     = Inr (DObject [(''a'', DNumber ''2''), (''b'', DArray [DNumber ''-1'', DNull])])"
proof -
  have "parse ''{ \"b\" : [-1, null] , \"a\":2}''
      = Inr (DObject [(''a'', DNumber ''2''), (''b'', DArray [DNumber ''-1'', DNull])])"
    by (simp add: parse_def new_parser_def parse_value.simps array_loop.simps object_loop.simps parse_string_def
        string_loop.simps skip_space_def skip_while_def advance_def peek_def take_byte_def is_space_def number_def
        integer_part_def fraction_part_def exponent_part_def peek_digit_def is_ascii_digit_def byte_def literal_def
        Let_def ascii_bytes)
  then show ?thesis using parse_stringify by blast
qed

end
