(* ===== verification/Campaign_Refs.thy ===== *)
theory Campaign_Refs
  imports Sha256 Json_Value
begin

text \<open>
  The hidden refs of a campaign: how the driver names them (\<open>spec-build-driver/src/actions.rs\<close>) and
  how the lease decision of \<open>tally-core\<close> reads the names back (\<open>campaign_lease.rs\<close>,
  \<open>campaign_publish.rs\<close>).
\<close>

section \<open>Identifiers\<close>

definition hex_char :: "char \<Rightarrow> bool" where
  "hex_char c \<longleftrightarrow> is_ascii_digit c \<or> 97 \<le> byte c \<and> byte c \<le> 102"

definition is_object_id :: "string \<Rightarrow> bool" where
  "is_object_id v \<longleftrightarrow> (length v = 40 \<or> length v = 64) \<and> list_all hex_char v"

definition is_full_oid :: "string \<Rightarrow> bool" where
  "is_full_oid v \<longleftrightarrow> 40 \<le> length v \<and> length v \<le> 64 \<and> list_all hex_char v"

definition is_lowercase_hex :: "string \<Rightarrow> nat \<Rightarrow> bool" where
  "is_lowercase_hex v n \<longleftrightarrow> length v = n \<and> list_all hex_char v"

definition is_sha256_identity :: "string \<Rightarrow> bool" where
  "is_sha256_identity v \<longleftrightarrow> length v = 71 \<and> starts_with v ''sha256:'' \<and> list_all hex_char (drop 7 v)"

definition task_char :: "char \<Rightarrow> bool" where
  "task_char c \<longleftrightarrow> is_ascii_lowercase c \<or> is_ascii_digit c"

definition is_task_id :: "string \<Rightarrow> bool" where
  "is_task_id v \<longleftrightarrow>
     v \<noteq> [] \<and> task_char (hd v) \<and> task_char (last v) \<and> list_all (\<lambda>c. task_char c \<or> c = CHR ''-'') v"

section \<open>Names the driver writes\<close>

definition str_bytes :: "string \<Rightarrow> u8 list" where
  "str_bytes s = map (\<lambda>c. of_nat (byte c)) s"

definition state_scope :: "string \<Rightarrow> string \<Rightarrow> string" where
  "state_scope campaign issue_number =
     take 24 (digest (str_bytes campaign @ [0] @ str_bytes issue_number))"

definition local_state_prefix :: "string \<Rightarrow> string \<Rightarrow> string" where
  "local_state_prefix campaign issue_number =
     ''refs/tally/spec-build/v1/'' @ state_scope campaign issue_number"

definition checkpoint_ref ::
  "string \<Rightarrow> string \<Rightarrow> string \<Rightarrow> string \<Rightarrow> string \<Rightarrow> string + string" where
  "checkpoint_ref campaign issue_number task_id source_sha256 base_rev =
     (if \<not> is_sha256_identity source_sha256
      then Inl ''worklist source digest is not a lowercase SHA-256 identity''
      else if \<not> is_full_oid base_rev
      then Inl ''checkpoint base revision must be a full Git object ID''
      else Inr (local_state_prefix campaign issue_number @ ''/checkpoint/'' @ task_id @ ''-'' @
                drop 7 source_sha256 @ ''/'' @ base_rev))"

text \<open>\<open>trim_start_matches("sha256:")\<close>, and the slice \<open>[..16]\<close> that panics on shorter text.\<close>

function trim_sha256 :: "string \<Rightarrow> string" where
  "trim_sha256 s = (case strip_prefix s ''sha256:'' of None \<Rightarrow> s | Some r \<Rightarrow> trim_sha256 r)"
  by pat_completeness auto
termination
  by (relation "measure length") (auto simp: strip_prefix_Some)

declare trim_sha256.simps [simp del]

definition merge_receipt_reference ::
  "string \<Rightarrow> string \<Rightarrow> string \<Rightarrow> string option \<Rightarrow> string option" where
  "merge_receipt_reference campaign identity task_id revision =
     (case revision of
        None \<Rightarrow> Some (local_state_prefix campaign identity @ ''/merge/'' @ task_id)
      | Some r \<Rightarrow>
          if length (trim_sha256 r) < 16 then None
          else Some (local_state_prefix campaign identity @ ''/merge/'' @ task_id @ ''-'' @ take 16 (trim_sha256 r)))"

section \<open>Names the lease decision reads\<close>

text \<open>\<open>reference.strip_suffix(sha)\<close> with a prefix that ends in a slash.\<close>

definition ends_with :: "string \<Rightarrow> string \<Rightarrow> bool" where
  "ends_with s t \<longleftrightarrow> length t \<le> length s \<and> drop (length s - length t) s = t"

definition proof_names_revision :: "string \<Rightarrow> string \<Rightarrow> bool" where
  "proof_names_revision reference sha \<longleftrightarrow>
     is_object_id sha \<and> ends_with reference sha \<and>
     ends_with (take (length reference - length sha) reference) ''/''"

definition WORKLIST_DIGEST_HEX :: nat where
  "WORKLIST_DIGEST_HEX = 64"

definition MERGE_REVISION_HEX :: nat where
  "MERGE_REVISION_HEX = 16"

definition merge_names_task :: "string \<Rightarrow> string \<Rightarrow> bool" where
  "merge_names_task suffix task_id =
     (case strip_prefix suffix task_id of
        None \<Rightarrow> False
      | Some r \<Rightarrow>
          r = [] \<or>
          is_some_and (\<lambda>revision. is_lowercase_hex revision MERGE_REVISION_HEX) (strip_prefix r ''-''))"

definition checkpoint_names_task :: "string \<Rightarrow> string \<Rightarrow> bool" where
  "checkpoint_names_task suffix task_id =
     (case split_once (CHR ''/'') suffix of
        None \<Rightarrow> False
      | Some (head, revision) \<Rightarrow>
          is_object_id revision \<and>
          is_some_and
            (\<lambda>r. is_some_and (\<lambda>worklist. is_lowercase_hex worklist WORKLIST_DIGEST_HEX) (strip_prefix r ''-''))
            (strip_prefix head task_id))"

section \<open>What the names mean\<close>

lemma ends_with_iff: "ends_with s t \<longleftrightarrow> (\<exists>p. s = p @ t)"
proof
  assume "ends_with s t"
  then show "\<exists>p. s = p @ t" unfolding ends_with_def by (metis append_take_drop_id)
qed (auto simp: ends_with_def)

lemma proof_names_revision_iff:
  "proof_names_revision reference sha \<longleftrightarrow> is_object_id sha \<and> (\<exists>p. reference = p @ ''/'' @ sha)"
proof -
  have "ends_with reference sha \<and> ends_with (take (length reference - length sha) reference) ''/'' \<longleftrightarrow>
      (\<exists>p. reference = p @ ''/'' @ sha)"
    by (auto simp: ends_with_iff)
  then show ?thesis by (simp add: proof_names_revision_def)
qed

lemma is_some_and_strip: "is_some_and P (strip_prefix s p) \<longleftrightarrow> (\<exists>r. s = p @ r \<and> P r)"
  by (cases "strip_prefix s p") (auto simp: strip_prefix_Some, auto simp: strip_prefix_def starts_with_iff split: if_splits)

lemma merge_names_task_iff:
  "merge_names_task suffix t \<longleftrightarrow> suffix = t \<or> (\<exists>r. suffix = t @ ''-'' @ r \<and> is_lowercase_hex r MERGE_REVISION_HEX)"
proof (cases "strip_prefix suffix t")
  case None
  then show ?thesis by (auto simp: merge_names_task_def strip_prefix_def starts_with_iff split: if_splits)
next
  case (Some r)
  then have "suffix = t @ r" by (simp add: strip_prefix_Some)
  then show ?thesis unfolding merge_names_task_def Some option.case is_some_and_strip by auto
qed

lemma checkpoint_names_task_iff:
  "checkpoint_names_task suffix t \<longleftrightarrow>
     (\<exists>w r. suffix = t @ ''-'' @ w @ ''/'' @ r \<and> is_lowercase_hex w WORKLIST_DIGEST_HEX \<and>
            is_object_id r \<and> CHR ''/'' \<notin> set t)"
proof -
  have hex: "CHR ''/'' \<notin> set w" if "is_lowercase_hex w n" for w n
    using that by (auto simp: is_lowercase_hex_def list_all_iff hex_char_def is_ascii_digit_def byte_def)
  show ?thesis
  proof
    assume "checkpoint_names_task suffix t"
    then obtain h r where h: "split_once (CHR ''/'') suffix = Some (h, r)" "is_object_id r"
      "\<exists>w. h = t @ ''-'' @ w \<and> is_lowercase_hex w WORKLIST_DIGEST_HEX"
      by (auto simp: checkpoint_names_task_def is_some_and_strip split: option.splits)
    then show "\<exists>w r. suffix = t @ ''-'' @ w @ ''/'' @ r \<and> is_lowercase_hex w WORKLIST_DIGEST_HEX \<and>
            is_object_id r \<and> CHR ''/'' \<notin> set t"
      by (force simp: split_once_Some)
  next
    assume "\<exists>w r. suffix = t @ ''-'' @ w @ ''/'' @ r \<and> is_lowercase_hex w WORKLIST_DIGEST_HEX \<and>
            is_object_id r \<and> CHR ''/'' \<notin> set t"
    then obtain w r where w: "suffix = (t @ ''-'' @ w) @ CHR ''/'' # r" "is_lowercase_hex w WORKLIST_DIGEST_HEX"
      "is_object_id r" "CHR ''/'' \<notin> set (t @ ''-'' @ w)" using hex by auto
    from split_once_append [OF w(4), of r] w(1)
    have "split_once (CHR ''/'') suffix = Some (t @ ''-'' @ w, r)" by simp
    then show "checkpoint_names_task suffix t"
      using w(2,3) unfolding checkpoint_names_task_def
      by (simp add: is_some_and_strip)
  qed
qed

lemma sha256_identity_hex: "is_sha256_identity s \<Longrightarrow> is_lowercase_hex (drop 7 s) WORKLIST_DIGEST_HEX"
  by (simp add: is_sha256_identity_def is_lowercase_hex_def WORKLIST_DIGEST_HEX_def)

lemma checkpoint_task_unique:
  assumes "is_lowercase_hex w WORKLIST_DIGEST_HEX" "CHR ''/'' \<notin> set t"
  shows "checkpoint_names_task (t @ ''-'' @ w @ ''/'' @ r) t' \<longleftrightarrow> t' = t \<and> is_object_id r"
proof
  assume "checkpoint_names_task (t @ ''-'' @ w @ ''/'' @ r) t'"
  then obtain w' r' where e: "t @ ''-'' @ w @ ''/'' @ r = t' @ ''-'' @ w' @ ''/'' @ r'"
      "is_lowercase_hex w' WORKLIST_DIGEST_HEX" "CHR ''/'' \<notin> set t'" "is_object_id r'"
    unfolding checkpoint_names_task_iff by blast
  have hex: "CHR ''/'' \<notin> set v" if "is_lowercase_hex v n" for v n
    using that by (auto simp: is_lowercase_hex_def list_all_iff hex_char_def is_ascii_digit_def byte_def)
  have "split_once (CHR ''/'') ((t @ ''-'' @ w) @ CHR ''/'' # r) = Some (t @ ''-'' @ w, r)"
    by (rule split_once_append) (use assms hex in auto)
  moreover have "split_once (CHR ''/'') ((t' @ ''-'' @ w') @ CHR ''/'' # r') = Some (t' @ ''-'' @ w', r')"
    by (rule split_once_append) (use e hex in auto)
  ultimately have "t @ ''-'' @ w = t' @ ''-'' @ w'" "r = r'" using e(1) by simp_all
  moreover have "length w = length w'" using assms(1) e(2) by (simp add: is_lowercase_hex_def)
  ultimately show "t' = t \<and> is_object_id r" using e(4) by (simp add: append_eq_append_conv)
next
  assume "t' = t \<and> is_object_id r"
  then show "checkpoint_names_task (t @ ''-'' @ w @ ''/'' @ r) t'"
    unfolding checkpoint_names_task_iff using assms by blast
qed

lemma trim_sha256_identity:
  assumes "is_sha256_identity s"
  shows "is_lowercase_hex (take 16 (drop 7 s)) MERGE_REVISION_HEX" "trim_sha256 s = drop 7 s" "\<not> length (trim_sha256 s) < 16"
proof -
  from assms obtain r where s: "s = ''sha256:'' @ r" "length r = 64" "list_all hex_char r"
    by (auto simp: is_sha256_identity_def starts_with_iff)
  have "strip_prefix r ''sha256:'' = None"
    using s(3) by (cases r) (auto simp: strip_prefix_def hex_char_def is_ascii_digit_def byte_def)
  moreover have "strip_prefix s ''sha256:'' = Some r" using s(1) by (simp add: strip_prefix_Some)
  ultimately have r: "trim_sha256 s = r" by (simp add: trim_sha256.simps [of s] trim_sha256.simps [of r])
  have "list_all hex_char (take 16 r)" using s(3) by (auto simp: list_all_iff dest: in_set_takeD)
  then show "is_lowercase_hex (take 16 (drop 7 s)) MERGE_REVISION_HEX" "trim_sha256 s = drop 7 s" "\<not> length (trim_sha256 s) < 16"
    using s(1,2) r by (simp_all add: is_lowercase_hex_def MERGE_REVISION_HEX_def)
qed

lemma merge_task_revision:
  assumes "is_lowercase_hex h MERGE_REVISION_HEX"
  shows "merge_names_task (t @ ''-'' @ h) t' \<longleftrightarrow> t' = t \<or> t' = t @ ''-'' @ h"
proof -
  have "(\<exists>r. t @ ''-'' @ h = t' @ ''-'' @ r \<and> is_lowercase_hex r MERGE_REVISION_HEX) \<longleftrightarrow> t' = t"
    using assms by (auto simp: is_lowercase_hex_def append_eq_append_conv)
  then show ?thesis unfolding merge_names_task_iff by blast
qed

lemma checkpoint_ref_suffix:
  assumes "checkpoint_ref c i t src sha = Inr reference" "CHR ''/'' \<notin> set t"
  shows "\<exists>suffix. strip_prefix reference (local_state_prefix c i @ ''/checkpoint/'') = Some suffix \<and>
      (\<forall>t'. checkpoint_names_task suffix t' \<longleftrightarrow> t' = t \<and> is_object_id sha)"
proof -
  have src: "is_sha256_identity src"
    and ref: "reference = local_state_prefix c i @ ''/checkpoint/'' @ t @ ''-'' @ drop 7 src @ ''/'' @ sha"
    using assms(1) by (auto simp: checkpoint_ref_def split: if_splits)
  show ?thesis
    using checkpoint_task_unique [OF sha256_identity_hex [OF src] assms(2)]
    by (intro exI [of _ "t @ ''-'' @ drop 7 src @ ''/'' @ sha"]) (simp add: strip_prefix_Some ref)
qed

lemma last_component:
  "list_all hex_char v \<Longrightarrow> takeWhile (\<lambda>c. c \<noteq> CHR ''/'') (rev (p @ ''/'' @ v)) = rev v"
  by (auto simp: takeWhile_append list_all_iff hex_char_def is_ascii_digit_def byte_def)

lemma proof_names_only:
  assumes "list_all hex_char sha"
  shows "proof_names_revision (p @ ''/'' @ sha) sha' \<longleftrightarrow> sha' = sha \<and> is_object_id sha"
proof
  assume "proof_names_revision (p @ ''/'' @ sha) sha'"
  then obtain q where sha': "is_object_id sha'" "p @ ''/'' @ sha = q @ ''/'' @ sha'" by (auto simp: proof_names_revision_iff)
  then have "sha' = sha"
    using last_component [OF assms, of p] last_component [of sha' q] unfolding is_object_id_def by (metis rev_rev_ident)
  with sha'(1) show "sha' = sha \<and> is_object_id sha" by simp
qed (auto simp: proof_names_revision_iff)

section \<open>Property\<close>

text \<open>
  C36. What the driver writes, the lease decision reads back, up to the ambiguities of the names. A checkpoint ref
  names exactly the task it was written for and proves exactly its revision, provided the revision is a Git object
  identifier of 40 or 64 digits: the writer also accepts lengths between, and of such a name no task and no revision
  is read. The merge ref of a completion revision has its first 16 digits after the task; it names that task, and
  also the task whose own identifier is the whole name. The merge ref without a revision names its task, and, when the
  task's identifier ends in 16 digits, also the task before them.
\<close>

theorem campaign_refs_read_back:
  assumes "checkpoint_ref c i t src sha = Inr reference" "CHR ''/'' \<notin> set t"
    and "is_sha256_identity completion" "h = take 16 (drop 7 completion)"
  shows "(\<exists>suffix. strip_prefix reference (local_state_prefix c i @ ''/checkpoint/'') = Some suffix \<and>
            (\<forall>t'. checkpoint_names_task suffix t' \<longleftrightarrow> t' = t \<and> is_object_id sha)) \<and>
         (\<forall>sha'. proof_names_revision reference sha' \<longleftrightarrow> sha' = sha \<and> is_object_id sha) \<and>
         (\<exists>receipt. merge_receipt_reference c i t (Some completion) = Some receipt \<and>
            strip_prefix receipt (local_state_prefix c i @ ''/merge/'') = Some (t @ ''-'' @ h)) \<and>
         (\<forall>t'. merge_names_task (t @ ''-'' @ h) t' \<longleftrightarrow> t' = t \<or> t' = t @ ''-'' @ h) \<and>
         (\<exists>receipt. merge_receipt_reference c i t None = Some receipt \<and>
            strip_prefix receipt (local_state_prefix c i @ ''/merge/'') = Some t) \<and>
         (\<forall>t'. merge_names_task t t' \<longleftrightarrow> t' = t \<or> (\<exists>d. t = t' @ ''-'' @ d \<and> is_lowercase_hex d 16))"
proof (intro conjI)
  have ref: "reference = (local_state_prefix c i @ ''/checkpoint/'' @ t @ ''-'' @ drop 7 src) @ ''/'' @ sha"
    and sha: "list_all hex_char sha"
    using assms(1) by (auto simp: checkpoint_ref_def is_full_oid_def split: if_splits)
  show "\<forall>sha'. proof_names_revision reference sha' \<longleftrightarrow> sha' = sha \<and> is_object_id sha"
    unfolding ref using proof_names_only [OF sha] by blast
  note completion = trim_sha256_identity [OF assms(3)]
  show "\<exists>receipt. merge_receipt_reference c i t (Some completion) = Some receipt \<and>
      strip_prefix receipt (local_state_prefix c i @ ''/merge/'') = Some (t @ ''-'' @ h)"
    using completion(2,3) assms(4) by (simp add: merge_receipt_reference_def strip_prefix_Some)
  show "\<forall>t'. merge_names_task (t @ ''-'' @ h) t' \<longleftrightarrow> t' = t \<or> t' = t @ ''-'' @ h"
    using merge_task_revision completion(1) assms(4) by blast
  show "\<exists>receipt. merge_receipt_reference c i t None = Some receipt \<and>
      strip_prefix receipt (local_state_prefix c i @ ''/merge/'') = Some t"
    by (simp add: merge_receipt_reference_def strip_prefix_Some)
  show "\<forall>t'. merge_names_task t t' \<longleftrightarrow> t' = t \<or> (\<exists>d. t = t' @ ''-'' @ d \<and> is_lowercase_hex d 16)"
    unfolding merge_names_task_iff MERGE_REVISION_HEX_def by blast
qed (rule checkpoint_ref_suffix [OF assms(1,2)])

theorem campaign_refs_read_back_witness:
  "\<exists>reference receipt.
     checkpoint_ref ''c'' ''1'' ''gate'' (''sha256:'' @ replicate 64 (CHR ''a'')) (replicate 40 (CHR ''1'')) = Inr reference \<and>
     merge_receipt_reference ''c'' ''1'' ''gate'' (Some (''sha256:'' @ replicate 64 (CHR ''b''))) = Some receipt \<and>
     strip_prefix receipt (local_state_prefix ''c'' ''1'' @ ''/merge/'') = Some (''gate-'' @ replicate 16 (CHR ''b'')) \<and>
     proof_names_revision reference (replicate 40 (CHR ''1''))"
proof -
  have ids: "is_sha256_identity (''sha256:'' @ replicate 64 (CHR ''a''))"
    "is_sha256_identity (''sha256:'' @ replicate 64 (CHR ''b''))"
    "is_object_id (replicate 40 (CHR ''1''))" "is_full_oid (replicate 40 (CHR ''1''))"
    by (simp_all add: is_sha256_identity_def is_object_id_def is_full_oid_def list_all_iff hex_char_def
        is_ascii_digit_def byte_def starts_with_iff)
  obtain reference where a: "checkpoint_ref ''c'' ''1'' ''gate'' (''sha256:'' @ replicate 64 (CHR ''a''))
      (replicate 40 (CHR ''1'')) = Inr reference"
    using ids(1,4) by (auto simp: checkpoint_ref_def)
  have "replicate 16 (CHR ''b'') = take 16 (drop 7 (''sha256:'' @ replicate 64 (CHR ''b'')))" by simp
  from campaign_refs_read_back [OF a _ ids(2) this] a ids(3) show ?thesis by auto
qed

end
