(* ===== verification/Campaign_Publish.thy ===== *)
theory Campaign_Publish
  imports Campaign_Refs Text_Lines
begin

text \<open>
  Publication of a campaign's integration line (\<open>campaign_publish.rs\<close>): the decision from witnessed
  facts, the receipt of a published revision and its checks, and the name of its ref.
\<close>

section \<open>Decision\<close>

datatype PublishError =
    InvalidPublishedRevision
  | UnprovenPublication
  | InvalidActor
  | InvalidTimestamp
  | InvalidBaseBranch

fun publish_error_str :: "PublishError \<Rightarrow> string" where
  "publish_error_str InvalidPublishedRevision = ''a published revision must be a full Git object ID''"
| "publish_error_str UnprovenPublication = ''a publish receipt names the gate proof of the revision it published''"
| "publish_error_str InvalidActor = ''a publish receipt records the actor that moved the base branch''"
| "publish_error_str InvalidTimestamp = ''a publish receipt records when the base branch moved''"
| "publish_error_str InvalidBaseBranch = ''a publish receipt names the base branch it advanced''"

datatype PublishAction = FastForward | AlreadyPublished | RebaseAndRegate | Withhold

fun action_str :: "PublishAction \<Rightarrow> string" where
  "action_str FastForward = ''fast-forward''"
| "action_str AlreadyPublished = ''already-published''"
| "action_str RebaseAndRegate = ''rebase-and-regate''"
| "action_str Withhold = ''withhold''"

fun publishes :: "PublishAction \<Rightarrow> bool" where
  "publishes FastForward = True"
| "publishes AlreadyPublished = True"
| "publishes _ = False"

text \<open>The two path sets are their elements in ascending order.\<close>

record PublishFacts =
  pf_base_branch :: string
  pf_base_head :: string
  pf_integration_head :: string
  pf_proven_head :: "string option"
  pf_base_is_ancestor :: bool
  pf_integration_is_ancestor :: bool
  pf_base_paths :: "string list"
  pf_integration_paths :: "string list"

record PublishPlan =
  pp_action :: PublishAction
  pp_sha :: "string option"
  pp_reason :: string

definition contended_paths :: "PublishFacts \<Rightarrow> string list" where
  "contended_paths facts = filter (\<lambda>p. p \<in> set (pf_integration_paths facts)) (pf_base_paths facts)"

definition plural_paths :: "nat \<Rightarrow> string" where
  "plural_paths n = (if n = 1 then ''1 path'' else show_nat n @ '' paths'')"

definition bounded_path_list :: "string list \<Rightarrow> string" where
  "bounded_path_list paths =
     join_text '', '' (take 4 paths) @
     (if length paths > 4
      then '' '' @ [CHR 0xE2, CHR 0x80, CHR 0xA6] @ ''and '' @ show_nat (length paths - 4) @ '' more''
      else [])"

definition publish_plan :: "PublishFacts \<Rightarrow> PublishPlan" where
  "publish_plan facts =
     (let head = pf_integration_head facts; base = pf_base_branch facts
      in case pf_proven_head facts of
           None \<Rightarrow>
             \<lparr>pp_action = Withhold, pp_sha = None,
              pp_reason = ''no stage gate has proven integration head '' @ head\<rparr>
         | Some proven \<Rightarrow>
             if proven \<noteq> head
             then \<lparr>pp_action = Withhold, pp_sha = None,
                   pp_reason = ''integration head '' @ head @ '' is not the gate-proven revision '' @ proven\<rparr>
             else if pf_base_head facts = head
             then \<lparr>pp_action = AlreadyPublished, pp_sha = Some head,
                   pp_reason = base @ '' already names the gate-proven head '' @ head\<rparr>
             else if pf_integration_is_ancestor facts
             then \<lparr>pp_action = AlreadyPublished, pp_sha = Some head,
                   pp_reason = ''the gate-proven head '' @ head @ '' is already reachable from '' @ base\<rparr>
             else if pf_base_is_ancestor facts
             then \<lparr>pp_action = FastForward, pp_sha = Some head,
                   pp_reason = base @ '' fast-forwards to the gate-proven head '' @ head\<rparr>
             else
               (let contended = contended_paths facts
                in if contended = []
                   then \<lparr>pp_action = RebaseAndRegate, pp_sha = None,
                         pp_reason = base @ '' carries '' @ show_nat (length (pf_base_paths facts)) @
                           '' record commit(s) worth of paths the integration line never touched; rebase and re-gate before any fast-forward''\<rparr>
                   else \<lparr>pp_action = Withhold, pp_sha = None,
                         pp_reason = base @ '' and the integration line both changed '' @
                           plural_paths (length contended) @ '': '' @ bounded_path_list contended\<rparr>))"

section \<open>Receipts\<close>

record PublishProof =
  pr_task_id :: string
  pr_reference :: string

record PublishReceiptV1 =
  rc_schema_version :: u32
  rc_campaign :: string
  rc_base_branch :: string
  rc_sha :: string
  rc_proven_by :: PublishProof
  rc_actor :: string
  rc_written_at :: string

definition PUBLISH_RECEIPT_SCHEMA_VERSION :: u32 where
  "PUBLISH_RECEIPT_SCHEMA_VERSION = 1"

text \<open>
  \<open>chars().any(char::is_whitespace)\<close> on UTF-8 bytes: a whitespace character starts at some byte.
\<close>

fun any_whitespace :: "nat list \<Rightarrow> bool" where
  "any_whitespace [] = False"
| "any_whitespace (b # bs) \<longleftrightarrow> ws_prefix (b # bs) \<noteq> 0 \<or> any_whitespace bs"

definition receipt_validate :: "(string \<Rightarrow> bool) \<Rightarrow> PublishReceiptV1 \<Rightarrow> PublishError + unit" where
  "receipt_validate valid_time r =
     (if \<not> is_object_id (rc_sha r) then Inl InvalidPublishedRevision
      else if rc_base_branch r = [] \<or> any_whitespace (map byte (rc_base_branch r)) then Inl InvalidBaseBranch
      else if \<not> proof_names_revision (pr_reference (rc_proven_by r)) (rc_sha r) \<or> pr_task_id (rc_proven_by r) = []
      then Inl UnprovenPublication
      else if rc_actor r = [] \<or> char_count (rc_actor r) > 128 then Inl InvalidActor
      else if \<not> valid_time (rc_written_at r) then Inl InvalidTimestamp
      else Inr ())"

definition receipt_new ::
  "(string \<Rightarrow> bool) \<Rightarrow> string \<Rightarrow> string \<Rightarrow> string \<Rightarrow> PublishProof \<Rightarrow> string \<Rightarrow> string
     \<Rightarrow> PublishError + PublishReceiptV1" where
  "receipt_new valid_time campaign base_branch sha proven_by actor written_at =
     (let receipt = \<lparr>rc_schema_version = PUBLISH_RECEIPT_SCHEMA_VERSION, rc_campaign = campaign,
                     rc_base_branch = base_branch, rc_sha = sha, rc_proven_by = proven_by,
                     rc_actor = actor, rc_written_at = written_at\<rparr>
      in case receipt_validate valid_time receipt of Inl e \<Rightarrow> Inl e | Inr _ \<Rightarrow> Inr receipt)"

definition receipt_name :: "string \<Rightarrow> string \<Rightarrow> string" where
  "receipt_name state_prefix sha = state_prefix @ ''/publish/'' @ sha"

definition publish_receipt_ref :: "string \<Rightarrow> string \<Rightarrow> PublishError + string" where
  "publish_receipt_ref state_prefix sha =
     (if \<not> is_object_id sha then Inl InvalidPublishedRevision
      else Inr (receipt_name state_prefix sha))"

section \<open>The decision rests on the proof\<close>

lemma plan_publishes:
  "publishes (pp_action (publish_plan facts)) \<longleftrightarrow> pp_sha (publish_plan facts) \<noteq> None"
  "pp_sha (publish_plan facts) = Some sha \<Longrightarrow>
     sha = pf_integration_head facts \<and> pf_proven_head facts = Some sha"
  by (auto simp: publish_plan_def Let_def split: option.splits if_splits)

lemma plan_already:
  "pp_action (publish_plan facts) = AlreadyPublished \<Longrightarrow>
     pf_base_head facts = pf_integration_head facts \<or> pf_integration_is_ancestor facts"
  by (auto simp: publish_plan_def Let_def split: option.splits if_splits)

lemma receipt_new_Some:
  "receipt_new vt c b sha p a t = Inr r \<Longrightarrow> rc_sha r = sha \<and> receipt_validate vt r = Inr () \<and> is_object_id sha"
  by (auto simp: receipt_new_def receipt_validate_def Let_def split: sum.splits if_splits)

lemma is_object_id_full: "is_object_id s \<Longrightarrow> is_full_oid s"
  by (auto simp: is_object_id_def is_full_oid_def)

definition sample_head :: string where
  "sample_head = replicate 40 (CHR ''1'')"

lemma sample_head_id: "is_object_id sample_head" "is_full_oid (replicate 40 (CHR ''2''))"
  "proof_names_revision (''refs/x/'' @ sample_head) sample_head"
  "sample_head \<noteq> replicate 40 (CHR ''2'')" "replicate 40 (CHR ''2'') \<noteq> sample_head"
  by (simp_all add: is_object_id_def is_full_oid_def sample_head_def list_all_iff hex_char_def
      is_ascii_digit_def byte_def proof_names_revision_iff eval_nat_numeral)

end
