(* ===== verification/Campaign_Lease.thy ===== *)
theory Campaign_Lease
  imports Campaign_Publish
begin

text \<open>
  The campaign lease (\<open>campaign_lease.rs\<close>): the durable record of one campaign identity, taking and
  holding activation under an exclusive lock, renewing, admitting an epoch, lapsing on a proven
  revision, and the decision whether the lease may lapse.

  The record's JSON codec, the clock's rendering and the digest are parameters. An operation takes
  the lease file and returns its result together with the file it leaves; a \<open>LeaseFault\<close> says which
  system call fails, if any. The temporary file a failed write leaves behind is not part of the
  state.
\<close>

section \<open>Data\<close>

datatype CampaignLeaseState = LeaseHeld | LeaseLapsed

record CampaignLeaseHolder =
  ch_pid :: u32
  ch_since :: string

record CampaignLapseV1 =
  lp_graph_digest :: string
  lp_arm_serial :: u64
  lp_tasks :: "string list"
  lp_sha :: string
  lp_proven_by :: PublishProof
  lp_lapsed_at :: string

record CampaignLeaseV1 =
  cl_schema_version :: u32
  cl_campaign :: string
  cl_repository :: string
  cl_worklist :: string
  cl_state :: CampaignLeaseState
  cl_arm_serial :: u64
  cl_graph_digest :: string
  cl_acquired_at :: string
  cl_renewed_at :: string
  cl_holder :: "CampaignLeaseHolder option"
  cl_lapse :: "CampaignLapseV1 option"

datatype CampaignLeaseError =
    LeaseIo string
  | LeaseDecode string
  | LeaseNotBounded string
  | HeldBy string string
  | LapsedAt string string string
  | UnprovenLapse string string
  | InvalidRecord string string

definition CAMPAIGN_LEASE_SCHEMA_VERSION :: u32 where
  "CAMPAIGN_LEASE_SCHEMA_VERSION = 1"

definition MAX_CAMPAIGN_LEASE_BYTES :: nat where
  "MAX_CAMPAIGN_LEASE_BYTES = 64 * 1024"

record CampaignActivation =
  ca_campaign :: string
  ca_repository :: string
  ca_worklist :: string
  ca_arm_serial :: u64
  ca_graph_digest :: string

datatype CampaignLeaseAcquisition = Activated | Resumed | Reactivated

record CampaignLeaseGuard =
  lg_record :: CampaignLeaseV1
  lg_acquisition :: CampaignLeaseAcquisition

text \<open>The parameters: the codec of the record, the time stamps \<open>chrono\<close> accepts, and the digest.\<close>

record LeaseEnv =
  le_encode :: "CampaignLeaseV1 \<Rightarrow> string option"
  le_decode :: "string \<Rightarrow> CampaignLeaseV1 option"
  le_valid_time :: "string \<Rightarrow> bool"
  le_sha256 :: "string \<Rightarrow> string"

datatype LeaseFile = Absent | Regular string | Irregular

datatype LeaseFault =
    CreateDirFault | SecureDirFault | LockOpenFault | LockStatFault | LockIrregular | LockFault
  | OpenFault | StatFault | LeaseReadFault
  | StageFault | RenameFault | FlushFault

section \<open>The record and its file\<close>

definition is_lapsed :: "CampaignLeaseV1 \<Rightarrow> bool" where
  "is_lapsed r \<longleftrightarrow> cl_state r = LeaseLapsed"

definition lease_validate :: "LeaseEnv \<Rightarrow> CampaignLeaseV1 \<Rightarrow> CampaignLeaseError + unit" where
  "lease_validate env r =
     (if cl_schema_version r \<noteq> CAMPAIGN_LEASE_SCHEMA_VERSION
      then Inl (InvalidRecord ''schemaVersion'' ''must equal 1'')
      else if cl_arm_serial r = 0 then Inl (InvalidRecord ''armSerial'' ''must be a positive integer'')
      else if \<not> le_valid_time env (cl_acquired_at r)
      then Inl (InvalidRecord ''acquiredAt'' ''must be an RFC 3339 timestamp'')
      else if \<not> le_valid_time env (cl_renewed_at r)
      then Inl (InvalidRecord ''renewedAt'' ''must be an RFC 3339 timestamp'')
      else
        (case (cl_state r, cl_lapse r) of
           (LeaseLapsed, None) \<Rightarrow>
             Inl (InvalidRecord ''lapse'' ''a lapsed lease carries the completion fact it lapsed on'')
         | (LeaseHeld, Some _) \<Rightarrow> Inl (InvalidRecord ''lapse'' ''a held lease has not completed anything'')
         | _ \<Rightarrow> Inr ()))"

definition lease_read ::
  "LeaseEnv \<Rightarrow> string \<Rightarrow> LeaseFault option \<Rightarrow> LeaseFile \<Rightarrow> CampaignLeaseError + CampaignLeaseV1 option" where
  "lease_read env path fault lease_file =
     (if lease_file = Absent then (if fault = Some OpenFault then Inl (LeaseIo ''cannot open campaign lease'') else Inr None)
      else if fault = Some OpenFault then Inl (LeaseIo ''cannot open campaign lease'')
      else if fault = Some StatFault then Inl (LeaseIo ''cannot stat campaign lease'')
      else
        (case lease_file of
           Regular content \<Rightarrow>
             if length content > MAX_CAMPAIGN_LEASE_BYTES then Inl (LeaseNotBounded path)
             else if fault = Some LeaseReadFault then Inl (LeaseIo ''cannot read campaign lease'')
             else
               (case le_decode env content of
                  None \<Rightarrow> Inl (LeaseDecode path)
                | Some r \<Rightarrow> (case lease_validate env r of Inl e \<Rightarrow> Inl e | Inr _ \<Rightarrow> Inr (Some r)))
         | _ \<Rightarrow> Inl (LeaseNotBounded path)))"

definition lease_write ::
  "LeaseEnv \<Rightarrow> string \<Rightarrow> LeaseFault option \<Rightarrow> CampaignLeaseV1 \<Rightarrow> LeaseFile \<Rightarrow> (CampaignLeaseError + unit) \<times> LeaseFile" where
  "lease_write env path fault r lease_file =
     (case le_encode env r of
        None \<Rightarrow> (Inl (LeaseDecode path), lease_file)
      | Some encoded \<Rightarrow>
          if fault = Some StageFault then (Inl (LeaseIo ''cannot stage campaign lease''), lease_file)
          else if fault = Some RenameFault then (Inl (LeaseIo ''cannot publish campaign lease''), lease_file)
          else if fault = Some FlushFault
          then (Inl (LeaseIo ''cannot flush campaign lease directory''), Regular (encoded @ [CHR 10]))
          else (Inr (), Regular (encoded @ [CHR 10])))"

section \<open>Operations\<close>

definition open_lock :: "string \<Rightarrow> LeaseFault option \<Rightarrow> CampaignLeaseError + unit" where
  "open_lock lock_path fault =
     (if fault = Some CreateDirFault then Inl (LeaseIo ''cannot create campaign lease directory'')
      else if fault = Some SecureDirFault then Inl (LeaseIo ''cannot secure campaign lease directory'')
      else if fault = Some LockOpenFault then Inl (LeaseIo ''cannot open campaign lease lock'')
      else if fault = Some LockStatFault then Inl (LeaseIo ''cannot stat campaign lease lock'')
      else if fault = Some LockIrregular then Inl (LeaseNotBounded lock_path)
      else Inr ())"

definition holder_text :: "CampaignLeaseHolder option \<Rightarrow> string" where
  "holder_text h =
     (case h of
        None \<Rightarrow> ''holder not yet recorded''
      | Some x \<Rightarrow> ''pid '' @ show_nat (unat (ch_pid x)) @ '', since '' @ ch_since x)"

text \<open>How the pass comes to hold the lease, given the record it found.\<close>

definition acquisition_of ::
  "CampaignActivation \<Rightarrow> string \<Rightarrow> CampaignLeaseV1 option
     \<Rightarrow> CampaignLeaseError + string \<times> CampaignLeaseAcquisition" where
  "acquisition_of act stamp prior =
     (case prior of
        None \<Rightarrow> Inr (stamp, Activated)
      | Some r \<Rightarrow>
          if \<not> is_lapsed r then Inr (cl_acquired_at r, Resumed)
          else
            (case cl_lapse r of
               None \<Rightarrow> Inl (InvalidRecord ''panic'' ''a lapsed record carries its lapse fact'')
             | Some lapse \<Rightarrow>
                 if cl_graph_digest r = ca_graph_digest act
                 then Inl (LapsedAt (cl_campaign r) (lp_sha lapse) (lp_lapsed_at lapse))
                 else Inr (stamp, Reactivated)))"

definition acquired_record ::
  "CampaignActivation \<Rightarrow> u32 \<Rightarrow> string \<Rightarrow> string \<Rightarrow> CampaignLeaseV1" where
  "acquired_record act pid stamp acquired_at =
     \<lparr>cl_schema_version = CAMPAIGN_LEASE_SCHEMA_VERSION, cl_campaign = ca_campaign act,
      cl_repository = ca_repository act, cl_worklist = ca_worklist act, cl_state = LeaseHeld,
      cl_arm_serial = ca_arm_serial act, cl_graph_digest = ca_graph_digest act,
      cl_acquired_at = acquired_at, cl_renewed_at = stamp,
      cl_holder = Some \<lparr>ch_pid = pid, ch_since = stamp\<rparr>, cl_lapse = None\<rparr>"

text \<open>\<open>contended\<close> says that another guard holds the exclusive lock.\<close>

definition lease_acquire ::
  "LeaseEnv \<Rightarrow> string \<Rightarrow> string \<Rightarrow> LeaseFault option \<Rightarrow> bool \<Rightarrow> u32 \<Rightarrow> CampaignActivation \<Rightarrow> string \<Rightarrow> LeaseFile
     \<Rightarrow> (CampaignLeaseError + CampaignLeaseGuard) \<times> LeaseFile" where
  "lease_acquire env path lock_path fault contended pid act stamp lease_file =
     (case open_lock lock_path fault of
        Inl e \<Rightarrow> (Inl e, lease_file)
      | Inr _ \<Rightarrow>
          if fault = Some LockFault then (Inl (LeaseIo ''cannot lock campaign lease''), lease_file)
          else if contended
          then (case lease_read env path fault lease_file of
                  Inl e \<Rightarrow> (Inl e, lease_file)
                | Inr r \<Rightarrow>
                    (Inl (HeldBy (ca_campaign act) (holder_text (Option.bind r cl_holder))), lease_file))
          else
            (case lease_read env path fault lease_file of
               Inl e \<Rightarrow> (Inl e, lease_file)
             | Inr prior \<Rightarrow>
                 (case acquisition_of act stamp prior of
                    Inl e \<Rightarrow> (Inl e, lease_file)
                  | Inr (acquired_at, acquisition) \<Rightarrow>
                      (let r = acquired_record act pid stamp acquired_at
                       in case lease_validate env r of
                            Inl e \<Rightarrow> (Inl e, lease_file)
                          | Inr _ \<Rightarrow>
                              (case lease_write env path fault r lease_file of
                                 (Inl e, f) \<Rightarrow> (Inl e, f)
                               | (Inr _, f) \<Rightarrow> (Inr \<lparr>lg_record = r, lg_acquisition = acquisition\<rparr>, f))))))"

definition lease_renew ::
  "LeaseEnv \<Rightarrow> string \<Rightarrow> LeaseFault option \<Rightarrow> string \<Rightarrow> CampaignLeaseGuard \<Rightarrow> LeaseFile
     \<Rightarrow> (CampaignLeaseError + unit) \<times> CampaignLeaseGuard \<times> LeaseFile" where
  "lease_renew env path fault stamp g lease_file =
     (let r = (lg_record g)\<lparr>cl_renewed_at := stamp\<rparr>
      in case lease_write env path fault r lease_file of (res, f) \<Rightarrow> (res, g\<lparr>lg_record := r\<rparr>, f))"

definition lease_admit ::
  "LeaseEnv \<Rightarrow> string \<Rightarrow> LeaseFault option \<Rightarrow> u64 \<Rightarrow> string \<Rightarrow> CampaignLeaseGuard \<Rightarrow> LeaseFile
     \<Rightarrow> (CampaignLeaseError + unit) \<times> CampaignLeaseGuard \<times> LeaseFile" where
  "lease_admit env path fault arm_serial stamp g lease_file =
     (if arm_serial = 0 then (Inl (InvalidRecord ''armSerial'' ''must be a positive integer''), g, lease_file)
      else lease_renew env path fault stamp (g\<lparr>lg_record := (lg_record g)\<lparr>cl_arm_serial := arm_serial\<rparr>\<rparr>) lease_file)"

text \<open>Lapsing consumes the guard, whatever the result.\<close>

definition lapse_fact :: "CampaignLeaseV1 \<Rightarrow> string \<Rightarrow> PublishProof \<Rightarrow> string list \<Rightarrow> string \<Rightarrow> CampaignLapseV1" where
  "lapse_fact r sha proven_by tasks stamp =
     \<lparr>lp_graph_digest = cl_graph_digest r, lp_arm_serial = cl_arm_serial r, lp_tasks = tasks,
      lp_sha = sha, lp_proven_by = proven_by, lp_lapsed_at = stamp\<rparr>"

definition lease_lapse ::
  "LeaseEnv \<Rightarrow> string \<Rightarrow> LeaseFault option \<Rightarrow> string \<Rightarrow> PublishProof \<Rightarrow> string list \<Rightarrow> string
     \<Rightarrow> CampaignLeaseGuard \<Rightarrow> LeaseFile \<Rightarrow> (CampaignLeaseError + CampaignLapseV1) \<times> LeaseFile" where
  "lease_lapse env path fault sha proven_by tasks stamp g lease_file =
     (if \<not> proof_names_revision (pr_reference proven_by) sha
      then (Inl (UnprovenLapse (pr_reference proven_by) sha), lease_file)
      else
        (let lapse = lapse_fact (lg_record g) sha proven_by tasks stamp;
             r = (lg_record g)\<lparr>cl_state := LeaseLapsed, cl_renewed_at := stamp, cl_holder := None,
                                cl_lapse := Some lapse\<rparr>
         in case lease_write env path fault r lease_file of
              (Inl e, f) \<Rightarrow> (Inl e, f)
            | (Inr _, f) \<Rightarrow> (Inr lapse, f)))"

text \<open>The directory of an identity: 24 hexadecimal characters of the digest of its two names.\<close>

definition campaign_lease_scope :: "LeaseEnv \<Rightarrow> string \<Rightarrow> string \<Rightarrow> string" where
  "campaign_lease_scope env repository worklist = take 24 (le_sha256 env (repository @ [CHR 0x00] @ worklist))"

section \<open>The decision to lapse\<close>

record CampaignLeaseTask =
  lt_id :: string
  lt_checkpoint :: bool

text \<open>The refs of the authority remote are an association list in ascending order of names.\<close>

record CampaignLeaseFacts =
  lf_state_prefix :: string
  lf_tasks :: "CampaignLeaseTask list"
  lf_campaign_refs :: "(string \<times> string) list"
  lf_published_head :: string
  lf_live_nodes :: nat

datatype CampaignLeaseDisposition =
    Renew string
  | Lapse string PublishProof "string list" string

definition bounded_list :: "string list \<Rightarrow> string" where
  "bounded_list xs =
     (if length xs > 5 then join_text '', '' (take 5 xs) @ '', and '' @ show_nat (length xs - 5) @ '' more''
      else join_text '', '' (take 5 xs))"

definition task_is_terminal :: "string \<Rightarrow> (string \<times> string) list \<Rightarrow> CampaignLeaseTask \<Rightarrow> bool" where
  "task_is_terminal state_prefix refs task =
     (let namespace = state_prefix @ ''/'' @ (if lt_checkpoint task then ''checkpoint'' else ''merge'') @ ''/''
      in list_ex
           (\<lambda>reference. is_some_and
              (\<lambda>suffix. if lt_checkpoint task then checkpoint_names_task suffix (lt_id task)
                        else merge_names_task suffix (lt_id task))
              (strip_prefix reference namespace))
           (map fst refs))"

definition gate_proof_reference ::
  "string \<Rightarrow> (string \<times> string) list \<Rightarrow> string \<Rightarrow> string \<Rightarrow> string option" where
  "gate_proof_reference state_prefix refs gate_id revision =
     map_option fst
       (List.find
          (\<lambda>(reference, target). target = revision \<and> proof_names_revision reference revision \<and>
             is_some_and (\<lambda>suffix. checkpoint_names_task suffix gate_id)
               (strip_prefix reference (state_prefix @ ''/checkpoint/'')))
          refs)"

definition lease_disposition :: "CampaignLeaseFacts \<Rightarrow> CampaignLeaseDisposition" where
  "lease_disposition facts =
     (if lf_live_nodes facts > 0
      then Renew (show_nat (lf_live_nodes facts) @ '' node(s) are still running under this lease'')
      else
        (let outstanding = map lt_id (filter (\<lambda>t. \<not> task_is_terminal (lf_state_prefix facts) (lf_campaign_refs facts) t)
                                             (lf_tasks facts))
         in if outstanding \<noteq> []
            then Renew (show_nat (length outstanding) @ '' of '' @ show_nat (length (lf_tasks facts)) @
                        '' admitted task(s) carry no completion fact: '' @ bounded_list outstanding)
            else
              (case List.find lt_checkpoint (rev (lf_tasks facts)) of
                 None \<Rightarrow> Renew ''the admitted graph declares no chapter gate, so no head is proven''
               | Some gate \<Rightarrow>
                   if \<not> is_object_id (lf_published_head facts)
                   then Renew (''the authority remote reports no publishable base head ('' @ lf_published_head facts @ '')'')
                   else
                     (case gate_proof_reference (lf_state_prefix facts) (lf_campaign_refs facts) (lt_id gate)
                             (lf_published_head facts) of
                        None \<Rightarrow> Renew (''chapter gate '' @ lt_id gate @ '' has not proven published head '' @ lf_published_head facts)
                      | Some reference \<Rightarrow>
                          Lapse (lf_published_head facts) \<lparr>pr_task_id = lt_id gate, pr_reference = reference\<rparr>
                            (map lt_id (lf_tasks facts))
                            (''every admitted task is terminal and chapter gate '' @ lt_id gate @
                             '' proved published head '' @ lf_published_head facts)))))"

end
