(* ===== verification/Campaign_Lifecycle.thy ===== *)
theory Campaign_Lifecycle
  imports Campaign_Lease
begin

text \<open>
  The life of one campaign identity under any number of passes that take, renew, lapse, drop or lose
  the lease, with any system call failing: one pass at a time, and a lapsed lease is a closed door.
\<close>

section \<open>Passes\<close>

record CampaignSys =
  cs_file :: LeaseFile
  cs_guards :: "CampaignLeaseGuard list"

text \<open>
  The lock is contended as long as some guard is alive; dropping a guard, by return or by a crash of
  its process, releases it. Time stamps are rendered by the code itself and hence valid.
\<close>

inductive lease_step :: "LeaseEnv \<Rightarrow> CampaignSys \<Rightarrow> CampaignSys \<Rightarrow> bool" for env where
  acquire: "lease_acquire env path lock fault (cs_guards s \<noteq> []) pid act stamp (cs_file s) = (Inr g, f) \<Longrightarrow>
     le_valid_time env stamp \<Longrightarrow> lease_step env s \<lparr>cs_file = f, cs_guards = g # cs_guards s\<rparr>"
| refuse: "lease_acquire env path lock fault (cs_guards s \<noteq> []) pid act stamp (cs_file s) = (Inl e, f) \<Longrightarrow>
     le_valid_time env stamp \<Longrightarrow> lease_step env s \<lparr>cs_file = f, cs_guards = cs_guards s\<rparr>"
| renew: "cs_guards s = xs @ g # ys \<Longrightarrow> lease_renew env path fault stamp g (cs_file s) = (res, g', f) \<Longrightarrow>
     le_valid_time env stamp \<Longrightarrow> lease_step env s \<lparr>cs_file = f, cs_guards = xs @ g' # ys\<rparr>"
| admit: "cs_guards s = xs @ g # ys \<Longrightarrow> lease_admit env path fault n stamp g (cs_file s) = (res, g', f) \<Longrightarrow>
     le_valid_time env stamp \<Longrightarrow> lease_step env s \<lparr>cs_file = f, cs_guards = xs @ g' # ys\<rparr>"
| lapse: "cs_guards s = xs @ g # ys \<Longrightarrow>
     lease_lapse env path fault sha proven_by tasks stamp g (cs_file s) = (res, f) \<Longrightarrow>
     le_valid_time env stamp \<Longrightarrow> lease_step env s \<lparr>cs_file = f, cs_guards = xs @ ys\<rparr>"
| drop: "cs_guards s = xs @ g # ys \<Longrightarrow> lease_step env s \<lparr>cs_file = cs_file s, cs_guards = xs @ ys\<rparr>"

inductive lease_reachable :: "LeaseEnv \<Rightarrow> CampaignSys \<Rightarrow> bool" for env where
  init: "lease_reachable env \<lparr>cs_file = Absent, cs_guards = []\<rparr>"
| step: "lease_reachable env s \<Longrightarrow> lease_step env s s' \<Longrightarrow> lease_reachable env s'"

text \<open>Decoding the line that was written gives the record back.\<close>

definition lease_codec :: "LeaseEnv \<Rightarrow> bool" where
  "lease_codec env \<longleftrightarrow> (\<forall>r s. le_encode env r = Some s \<longrightarrow> le_decode env (s @ [CHR 10]) = Some r)"

definition stored :: "LeaseEnv \<Rightarrow> LeaseFile \<Rightarrow> CampaignLeaseV1 \<Rightarrow> bool" where
  "stored env f r \<longleftrightarrow> (\<exists>content. f = Regular content \<and> le_decode env content = Some r)"

definition proven_lapse :: "CampaignLeaseV1 \<Rightarrow> bool" where
  "proven_lapse r \<longleftrightarrow>
     (\<exists>l. cl_lapse r = Some l \<and> lp_graph_digest l = cl_graph_digest r \<and> lp_arm_serial l = cl_arm_serial r \<and>
          proof_names_revision (pr_reference (lp_proven_by l)) (lp_sha l))"

text \<open>The invariant: at most one guard, whose record is a valid held one for the graph on file.\<close>

definition sound_record :: "LeaseEnv \<Rightarrow> CampaignLeaseV1 \<Rightarrow> bool" where
  "sound_record env r \<longleftrightarrow> lease_validate env r = Inr () \<and> (is_lapsed r \<longrightarrow> proven_lapse r)"

definition holds :: "LeaseEnv \<Rightarrow> LeaseFile \<Rightarrow> CampaignLeaseGuard \<Rightarrow> bool" where
  "holds env f g \<longleftrightarrow> sound_record env (lg_record g) \<and> \<not> is_lapsed (lg_record g) \<and>
     (\<exists>r. stored env f r \<and> \<not> is_lapsed r \<and> cl_graph_digest r = cl_graph_digest (lg_record g))"

definition lease_inv :: "LeaseEnv \<Rightarrow> CampaignSys \<Rightarrow> bool" where
  "lease_inv env s \<longleftrightarrow>
     length (cs_guards s) \<le> 1 \<and>
     (cs_file s = Absent \<or> (\<exists>r. stored env (cs_file s) r \<and> sound_record env r)) \<and>
     (\<forall>g \<in> set (cs_guards s). holds env (cs_file s) g)"

lemma stored_unique: "stored env f r \<Longrightarrow> stored env f r' \<Longrightarrow> r' = r"
  by (auto simp: stored_def)

lemma lease_write_file:
  assumes "lease_codec env" "lease_write env path fault r f = (res, f')"
  shows "f' = f \<and> (\<exists>e. res = Inl e) \<or> stored env f' r"
  using assms by (auto simp: lease_write_def lease_codec_def stored_def split: option.splits if_splits)

lemma held_valid:
  "lease_validate env r = Inr () \<Longrightarrow> \<not> is_lapsed r \<Longrightarrow> cl_lapse r = None"
  by (cases "cl_state r") (auto simp: lease_validate_def is_lapsed_def split: if_splits option.splits)

lemma sound_held: "sound_record env r \<Longrightarrow> le_valid_time env stamp \<Longrightarrow> \<not> is_lapsed r \<Longrightarrow>
    sound_record env (r\<lparr>cl_renewed_at := stamp\<rparr>)"
  by (auto simp: sound_record_def lease_validate_def is_lapsed_def split: if_splits prod.splits CampaignLeaseState.splits option.splits)

lemma renew_holds:
  assumes "lease_codec env" "lease_renew env path fault stamp g f = (res, g', f')" "le_valid_time env stamp"
    and "holds env f g"
  shows "holds env f' g' \<and> (\<exists>r. stored env f' r \<and> sound_record env r \<or> f' = f)"
proof -
  let ?r = "(lg_record g)\<lparr>cl_renewed_at := stamp\<rparr>"
  have g': "g' = g\<lparr>lg_record := ?r\<rparr>" and w: "lease_write env path fault ?r f = (res, f')"
    using assms(2) by (auto simp: lease_renew_def Let_def split: prod.splits)
  have s: "sound_record env ?r" "\<not> is_lapsed ?r" "cl_graph_digest ?r = cl_graph_digest (lg_record g)"
    using assms(3,4) sound_held by (auto simp: holds_def is_lapsed_def)
  from lease_write_file [OF assms(1) w] show ?thesis
    using assms(4) s by (auto simp: holds_def g')
qed

lemma admit_holds:
  assumes "lease_codec env" "lease_admit env path fault n stamp g f = (res, g', f')" "le_valid_time env stamp"
    and "holds env f g"
  shows "holds env f' g' \<and> (\<exists>r. stored env f' r \<and> sound_record env r \<or> f' = f)"
proof (cases "n = 0")
  case True
  with assms show ?thesis by (simp add: lease_admit_def)
next
  case False
  let ?g = "g\<lparr>lg_record := (lg_record g)\<lparr>cl_arm_serial := n\<rparr>\<rparr>"
  have "holds env f ?g"
    using assms(4) False
    by (auto simp: holds_def sound_record_def lease_validate_def is_lapsed_def split: if_splits)
  moreover have "lease_renew env path fault stamp ?g f = (res, g', f')" using assms(2) False by (simp add: lease_admit_def)
  ultimately show ?thesis using renew_holds [OF assms(1) _ assms(3)] by blast
qed

lemma lapse_stored:
  assumes "lease_codec env" "lease_lapse env path fault sha proven_by tasks stamp g f = (res, f')"
    and "le_valid_time env stamp" "holds env f g"
  shows "f' = f \<or> (\<exists>r. stored env f' r \<and> sound_record env r)"
proof (cases "proof_names_revision (pr_reference proven_by) sha")
  case False
  with assms(2) show ?thesis by (simp add: lease_lapse_def)
next
  case True
  let ?r = "(lg_record g)\<lparr>cl_state := LeaseLapsed, cl_renewed_at := stamp, cl_holder := None,
      cl_lapse := Some (lapse_fact (lg_record g) sha proven_by tasks stamp)\<rparr>"
  obtain x where w: "lease_write env path fault ?r f = (x, f')"
    using assms(2) True by (auto simp: lease_lapse_def Let_def split: prod.splits sum.splits)
  have "sound_record env ?r"
    using assms(3,4) True
    by (auto simp: holds_def sound_record_def lease_validate_def is_lapsed_def proven_lapse_def lapse_fact_def
        split: if_splits)
  with lease_write_file [OF assms(1) w] show ?thesis by blast
qed

lemma lease_read_stored:
  assumes "lease_read env path fault f = Inr prior"
  shows "f = Absent \<and> prior = None \<or> (\<exists>r. prior = Some r \<and> stored env f r \<and> lease_validate env r = Inr ())"
  using assms by (auto simp: lease_read_def stored_def split: if_splits LeaseFile.splits option.splits sum.splits)

text \<open>An acquisition leaves the file, or puts a held record for its graph over one that allows it.\<close>

definition opens :: "LeaseEnv \<Rightarrow> CampaignActivation \<Rightarrow> LeaseFile \<Rightarrow> LeaseFile \<Rightarrow> CampaignLeaseV1 \<Rightarrow> bool" where
  "opens env act f f' r \<longleftrightarrow>
     stored env f' r \<and> sound_record env r \<and> \<not> is_lapsed r \<and> cl_graph_digest r = ca_graph_digest act \<and>
     (\<forall>r0. stored env f r0 \<and> is_lapsed r0 \<longrightarrow> cl_graph_digest r0 \<noteq> ca_graph_digest act)"

lemma acquire_effect:
  assumes "lease_codec env" "lease_acquire env path lock fault contended pid act stamp f = (res, f')"
  shows "f' = f \<and> (\<exists>e. res = Inl e) \<or>
      \<not> contended \<and> (\<exists>r. opens env act f f' r \<and> (\<forall>g. res = Inr g \<longrightarrow> lg_record g = r))"
proof -
  consider "f' = f" "\<exists>e. res = Inl e"
    | prior acquired_at acquisition x where "\<not> contended" "lease_read env path fault f = Inr prior"
        "acquisition_of act stamp prior = Inr (acquired_at, acquisition)"
        "lease_validate env (acquired_record act pid stamp acquired_at) = Inr ()"
        "lease_write env path fault (acquired_record act pid stamp acquired_at) f = (x, f')"
        "res = (case x of Inl e \<Rightarrow> Inl e | Inr _ \<Rightarrow> Inr \<lparr>lg_record = acquired_record act pid stamp acquired_at,
                  lg_acquisition = acquisition\<rparr>)"
    using assms(2) by (auto simp: lease_acquire_def Let_def split: sum.splits if_splits prod.splits)
  then show ?thesis
  proof cases
    case (2 prior acquired_at acquisition x)
    let ?r = "acquired_record act pid stamp acquired_at"
    have held: "\<not> is_lapsed ?r" "cl_graph_digest ?r = ca_graph_digest act"
      by (simp_all add: is_lapsed_def acquired_record_def)
    have "cl_graph_digest r0 \<noteq> ca_graph_digest act" if "stored env f r0" "is_lapsed r0" for r0
      using lease_read_stored [OF 2(2)] that 2(3)
      by (auto simp: acquisition_of_def stored_def split: if_splits option.splits)
    then have "stored env f' ?r \<Longrightarrow> opens env act f f' ?r"
      using 2(4) held by (simp add: opens_def sound_record_def)
    with lease_write_file [OF assms(1) 2(5)] 2(1,6) show ?thesis by (auto split: sum.splits)
  qed blast
qed

lemma lease_inv_step:
  assumes "lease_codec env" "lease_inv env s" "lease_step env s s'"
  shows "lease_inv env s'"
  using assms(3)
proof cases
  case (acquire path lock fault pid act stamp g f)
  from acquire_effect [OF assms(1) acquire(2)] obtain r where
    r: "cs_guards s = []" "opens env act (cs_file s) f r" "lg_record g = r" by auto
  then show ?thesis unfolding acquire(1) by (auto simp: lease_inv_def holds_def opens_def)
next
  case (refuse path lock fault pid act stamp e f)
  from acquire_effect [OF assms(1) refuse(2)] show ?thesis
    using assms(2) unfolding refuse(1) by (auto simp: lease_inv_def opens_def)
next
  case (renew xs g ys path fault stamp res g' f)
  have g: "xs = []" "ys = []" "holds env (cs_file s) g" using assms(2) renew(2) by (auto simp: lease_inv_def)
  from renew_holds [OF assms(1) renew(3,4) g(3)] show ?thesis
    using assms(2) unfolding renew(1) by (auto simp: lease_inv_def g)
next
  case (admit xs g ys path fault n stamp res g' f)
  have g: "xs = []" "ys = []" "holds env (cs_file s) g" using assms(2) admit(2) by (auto simp: lease_inv_def)
  from admit_holds [OF assms(1) admit(3,4) g(3)] show ?thesis
    using assms(2) unfolding admit(1) by (auto simp: lease_inv_def g)
next
  case (lapse xs g ys path fault sha proven_by tasks stamp res f)
  have g: "xs = []" "ys = []" "holds env (cs_file s) g" using assms(2) lapse(2) by (auto simp: lease_inv_def)
  from lapse_stored [OF assms(1) lapse(3,4) g(3)] show ?thesis
    using assms(2) unfolding lapse(1) by (auto simp: lease_inv_def g)
next
  case (drop xs g ys)
  then show ?thesis using assms(2) by (auto simp: lease_inv_def)
qed

lemma lease_inv_reachable: "lease_reachable env s \<Longrightarrow> lease_codec env \<Longrightarrow> lease_inv env s"
proof (induction rule: lease_reachable.induct)
  case init
  then show ?case by (simp add: lease_inv_def)
next
  case (step s s')
  then show ?case by (blast intro: lease_inv_step)
qed

section \<open>Properties\<close>

text \<open>
  C38. One pass at a time, and completion is proven: in every state passes can reach, with any system
  call failing and any pass crashing, at most one guard is alive and it holds the graph on file; the
  record on file is valid, and a lapsed one carries the fact of its own graph and epoch with a proof
  that names the revision, and leaves no pass alive.
\<close>

theorem lease_lifecycle_safe:
  assumes "lease_codec env" "lease_reachable env s"
  shows "length (cs_guards s) \<le> 1 \<and>
     (\<forall>r. stored env (cs_file s) r \<longrightarrow> lease_validate env r = Inr () \<and>
        (is_lapsed r \<longrightarrow> cs_guards s = [] \<and> proven_lapse r)) \<and>
     (\<forall>g \<in> set (cs_guards s). \<exists>r. stored env (cs_file s) r \<and> \<not> is_lapsed r \<and>
        cl_graph_digest r = cl_graph_digest (lg_record g))"
proof -
  note inv = lease_inv_reachable [OF assms(2,1), unfolded lease_inv_def]
  have "lease_validate env r = Inr () \<and> (is_lapsed r \<longrightarrow> cs_guards s = [] \<and> proven_lapse r)"
    if r: "stored env (cs_file s) r" for r
  proof -
    from r have "cs_file s \<noteq> Absent" by (auto simp: stored_def)
    with inv r have "sound_record env r" using stored_unique by blast
    moreover have "cs_guards s = []" if "is_lapsed r"
    proof (cases "cs_guards s")
      case (Cons g gs)
      with inv have "holds env (cs_file s) g" by simp
      then show ?thesis using stored_unique [OF r] that unfolding holds_def by blast
    qed simp
    ultimately show ?thesis by (simp add: sound_record_def)
  qed
  with inv show ?thesis by (auto simp: holds_def)
qed

text \<open>
  C39. A lapsed lease is a closed door: from a reachable state whose record has lapsed, a step leaves
  the file as it is and no pass alive, or it is an activation of another graph, which puts a held
  record for that graph in its place.
\<close>

theorem lapsed_is_closed:
  assumes "lease_codec env" "lease_reachable env s" "stored env (cs_file s) r" "is_lapsed r" "lease_step env s s'"
  shows "cs_file s' = cs_file s \<and> cs_guards s' = [] \<or>
     (\<exists>r'. stored env (cs_file s') r' \<and> \<not> is_lapsed r' \<and> cl_graph_digest r' \<noteq> cl_graph_digest r)"
proof -
  have none: "cs_guards s = []"
  proof (cases "cs_guards s")
    case (Cons g gs)
    with lease_inv_reachable [OF assms(2,1)] have "holds env (cs_file s) g" by (simp add: lease_inv_def)
    then show ?thesis using stored_unique [OF assms(3)] assms(4) unfolding holds_def by blast
  qed simp
  have opened: "cl_graph_digest r' \<noteq> cl_graph_digest r" if "opens env act (cs_file s) f r'" for act f r'
    using that assms(3,4) unfolding opens_def by metis
  from assms(5) show ?thesis
  proof cases
    case (acquire path lock fault pid act stamp g f)
    from acquire_effect [OF assms(1) acquire(2)] obtain r' where r': "opens env act (cs_file s) f r'" by auto
    with opened [OF r'] show ?thesis unfolding acquire(1) by (auto simp: opens_def)
  next
    case (refuse path lock fault pid act stamp e f)
    from acquire_effect [OF assms(1) refuse(2)] show ?thesis
    proof
      assume "f = cs_file s \<and> (\<exists>ea. Inl e = Inl ea)"
      then show ?thesis unfolding refuse(1) by (simp add: none)
    next
      assume "\<not> (cs_guards s \<noteq> []) \<and> (\<exists>r'. opens env act (cs_file s) f r' \<and> (\<forall>g. Inl e = Inr g \<longrightarrow> lg_record g = r'))"
      then obtain r' where r': "opens env act (cs_file s) f r'" by blast
      with opened [OF r'] show ?thesis unfolding refuse(1) by (auto simp: opens_def)
    qed
  qed (use none in auto)
qed

lemma find_skip: "(\<forall>y \<in> set ys. \<not> P y) \<Longrightarrow> P x \<Longrightarrow> List.find P (ys @ x # zs) = Some x"
  by (induction ys) auto

lemma find_last:
  "List.find P (rev xs) = Some x \<longleftrightarrow> (\<exists>pre post. xs = pre @ x # post \<and> P x \<and> (\<forall>y \<in> set post. \<not> P y))"
proof
  assume f: "List.find P (rev xs) = Some x"
  then have "\<exists>y \<in> set (rev xs). P y" using find_None_iff [of P "rev xs"] by auto
  then obtain ys y zs where y: "rev xs = ys @ y # zs" "P y" "\<forall>z \<in> set ys. \<not> P z" by (metis split_list_first_prop)
  with f find_skip [OF y(3,2)] have "y = x" by simp
  moreover have "xs = rev zs @ y # rev ys" using y(1) by (metis append.assoc append_Cons append_Nil rev.simps(2) rev_append rev_swap)
  ultimately show "\<exists>pre post. xs = pre @ x # post \<and> P x \<and> (\<forall>y \<in> set post. \<not> P y)"
    using y(2,3) by (intro exI [of _ "rev zs"] exI [of _ "rev ys"]) simp
next
  assume "\<exists>pre post. xs = pre @ x # post \<and> P x \<and> (\<forall>y \<in> set post. \<not> P y)"
  then show "List.find P (rev xs) = Some x" by (auto simp: find_skip)
qed

text \<open>What a gate's proof of a revision is, as a ref of the authority remote.\<close>

definition gate_proof :: "CampaignLeaseFacts \<Rightarrow> string \<Rightarrow> string \<Rightarrow> bool" where
  "gate_proof facts gate_id reference \<longleftrightarrow>
     (reference, lf_published_head facts) \<in> set (lf_campaign_refs facts) \<and>
     proof_names_revision reference (lf_published_head facts) \<and>
     (\<exists>suffix. reference = lf_state_prefix facts @ ''/checkpoint/'' @ suffix \<and> checkpoint_names_task suffix gate_id)"

lemma gate_proof_found:
  "gate_proof_reference (lf_state_prefix facts) (lf_campaign_refs facts) g (lf_published_head facts) = Some reference \<Longrightarrow>
     gate_proof facts g reference"
  "gate_proof_reference (lf_state_prefix facts) (lf_campaign_refs facts) g (lf_published_head facts) = None \<Longrightarrow>
     \<not> gate_proof facts g reference"
  unfolding gate_proof_reference_def gate_proof_def
  by (auto simp: find_Some_iff find_None_iff is_some_and_strip dest: nth_mem)

lemma lapse_content:
  assumes "lease_disposition facts = Lapse sha p tasks reason"
  shows "sha = lf_published_head facts \<and> tasks = map lt_id (lf_tasks facts) \<and>
    gate_proof facts (pr_task_id p) (pr_reference p) \<and> lf_live_nodes facts = 0 \<and>
    (\<forall>t \<in> set (lf_tasks facts). task_is_terminal (lf_state_prefix facts) (lf_campaign_refs facts) t) \<and>
    (\<exists>gate. List.find lt_checkpoint (rev (lf_tasks facts)) = Some gate \<and> pr_task_id p = lt_id gate)"
  using assms
  by (auto simp: lease_disposition_def Let_def filter_empty_conv dest: gate_proof_found(1) split: if_splits option.splits)

lemma lapse_iff:
  "(\<exists>sha p tasks reason. lease_disposition facts = Lapse sha p tasks reason) \<longleftrightarrow>
     lf_live_nodes facts = 0 \<and>
     (\<forall>t \<in> set (lf_tasks facts). task_is_terminal (lf_state_prefix facts) (lf_campaign_refs facts) t) \<and>
     (\<exists>gate reference. List.find lt_checkpoint (rev (lf_tasks facts)) = Some gate \<and> gate_proof facts (lt_id gate) reference)"
    (is "?l \<longleftrightarrow> ?r")
proof
  assume ?l
  then obtain sha p tasks reason where "lease_disposition facts = Lapse sha p tasks reason" by blast
  from lapse_content [OF this] show ?r by force
next
  assume r: ?r
  then obtain gate reference where g: "List.find lt_checkpoint (rev (lf_tasks facts)) = Some gate"
    "gate_proof facts (lt_id gate) reference" by blast
  obtain reference' where "gate_proof_reference (lf_state_prefix facts) (lf_campaign_refs facts) (lt_id gate)
      (lf_published_head facts) = Some reference'" using gate_proof_found(2) g(2) by blast
  moreover have "is_object_id (lf_published_head facts)" using g(2) by (simp add: gate_proof_def proof_names_revision_def)
  ultimately show ?l using r g(1) by (auto simp: lease_disposition_def Let_def filter_empty_conv)
qed

text \<open>
  C40. The lease lapses exactly when nothing runs, every admitted task has its completion ref, and the
  last checkpoint task has proved the published head; then it lapses on that head with a proof of
  that task, and giving up the guard with this decision is never refused as unproven.
\<close>

theorem lease_lapses_iff_proven:
  "((\<exists>sha p tasks reason. lease_disposition facts = Lapse sha p tasks reason) \<longleftrightarrow>
      lf_live_nodes facts = 0 \<and>
      (\<forall>t \<in> set (lf_tasks facts). task_is_terminal (lf_state_prefix facts) (lf_campaign_refs facts) t) \<and>
      (\<exists>pre gate post reference. lf_tasks facts = pre @ gate # post \<and> lt_checkpoint gate \<and>
         (\<forall>t \<in> set post. \<not> lt_checkpoint t) \<and> gate_proof facts (lt_id gate) reference)) \<and>
   (\<forall>sha p tasks reason. lease_disposition facts = Lapse sha p tasks reason \<longrightarrow>
      sha = lf_published_head facts \<and> tasks = map lt_id (lf_tasks facts) \<and>
      gate_proof facts (pr_task_id p) (pr_reference p) \<and>
      (\<forall>env path fault stamp g f a b. fst (lease_lapse env path fault sha p tasks stamp g f) \<noteq> Inl (UnprovenLapse a b)))"
proof (intro conjI allI impI)
  let ?terminal = "task_is_terminal (lf_state_prefix facts) (lf_campaign_refs facts)"
  let ?gate = "List.find lt_checkpoint (rev (lf_tasks facts))"
  show "(\<exists>sha p tasks reason. lease_disposition facts = Lapse sha p tasks reason) \<longleftrightarrow>
      lf_live_nodes facts = 0 \<and> (\<forall>t \<in> set (lf_tasks facts). ?terminal t) \<and>
      (\<exists>pre gate post reference. lf_tasks facts = pre @ gate # post \<and> lt_checkpoint gate \<and>
         (\<forall>t \<in> set post. \<not> lt_checkpoint t) \<and> gate_proof facts (lt_id gate) reference)"
    (is "_ \<longleftrightarrow> ?n \<and> ?t \<and> ?g")
  proof -
    have g: "?g \<longleftrightarrow> (\<exists>gate reference. ?gate = Some gate \<and> gate_proof facts (lt_id gate) reference)"
      by (auto simp: find_last)
    show ?thesis unfolding g
      using lapse_iff [of facts] by auto
  qed
next
  fix sha p tasks reason
  assume "lease_disposition facts = Lapse sha p tasks reason"
  then show "sha = lf_published_head facts" "tasks = map lt_id (lf_tasks facts)" "gate_proof facts (pr_task_id p) (pr_reference p)"
    by (auto dest: lapse_content)
next
  fix sha p tasks reason env path fault stamp g f a b
  assume "lease_disposition facts = Lapse sha p tasks reason"
  then have "proof_names_revision (pr_reference p) sha" by (auto dest!: lapse_content simp: gate_proof_def)
  then show "fst (lease_lapse env path fault sha p tasks stamp g f) \<noteq> Inl (UnprovenLapse a b)"
    by (auto simp: lease_lapse_def lease_write_def Let_def split: option.splits if_splits)
qed

section \<open>A campaign that finishes\<close>

definition sample_act :: CampaignActivation where
  "sample_act = \<lparr>ca_campaign = ''c'', ca_repository = ''r'', ca_worklist = ''w'', ca_arm_serial = 1, ca_graph_digest = ''g''\<rparr>"

definition sample_held :: CampaignLeaseV1 where
  "sample_held = acquired_record sample_act 7 ''t'' ''t''"

definition sample_gate_proof :: PublishProof where
  "sample_gate_proof = \<lparr>pr_task_id = ''gate'', pr_reference = ''refs/x/'' @ sample_head\<rparr>"

definition sample_lapsed :: CampaignLeaseV1 where
  "sample_lapsed = sample_held\<lparr>cl_state := LeaseLapsed, cl_renewed_at := ''t'', cl_holder := None,
     cl_lapse := Some (lapse_fact sample_held sample_head sample_gate_proof [''gate''] ''t'')\<rparr>"

definition sample_env :: LeaseEnv where
  "sample_env =
     \<lparr>le_encode = (\<lambda>r. if r = sample_held then Some ''h'' else if r = sample_lapsed then Some ''l'' else None),
      le_decode = (\<lambda>t. if t = [CHR ''h'', CHR 10] then Some sample_held
                       else if t = [CHR ''l'', CHR 10] then Some sample_lapsed else None),
      le_valid_time = (\<lambda>_. True), le_sha256 = (\<lambda>_. [])\<rparr>"

definition sample_done :: CampaignSys where
  "sample_done = \<lparr>cs_file = Regular [CHR ''l'', CHR 10], cs_guards = []\<rparr>"

lemma sample_codec_lease: "lease_codec sample_env"
  by (auto simp: lease_codec_def sample_env_def)

lemma sample_records:
  "lease_validate sample_env sample_held = Inr ()" "lease_validate sample_env sample_lapsed = Inr ()"
  "\<not> is_lapsed sample_held" "is_lapsed sample_lapsed" "sample_lapsed \<noteq> sample_held"
  by (auto simp: lease_validate_def is_lapsed_def sample_env_def sample_held_def sample_lapsed_def acquired_record_def
      sample_act_def CAMPAIGN_LEASE_SCHEMA_VERSION_def)

lemma sample_done_reachable: "lease_reachable sample_env sample_done"
proof -
  have a: "lease_acquire sample_env [] [] None False 7 sample_act ''t'' Absent
      = (Inr \<lparr>lg_record = sample_held, lg_acquisition = Activated\<rparr>, Regular [CHR ''h'', CHR 10])"
    using sample_records(1)
    by (simp add: lease_acquire_def open_lock_def lease_read_def acquisition_of_def lease_write_def
        sample_held_def [symmetric] sample_env_def)
  have l: "lease_lapse sample_env [] None sample_head sample_gate_proof [''gate''] ''t''
      \<lparr>lg_record = sample_held, lg_acquisition = Activated\<rparr> (Regular [CHR ''h'', CHR 10])
      = (Inr (lapse_fact sample_held sample_head sample_gate_proof [''gate''] ''t''), Regular [CHR ''l'', CHR 10])"
  proof -
    have "proof_names_revision (pr_reference sample_gate_proof) sample_head"
      using sample_head_id(3) by (simp add: sample_gate_proof_def)
    moreover have "sample_held\<lparr>cl_state := LeaseLapsed, cl_renewed_at := ''t'', cl_holder := None,
        cl_lapse := Some (lapse_fact sample_held sample_head sample_gate_proof [''gate''] ''t'')\<rparr> = sample_lapsed"
      by (simp add: sample_lapsed_def)
    ultimately show ?thesis
      using sample_records(5) by (simp add: lease_lapse_def Let_def lease_write_def sample_env_def)
  qed
  have "lease_reachable sample_env \<lparr>cs_file = Regular [CHR ''h'', CHR 10],
      cs_guards = [\<lparr>lg_record = sample_held, lg_acquisition = Activated\<rparr>]\<rparr>"
    using lease_reachable.step [OF lease_reachable.init lease_step.acquire [of sample_env _ _ _ "\<lparr>cs_file = Absent, cs_guards = []\<rparr>"]] a
    by (simp add: sample_env_def)
  moreover have "lease_step sample_env \<lparr>cs_file = Regular [CHR ''h'', CHR 10],
      cs_guards = [\<lparr>lg_record = sample_held, lg_acquisition = Activated\<rparr>]\<rparr> sample_done"
    using lease_step.lapse [of "\<lparr>cs_file = Regular [CHR ''h'', CHR 10], cs_guards = [\<lparr>lg_record = sample_held, lg_acquisition = Activated\<rparr>]\<rparr>"
        "[]" _ "[]" sample_env] l
    by (simp add: sample_done_def sample_env_def)
  ultimately show ?thesis by (rule lease_reachable.step)
qed

lemma sample_done_stored: "stored sample_env (cs_file sample_done) sample_lapsed"
  by (simp add: stored_def sample_done_def sample_env_def)

theorem lease_lifecycle_safe_witness:
  "lease_reachable sample_env sample_done \<and> stored sample_env (cs_file sample_done) sample_lapsed \<and>
   is_lapsed sample_lapsed \<and> proven_lapse sample_lapsed"
  using lease_lifecycle_safe [OF sample_codec_lease sample_done_reachable] sample_done_stored sample_records(4)
    sample_done_reachable by blast

theorem lapsed_is_closed_witness:
  "lease_step sample_env sample_done sample_done \<and>
   (cs_file sample_done = cs_file sample_done \<and> cs_guards sample_done = [] \<or>
     (\<exists>r'. stored sample_env (cs_file sample_done) r' \<and> \<not> is_lapsed r' \<and> cl_graph_digest r' \<noteq> cl_graph_digest sample_lapsed))"
proof -
  have "lease_acquire sample_env [] [] None False 7 sample_act ''t'' (cs_file sample_done)
      = (Inl (LapsedAt (cl_campaign sample_lapsed) sample_head ''t''), cs_file sample_done)"
    using sample_records(2,4)
    by (simp add: lease_acquire_def open_lock_def lease_read_def acquisition_of_def sample_done_def sample_env_def
        MAX_CAMPAIGN_LEASE_BYTES_def)
      (simp add: sample_lapsed_def lapse_fact_def sample_held_def acquired_record_def sample_act_def)
  then have step: "lease_step sample_env sample_done sample_done"
    using lease_step.refuse [of sample_env "[]" "[]" None sample_done 7 sample_act "''t''"]
    by (simp add: sample_done_def sample_env_def)
  with lapsed_is_closed [OF sample_codec_lease sample_done_reachable sample_done_stored sample_records(4) step] show ?thesis
    by blast
qed

definition sample_facts :: CampaignLeaseFacts where
  "sample_facts =
     \<lparr>lf_state_prefix = ''p'', lf_tasks = [\<lparr>lt_id = ''gate'', lt_checkpoint = True\<rparr>],
      lf_campaign_refs = [(''p/checkpoint/gate-'' @ replicate 64 (CHR ''a'') @ ''/'' @ sample_head, sample_head)],
      lf_published_head = sample_head, lf_live_nodes = 0\<rparr>"

theorem lease_lapses_iff_proven_witness:
  "\<exists>p tasks reason. lease_disposition sample_facts = Lapse sample_head p tasks reason \<and>
     gate_proof sample_facts (pr_task_id p) (pr_reference p)"
proof -
  let ?ref = "''p/checkpoint/gate-'' @ replicate 64 (CHR ''a'') @ ''/'' @ sample_head"
  have hex: "is_lowercase_hex (replicate 64 (CHR ''a'')) WORKLIST_DIGEST_HEX"
    by (simp add: is_lowercase_hex_def WORKLIST_DIGEST_HEX_def list_all_iff hex_char_def is_ascii_digit_def byte_def)
  have names: "checkpoint_names_task (''gate-'' @ replicate 64 (CHR ''a'') @ ''/'' @ sample_head) ''gate''"
    using checkpoint_task_unique [OF hex, of "''gate''" sample_head "''gate''"] sample_head_id(1) by simp
  have ref: "?ref = (''p/checkpoint/gate-'' @ replicate 64 (CHR ''a'')) @ ''/'' @ sample_head" by simp
  have sel: "lf_state_prefix sample_facts = ''p''" "lf_published_head sample_facts = sample_head" "lf_live_nodes sample_facts = 0"
    "lf_tasks sample_facts = [\<lparr>lt_id = ''gate'', lt_checkpoint = True\<rparr>]" "lf_campaign_refs sample_facts = [(?ref, sample_head)]"
    by (simp_all add: sample_facts_def)
  have proof_ref: "gate_proof sample_facts ''gate'' ?ref"
    unfolding gate_proof_def sel using names sample_head_id(1) by (auto simp: proof_names_revision_iff)
  have terminal: "task_is_terminal ''p'' [(?ref, sample_head)] \<lparr>lt_id = ''gate'', lt_checkpoint = True\<rparr>"
    using names by (simp add: task_is_terminal_def is_some_and_strip)
  have gate: "\<exists>pre gate post reference. lf_tasks sample_facts = pre @ gate # post \<and> lt_checkpoint gate \<and>
      (\<forall>t \<in> set post. \<not> lt_checkpoint t) \<and> gate_proof sample_facts (lt_id gate) reference"
    by (rule exI [of _ "[]"], rule exI [of _ "\<lparr>lt_id = ''gate'', lt_checkpoint = True\<rparr>"], rule exI [of _ "[]"], rule exI [of _ ?ref])
      (use proof_ref in \<open>simp add: sel(4)\<close>)
  have "lf_live_nodes sample_facts = 0 \<and>
      (\<forall>t \<in> set (lf_tasks sample_facts). task_is_terminal (lf_state_prefix sample_facts) (lf_campaign_refs sample_facts) t)"
    unfolding sel using terminal by simp
  then obtain sha p tasks reason where d: "lease_disposition sample_facts = Lapse sha p tasks reason"
    using lease_lapses_iff_proven [of sample_facts, THEN conjunct1] gate by blast
  with lease_lapses_iff_proven [of sample_facts, THEN conjunct2] show ?thesis unfolding sel by blast
qed

end
