(* ===== verification/Driver_Git.thy ===== *)
theory Driver_Git
  imports Campaign_Refs Driver_Json
begin

text \<open>
  The driver's use of Git (\<open>spec-build-driver/src/git.rs\<close> and the ref queries of \<open>actions.rs\<close>).
  Running a command is a parameter: it sees the arguments the code passes and the state of the world,
  of which the refs of the campaign's remote and the local branches are known, and it gives the exit code and the two
  output streams. Everything the driver makes of these is defined here: lossy decoding, trimming,
  error texts, and the parsing of \<open>ls-remote\<close> and \<open>diff\<close> output.
\<close>

section \<open>Steps that may fail\<close>

type_synonym ('s, 'a) act = "'s \<Rightarrow> (string + 'a) \<times> 's"

definition give :: "'a \<Rightarrow> ('s, 'a) act" where
  "give x w = (Inr x, w)"

definition refuse :: "string \<Rightarrow> ('s, 'a) act" where
  "refuse e w = (Inl e, w)"

definition lift :: "string + 'a \<Rightarrow> ('s, 'a) act" where
  "lift r w = (r, w)"

text \<open>The question mark operator.\<close>

definition and_then :: "('s, 'a) act \<Rightarrow> ('a \<Rightarrow> ('s, 'b) act) \<Rightarrow> ('s, 'b) act" where
  "and_then m f w = (case m w of (Inl e, w') \<Rightarrow> (Inl e, w') | (Inr x, w') \<Rightarrow> f x w')"

lemma and_then_cases:
  assumes "and_then m f w = (r, w')"
  obtains (stop) e where "m w = (Inl e, w')" "r = Inl e"
  | (go) x w1 where "m w = (Inr x, w1)" "f x w1 = (r, w')"
  using assms by (auto simp: and_then_def split: prod.splits sum.splits)

section \<open>Output of a command\<close>

text \<open>
  \<open>String::from_utf8_lossy\<close>: every maximal prefix of a well-formed sequence that does not go on
  becomes one replacement character.
\<close>

definition REPLACEMENT :: string where
  "REPLACEMENT = [CHR 0xEF, CHR 0xBF, CHR 0xBD]"

definition second_byte :: "nat \<Rightarrow> nat \<Rightarrow> bool" where
  "second_byte b c \<longleftrightarrow>
     utf8_tail c \<and> (b = 224 \<longrightarrow> 160 \<le> c) \<and> (b = 237 \<longrightarrow> c \<le> 159) \<and> (b = 240 \<longrightarrow> 144 \<le> c) \<and> (b = 244 \<longrightarrow> c \<le> 143)"

definition lossy_skip :: "nat list \<Rightarrow> nat" where
  "lossy_skip bs =
     (case bs of
        b # c # ds \<Rightarrow>
          if 224 \<le> b \<and> b \<le> 239 \<and> second_byte b c then 2
          else if 240 \<le> b \<and> b \<le> 244 \<and> second_byte b c
          then (case ds of d # _ \<Rightarrow> if utf8_tail d then 3 else 2 | [] \<Rightarrow> 2)
          else 1
      | _ \<Rightarrow> 1)"

lemma lossy_skip_pos [simp]: "0 < lossy_skip bs"
  by (simp add: lossy_skip_def split: list.splits)

function from_utf8_lossy :: "string \<Rightarrow> string" where
  "from_utf8_lossy s =
     (if s = [] then []
      else let n = utf8_scalar (map byte s)
           in if n = 0 then REPLACEMENT @ from_utf8_lossy (drop (lossy_skip (map byte s)) s)
              else take n s @ from_utf8_lossy (drop n s))"
  by pat_completeness auto
termination
  by (relation "measure length") auto

declare from_utf8_lossy.simps [simp del]

lemma lossy_Nil [simp]: "from_utf8_lossy [] = []"
  by (simp add: from_utf8_lossy.simps [of "[]"])

lemma lossy_valid: "utf8 s \<Longrightarrow> from_utf8_lossy s = s"
proof (induction s rule: from_utf8_lossy.induct)
  case (1 s)
  show ?case
  proof (cases "s = []")
    case True
    then show ?thesis by simp
  next
    case False
    with "1.prems" have "utf8_scalar (map byte s) \<noteq> 0" "utf8 (drop (utf8_scalar (map byte s)) s)"
      by (auto simp: valid_utf8.simps [of "map byte s"] drop_map split: if_splits)
    then show ?thesis
      using "1.IH"(2) [OF False refl] by (subst from_utf8_lossy.simps) (simp add: Let_def False)
  qed
qed

text \<open>What comes out is text: a replacement character starts a scalar, and a kept piece is one.\<close>

lemma utf8_scalar_prefix:
  assumes "utf8_scalar bs = n" "0 < n"
  shows "n \<le> length bs \<and> utf8_scalar (take n bs @ u) = n"
proof -
  consider "bs = []" | b where "bs = [b]" | b c where "bs = [b, c]" | b c d where "bs = [b, c, d]"
    | b c d e es where "bs = b # c # d # e # es"
    by (metis list.exhaust)
  then show ?thesis
    by cases (use assms in \<open>auto simp: utf8_scalar_def numeral_eq_Suc split: if_splits\<close>)
qed

lemma utf8_scalar_text:
  assumes "utf8_scalar (map byte s) = n" "0 < n"
  shows "n \<le> length s" "utf8_scalar (map byte (take n s @ t)) = n"
  using utf8_scalar_prefix [OF assms, of "map byte t"] by (simp_all add: take_map)

lemma lossy_is_text: "utf8 (from_utf8_lossy s)"
proof (induction s rule: from_utf8_lossy.induct)
  case (1 s)
  let ?n = "utf8_scalar (map byte s)"
  consider "s = []" | "s \<noteq> []" "?n = 0" | "s \<noteq> []" "0 < ?n" by auto
  then show ?case
  proof cases
    case 1
    then show ?thesis by (simp add: valid_utf8.simps [of "[]"])
  next
    case 2
    have "utf8_scalar (map byte (REPLACEMENT @ t)) = 3" for t
      by (simp add: REPLACEMENT_def utf8_scalar_def byte_def utf8_tail_def)
    then have "utf8 (REPLACEMENT @ t) = utf8 t" for t
      by (subst valid_utf8.simps) (simp add: REPLACEMENT_def)
    with "1.IH"(1) [OF 2(1) refl 2(2)] show ?thesis
      by (subst from_utf8_lossy.simps) (simp add: 2)
  next
    case 3
    note sc = utf8_scalar_text [OF refl 3(2)]
    have "utf8 (take ?n s @ t) = utf8 t" for t
      using sc(1) sc(2) [of t] 3 by (subst valid_utf8.simps) (simp add: drop_map)
    with "1.IH"(2) [OF 3(1) refl] 3 show ?thesis
      by (subst from_utf8_lossy.simps) (simp add: Let_def)
  qed
qed

record GitOutput =
  gout_status :: int
  gout_stdout :: string
  gout_stderr :: string

definition success :: "GitOutput \<Rightarrow> bool" where
  "success out \<longleftrightarrow> gout_status out = 0"

definition stdout_text :: "GitOutput \<Rightarrow> string" where
  "stdout_text out = from_utf8_lossy (gout_stdout out)"

definition stderr_text :: "GitOutput \<Rightarrow> string" where
  "stderr_text out = from_utf8_lossy (gout_stderr out)"

definition stdout_trimmed :: "GitOutput \<Rightarrow> string" where
  "stdout_trimmed out = trim (stdout_text out)"

definition detail :: "GitOutput \<Rightarrow> string" where
  "detail out =
     (let err = trim (stderr_text out); out_text = trim (stdout_text out)
      in if err \<noteq> [] then err else if out_text \<noteq> [] then out_text else ''no output'')"

section \<open>Running Git\<close>

type_synonym refs = "string \<Rightarrow> string option"

text \<open>The refs of the campaign's remote, the branches of the checkout, and everything else.\<close>

record 'w GitWorld =
  gw_remote :: refs
  gw_branches :: refs
  gw_other :: 'w

text \<open>
  Commands, the few file operations, the clock, fresh names and the \<open>Debug\<close> form of a string. A
  command that cannot be started gives the error; one that a signal ended has no code.
\<close>

record 'w GitEnv =
  ge_run :: "string \<Rightarrow> string list \<Rightarrow> 'w GitWorld \<Rightarrow> (string + int option \<times> string \<times> string) \<times> 'w GitWorld"
  ge_create_dir_all :: "string \<Rightarrow> 'w \<Rightarrow> (string + unit) \<times> 'w"
  ge_remove_dir_all :: "string \<Rightarrow> 'w \<Rightarrow> 'w"
  ge_is_dir :: "string \<Rightarrow> 'w \<Rightarrow> bool"
  ge_uuid :: "'w \<Rightarrow> string"
  ge_now :: "'w \<Rightarrow> string"
  ge_debug :: "string \<Rightarrow> string"

definition show_status :: "int \<Rightarrow> string" where
  "show_status n = (if n < 0 then CHR ''-'' # show_nat (nat (- n)) else show_nat (nat n))"

definition git :: "'w GitEnv \<Rightarrow> string \<Rightarrow> string list \<Rightarrow> bool \<Rightarrow> ('w GitWorld, GitOutput) act" where
  "git env directory arguments check w =
     (case ge_run env directory arguments w of
        (Inl e, w') \<Rightarrow> (Inl (''cannot execute git: '' @ e), w')
      | (Inr (code, stdout, stderr), w') \<Rightarrow>
          (let result = \<lparr>gout_status = (case code of Some c \<Rightarrow> c | None \<Rightarrow> 128), gout_stdout = stdout, gout_stderr = stderr\<rparr>
           in if check \<and> \<not> success result
              then (Inl (''git '' @ join_text '' '' arguments @ '' exited '' @ show_status (gout_status result)
                         @ '': '' @ detail result), w')
              else (Inr result, w')))"

lemma git_ran:
  assumes "git env dir args check w = (Inr out, w')"
  obtains code where "ge_run env dir args w = (Inr (code, gout_stdout out, gout_stderr out), w')"
    "gout_status out = (case code of Some c \<Rightarrow> c | None \<Rightarrow> 128)" "check \<Longrightarrow> success out"
  using assms by (auto simp: git_def Let_def split: prod.splits sum.splits if_splits)

lemma git_run: "git env dir args check w = (r, w') \<Longrightarrow> \<exists>x. ge_run env dir args w = (x, w')"
  by (auto simp: git_def Let_def split: prod.splits sum.splits if_splits)

lemma git_success:
  assumes "git env dir args check w = (Inr out, w')" "success out"
  shows "ge_run env dir args w = (Inr (Some 0, gout_stdout out, gout_stderr out), w')"
proof -
  obtain code where run: "ge_run env dir args w = (Inr (code, gout_stdout out, gout_stderr out), w')"
    and "gout_status out = (case code of Some c \<Rightarrow> c | None \<Rightarrow> 128)" by (rule git_ran [OF assms(1)]) blast
  with assms(2) have "code = Some 0" by (cases code) (simp_all add: success_def)
  with run show ?thesis by simp
qed

section \<open>Queries\<close>

definition TAB :: char where
  "TAB = CHR 9"

definition listed_oid :: "'w GitEnv \<Rightarrow> string \<Rightarrow> string list \<Rightarrow> string + string option" where
  "listed_oid env reference rows =
     (let malformed = Inl (''remote ref lookup for '' @ ge_debug env reference @ '' returned malformed output'')
      in case rows of
           [] \<Rightarrow> Inr None
         | [row] \<Rightarrow>
             (case split_once TAB row of
                None \<Rightarrow> malformed
              | Some (oid, observed_reference) \<Rightarrow>
                  if observed_reference \<noteq> reference \<or> \<not> is_full_oid oid then malformed else Inr (Some oid))
         | _ \<Rightarrow> Inl (''remote ref lookup for '' @ ge_debug env reference @ '' returned ''
                     @ show_nat (length rows) @ '' rows''))"

definition remote_ref_oid :: "'w GitEnv \<Rightarrow> string \<Rightarrow> string \<Rightarrow> string \<Rightarrow> ('w GitWorld, string option) act" where
  "remote_ref_oid env checkout remote reference =
     and_then (git env checkout [''ls-remote'', ''--refs'', remote, reference] True) (\<lambda>listed.
       lift (listed_oid env reference (filter (\<lambda>line. line \<noteq> []) (str_lines (stdout_text listed)))))"

definition local_branch_oid :: "'w GitEnv \<Rightarrow> string \<Rightarrow> string \<Rightarrow> ('w GitWorld, string option) act" where
  "local_branch_oid env checkout branch =
     and_then (git env checkout [''rev-parse'', ''--verify'', ''refs/heads/'' @ branch @ ''^{commit}''] False) (\<lambda>resolved.
       if \<not> success resolved then give None
       else let oid = stdout_trimmed resolved
            in if \<not> is_full_oid oid then refuse ''local campaign branch listing returned malformed output''
               else give (Some oid))"

text \<open>\<open>BTreeSet\<close> collects the distinct entries in order.\<close>

definition changed_paths :: "'w GitEnv \<Rightarrow> string \<Rightarrow> string \<Rightarrow> string \<Rightarrow> ('w GitWorld, string list) act" where
  "changed_paths env checkout from_rev to_rev =
     and_then (git env checkout [''diff'', ''--name-only'', ''--no-renames'', ''-z'', from_rev @ ''..'' @ to_rev] True) (\<lambda>listed.
       give (map fst (fold (\<lambda>p. btree_insert p ())
               (map from_utf8_lossy (filter (\<lambda>e. e \<noteq> []) (split_on (CHR 0x00) (gout_stdout listed)))) [])))"

section \<open>What is relied on of Git\<close>

text \<open>
  What the laws speak about beside the refs: which commit is an ancestor of which, in which worktrees the
  \<open>HEAD\<close> is detached, and the remote-tracking branches, by the name of the branch they track.
\<close>

record 'w GitView =
  gv_ancestor :: "string \<Rightarrow> string \<Rightarrow> bool"
  gv_detached :: "string \<Rightarrow> 'w GitWorld \<Rightarrow> bool"
  gv_tracking :: "'w GitWorld \<Rightarrow> refs"

definition unmoved :: "'w GitView \<Rightarrow> 'w GitWorld \<Rightarrow> 'w GitWorld \<Rightarrow> bool" where
  "unmoved v w w' \<longleftrightarrow>
     gw_remote w' = gw_remote w \<and> gw_branches w' = gw_branches w \<and> gv_tracking v w' = gv_tracking v w"

text \<open>
  The laws are about the commands of the driver, in the form in which it runs them, in a checkout with Git's
  default configuration for pushes and rebases and the default refspec of a configured remote, where no branch is a
  symbolic ref; nobody else writes to the checkout and the remote meanwhile.

  The commands that only look.
\<close>

definition queries :: "string \<Rightarrow> string list \<Rightarrow> bool" where
  "queries remote args \<longleftrightarrow>
     args = [''rev-parse'', ''--git-dir''] \<or> args = [''rev-parse'', ''HEAD''] \<or>
     (\<exists>r. args = [''rev-parse'', ''--verify'', r]) \<or>
     (\<exists>a b. args = [''merge-base'', a, b]) \<or> (\<exists>a b. args = [''merge-base'', ''--is-ancestor'', a, b]) \<or>
     (\<exists>a b. is_full_oid a \<and> is_full_oid b \<and> args = [''diff'', ''--name-only'', ''--no-renames'', ''-z'', a @ ''..'' @ b]) \<or>
     (\<exists>r. starts_with r ''refs/'' \<and> args = [''ls-remote'', ''--refs'', remote, r])"

definition looks_law :: "'w GitEnv \<Rightarrow> 'w GitView \<Rightarrow> string \<Rightarrow> bool" where
  "looks_law env v remote \<longleftrightarrow>
     (\<forall>dir args w x w'. ge_run env dir args w = (x, w') \<and> queries remote args \<longrightarrow> unmoved v w w')"

text \<open>A fetch writes the remote-tracking branches; when it succeeds they are the remote's branches.\<close>

definition fetch_law :: "'w GitEnv \<Rightarrow> 'w GitView \<Rightarrow> string \<Rightarrow> string \<Rightarrow> bool" where
  "fetch_law env v dir remote \<longleftrightarrow>
     (\<forall>w x w'. ge_run env dir [''fetch'', ''--prune'', ''--no-tags'', remote] w = (x, w') \<longrightarrow>
        gw_remote w' = gw_remote w \<and> gw_branches w' = gw_branches w \<and>
        (\<forall>out err b. x = Inr (Some 0, out, err) \<longrightarrow>
           gv_tracking v w' (''refs/heads/'' @ b) = gw_remote w (''refs/heads/'' @ b)))"

text \<open>Adding a detached worktree at an absolute path, or removing one, touches no branch.\<close>

definition worktree_law :: "'w GitEnv \<Rightarrow> 'w GitView \<Rightarrow> string \<Rightarrow> bool" where
  "worktree_law env v dir \<longleftrightarrow>
     (\<forall>path rev w x w'. starts_with path ''/'' \<and>
        ge_run env dir [''worktree'', ''add'', ''--detach'', ''--quiet'', path, rev] w = (x, w') \<longrightarrow>
        unmoved v w w' \<and> (\<forall>out err. x = Inr (Some 0, out, err) \<longrightarrow> gv_detached v path w')) \<and>
     (\<forall>path w x w'. starts_with path ''/'' \<and>
        ge_run env dir [''worktree'', ''remove'', ''--force'', path] w = (x, w') \<longrightarrow> unmoved v w w')"

text \<open>A rebase of a detached worktree, and its abort, move that worktree's \<open>HEAD\<close> only.\<close>

definition rebase_law :: "'w GitEnv \<Rightarrow> 'w GitView \<Rightarrow> bool" where
  "rebase_law env v \<longleftrightarrow>
     (\<forall>path onto fork w x w'. gv_detached v path w \<and>
        (is_full_oid onto \<and> is_full_oid fork \<and>
         ge_run env path [''-c'', ''user.name=tally spec-build'', ''-c'', ''user.email=tally-spec-build@invalid'',
           ''rebase'', ''--onto'', onto, fork] w = (x, w') \<or>
         ge_run env path [''rebase'', ''--abort''] w = (x, w')) \<longrightarrow>
        unmoved v w w' \<and> gv_detached v path w')"

text \<open>
  A push without force of one object to one ref, given by its full name, moves that ref to the object or leaves the
  remote as it is, and moves a branch only forward.
\<close>

definition push_law :: "'w GitEnv \<Rightarrow> 'w GitView \<Rightarrow> string \<Rightarrow> string \<Rightarrow> bool" where
  "push_law env v dir remote \<longleftrightarrow>
     (\<forall>sha r w x w'. is_full_oid sha \<and> starts_with r ''refs/'' \<and>
        ge_run env dir [''push'', remote, sha @ '':'' @ r] w = (x, w') \<longrightarrow>
        gw_branches w' = gw_branches w \<and>
        (gw_remote w' = gw_remote w \<or>
         gw_remote w' = (gw_remote w)(r \<mapsto> sha) \<and>
         (starts_with r ''refs/heads/'' \<longrightarrow> (\<forall>old. gw_remote w r = Some old \<longrightarrow> gv_ancestor v old sha))) \<and>
        (\<forall>out err. x = Inr (Some 0, out, err) \<longrightarrow> gw_remote w' = (gw_remote w)(r \<mapsto> sha)))"

text \<open>\<open>update-ref\<close> writes the branch it names, or nothing.\<close>

definition update_ref_law :: "'w GitEnv \<Rightarrow> string \<Rightarrow> bool" where
  "update_ref_law env dir \<longleftrightarrow>
     (\<forall>b new old w x w'. is_full_oid new \<and> is_full_oid old \<and>
        ge_run env dir [''update-ref'', ''refs/heads/'' @ b, new, old] w = (x, w') \<longrightarrow>
        gw_remote w' = gw_remote w \<and>
        (gw_branches w' = gw_branches w \<or> gw_branches w' = (gw_branches w)(''refs/heads/'' @ b \<mapsto> new)))"

text \<open>Listing a ref of the remote shows where it is, and shows something when it exists.\<close>

definition listing_law :: "'w GitEnv \<Rightarrow> string \<Rightarrow> string \<Rightarrow> bool" where
  "listing_law env dir remote \<longleftrightarrow>
     (\<forall>r w out err w'. ge_run env dir [''ls-remote'', ''--refs'', remote, r] w = (Inr (Some 0, out, err), w') \<longrightarrow>
        (\<forall>row oid. row \<in> set (str_lines (from_utf8_lossy out)) \<and> split_once TAB row = Some (oid, r) \<longrightarrow>
           gw_remote w r = Some oid) \<and>
        (gw_remote w r \<noteq> None \<longrightarrow> (\<exists>row \<in> set (str_lines (from_utf8_lossy out)). row \<noteq> [])))"

text \<open>
  Resolving the full name of a branch, or the name of a remote-tracking branch, gives its commit. The names are
  plain, so that they carry no revision suffix such as \<open>~1\<close>; that of the local branch ends in a path component
  that is no abbreviated commit; no tag or local branch is called like the remote-tracking one.
\<close>

definition ref_char :: "char \<Rightarrow> bool" where
  "ref_char c \<longleftrightarrow> is_ascii_alphanumeric c \<or> c = CHR ''_'' \<or> c = CHR ''.'' \<or> c = CHR ''-'' \<or> c = CHR ''/''"

definition resolve_law :: "'w GitEnv \<Rightarrow> string \<Rightarrow> bool" where
  "resolve_law env dir \<longleftrightarrow>
     (\<forall>b w out err w'. list_all ref_char b \<and> ends_with b ''/integration'' \<and>
        ge_run env dir [''rev-parse'', ''--verify'', ''refs/heads/'' @ b @ ''^{commit}''] w = (Inr (Some 0, out, err), w') \<longrightarrow>
        gw_branches w (''refs/heads/'' @ b) = Some (trim (from_utf8_lossy out)))"

definition tracking_law :: "'w GitEnv \<Rightarrow> 'w GitView \<Rightarrow> string \<Rightarrow> string \<Rightarrow> bool" where
  "tracking_law env v dir remote \<longleftrightarrow>
     (\<forall>b w out err w' h. list_all ref_char (remote @ ''/'' @ b) \<and>
        gw_branches w (''refs/heads/'' @ remote @ ''/'' @ b) = None \<and> gv_tracking v w (''refs/heads/'' @ b) = Some h \<and>
        ge_run env dir [''rev-parse'', ''--verify'', remote @ ''/'' @ b @ ''^{commit}''] w = (Inr (Some 0, out, err), w') \<longrightarrow>
        trim (from_utf8_lossy out) = h)"

definition ancestor_law :: "'w GitEnv \<Rightarrow> 'w GitView \<Rightarrow> string \<Rightarrow> bool" where
  "ancestor_law env v dir \<longleftrightarrow>
     (\<forall>a b w code out err w'. is_full_oid a \<and> is_full_oid b \<and>
        ge_run env dir [''merge-base'', ''--is-ancestor'', a, b] w = (Inr (Some code, out, err), w') \<longrightarrow>
        (code = 0 \<longrightarrow> gv_ancestor v a b) \<and> (code = 1 \<longrightarrow> \<not> gv_ancestor v a b))"

definition git_laws :: "'w GitEnv \<Rightarrow> 'w GitView \<Rightarrow> string \<Rightarrow> string \<Rightarrow> bool" where
  "git_laws env v dir remote \<longleftrightarrow>
     looks_law env v remote \<and> fetch_law env v dir remote \<and> worktree_law env v dir \<and> rebase_law env v \<and>
     push_law env v dir remote \<and> update_ref_law env dir \<and> listing_law env dir remote \<and>
     resolve_law env dir \<and> tracking_law env v dir remote \<and> ancestor_law env v dir"

lemma git_lawsD:
  assumes "git_laws env v dir remote"
  shows "looks_law env v remote" "fetch_law env v dir remote" "worktree_law env v dir" "rebase_law env v"
    "push_law env v dir remote" "update_ref_law env dir" "listing_law env dir remote" "resolve_law env dir"
    "tracking_law env v dir remote" "ancestor_law env v dir"
  using assms by (simp_all add: git_laws_def)

section \<open>Steps that leave the refs alone\<close>

definition keeps :: "'w GitView \<Rightarrow> ('w GitWorld, 'a) act \<Rightarrow> bool" where
  "keeps v m \<longleftrightarrow> (\<forall>w r w'. m w = (r, w') \<longrightarrow> unmoved v w w')"

lemma unmoved_refl [simp]: "unmoved v w w"
  by (simp add: unmoved_def)

lemma unmoved_trans: "unmoved v w w1 \<Longrightarrow> unmoved v w1 w2 \<Longrightarrow> unmoved v w w2"
  by (simp add: unmoved_def)

lemma keepsD: "keeps v m \<Longrightarrow> m w = (r, w') \<Longrightarrow> unmoved v w w'"
  by (simp add: keeps_def)

lemma keeps_refs: "keeps v m \<Longrightarrow> m w = (r, w') \<Longrightarrow> gw_remote w' = gw_remote w \<and> gw_branches w' = gw_branches w"
  by (simp add: keeps_def unmoved_def)

lemma keeps_pure [intro, simp]: "keeps v (give x)" "keeps v (refuse e)" "keeps v (lift r)"
  by (simp_all add: keeps_def give_def refuse_def lift_def)

lemma keeps_and_then [intro]: "keeps v m \<Longrightarrow> (\<And>x. keeps v (f x)) \<Longrightarrow> keeps v (and_then m f)"
proof (unfold keeps_def [of v "and_then m f"], intro allI impI)
  fix w r w'
  assume m: "keeps v m" and f: "\<And>x. keeps v (f x)" and "and_then m f w = (r, w')"
  from this(3) show "unmoved v w w'"
    by (rule and_then_cases) (use keepsD [OF m] keepsD [OF f] in \<open>blast intro: unmoved_trans\<close>)+
qed

text \<open>The continuation may rely on what the first step returned.\<close>

lemma keeps_bind:
  assumes m: "keeps v m" and f: "\<And>x w w'. m w = (Inr x, w') \<Longrightarrow> keeps v (f x)"
  shows "keeps v (and_then m f)"
  unfolding keeps_def
proof (intro allI impI)
  fix w r w'
  assume "and_then m f w = (r, w')"
  then show "unmoved v w w'"
  proof (cases rule: and_then_cases)
    case (stop e)
    then show ?thesis using keepsD [OF m] by blast
  next
    case (go x w1)
    then show ?thesis using keepsD [OF m go(1)] keepsD [OF f [OF go(1)] go(2)] unmoved_trans by blast
  qed
qed

lemma keeps_if [intro]: "keeps v a \<Longrightarrow> keeps v b \<Longrightarrow> keeps v (\<lambda>w. if P w then a w else b w)"
  unfolding keeps_def by auto

lemma keeps_git [intro]: "looks_law env v remote \<Longrightarrow> queries remote args \<Longrightarrow> keeps v (git env dir args check)"
  unfolding keeps_def looks_law_def by (metis git_run)

lemma queries_simps [simp]:
  "queries remote [''rev-parse'', ''--git-dir'']" "queries remote [''rev-parse'', ''HEAD'']"
  "queries remote [''rev-parse'', ''--verify'', r]" "queries remote [''merge-base'', a, b]"
  "queries remote [''merge-base'', ''--is-ancestor'', a, b]"
  "starts_with r ''refs/'' \<Longrightarrow> queries remote [''ls-remote'', ''--refs'', remote, r]"
  by (simp_all add: queries_def)

lemma queries_diff: "is_full_oid a \<Longrightarrow> is_full_oid b \<Longrightarrow> queries remote [''diff'', ''--name-only'', ''--no-renames'', ''-z'', a @ ''..'' @ b]"
  unfolding queries_def by blast

lemma keeps_remote_ref_oid [intro]: "looks_law env v remote \<Longrightarrow> starts_with r ''refs/'' \<Longrightarrow> keeps v (remote_ref_oid env dir remote r)"
  unfolding remote_ref_oid_def by (intro keeps_and_then keeps_git) auto

lemma keeps_local_branch_oid [intro]: "looks_law env v remote \<Longrightarrow> keeps v (local_branch_oid env dir b)"
  unfolding local_branch_oid_def Let_def by (intro keeps_and_then keeps_git) auto

lemma keeps_changed_paths [intro]:
  "looks_law env v remote \<Longrightarrow> is_full_oid a \<Longrightarrow> is_full_oid b \<Longrightarrow> keeps v (changed_paths env dir a b)"
  unfolding changed_paths_def by (intro keeps_and_then keeps_git queries_diff) auto

text \<open>A lookup that succeeds tells where the ref is.\<close>

lemma remote_ref_oid_law:
  assumes "listing_law env dir remote" "remote_ref_oid env dir remote r w = (Inr oid, w')"
  shows "gw_remote w r = oid" "oid = Some x \<Longrightarrow> is_full_oid x"
proof -
  from assms(2) obtain listed where git: "git env dir [''ls-remote'', ''--refs'', remote, r] True w = (Inr listed, w')"
    and listed: "listed_oid env r (filter (\<lambda>line. line \<noteq> []) (str_lines (stdout_text listed))) = Inr oid"
    unfolding remote_ref_oid_def by (auto elim!: and_then_cases simp: lift_def)
  let ?rows = "filter (\<lambda>line. line \<noteq> []) (str_lines (stdout_text listed))"
  have rows: "?rows = [] \<and> oid = None \<or> (\<exists>row x. ?rows = [row] \<and> split_once TAB row = Some (x, r) \<and> is_full_oid x \<and> oid = Some x)"
    using listed unfolding listed_oid_def Let_def by (cases ?rows rule: remdups_adj.cases) (auto split: option.splits if_splits)
  from git obtain code where run: "ge_run env dir [''ls-remote'', ''--refs'', remote, r] w
      = (Inr (code, gout_stdout listed, gout_stderr listed), w')"
    and code: "gout_status listed = (case code of Some c \<Rightarrow> c | None \<Rightarrow> 128)" "success listed"
    by (rule git_ran) simp
  from code have "code = Some 0" by (cases code) (simp_all add: success_def)
  with run assms(1) have law: "row \<in> set (str_lines (stdout_text listed)) \<Longrightarrow> split_once TAB row = Some (x, r) \<Longrightarrow>
      gw_remote w r = Some x"
    "gw_remote w r \<noteq> None \<Longrightarrow> \<exists>row \<in> set (str_lines (stdout_text listed)). row \<noteq> []" for row x
    unfolding listing_law_def stdout_text_def by blast+
  show "gw_remote w r = oid"
  proof (cases oid)
    case None
    with rows have "?rows = []" by blast
    with law(2) None show ?thesis unfolding filter_empty_conv by metis
  next
    case (Some y)
    with rows obtain row where row: "?rows = [row]" "split_once TAB row = Some (y, r)" by blast
    from row(1) have "row \<in> set (str_lines (stdout_text listed))"
      by (metis filter_is_subset list.set_intros(1) subsetD)
    with law(1) row(2) Some show ?thesis by simp
  qed
  show "is_full_oid x" if "oid = Some x" using rows that by blast
qed

lemma local_branch_oid_law:
  assumes "resolve_law env dir" "list_all ref_char b" "ends_with b ''/integration''"
    and "local_branch_oid env dir b w = (Inr (Some oid), w')"
  shows "gw_branches w (''refs/heads/'' @ b) = Some oid" "is_full_oid oid"
proof -
  from assms(4) obtain out where git: "git env dir [''rev-parse'', ''--verify'', ''refs/heads/'' @ b @ ''^{commit}''] False w = (Inr out, w')"
    and out: "success out" "oid = stdout_trimmed out" "is_full_oid oid"
    unfolding local_branch_oid_def
    by (auto elim!: and_then_cases simp: Let_def give_def refuse_def split: if_splits)
  from git obtain code where run: "ge_run env dir [''rev-parse'', ''--verify'', ''refs/heads/'' @ b @ ''^{commit}''] w
      = (Inr (code, gout_stdout out, gout_stderr out), w')"
    and code: "gout_status out = (case code of Some c \<Rightarrow> c | None \<Rightarrow> 128)"
    by (rule git_ran) simp
  from code out(1) have "code = Some 0" by (cases code) (simp_all add: success_def)
  with run have "gw_branches w (''refs/heads/'' @ b) = Some (trim (from_utf8_lossy (gout_stdout out)))"
    using assms(1-3) unfolding resolve_law_def by simp
  then show "gw_branches w (''refs/heads/'' @ b) = Some oid" unfolding out(2) stdout_trimmed_def stdout_text_def .
  show "is_full_oid oid" by (rule out(3))
qed

text \<open>A push that ran, and one that reported success.\<close>

lemma push_cases:
  assumes "push_law env v dir remote" "is_full_oid sha" "starts_with r ''refs/''"
    and "git env dir [''push'', remote, sha @ '':'' @ r] False w = (x, w')"
  shows "gw_branches w' = gw_branches w" (is ?b)
    and "gw_remote w' = gw_remote w \<or> gw_remote w' = (gw_remote w)(r \<mapsto> sha) \<and>
      (starts_with r ''refs/heads/'' \<longrightarrow> (\<forall>old. gw_remote w r = Some old \<longrightarrow> gv_ancestor v old sha))" (is ?r)
    and "x = Inr out \<Longrightarrow> success out \<Longrightarrow> gw_remote w' = (gw_remote w)(r \<mapsto> sha)"
proof -
  obtain y where run: "ge_run env dir [''push'', remote, sha @ '':'' @ r] w = (y, w')" using git_run [OF assms(4)] by blast
  note law = assms(1) [unfolded push_law_def, rule_format, OF conjI, OF assms(2) conjI, OF assms(3) run]
  then show ?b ?r by blast+
  show "gw_remote w' = (gw_remote w)(r \<mapsto> sha)" if "x = Inr out" "success out"
  proof -
    from assms(4) that(1) obtain code where "y = Inr (code, gout_stdout out, gout_stderr out)"
      "gout_status out = (case code of Some c \<Rightarrow> c | None \<Rightarrow> 128)"
      using run by (metis git_ran prod.inject)
    moreover from this that(2) have "code = Some 0" by (cases code) (simp_all add: success_def)
    ultimately show ?thesis using law by blast
  qed
qed

end
