(* ===== verification/Driver_Brief.thy ===== *)
theory Driver_Brief
  imports Driver_Git
begin

text \<open>
  How the driver reads its briefs (\<open>spec-build-driver/src/actions.rs\<close>): exact and complete objects,
  checked strings, revisions and lists, identifiers, and the coordinates of a campaign: its
  repositories, issue, identity and branch names.
\<close>

section \<open>Fields\<close>

definition object_exact :: "DJson \<Rightarrow> string list \<Rightarrow> string \<Rightarrow> string + (string \<times> DJson) list" where
  "object_exact v names context =
     (case Driver_Json.as_object v of
        None \<Rightarrow> Inl (context @ '' must be an object'')
      | Some obj \<Rightarrow>
          (let unknown = filter (\<lambda>k. k \<notin> set names) (map fst obj)
           in if unknown \<noteq> [] then Inl (context @ '' has unknown fields: '' @ join_text '', '' unknown)
              else Inr obj))"

definition object_complete :: "DJson \<Rightarrow> string list \<Rightarrow> string \<Rightarrow> string + (string \<times> DJson) list" where
  "object_complete v names context =
     (case object_exact v names context of
        Inl e \<Rightarrow> Inl e
      | Inr obj \<Rightarrow>
          (let missing = filter (\<lambda>k. k \<notin> set (map fst obj)) names
           in if missing \<noteq> [] then Inl (context @ '' is missing canonical fields: '' @ join_text '', '' missing)
              else Inr obj))"

definition required_string :: "DJson option \<Rightarrow> string \<Rightarrow> nat option \<Rightarrow> string + string" where
  "required_string v context maximum =
     (let plain = Inl (context @ '' must be a non-empty string without control characters'')
      in case Option.bind v as_string of
           None \<Rightarrow> plain
         | Some s \<Rightarrow>
             if s = [] \<or> list_ex (\<lambda>c. byte c < 32) s then plain
             else (case maximum of
                     None \<Rightarrow> Inr s
                   | Some m \<Rightarrow>
                       if char_count s > m then Inl (context @ '' exceeds '' @ show_nat m @ '' characters'') else Inr s))"

definition required_bool :: "DJson option \<Rightarrow> string \<Rightarrow> string + bool" where
  "required_bool v context =
     (case Option.bind v Driver_Json.as_bool of None \<Rightarrow> Inl (context @ '' must be boolean'') | Some b \<Rightarrow> Inr b)"

definition full_oid :: "DJson option \<Rightarrow> string \<Rightarrow> string + string" where
  "full_oid v context =
     (case required_string v context None of
        Inl e \<Rightarrow> Inl e
      | Inr s \<Rightarrow> if \<not> is_full_oid s then Inl (context @ '' must be a full Git object ID'') else Inr s)"

text \<open>\<open>collect\<close> into a \<open>Result\<close>: the first error, or all values.\<close>

fun collect_results :: "(string + 'a) list \<Rightarrow> string + 'a list" where
  "collect_results [] = Inr []"
| "collect_results (Inl e # rs) = Inl e"
| "collect_results (Inr x # rs) = (case collect_results rs of Inl e \<Rightarrow> Inl e | Inr xs \<Rightarrow> Inr (x # xs))"

definition indexed :: "string \<Rightarrow> nat \<Rightarrow> string" where
  "indexed context i = context @ ''['' @ show_nat i @ '']''"

definition string_list :: "DJson option \<Rightarrow> string \<Rightarrow> bool \<Rightarrow> string + string list" where
  "string_list v context nonempty =
     (case Option.bind v Driver_Json.as_array of
        None \<Rightarrow> Inl (context @ '' must be '' @ (if nonempty then ''a non-empty'' else ''an'') @ '' array'')
      | Some vs \<Rightarrow>
          if nonempty \<and> vs = [] then Inl (context @ '' must be a non-empty array'')
          else collect_results (map (\<lambda>(i, v). required_string (Some v) (indexed context i) None) (enumerate 0 vs)))"

definition positive_u64 :: "DJson option \<Rightarrow> string \<Rightarrow> string + u64" where
  "positive_u64 v context =
     (case Option.bind v number_u64 of
        None \<Rightarrow> Inl (context @ '' must be a positive integer'')
      | Some n \<Rightarrow> if n > 0 then Inr n else Inl (context @ '' must be a positive integer''))"

section \<open>Identifiers and paths\<close>

definition slug_char :: "char \<Rightarrow> bool" where
  "slug_char c \<longleftrightarrow> is_ascii_alphanumeric c \<or> c = CHR ''_'' \<or> c = CHR ''.'' \<or> c = CHR ''-''"

definition is_component :: "string \<Rightarrow> bool" where
  "is_component s \<longleftrightarrow>
     (case s of
        [] \<Rightarrow> False
      | c # _ \<Rightarrow> (is_ascii_alphanumeric c \<or> c = CHR ''_'') \<and> list_all slug_char s)"

definition is_repository :: "string \<Rightarrow> bool" where
  "is_repository s \<longleftrightarrow>
     (case split_on (CHR ''/'') s of
        [owner, name] \<Rightarrow>
          owner \<noteq> [] \<and> name \<noteq> [] \<and> \<not> list_ex (\<lambda>c. c = CHR '' '' \<or> c = CHR 9) owner \<and>
          \<not> list_ex (\<lambda>c. c = CHR '' '' \<or> c = CHR 9) name
      | _ \<Rightarrow> False)"

definition bad_path :: "string \<Rightarrow> bool" where
  "bad_path p \<longleftrightarrow>
     starts_with p ''/'' \<or> ends_with p ''/'' \<or> p = [] \<or> p = ''.'' \<or>
     list_ex (\<lambda>piece. piece = [] \<or> piece = ''.'' \<or> piece = ''..'') (split_on (CHR ''/'') p)"

definition path_error :: "string \<Rightarrow> nat \<Rightarrow> string \<Rightarrow> string" where
  "path_error context i p =
     indexed context i @ '' must be a normalized relative path'' @
     (if starts_with p ''/'' \<or> ends_with p ''/'' \<or> ''..'' \<in> set (split_on (CHR ''/'') p)
      then '' without '' @ [CHR 39] @ ''..'' @ [CHR 39] else [])"

definition normalize_paths :: "DJson option \<Rightarrow> string \<Rightarrow> bool \<Rightarrow> string + string list option" where
  "normalize_paths v context needed =
     (case v of
        None \<Rightarrow> if needed then Inl (context @ '' must be a non-empty array'') else Inr None
      | Some _ \<Rightarrow>
          (case string_list v context needed of
             Inl e \<Rightarrow> Inl e
           | Inr paths \<Rightarrow>
               if \<not> distinct paths then Inl (context @ '' contains duplicates'')
               else (case List.find (\<lambda>(i, p). bad_path p) (enumerate 0 paths) of
                       Some (i, p) \<Rightarrow> Inl (path_error context i p)
                     | None \<Rightarrow> Inr (Some paths))))"

text \<open>
  The loop of \<open>safe_slug\<close> over characters: every byte of a character that is not ASCII is invalid, so
  bytes will do.
\<close>

definition slug_step :: "char \<Rightarrow> string \<times> bool \<Rightarrow> string \<times> bool" where
  "slug_step c acc =
     (case acc of (slug, invalid) \<Rightarrow>
        if slug_char c then ((if invalid \<and> slug \<noteq> [] then slug @ ''-'' else slug) @ [c], False)
        else (slug, True))"

definition slug_edge :: "char \<Rightarrow> bool" where
  "slug_edge c \<longleftrightarrow> c = CHR ''.'' \<or> c = CHR ''-''"

definition safe_slug :: "string \<Rightarrow> nat \<Rightarrow> string" where
  "safe_slug s maximum =
     (let slug = fst (fold slug_step s ([], False));
          trimmed = rev (dropWhile slug_edge (rev (dropWhile slug_edge slug)))
      in take maximum (if trimmed = [] then ''campaign'' else trimmed))"

section \<open>Campaign coordinates\<close>

record RepoConfig =
  cfg_checkout :: string
  cfg_base_branch :: string
  cfg_remote :: string

record CampaignCoordinate =
  cc_repository :: string
  cc_config :: RepoConfig

definition repo_config :: "'w GitEnv \<Rightarrow> DJson option \<Rightarrow> ('w GitWorld, RepoConfig) act" where
  "repo_config env v =
     (case v of
        None \<Rightarrow> refuse ''repositoryConfig must be an object''
      | Some j \<Rightarrow>
          and_then (lift (object_exact j [''checkout'', ''baseBranch'', ''remote'', ''forge''] ''repositoryConfig'')) (\<lambda>obj.
          and_then (lift (required_string (map_of obj ''checkout'') ''repositoryConfig.checkout'' None)) (\<lambda>checkout w.
            if \<not> starts_with checkout ''/'' \<or> \<not> ge_is_dir env checkout (gw_other w)
            then refuse ''repositoryConfig.checkout must be an absolute directory'' w
            else
              and_then (lift (required_string (map_of obj ''baseBranch'') ''repositoryConfig.baseBranch'' None)) (\<lambda>base_branch.
              and_then (lift (required_string (map_of obj ''remote'') ''repositoryConfig.remote'' None)) (\<lambda>remote.
                if Option.bind (map_of obj ''forge'') as_string \<noteq> Some ''local''
                then refuse ''repositoryConfig.forge must be local''
                else
                  and_then (git env checkout [''rev-parse'', ''--git-dir''] True) (\<lambda>_.
                  give \<lparr>cfg_checkout = checkout, cfg_base_branch = base_branch, cfg_remote = remote\<rparr>))) w)))"

definition campaign_issue :: "DJson option \<Rightarrow> string + string \<times> string" where
  "campaign_issue v =
     (case v of
        None \<Rightarrow> Inl ''issue must be an object''
      | Some j \<Rightarrow>
          (case object_exact j [''number'', ''url''] ''issue'' of
             Inl e \<Rightarrow> Inl e
           | Inr obj \<Rightarrow>
               (case required_string (map_of obj ''number'') ''issue.number'' None of
                  Inl e \<Rightarrow> Inl e
                | Inr n \<Rightarrow>
                    if starts_with n ''0'' \<or> \<not> list_all is_ascii_digit n
                    then Inl ''issue.number must be a positive decimal string''
                    else
                      (case required_string (map_of obj ''url'') ''issue.url'' None of
                         Inl e \<Rightarrow> Inl e
                       | Inr url \<Rightarrow> Inr (n, url)))))"

definition campaign_identity :: "(string \<times> DJson) list \<Rightarrow> string \<Rightarrow> string + string" where
  "campaign_identity data campaign =
     (case map_of data ''campaignIdentity'' of
        Some v \<Rightarrow> required_string (Some v) ''campaignIdentity'' (Some 128)
      | None \<Rightarrow>
          if map_of data ''issue'' \<noteq> None
          then (case campaign_issue (map_of data ''issue'') of Inl e \<Rightarrow> Inl e | Inr (n, _) \<Rightarrow> Inr n)
          else required_string (Some (DString campaign)) ''campaign'' (Some 128))"

definition repository_name :: "DJson option \<Rightarrow> string \<Rightarrow> string + string" where
  "repository_name v context =
     (case required_string v context None of
        Inl e \<Rightarrow> Inl e
      | Inr repository \<Rightarrow>
          if \<not> is_repository repository then Inl (context @ '' must use owner/name form'') else Inr repository)"

definition campaign_coordinate :: "'w GitEnv \<Rightarrow> DJson option \<Rightarrow> string \<Rightarrow> ('w GitWorld, CampaignCoordinate) act" where
  "campaign_coordinate env v context =
     (case v of
        None \<Rightarrow> refuse (context @ '' must be an object'')
      | Some j \<Rightarrow>
          and_then (lift (object_exact j [''repository'', ''repositoryConfig''] context)) (\<lambda>obj.
          and_then (lift (repository_name (map_of obj ''repository'') (context @ ''.repository''))) (\<lambda>repository.
          and_then (repo_config env (map_of obj ''repositoryConfig'')) (\<lambda>config.
          give \<lparr>cc_repository = repository, cc_config = config\<rparr>))))"

definition coordinate_or :: "'w GitEnv \<Rightarrow> DJson option \<Rightarrow> string \<Rightarrow> CampaignCoordinate \<Rightarrow> ('w GitWorld, CampaignCoordinate) act" where
  "coordinate_or env v context fallback =
     (if v = None \<or> v = Some DNull then give fallback else campaign_coordinate env v context)"

definition campaign_coordinates ::
  "'w GitEnv \<Rightarrow> (string \<times> DJson) list \<Rightarrow> string \<Rightarrow> RepoConfig
     \<Rightarrow> ('w GitWorld, CampaignCoordinate \<times> CampaignCoordinate \<times> CampaignCoordinate) act" where
  "campaign_coordinates env data repository config =
     (let code = \<lparr>cc_repository = repository, cc_config = config\<rparr>
      in and_then (coordinate_or env (map_of data ''specRepository'') ''specRepository'' code) (\<lambda>spec.
         and_then (coordinate_or env (map_of data ''issueRepository'') ''issueRepository'' spec) (\<lambda>issue.
         give (code, spec, issue))))"

definition campaign_branch_prefix :: "string \<Rightarrow> string \<Rightarrow> string" where
  "campaign_branch_prefix campaign identity =
     ''tally/'' @ safe_slug campaign 32 @ ''-campaign-'' @ safe_slug identity 64"

definition integration_branch :: "string \<Rightarrow> string \<Rightarrow> string" where
  "integration_branch campaign identity = campaign_branch_prefix campaign identity @ ''/integration''"

definition required_integration_revision ::
  "'w GitEnv \<Rightarrow> RepoConfig \<Rightarrow> string \<Rightarrow> string \<Rightarrow> ('w GitWorld, string) act" where
  "required_integration_revision env config campaign identity =
     and_then (local_branch_oid env (cfg_checkout config) (integration_branch campaign identity)) (\<lambda>oid.
       case oid of
         Some sha \<Rightarrow> give sha
       | None \<Rightarrow> refuse (''local integration branch '' @ ge_debug env (integration_branch campaign identity) @ '' does not exist''))"

section \<open>Reading a brief leaves the refs alone\<close>

lemma keeps_repo_config [intro]: "looks_law env v remote \<Longrightarrow> keeps v (repo_config env j)"
  unfolding repo_config_def
  by (auto split: option.split intro!: keeps_and_then keeps_if keeps_git)

lemma keeps_coordinates [intro]: "looks_law env v remote \<Longrightarrow> keeps v (campaign_coordinates env data repository config)"
  unfolding campaign_coordinates_def coordinate_or_def campaign_coordinate_def Let_def
  by (auto split: option.splits intro!: keeps_and_then keeps_repo_config)

lemma keeps_integration [intro]: "looks_law env v remote \<Longrightarrow> keeps v (required_integration_revision env config c i)"
  unfolding required_integration_revision_def by (auto split: option.split intro!: keeps_and_then)

text \<open>The name of the integration line is plain.\<close>

lemma slug_ref_char: "slug_char c \<Longrightarrow> ref_char c"
  by (auto simp: slug_char_def ref_char_def)

lemma slug_fold_plain:
  "list_all ref_char (fst acc) \<Longrightarrow> list_all ref_char (fst (fold slug_step s acc))"
proof (induction s arbitrary: acc)
  case (Cons c s)
  have "ref_char (CHR ''-'')" by (simp add: ref_char_def)
  with Cons.prems have "list_all ref_char (fst (slug_step c acc))"
    by (cases acc) (auto simp: slug_step_def slug_ref_char)
  with Cons.IH show ?case by simp
qed simp

lemma safe_slug_plain: "list_all ref_char (safe_slug s n)"
proof -
  have "list_all ref_char (fst (fold slug_step s ([], False)))" by (rule slug_fold_plain) simp
  moreover have "list_all ref_char ''campaign''" by (simp add: ref_char_def ascii_defs)
  ultimately show ?thesis
    by (auto simp: safe_slug_def Let_def list_all_iff dest!: in_set_takeD set_dropWhileD)
qed

lemma integration_branch_plain:
  "list_all ref_char (integration_branch c i)" "ends_with (integration_branch c i) ''/integration''"
  using safe_slug_plain [of c 32] safe_slug_plain [of i 64]
  by (simp_all add: integration_branch_def campaign_branch_prefix_def ends_with_iff ref_char_def ascii_defs)

lemma integration_full: "required_integration_revision env config c i w = (Inr sha, w') \<Longrightarrow> is_full_oid sha"
  unfolding required_integration_revision_def local_branch_oid_def
  by (auto elim!: and_then_cases simp: Let_def give_def refuse_def split: if_splits option.splits)

lemma integration_revision_law:
  assumes "resolve_law env (cfg_checkout config)"
    and "required_integration_revision env config c i w = (Inr sha, w')"
  shows "gw_branches w (''refs/heads/'' @ integration_branch c i) = Some sha" "is_full_oid sha"
proof -
  from assms(2) have "local_branch_oid env (cfg_checkout config) (integration_branch c i) w = (Inr (Some sha), w')"
    unfolding required_integration_revision_def
    by (auto elim!: and_then_cases simp: give_def refuse_def split: option.splits)
  from local_branch_oid_law [OF assms(1) integration_branch_plain this]
  show "gw_branches w (''refs/heads/'' @ integration_branch c i) = Some sha" "is_full_oid sha" by blast+
qed

lemma required_string_Some: "required_string v context maximum = Inr s \<Longrightarrow> v = Some (DString s) \<and> s \<noteq> []"
  by (auto simp: required_string_def Let_def elim!: as_string.elims
      split: option.splits if_splits Option.bind_splits)

lemma full_oid_Some: "full_oid v context = Inr s \<Longrightarrow> is_full_oid s"
  by (auto simp: full_oid_def split: sum.splits if_splits)

end
