(* ===== verification/Stage_Publish.thy ===== *)
theory Stage_Publish
  imports Driver_Brief Campaign_Publish
begin

text \<open>
  The driver's \<open>stagePublish\<close> action (\<open>spec-build-driver/src/actions.rs\<close>): it reads the brief, keeps
  the claimed gate proofs that the remote confirms, witnesses the two branch heads, decides with
  \<open>publish_plan\<close> and carries the decision out: a fast-forward of the base branch with its receipt, a
  rebase of the integration line that needs a new gate, or nothing.
\<close>

section \<open>Gate proofs\<close>

record GateProof =
  gp_task_id :: string
  gp_reference :: string
  gp_revision :: string

definition gate_claim ::
  "'w GitEnv \<Rightarrow> RepoConfig \<Rightarrow> string \<Rightarrow> string \<Rightarrow> string \<Rightarrow> DJson \<Rightarrow> ('w GitWorld, GateProof) act" where
  "gate_claim env config campaign issue_number source_sha256 claim =
     and_then (lift (object_exact claim [''taskId'', ''ref'', ''revision''] ''proof'')) (\<lambda>obj.
     and_then (lift (required_string (map_of obj ''taskId'') ''proof.taskId'' (Some 80))) (\<lambda>task_id.
       if \<not> is_task_id task_id then refuse ''proof.taskId is not a safe task ID''
       else
         and_then (lift (full_oid (map_of obj ''revision'') ''proof.revision'')) (\<lambda>revision.
         and_then (lift (required_string (map_of obj ''ref'') ''proof.ref'' None)) (\<lambda>reference.
         and_then (lift (checkpoint_ref campaign issue_number task_id source_sha256 revision)) (\<lambda>expected.
           if reference \<noteq> expected
           then refuse (''gate proof '' @ ge_debug env reference @ '' is not the checkpoint ref '' @ ge_debug env expected
                        @ '' its task and revision name'')
           else
             and_then (remote_ref_oid env (cfg_checkout config) (cfg_remote config) reference) (\<lambda>oid.
               if oid \<noteq> Some revision
               then refuse (''gate proof '' @ ge_debug env reference @ '' does not name revision '' @ revision
                            @ '' on the campaign remote'')
               else give \<lparr>gp_task_id = task_id, gp_reference = reference, gp_revision = revision\<rparr>))))))"

fun claims_loop ::
  "'w GitEnv \<Rightarrow> RepoConfig \<Rightarrow> string \<Rightarrow> string \<Rightarrow> string \<Rightarrow> DJson list \<Rightarrow> (string \<times> string) list \<Rightarrow> GateProof list
     \<Rightarrow> ('w GitWorld, GateProof list) act" where
  "claims_loop env config campaign issue_number source_sha256 [] seen proofs = give proofs"
| "claims_loop env config campaign issue_number source_sha256 (claim # claims) seen proofs =
     and_then (gate_claim env config campaign issue_number source_sha256 claim) (\<lambda>p.
       let key = (gp_task_id p, gp_revision p)
       in if key \<in> set seen then claims_loop env config campaign issue_number source_sha256 claims seen proofs
          else claims_loop env config campaign issue_number source_sha256 claims (key # seen) (proofs @ [p]))"

definition witnessed_gate_proofs ::
  "'w GitEnv \<Rightarrow> RepoConfig \<Rightarrow> string \<Rightarrow> string \<Rightarrow> string \<Rightarrow> DJson option \<Rightarrow> ('w GitWorld, GateProof list) act" where
  "witnessed_gate_proofs env config campaign issue_number source_sha256 v =
     (case Option.bind v Driver_Json.as_array of
        None \<Rightarrow> refuse ''proofs must be an array''
      | Some claimed \<Rightarrow> claims_loop env config campaign issue_number source_sha256 claimed [] [])"

section \<open>Rebasing the integration line\<close>

text \<open>\<open>Path::join\<close> with a relative path.\<close>

definition path_join :: "string \<Rightarrow> string \<Rightarrow> string" where
  "path_join a b = (if a = [] \<or> ends_with a ''/'' then a @ b else a @ ''/'' @ b)"

definition create_dir_all :: "'w GitEnv \<Rightarrow> string \<Rightarrow> ('w GitWorld, unit) act" where
  "create_dir_all env path w = (case ge_create_dir_all env path (gw_other w) of (r, x) \<Rightarrow> (r, w\<lparr>gw_other := x\<rparr>))"

definition remove_dir_all :: "'w GitEnv \<Rightarrow> string \<Rightarrow> 'w GitWorld \<Rightarrow> 'w GitWorld" where
  "remove_dir_all env path w = w\<lparr>gw_other := ge_remove_dir_all env path (gw_other w)\<rparr>"

text \<open>The closure that replays the line and moves its branch, and the cleanup around it.\<close>

definition replay_line ::
  "'w GitEnv \<Rightarrow> RepoConfig \<Rightarrow> string \<Rightarrow> string \<Rightarrow> string \<Rightarrow> string \<Rightarrow> string \<Rightarrow> ('w GitWorld, string) act" where
  "replay_line env config checkout branch head base_head fork =
     and_then (git env checkout [''-c'', ''user.name=tally spec-build'', ''-c'', ''user.email=tally-spec-build@invalid'',
                 ''rebase'', ''--onto'', base_head, fork] False) (\<lambda>replayed.
       if \<not> success replayed
       then and_then (git env checkout [''rebase'', ''--abort''] False) (\<lambda>aborted.
              refuse (''cannot rebase the integration line onto '' @ base_head @ '': '' @ detail replayed
                      @ ''; rebase abort exited '' @ show_status (gout_status aborted)))
       else
         and_then (git env checkout [''rev-parse'', ''HEAD''] True) (\<lambda>parsed.
           let rebased_head = stdout_trimmed parsed
           in if \<not> is_full_oid rebased_head then refuse ''the rebased integration head is not a Git object ID''
              else and_then (git env (cfg_checkout config) [''update-ref'', ''refs/heads/'' @ branch, rebased_head, head] True)
                     (\<lambda>_. give rebased_head)))"

definition rebase_in ::
  "'w GitEnv \<Rightarrow> RepoConfig \<Rightarrow> string \<Rightarrow> string \<Rightarrow> string \<Rightarrow> string \<Rightarrow> string \<Rightarrow> ('w GitWorld, string) act" where
  "rebase_in env config branch head base_head fork temporary =
     (let checkout = path_join temporary ''worktree''
      in and_then (create_dir_all env temporary) (\<lambda>_.
         and_then (git env (cfg_checkout config) [''worktree'', ''add'', ''--detach'', ''--quiet'', checkout, head] True) (\<lambda>_ w1.
           (case replay_line env config checkout branch head base_head fork w1 of
              (rebased, w2) \<Rightarrow>
                (case git env (cfg_checkout config) [''worktree'', ''remove'', ''--force'', checkout] False w2 of
                   (_, w3) \<Rightarrow> (rebased, remove_dir_all env temporary w3))))))"

definition rebase_integration_onto_base ::
  "'w GitEnv \<Rightarrow> RepoConfig \<Rightarrow> string \<Rightarrow> string \<Rightarrow> string \<Rightarrow> string \<Rightarrow> string \<Rightarrow> ('w GitWorld, string) act" where
  "rebase_integration_onto_base env config branch head base_head fork workspace_root =
     and_then (create_dir_all env workspace_root) (\<lambda>_ w0.
       rebase_in env config branch head base_head fork
         (path_join workspace_root (''publish-'' @ ge_uuid env (gw_other w0))) w0)"

section \<open>Recording the receipt\<close>

text \<open>The time format of \<open>chrono\<close>, and a receipt as \<open>serde_json\<close> prints it.\<close>

record ReceiptEnv =
  re_valid_time :: "string \<Rightarrow> bool"
  re_render :: "PublishReceiptV1 \<Rightarrow> string option"

definition MACHINE_ACTOR :: string where
  "MACHINE_ACTOR = ''spec-build-driver''"

definition push_receipt :: "'w GitEnv \<Rightarrow> RepoConfig \<Rightarrow> string \<Rightarrow> string \<Rightarrow> ('w GitWorld, unit) act" where
  "push_receipt env config sha reference =
     and_then (remote_ref_oid env (cfg_checkout config) (cfg_remote config) reference) (\<lambda>existing.
       case existing of
         Some oid \<Rightarrow>
           if oid \<noteq> sha
           then refuse (''immutable publish receipt '' @ ge_debug env reference @ '' already points to another object'')
           else give ()
       | None \<Rightarrow>
           and_then (git env (cfg_checkout config) [''push'', cfg_remote config, sha @ '':'' @ reference] False) (\<lambda>pushed.
             if success pushed then give ()
             else and_then (remote_ref_oid env (cfg_checkout config) (cfg_remote config) reference) (\<lambda>oid.
                    if oid \<noteq> Some sha
                    then refuse (''cannot record publish receipt '' @ ge_debug env reference @ '': '' @ detail pushed)
                    else give ())))"

definition receipt_json :: "ReceiptEnv \<Rightarrow> PublishReceiptV1 \<Rightarrow> string + DJson" where
  "receipt_json renv receipt =
     (case re_render renv receipt of
        None \<Rightarrow> Inl ''the publish receipt did not render as JSON''
      | Some s \<Rightarrow>
          (case Driver_Json.parse s of
             Inl _ \<Rightarrow> Inl ''the publish receipt did not render as JSON''
           | Inr v \<Rightarrow> Inr v))"

definition record_publish_receipt ::
  "'w GitEnv \<Rightarrow> ReceiptEnv \<Rightarrow> RepoConfig \<Rightarrow> string \<Rightarrow> string \<Rightarrow> string \<Rightarrow> string \<Rightarrow> GateProof
     \<Rightarrow> ('w GitWorld, string \<times> DJson) act" where
  "record_publish_receipt env renv config campaign issue_number base_branch sha gate w =
     (case receipt_new (re_valid_time renv) campaign base_branch sha
             \<lparr>pr_task_id = gp_task_id gate, pr_reference = gp_reference gate\<rparr> MACHINE_ACTOR (ge_now env (gw_other w)) of
        Inl e \<Rightarrow> refuse (''cannot record the publish receipt: '' @ publish_error_str e) w
      | Inr receipt \<Rightarrow>
          (case publish_receipt_ref (local_state_prefix campaign issue_number) sha of
             Inl e \<Rightarrow> refuse (''cannot name the publish receipt: '' @ publish_error_str e) w
           | Inr reference \<Rightarrow>
               and_then (push_receipt env config sha reference) (\<lambda>_.
               and_then (lift (receipt_json renv receipt)) (\<lambda>recorded.
               give (reference, recorded))) w))"

section \<open>Witnessing the facts\<close>

definition fork_point :: "'w GitEnv \<Rightarrow> string \<Rightarrow> string \<Rightarrow> string \<Rightarrow> bool \<Rightarrow> bool \<Rightarrow> ('w GitWorld, string option) act" where
  "fork_point env checkout base_head integration_head base_anc integration_anc =
     (if base_anc \<or> integration_anc then give None
      else
        and_then (git env checkout [''merge-base'', base_head, integration_head] False) (\<lambda>common.
          give (if success common \<and> is_full_oid (stdout_trimmed common) then Some (stdout_trimmed common) else None)))"

definition fork_paths :: "'w GitEnv \<Rightarrow> string \<Rightarrow> string option \<Rightarrow> string \<Rightarrow> string \<Rightarrow> ('w GitWorld, string list \<times> string list) act" where
  "fork_paths env checkout fork base_head integration_head =
     (case fork of
        None \<Rightarrow> give ([], [])
      | Some f \<Rightarrow>
          and_then (changed_paths env checkout f base_head) (\<lambda>base_paths.
          and_then (changed_paths env checkout f integration_head) (\<lambda>integration_paths.
          give (base_paths, integration_paths))))"

definition is_ancestor :: "'w GitEnv \<Rightarrow> string \<Rightarrow> string \<Rightarrow> string \<Rightarrow> ('w GitWorld, bool) act" where
  "is_ancestor env checkout a b =
     and_then (git env checkout [''merge-base'', ''--is-ancestor'', a, b] False) (\<lambda>out. give (success out))"

definition base_head_of :: "'w GitEnv \<Rightarrow> RepoConfig \<Rightarrow> ('w GitWorld, string) act" where
  "base_head_of env config =
     and_then (git env (cfg_checkout config) [''rev-parse'', ''--verify'',
                 cfg_remote config @ ''/'' @ cfg_base_branch config @ ''^{commit}''] True) (\<lambda>out.
       if \<not> is_full_oid (stdout_trimmed out)
       then refuse ''the campaign base branch did not resolve to a Git object ID''
       else give (stdout_trimmed out))"

definition witness_facts ::
  "'w GitEnv \<Rightarrow> RepoConfig \<Rightarrow> string \<Rightarrow> string \<Rightarrow> GateProof list
     \<Rightarrow> ('w GitWorld, PublishFacts \<times> string option \<times> GateProof option) act" where
  "witness_facts env config campaign identity proofs =
     and_then (required_integration_revision env config campaign identity) (\<lambda>integration_head.
     and_then (base_head_of env config) (\<lambda>base_head.
     and_then (is_ancestor env (cfg_checkout config) base_head integration_head) (\<lambda>base_anc.
     and_then (is_ancestor env (cfg_checkout config) integration_head base_head) (\<lambda>integration_anc.
     and_then (fork_point env (cfg_checkout config) base_head integration_head base_anc integration_anc) (\<lambda>fork.
     and_then (fork_paths env (cfg_checkout config) fork base_head integration_head) (\<lambda>(base_paths, integration_paths).
       let gate = List.find (\<lambda>p. gp_revision p = integration_head) proofs
       in give (\<lparr>pf_base_branch = cfg_base_branch config, pf_base_head = base_head, pf_integration_head = integration_head,
                 pf_proven_head = map_option gp_revision gate, pf_base_is_ancestor = base_anc,
                 pf_integration_is_ancestor = integration_anc, pf_base_paths = base_paths,
                 pf_integration_paths = integration_paths\<rparr>, fork, gate)))))))"

definition decide :: "PublishFacts \<Rightarrow> string option \<Rightarrow> PublishPlan" where
  "decide facts fork =
     (let plan = publish_plan facts
      in if pp_action plan = RebaseAndRegate \<and> fork = None
         then \<lparr>pp_action = Withhold, pp_sha = None,
               pp_reason = ''the integration line and '' @ pf_base_branch facts @ '' share no history''\<rparr>
         else plan)"

section \<open>Carrying the decision out\<close>

record PublishOutcome =
  po_plan :: PublishPlan
  po_integration_head :: string
  po_proven_head :: "string option"
  po_regate_required :: bool
  po_receipt :: DJson
  po_receipt_ref :: DJson

definition or_null :: "string option \<Rightarrow> DJson" where
  "or_null v = (case v of None \<Rightarrow> DNull | Some s \<Rightarrow> DString s)"

definition outcome_json :: "string \<Rightarrow> PublishOutcome \<Rightarrow> DJson" where
  "outcome_json base_branch out =
     json_object
       [(''action'', DString (action_str (pp_action (po_plan out)))), (''baseBranch'', DString base_branch),
        (''sha'', or_null (pp_sha (po_plan out))), (''integrationHead'', DString (po_integration_head out)),
        (''provenHead'', or_null (po_proven_head out)), (''regateRequired'', DBool (po_regate_required out)),
        (''receipt'', po_receipt out), (''receiptRef'', po_receipt_ref out),
        (''reason'', DString (pp_reason (po_plan out)))]"

definition base_ref :: "string \<Rightarrow> string" where
  "base_ref base_branch = ''refs/heads/'' @ base_branch"

definition unpublished :: "PublishPlan \<Rightarrow> PublishFacts \<Rightarrow> PublishOutcome" where
  "unpublished plan facts =
     \<lparr>po_plan = plan, po_integration_head = pf_integration_head facts, po_proven_head = pf_proven_head facts,
      po_regate_required = False, po_receipt = DNull, po_receipt_ref = DNull\<rparr>"

definition publish_and_record ::
  "'w GitEnv \<Rightarrow> ReceiptEnv \<Rightarrow> RepoConfig \<Rightarrow> string \<Rightarrow> string \<Rightarrow> PublishPlan \<Rightarrow> PublishFacts \<Rightarrow> string \<Rightarrow> GateProof
     \<Rightarrow> ('w GitWorld, PublishOutcome) act" where
  "publish_and_record env renv config campaign issue_number plan facts sha gate =
     and_then (record_publish_receipt env renv config campaign issue_number (cfg_base_branch config) sha gate) (\<lambda>(reference, recorded).
     give ((unpublished plan facts)\<lparr>po_receipt := recorded, po_receipt_ref := DString reference\<rparr>))"

definition fast_forward :: "'w GitEnv \<Rightarrow> RepoConfig \<Rightarrow> string \<Rightarrow> ('w GitWorld, unit) act" where
  "fast_forward env config sha =
     and_then (git env (cfg_checkout config) [''push'', cfg_remote config, sha @ '':'' @ base_ref (cfg_base_branch config)] False) (\<lambda>pushed.
       if \<not> success pushed
       then refuse (''cannot fast-forward '' @ cfg_base_branch config @ '' to the gate-proven head '' @ sha @ '': '' @ detail pushed)
       else
         and_then (remote_ref_oid env (cfg_checkout config) (cfg_remote config) (base_ref (cfg_base_branch config))) (\<lambda>oid.
           if oid \<noteq> Some sha
           then refuse (cfg_base_branch config @ '' did not expose the gate-proven head '' @ sha @ '' after the fast-forward'')
           else give ()))"

text \<open>
  The \<open>expect\<close>s on the plan's revision, on the proof and on the fork point are the panics of the
  model; that none is reached is shown below.
\<close>

definition carry_out ::
  "'w GitEnv \<Rightarrow> ReceiptEnv \<Rightarrow> RepoConfig \<Rightarrow> string \<Rightarrow> string \<Rightarrow> string \<Rightarrow> string \<Rightarrow> PublishFacts \<Rightarrow> string option \<Rightarrow> GateProof option
     \<Rightarrow> ('w GitWorld, PublishOutcome) act" where
  "carry_out env renv config campaign identity issue_number workspace_root facts fork gate =
     (let plan = decide facts fork
      in case pp_action plan of
           FastForward \<Rightarrow>
             (case (pp_sha plan, gate) of
                (Some sha, Some g) \<Rightarrow>
                  and_then (fast_forward env config sha) (\<lambda>_.
                  publish_and_record env renv config campaign issue_number plan facts sha g)
              | _ \<Rightarrow> refuse ''panic'')
         | AlreadyPublished \<Rightarrow>
             (case (pp_sha plan, gate) of
                (Some sha, Some g) \<Rightarrow> publish_and_record env renv config campaign issue_number plan facts sha g
              | _ \<Rightarrow> refuse ''panic'')
         | RebaseAndRegate \<Rightarrow>
             (case fork of
                None \<Rightarrow> refuse ''panic''
              | Some f \<Rightarrow>
                  and_then (rebase_integration_onto_base env config (integration_branch campaign identity)
                              (pf_integration_head facts) (pf_base_head facts) f workspace_root) (\<lambda>rebased.
                  give ((unpublished plan facts)\<lparr>po_integration_head := rebased, po_regate_required := True\<rparr>)))
         | Withhold \<Rightarrow> give (unpublished plan facts))"

definition stage_publish_local ::
  "'w GitEnv \<Rightarrow> ReceiptEnv \<Rightarrow> RepoConfig \<Rightarrow> string \<Rightarrow> string \<Rightarrow> string \<Rightarrow> string \<Rightarrow> GateProof list \<Rightarrow> ('w GitWorld, DJson) act" where
  "stage_publish_local env renv config campaign identity issue_number workspace_root proofs =
     and_then (witness_facts env config campaign identity proofs) (\<lambda>(facts, fork, gate).
     and_then (carry_out env renv config campaign identity issue_number workspace_root facts fork gate) (\<lambda>out.
     give (outcome_json (cfg_base_branch config) out)))"

section \<open>The action\<close>

record StageRequest =
  sr_campaign :: string
  sr_identity :: string
  sr_issue_number :: string
  sr_config :: RepoConfig
  sr_source_sha256 :: string
  sr_workspace_root :: string
  sr_proofs :: "DJson option"

definition stage_brief :: "'w GitEnv \<Rightarrow> DJson \<Rightarrow> ('w GitWorld, StageRequest) act" where
  "stage_brief env brief =
     and_then (lift (object_exact brief
       [''campaign'', ''campaignIdentity'', ''repository'', ''repositoryConfig'', ''issue'', ''runId'', ''workspaceRoot'',
        ''source'', ''proofs'', ''specRepository'', ''issueRepository''] ''stagePublish brief'')) (\<lambda>data.
     and_then (lift (required_string (map_of data ''campaign'') ''campaign'' None)) (\<lambda>campaign.
       if \<not> is_component campaign then refuse ''campaign is not a safe component''
       else
         and_then (lift (repository_name (map_of data ''repository'') ''repository'')) (\<lambda>repository.
         and_then (repo_config env (map_of data ''repositoryConfig'')) (\<lambda>config.
         and_then (campaign_coordinates env data repository config) (\<lambda>_.
         and_then (lift (campaign_identity data campaign)) (\<lambda>identity.
         and_then (lift (campaign_issue (map_of data ''issue''))) (\<lambda>(issue_number, _).
         and_then (lift (case map_of data ''source'' of
                           None \<Rightarrow> Inl ''source must be an object''
                         | Some v \<Rightarrow> object_exact v [''path'', ''sha256'', ''revision'', ''repository''] ''source'')) (\<lambda>source.
         and_then (lift (required_string (map_of source ''sha256'') ''source.sha256'' None)) (\<lambda>source_sha256.
         and_then (lift (required_string (map_of data ''workspaceRoot'') ''workspaceRoot'' None)) (\<lambda>workspace_root.
           if \<not> starts_with workspace_root ''/'' then refuse ''workspaceRoot must be absolute''
           else give \<lparr>sr_campaign = campaign, sr_identity = identity, sr_issue_number = issue_number, sr_config = config,
                      sr_source_sha256 = source_sha256, sr_workspace_root = workspace_root,
                      sr_proofs = map_of data ''proofs''\<rparr>))))))))))"

definition stage_publish :: "'w GitEnv \<Rightarrow> ReceiptEnv \<Rightarrow> StageRequest \<Rightarrow> ('w GitWorld, DJson) act" where
  "stage_publish env renv req =
     and_then (git env (cfg_checkout (sr_config req)) [''fetch'', ''--prune'', ''--no-tags'', cfg_remote (sr_config req)] True) (\<lambda>_.
     and_then (witnessed_gate_proofs env (sr_config req) (sr_campaign req) (sr_issue_number req) (sr_source_sha256 req) (sr_proofs req)) (\<lambda>proofs.
     stage_publish_local env renv (sr_config req) (sr_campaign req) (sr_identity req) (sr_issue_number req)
       (sr_workspace_root req) proofs))"

definition action_stage_publish :: "'w GitEnv \<Rightarrow> ReceiptEnv \<Rightarrow> DJson \<Rightarrow> ('w GitWorld, DJson) act" where
  "action_stage_publish env renv brief = and_then (stage_brief env brief) (stage_publish env renv)"

section \<open>What the steps leave alone\<close>

lemma refs_names [simp]:
  "starts_with (local_state_prefix c i @ x) ''refs/''" "starts_with (base_ref b) ''refs/''"
  "starts_with (receipt_name (local_state_prefix c i) sha) ''refs/''"
  by (simp_all add: local_state_prefix_def base_ref_def receipt_name_def starts_with_iff)

lemma checkpoint_ref_refs: "checkpoint_ref c i t s r = Inr reference \<Longrightarrow> starts_with reference ''refs/''"
  by (auto simp: checkpoint_ref_def split: if_splits)

lemma keeps_gate_claim [intro]:
  assumes "looks_law env v (cfg_remote config)"
  shows "keeps v (gate_claim env config c i s claim)"
  unfolding gate_claim_def using assms
  by (auto intro!: keeps_bind keeps_remote_ref_oid simp: lift_def) (erule checkpoint_ref_refs)

lemma keeps_claims_loop: "looks_law env v (cfg_remote config) \<Longrightarrow> keeps v (claims_loop env config c i s claims seen proofs)"
  by (induction claims arbitrary: seen proofs) (auto simp: Let_def intro!: keeps_and_then keeps_gate_claim)

lemma keeps_witnessed [intro]: "looks_law env v (cfg_remote config) \<Longrightarrow> keeps v (witnessed_gate_proofs env config c i s j)"
  unfolding witnessed_gate_proofs_def by (auto split: option.split intro: keeps_claims_loop)

lemma keeps_fork [intro]:
  "looks_law env v remote \<Longrightarrow> keeps v (fork_point env d b h x y)"
  "looks_law env v remote \<Longrightarrow> (\<And>p. f = Some p \<Longrightarrow> is_full_oid p) \<Longrightarrow> is_full_oid b \<Longrightarrow> is_full_oid h \<Longrightarrow>
     keeps v (fork_paths env d f b h)"
  "looks_law env v remote \<Longrightarrow> keeps v (is_ancestor env d b h)"
  "looks_law env v remote \<Longrightarrow> keeps v (base_head_of env config)"
  unfolding fork_point_def fork_paths_def is_ancestor_def base_head_of_def
  by (auto split: option.split intro!: keeps_and_then keeps_git keeps_changed_paths)

lemma base_head_full: "base_head_of env config w = (Inr b, w') \<Longrightarrow> is_full_oid b"
  unfolding base_head_of_def by (auto elim!: and_then_cases simp: give_def refuse_def split: if_splits)

lemma fork_point_full: "fork_point env d b h x y w = (Inr (Some p), w') \<Longrightarrow> is_full_oid p"
  unfolding fork_point_def by (auto elim!: and_then_cases simp: give_def split: if_splits)

lemma keeps_witness_facts: "looks_law env v remote \<Longrightarrow> keeps v (witness_facts env config c i proofs)"
  unfolding witness_facts_def Let_def
  by (intro keeps_bind keeps_integration keeps_fork)
    (auto dest: integration_full base_head_full fork_point_full intro!: keeps_bind keeps_fork)

lemma keeps_stage_brief: "looks_law env v remote \<Longrightarrow> keeps v (stage_brief env brief)"
  unfolding stage_brief_def by (auto intro!: keeps_and_then keeps_repo_config keeps_coordinates)

text \<open>The workspace root of an accepted brief is absolute.\<close>

lemma stage_brief_root: "stage_brief env brief w = (Inr req, w') \<Longrightarrow> starts_with (sr_workspace_root req) ''/''"
  unfolding stage_brief_def by (auto elim!: and_then_cases simp: give_def refuse_def split: if_splits prod.splits)

section \<open>Facts that are witnessed\<close>

text \<open>A revision is proven when the remote has the checkpoint ref of some task for it.\<close>

definition gate_proved :: "string \<Rightarrow> string \<Rightarrow> string \<Rightarrow> refs \<Rightarrow> string \<Rightarrow> bool" where
  "gate_proved campaign issue_number source_sha256 refs sha \<longleftrightarrow>
     (\<exists>task_id reference. is_task_id task_id \<and>
        checkpoint_ref campaign issue_number task_id source_sha256 sha = Inr reference \<and> refs reference = Some sha)"

lemma gate_claim_proved:
  assumes "listing_law env (cfg_checkout config) (cfg_remote config)"
    and "gate_claim env config c i s claim w = (Inr p, w')"
  shows "gate_proved c i s (gw_remote w) (gp_revision p)"
  using assms(2) unfolding gate_claim_def gate_proved_def
  by (auto elim!: and_then_cases simp: lift_def give_def refuse_def dest!: remote_ref_oid_law(1) [OF assms(1)] split: if_splits)
    blast

lemma claims_loop_proved:
  assumes "looks_law env v (cfg_remote config)" "listing_law env (cfg_checkout config) (cfg_remote config)"
  shows "claims_loop env config c i s claims seen proofs w = (Inr out, w') \<Longrightarrow> p \<in> set out \<Longrightarrow>
    p \<in> set proofs \<or> gate_proved c i s (gw_remote w) (gp_revision p)"
proof (induction claims arbitrary: seen proofs w)
  case Nil
  then show ?case by (simp add: give_def)
next
  case (Cons claim claims)
  from Cons.prems(1) obtain q w1 where q: "gate_claim env config c i s claim w = (Inr q, w1)"
    and rec: "(let key = (gp_task_id q, gp_revision q)
      in if key \<in> set seen then claims_loop env config c i s claims seen proofs
         else claims_loop env config c i s claims (key # seen) (proofs @ [q])) w1 = (Inr out, w')"
    by (auto elim!: and_then_cases)
  have "gw_remote w1 = gw_remote w" using keeps_refs [OF keeps_gate_claim [OF assms(1)] q] by blast
  with rec Cons.IH Cons.prems(2) gate_claim_proved [OF assms(2) q] show ?case
    by (fastforce simp: Let_def split: if_splits)
qed

text \<open>The base branch has a plain name, which no local branch shadows.\<close>

definition base_resolvable :: "RepoConfig \<Rightarrow> 'w GitWorld \<Rightarrow> bool" where
  "base_resolvable config w \<longleftrightarrow>
     list_all ref_char (cfg_remote config @ ''/'' @ cfg_base_branch config) \<and>
     gw_branches w (''refs/heads/'' @ cfg_remote config @ ''/'' @ cfg_base_branch config) = None"

lemma base_head_law:
  assumes "tracking_law env v (cfg_checkout config) (cfg_remote config)" "base_head_of env config w = (Inr b, w')"
    and "base_resolvable config w" "gv_tracking v w (base_ref (cfg_base_branch config)) = Some bh"
  shows "b = bh"
proof -
  from assms(2) obtain out where git: "git env (cfg_checkout config) [''rev-parse'', ''--verify'',
      cfg_remote config @ ''/'' @ cfg_base_branch config @ ''^{commit}''] True w = (Inr out, w')"
    and b: "b = stdout_trimmed out"
    unfolding base_head_of_def by (auto elim!: and_then_cases simp: give_def refuse_def split: if_splits)
  have "success out" using git by (rule git_ran) simp
  from git_success [OF git this] assms(1,3,4) show ?thesis
    unfolding tracking_law_def base_resolvable_def base_ref_def b stdout_trimmed_def stdout_text_def by blast
qed

lemma is_ancestor_law:
  assumes "ancestor_law env v d" "is_full_oid a" "is_full_oid b" "is_ancestor env d a b w = (Inr True, w')"
  shows "gv_ancestor v a b"
proof -
  from assms(4) obtain out where git: "git env d [''merge-base'', ''--is-ancestor'', a, b] False w = (Inr out, w')" "success out"
    unfolding is_ancestor_def by (auto elim!: and_then_cases simp: give_def)
  from git_success [OF git] assms(1-3) show ?thesis unfolding ancestor_law_def by blast
qed

lemma witness_facts_law:
  assumes laws: "git_laws env v (cfg_checkout config) (cfg_remote config)"
    and run: "witness_facts env config c i proofs w = (Inr (facts, fork, gate), w')"
  shows "gw_branches w (''refs/heads/'' @ integration_branch c i) = Some (pf_integration_head facts)"
    "is_full_oid (pf_integration_head facts)" "pf_proven_head facts = map_option gp_revision gate"
    "gate = Some g \<Longrightarrow> g \<in> set proofs \<and> gp_revision g = pf_integration_head facts"
    "is_full_oid (pf_base_head facts)" "fork = Some f \<Longrightarrow> is_full_oid f"
    "pf_integration_is_ancestor facts \<Longrightarrow> gv_ancestor v (pf_integration_head facts) (pf_base_head facts)"
    "base_resolvable config w \<Longrightarrow> gv_tracking v w (base_ref (cfg_base_branch config)) = Some bh \<Longrightarrow> pf_base_head facts = bh"
proof -
  from run obtain w1 w2 w3 w4 w5 where head: "required_integration_revision env config c i w = (Inr (pf_integration_head facts), w1)"
    and base: "base_head_of env config w1 = (Inr (pf_base_head facts), w2)"
    and anc: "is_ancestor env (cfg_checkout config) (pf_integration_head facts) (pf_base_head facts) w3
      = (Inr (pf_integration_is_ancestor facts), w4)"
    and fork: "fork_point env (cfg_checkout config) (pf_base_head facts) (pf_integration_head facts)
      (pf_base_is_ancestor facts) (pf_integration_is_ancestor facts) w4 = (Inr fork, w5)"
    and gate: "gate = List.find (\<lambda>p. gp_revision p = pf_integration_head facts) proofs"
      "pf_proven_head facts = map_option gp_revision gate"
    unfolding witness_facts_def by (auto elim!: and_then_cases simp: Let_def give_def split: prod.splits)
  note law = git_lawsD [OF laws]
  show "gw_branches w (''refs/heads/'' @ integration_branch c i) = Some (pf_integration_head facts)"
    and full: "is_full_oid (pf_integration_head facts)" using integration_revision_law [OF law(8) head] by blast+
  show fullb: "is_full_oid (pf_base_head facts)" by (rule base_head_full [OF base])
  show "is_full_oid f" if "fork = Some f" using fork_point_full fork that by blast
  show "gv_ancestor v (pf_integration_head facts) (pf_base_head facts)" if "pf_integration_is_ancestor facts"
    using is_ancestor_law [OF law(10) full fullb] anc that by simp
  show "pf_base_head facts = bh"
    if "base_resolvable config w" "gv_tracking v w (base_ref (cfg_base_branch config)) = Some bh"
    using base_head_law [OF law(9) base] that keepsD [OF keeps_integration [OF law(1)] head]
    by (simp add: unmoved_def base_resolvable_def)
  show "pf_proven_head facts = map_option gp_revision gate" by (rule gate(2))
  show "g \<in> set proofs \<and> gp_revision g = pf_integration_head facts" if "gate = Some g"
    using that unfolding gate(1) by (auto simp: find_Some_iff)
qed

lemma decide_publishes:
  "publishes (pp_action (decide facts fork)) \<longleftrightarrow> pp_sha (decide facts fork) \<noteq> None"
  "pp_sha (decide facts fork) = Some sha \<Longrightarrow> sha = pf_integration_head facts \<and> pf_proven_head facts = Some sha"
  "pp_action (decide facts fork) = RebaseAndRegate \<Longrightarrow> fork \<noteq> None"
  "pp_action (decide facts fork) = AlreadyPublished \<Longrightarrow>
     pf_base_head facts = pf_integration_head facts \<or> pf_integration_is_ancestor facts"
  using plan_publishes [of facts] plan_already [of facts] by (auto simp: decide_def Let_def split: if_splits)

section \<open>What the steps write\<close>

text \<open>A receipt ref is written once; the branches are left alone.\<close>

lemma push_receipt_law:
  assumes laws: "git_laws env v (cfg_checkout config) (cfg_remote config)" and sha: "is_full_oid sha"
    and r: "starts_with r ''refs/''" and run: "push_receipt env config sha r w = (x, w')"
  shows "gw_branches w' = gw_branches w" (is ?b)
    and "gw_remote w' = gw_remote w \<or> gw_remote w r = None \<and> gw_remote w' = (gw_remote w)(r \<mapsto> sha)" (is ?r)
    and "x = Inr u \<Longrightarrow> gw_remote w' r = Some sha"
proof -
  note law = git_lawsD [OF laws]
  note kept = keeps_refs [OF keeps_remote_ref_oid [OF law(1) r]]
  note read = remote_ref_oid_law(1) [OF law(7)]
  note pushed = push_cases [OF law(5) sha r]
  have "?b \<and> ?r \<and> (x = Inr u \<longrightarrow> gw_remote w' r = Some sha)"
    using run unfolding push_receipt_def
  proof (cases rule: and_then_cases)
    case (stop e)
    then show ?thesis using kept by fastforce
  next
    case (go existing w1)
    note w1 = kept [OF go(1)] read [OF go(1)]
    show ?thesis
    proof (cases existing)
      case (Some oid)
      then show ?thesis using go(2) w1 by (auto simp: give_def refuse_def split: if_splits)
    next
      case None
      from go(2) [unfolded None option.case] show ?thesis
      proof (cases rule: and_then_cases)
        case (stop e)
        then show ?thesis using pushed(1,2) [OF stop(1)] w1 None by auto
      next
        case (go out w2)
        note w2 = pushed [OF go(1)]
        show ?thesis
        proof (cases "success out")
          case True
          then show ?thesis using go(2) w1 w2(1) w2(3) [OF refl True] None by (auto simp: give_def)
        next
          case False
          from go(2) False have "and_then (remote_ref_oid env (cfg_checkout config) (cfg_remote config) r) (\<lambda>oid.
              if oid \<noteq> Some sha then refuse (''cannot record publish receipt '' @ ge_debug env r @ '': '' @ detail out)
              else give ()) w2 = (x, w')" by simp
          then show ?thesis
          proof (cases rule: and_then_cases)
            case (stop e)
            then show ?thesis using kept [OF stop(1)] w1 w2(1,2) None by auto
          next
            case (go oid w3)
            then show ?thesis using kept [OF go(1)] read [OF go(1)] w1 w2(1,2) None
              by (auto simp: give_def refuse_def split: if_splits)
          qed
        qed
      qed
    qed
  qed
  then show ?b ?r "x = Inr u \<Longrightarrow> gw_remote w' r = Some sha" by blast+
qed

lemma record_receipt_law:
  assumes laws: "git_laws env v (cfg_checkout config) (cfg_remote config)"
    and run: "record_publish_receipt env renv config c i b sha gate w = (x, w')"
  defines "name \<equiv> receipt_name (local_state_prefix c i) sha"
  shows "gw_branches w' = gw_branches w" (is ?b)
    and "gw_remote w' = gw_remote w \<or> gw_remote w name = None \<and> gw_remote w' = (gw_remote w)(name \<mapsto> sha)" (is ?r)
    and "x = Inr (r, j) \<Longrightarrow> r = name \<and> gw_remote w' name = Some sha"
proof -
  have "?b \<and> ?r \<and> (x = Inr (r, j) \<longrightarrow> r = name \<and> gw_remote w' name = Some sha)"
  proof (cases "receipt_new (re_valid_time renv) c b sha
      \<lparr>pr_task_id = gp_task_id gate, pr_reference = gp_reference gate\<rparr> MACHINE_ACTOR (ge_now env (gw_other w))")
    case (Inl e)
    then show ?thesis using run by (auto simp: record_publish_receipt_def refuse_def)
  next
    case (Inr receipt)
    have id: "is_object_id sha" using receipt_new_Some [OF Inr] by simp
    have rest: "and_then (push_receipt env config sha name) (\<lambda>_.
        and_then (lift (receipt_json renv receipt)) (\<lambda>recorded. give (name, recorded))) w = (x, w')"
      using run Inr id by (simp add: record_publish_receipt_def publish_receipt_ref_def name_def)
    note push = push_receipt_law [OF laws is_object_id_full [OF id], of name, unfolded name_def, OF refs_names(3), folded name_def]
    from rest show ?thesis
    proof (cases rule: and_then_cases)
      case (stop e)
      then show ?thesis using push(1,2) [OF stop(1)] by auto
    next
      case (go u w1)
      then have "w1 = w'" "x = Inr (r, j) \<Longrightarrow> r = name"
        by (auto simp: and_then_def lift_def give_def split: sum.splits)
      then show ?thesis using push [OF go(1)] by auto
    qed
  qed
  then show ?b ?r "x = Inr (r, j) \<Longrightarrow> r = name \<and> gw_remote w' name = Some sha" by blast+
qed

lemma publish_and_record_law:
  assumes laws: "git_laws env v (cfg_checkout config) (cfg_remote config)"
    and run: "publish_and_record env renv config c i plan facts sha gate w = (x, w')"
  defines "name \<equiv> receipt_name (local_state_prefix c i) sha"
  shows "gw_branches w' = gw_branches w" (is ?b)
    and "gw_remote w' = gw_remote w \<or> gw_remote w name = None \<and> gw_remote w' = (gw_remote w)(name \<mapsto> sha)" (is ?r)
    and "x = Inr out \<Longrightarrow> po_plan out = plan \<and> po_integration_head out = pf_integration_head facts \<and>
      po_proven_head out = pf_proven_head facts \<and> po_receipt_ref out = DString name \<and> \<not> po_regate_required out \<and>
      gw_remote w' name = Some sha"
proof -
  note law = record_receipt_law [OF laws, of renv c i "cfg_base_branch config" sha gate, folded name_def]
  have "?b \<and> ?r \<and> (x = Inr out \<longrightarrow> po_plan out = plan \<and> po_integration_head out = pf_integration_head facts \<and>
      po_proven_head out = pf_proven_head facts \<and> po_receipt_ref out = DString name \<and>
      \<not> po_regate_required out \<and> gw_remote w' name = Some sha)"
    using run unfolding publish_and_record_def
  proof (cases rule: and_then_cases)
    case (stop e)
    then show ?thesis using law(1,2) [OF stop(1)] by auto
  next
    case (go pair w1)
    obtain r j where pair: "pair = (r, j)" by (cases pair)
    then have "w1 = w'" "x = Inr out \<Longrightarrow> out = (unpublished plan facts)\<lparr>po_receipt := j, po_receipt_ref := DString r\<rparr>"
      using go(2) by (auto simp: give_def)
    then show ?thesis using law [OF go(1)] pair by (auto simp: unpublished_def)
  qed
  then show ?b ?r "x = Inr out \<Longrightarrow> po_plan out = plan \<and> po_integration_head out = pf_integration_head facts \<and>
      po_proven_head out = pf_proven_head facts \<and> po_receipt_ref out = DString name \<and> \<not> po_regate_required out \<and>
      gw_remote w' name = Some sha" by blast+
qed

lemma fast_forward_law:
  assumes laws: "git_laws env v (cfg_checkout config) (cfg_remote config)" and sha: "is_full_oid sha"
    and run: "fast_forward env config sha w = (x, w')"
  defines "b \<equiv> base_ref (cfg_base_branch config)"
  shows "gw_branches w' = gw_branches w" (is ?b)
    and "gw_remote w' = gw_remote w \<or> gw_remote w' = (gw_remote w)(b \<mapsto> sha) \<and>
      (\<forall>old. gw_remote w b = Some old \<longrightarrow> gv_ancestor v old sha)" (is ?r)
    and "x = Inr u \<Longrightarrow> gw_remote w' b = Some sha"
proof -
  note law = git_lawsD [OF laws]
  have heads: "starts_with b ''refs/heads/''" "starts_with b ''refs/''" by (simp_all add: b_def base_ref_def starts_with_iff)
  note kept = keeps_refs [OF keeps_remote_ref_oid [OF law(1) heads(2)]]
  note pushed = push_cases [OF law(5) sha heads(2)]
  have "?b \<and> ?r \<and> (x = Inr u \<longrightarrow> gw_remote w' b = Some sha)"
    using run unfolding fast_forward_def b_def [symmetric]
  proof (cases rule: and_then_cases)
    case (stop e)
    then show ?thesis using pushed(1,2) [OF stop(1)] heads by auto
  next
    case (go out w1)
    note w1 = pushed(1,2) [OF go(1)]
    show ?thesis
    proof (cases "success out")
      case False
      then show ?thesis using go(2) w1 heads by (auto simp: refuse_def)
    next
      case True
      from go(2) True have "and_then (remote_ref_oid env (cfg_checkout config) (cfg_remote config) b) (\<lambda>oid.
          if oid \<noteq> Some sha then refuse (cfg_base_branch config @ '' did not expose the gate-proven head '' @ sha @ '' after the fast-forward'')
          else give ()) w1 = (x, w')" by simp
      then show ?thesis
      proof (cases rule: and_then_cases)
        case (stop e)
        then show ?thesis using kept [OF stop(1)] w1 heads by auto
      next
        case (go oid w2)
        then show ?thesis using kept [OF go(1)] remote_ref_oid_law(1) [OF law(7) go(1)] w1 heads
          by (auto simp: give_def refuse_def split: if_splits)
      qed
    qed
  qed
  then show ?b ?r "x = Inr u \<Longrightarrow> gw_remote w' b = Some sha" by blast+
qed

text \<open>A rebase moves the branch of the integration line and nothing else.\<close>

definition moves_only :: "string \<Rightarrow> 'w GitWorld \<Rightarrow> 'w GitWorld \<Rightarrow> bool" where
  "moves_only r w w' \<longleftrightarrow> gw_remote w' = gw_remote w \<and> (\<forall>b. b \<noteq> r \<longrightarrow> gw_branches w' b = gw_branches w b)"

lemma moves_only_refl [simp]: "moves_only r w w"
  by (simp add: moves_only_def)

lemma moves_only_trans: "moves_only r w w1 \<Longrightarrow> moves_only r w1 w2 \<Longrightarrow> moves_only r w w2"
  by (simp add: moves_only_def)

lemma unmoved_moves: "unmoved v w w' \<Longrightarrow> moves_only r w w'"
  by (simp add: unmoved_def moves_only_def)

lemma rebase_step:
  assumes "rebase_law env v" "gv_detached v path w"
    and "is_full_oid onto \<and> is_full_oid fork \<and>
         git env path [''-c'', ''user.name=tally spec-build'', ''-c'', ''user.email=tally-spec-build@invalid'',
           ''rebase'', ''--onto'', onto, fork] check w = (x, w') \<or>
         git env path [''rebase'', ''--abort''] check w = (x, w')"
  shows "unmoved v w w'" "gv_detached v path w'"
  using assms git_run unfolding rebase_law_def by metis+

lemma replay_moves:
  assumes laws: "git_laws env v (cfg_checkout config) remote" and det: "gv_detached v path w"
    and oids: "is_full_oid head" "is_full_oid onto" "is_full_oid fork"
    and run: "replay_line env config path branch head onto fork w = (x, w')"
  shows "moves_only (''refs/heads/'' @ branch) w w'"
  using run unfolding replay_line_def Let_def
proof (cases rule: and_then_cases)
  case (stop e)
  then show ?thesis using rebase_step(1) [OF git_lawsD(4) [OF laws] det] oids unmoved_moves by blast
next
  case (go replayed w1)
  have rebased: "unmoved v w w1" "gv_detached v path w1"
    using rebase_step [OF git_lawsD(4) [OF laws] det] oids go(1) by blast+
  show ?thesis
  proof (cases "success replayed")
    case False
    with go(2) obtain y w2 where "git env path [''rebase'', ''--abort''] False w1 = (y, w2)" "w' = w2"
      by (auto elim!: and_then_cases simp: refuse_def)
    then have "unmoved v w1 w'" using rebase_step(1) [OF git_lawsD(4) [OF laws] rebased(2)] by blast
    with rebased(1) show ?thesis using unmoved_trans unmoved_moves by blast
  next
    case True
    obtain y w2 where parse: "git env path [''rev-parse'', ''HEAD''] True w1 = (y, w2)" by fastforce
    have "unmoved v w1 w2" using keepsD [OF keeps_git [OF git_lawsD(1) [OF laws]] parse] by simp
    with rebased(1) have w2: "moves_only (''refs/heads/'' @ branch) w w2" using unmoved_trans unmoved_moves by blast
    have "w' = w2 \<or> (\<exists>new z. is_full_oid new \<and>
        ge_run env (cfg_checkout config) [''update-ref'', ''refs/heads/'' @ branch, new, head] w2 = (z, w'))"
      using go(2) True parse git_run
      by (auto elim!: and_then_cases simp: give_def refuse_def split: if_splits) blast+
    then have "moves_only (''refs/heads/'' @ branch) w2 w'"
      using git_lawsD(6) [OF laws] oids(1) unfolding update_ref_law_def moves_only_def by fastforce
    with w2 show ?thesis by (rule moves_only_trans)
  qed
qed

lemma rebase_moves:
  assumes laws: "git_laws env v (cfg_checkout config) remote" and root: "starts_with root ''/''"
    and oids: "is_full_oid head" "is_full_oid onto" "is_full_oid fork"
    and run: "rebase_integration_onto_base env config branch head onto fork root w = (x, w')"
  shows "moves_only (''refs/heads/'' @ branch) w w'"
proof -
  let ?r = "''refs/heads/'' @ branch"
  have dir: "moves_only ?r w w'" if "create_dir_all env p w = (y, w')" for p w y w'
    using that by (auto simp: moves_only_def create_dir_all_def split: prod.splits)
  have joined: "starts_with (path_join a b) ''/''" if "starts_with a ''/''" for a b
    using that by (auto simp: path_join_def starts_with_iff)
  have "moves_only ?r w1 w2" if "rebase_in env config branch head onto fork p w1 = (y, w2)" and p: "starts_with p ''/''" for p w1 y w2
    using that(1) unfolding rebase_in_def Let_def
  proof (cases rule: and_then_cases)
    case (stop e)
    then show ?thesis using dir by blast
  next
    case (go u w3)
    note abs = joined [OF p, of "''worktree''"]
    from go(2) show ?thesis
    proof (cases rule: and_then_cases)
      case (stop e)
      from git_run [OF stop(1)] abs have "unmoved v w3 w2" using git_lawsD(3) [OF laws] unfolding worktree_law_def by blast
      then show ?thesis using dir [OF go(1)] unmoved_moves moves_only_trans by blast
    next
      case (go out w4)
      have "success out" using go(1) by (rule git_ran) simp
      from git_success [OF go(1) this] abs have add: "unmoved v w3 w4" "gv_detached v (path_join p ''worktree'') w4"
        using git_lawsD(3) [OF laws] unfolding worktree_law_def by blast+
      obtain z w5 where replay: "replay_line env config (path_join p ''worktree'') branch head onto fork w4 = (z, w5)" by fastforce
      obtain a w6 where remove: "git env (cfg_checkout config) [''worktree'', ''remove'', ''--force'', path_join p ''worktree''] False w5 = (a, w6)"
        by fastforce
      have "w2 = remove_dir_all env p w6" using go(2) replay remove by simp
      moreover have "unmoved v w5 w6" using git_run [OF remove] abs git_lawsD(3) [OF laws] unfolding worktree_law_def by blast
      ultimately have "moves_only ?r w5 w2" using unmoved_moves by (auto simp: moves_only_def unmoved_def remove_dir_all_def)
      then show ?thesis
        using dir [OF \<open>create_dir_all env p w1 = (Inr u, w3)\<close>] unmoved_moves [OF add(1)] replay_moves [OF laws add(2) oids replay] moves_only_trans by blast
    qed
  qed
  note body = this
  from run show ?thesis unfolding rebase_integration_onto_base_def
  proof (cases rule: and_then_cases)
    case (stop e)
    then show ?thesis using dir by blast
  next
    case (go u w1)
    then show ?thesis using dir [OF go(1)] body [OF go(2)] joined [OF root] moves_only_trans by blast
  qed
qed

section \<open>Carrying out what was decided\<close>

definition published :: "string \<Rightarrow> string \<Rightarrow> (string \<Rightarrow> bool) \<Rightarrow> (string \<Rightarrow> string \<Rightarrow> bool) \<Rightarrow> refs \<Rightarrow> refs \<Rightarrow> bool" where
  "published base prefix P anc refs refs' \<longleftrightarrow>
     (refs' base = refs base \<or>
      (\<exists>sha. P sha \<and> refs' base = Some sha \<and> (\<forall>old. refs base = Some old \<longrightarrow> anc old sha))) \<and>
     (\<forall>r. r \<noteq> base \<longrightarrow> refs' r = refs r \<or>
        refs r = None \<and> (\<exists>sha. P sha \<and> r = receipt_name prefix sha \<and> refs' r = Some sha))"

lemma published_same: "refs' = refs \<Longrightarrow> published base prefix P anc refs refs'"
  by (simp add: published_def)

lemma published_receipt:
  assumes "published base prefix P anc refs refs1" "P sha" "receipt_name prefix sha \<noteq> base"
    and "refs' = refs1 \<or> refs1 (receipt_name prefix sha) = None \<and> refs' = refs1(receipt_name prefix sha \<mapsto> sha)"
  shows "published base prefix P anc refs refs'"
proof (cases "refs' = refs1")
  case True
  then show ?thesis using assms(1) by simp
next
  case False
  then have new: "refs1 (receipt_name prefix sha) = None" "refs' = refs1(receipt_name prefix sha \<mapsto> sha)" using assms(4) by blast+
  have "refs (receipt_name prefix sha) = None"
    using assms(1,3) new(1) unfolding published_def by (metis option.distinct(1))
  then show ?thesis using assms(1-3) unfolding published_def new(2) by (auto simp: fun_upd_def)
qed

lemma published_forward:
  "P sha \<Longrightarrow> refs' = refs \<or> refs' = refs(base \<mapsto> sha) \<and> (\<forall>old. refs base = Some old \<longrightarrow> anc old sha) \<Longrightarrow>
     published base prefix P anc refs refs'"
  by (auto simp: published_def)

lemma published_weaken:
  "published base prefix P anc refs refs' \<Longrightarrow> (\<And>sha. P sha \<Longrightarrow> Q sha) \<Longrightarrow> published base prefix Q anc refs refs'"
  unfolding published_def by meson

text \<open>What an outcome reports of the refs it leaves.\<close>

definition outcome_true :: "'w GitView \<Rightarrow> bool \<Rightarrow> string \<Rightarrow> string \<Rightarrow> refs \<Rightarrow> refs \<Rightarrow> PublishOutcome \<Rightarrow> bool" where
  "outcome_true v resolvable base prefix refs refs' out \<longleftrightarrow>
     (case pp_sha (po_plan out) of
        None \<Rightarrow> refs' = refs
      | Some sha \<Rightarrow>
          po_integration_head out = sha \<and> po_proven_head out = Some sha \<and>
          po_receipt_ref out = DString (receipt_name prefix sha) \<and> refs' (receipt_name prefix sha) = Some sha \<and>
          (pp_action (po_plan out) = FastForward \<or> pp_action (po_plan out) = AlreadyPublished) \<and>
          (pp_action (po_plan out) = FastForward \<longrightarrow>
             refs' base = Some sha \<and> (\<forall>old. refs base = Some old \<longrightarrow> old = sha \<or> gv_ancestor v old sha)) \<and>
          (pp_action (po_plan out) = AlreadyPublished \<longrightarrow>
             refs' base = refs base \<and>
             (resolvable \<longrightarrow> (\<forall>now. refs base = Some now \<longrightarrow> now = sha \<or> gv_ancestor v sha now)))) \<and>
     (po_regate_required out \<longleftrightarrow> pp_action (po_plan out) = RebaseAndRegate)"

lemma receipt_not_branch: "receipt_name (local_state_prefix c i) sha \<noteq> base_ref b"
  by (simp add: receipt_name_def local_state_prefix_def base_ref_def)

lemma published_outcome:
  assumes laws: "git_laws env v (cfg_checkout config) (cfg_remote config)"
    and run: "publish_and_record env renv config c i plan facts sha gate w = (x, w')"
    and plan: "pp_sha plan = Some sha" "pf_integration_head facts = sha" "pf_proven_head facts = Some sha"
    and before: "published (base_ref b) (local_state_prefix c i) P (gv_ancestor v) refs (gw_remote w)" "P sha"
    and moved: "pp_action plan = FastForward \<and> gw_remote w (base_ref b) = Some sha \<and>
        (\<forall>old. refs (base_ref b) = Some old \<longrightarrow> old = sha \<or> gv_ancestor v old sha) \<or>
      pp_action plan = AlreadyPublished \<and> gw_remote w (base_ref b) = refs (base_ref b) \<and>
        (K \<longrightarrow> (\<forall>now. refs (base_ref b) = Some now \<longrightarrow> now = sha \<or> gv_ancestor v sha now))"
  shows "gw_branches w' = gw_branches w \<and> published (base_ref b) (local_state_prefix c i) P (gv_ancestor v) refs (gw_remote w') \<and>
    (\<forall>out. x = Inr out \<longrightarrow> outcome_true v K (base_ref b) (local_state_prefix c i) refs (gw_remote w') out)"
proof -
  note law = publish_and_record_law [OF laws run]
  have base: "gw_remote w' (base_ref b) = gw_remote w (base_ref b)"
    using law(2) receipt_not_branch by (metis fun_upd_other)
  have "published (base_ref b) (local_state_prefix c i) P (gv_ancestor v) refs (gw_remote w')"
    by (rule published_receipt [OF before receipt_not_branch law(2)])
  moreover have "outcome_true v K (base_ref b) (local_state_prefix c i) refs (gw_remote w') out" if "x = Inr out" for out
    using law(3) [OF that] plan moved base by (auto simp: outcome_true_def)
  ultimately show ?thesis using law(1) by blast
qed

lemma carry_out_law:
  assumes laws: "git_laws env v (cfg_checkout config) (cfg_remote config)"
    and head: "is_full_oid (pf_integration_head facts)" "pf_proven_head facts = map_option gp_revision gate"
    and rest: "is_full_oid (pf_base_head facts)" "\<And>f. fork = Some f \<Longrightarrow> is_full_oid f" "starts_with root ''/''"
    and facts: "pf_integration_is_ancestor facts \<Longrightarrow> gv_ancestor v (pf_integration_head facts) (pf_base_head facts)"
      "\<And>bh. K \<Longrightarrow> gw_remote w (base_ref (cfg_base_branch config)) = Some bh \<Longrightarrow> pf_base_head facts = bh"
    and run: "carry_out env renv config c n i root facts fork gate w = (x, w')"
  defines "P \<equiv> \<lambda>sha. sha = pf_integration_head facts \<and> pf_proven_head facts = Some sha"
    and "base \<equiv> base_ref (cfg_base_branch config)" and "prefix \<equiv> local_state_prefix c i"
  shows "(\<forall>b. b \<noteq> ''refs/heads/'' @ integration_branch c n \<longrightarrow> gw_branches w' b = gw_branches w b) \<and>
    published base prefix P (gv_ancestor v) (gw_remote w) (gw_remote w') \<and>
    (\<forall>out. x = Inr out \<longrightarrow> outcome_true v K base prefix (gw_remote w) (gw_remote w') out)"
proof -
  let ?plan = "decide facts fork"
  note pub = decide_publishes(1) [of facts fork]
  note eq = run [unfolded carry_out_def Let_def]
  note step = published_outcome [OF laws, where b = "cfg_base_branch config" and P = P and refs = "gw_remote w" and c = c and i = i
      and K = K, folded base_def prefix_def]
  show ?thesis
  proof (cases "pp_action ?plan")
    case FastForward
    then obtain sha where sha: "pp_sha ?plan = Some sha" using pub by auto
    have P: "P sha" using decide_publishes(2) [OF sha] by (simp add: P_def)
    then obtain g where g: "gate = Some g" using head(2) by (cases gate) (simp_all add: P_def)
    have full: "is_full_oid sha" using P head(1) by (simp add: P_def)
    from eq FastForward sha g have "and_then (fast_forward env config sha)
        (\<lambda>_. publish_and_record env renv config c i ?plan facts sha g) w = (x, w')" by simp
    then show ?thesis
    proof (cases rule: and_then_cases)
      case (stop e)
      note ff = fast_forward_law [OF laws full stop(1), folded base_def]
      have "published base prefix P (gv_ancestor v) (gw_remote w) (gw_remote w')" using P ff(2) by (rule published_forward)
      then show ?thesis using ff(1) stop(2) by auto
    next
      case (go u w1)
      note ff = fast_forward_law [OF laws full go(1), folded base_def]
      have "published base prefix P (gv_ancestor v) (gw_remote w) (gw_remote w1)" using P ff(2) by (rule published_forward)
      from step [OF go(2) sha _ _ this P] ff P FastForward show ?thesis by (auto simp: P_def)
    qed
  next
    case AlreadyPublished
    then obtain sha where sha: "pp_sha ?plan = Some sha" using pub by auto
    have P: "P sha" using decide_publishes(2) [OF sha] by (simp add: P_def)
    then obtain g where g: "gate = Some g" using head(2) by (cases gate) (simp_all add: P_def)
    have there: "now = sha \<or> gv_ancestor v sha now" if "K" "gw_remote w base = Some now" for now
      using decide_publishes(4) [OF AlreadyPublished] facts that P by (auto simp: P_def base_def)
    from eq AlreadyPublished sha g have "publish_and_record env renv config c i ?plan facts sha g w = (x, w')" by simp
    from step [OF this sha _ _ published_same [OF refl] P] AlreadyPublished P there show ?thesis by (auto simp: P_def)
  next
    case RebaseAndRegate
    then have sha: "pp_sha ?plan = None" using pub by auto
    obtain f where f: "fork = Some f" using decide_publishes(3) [OF RebaseAndRegate] by blast
    note moves = rebase_moves [OF laws rest(3) head(1) rest(1) rest(2) [OF f]]
    from eq RebaseAndRegate f have "and_then (rebase_integration_onto_base env config (integration_branch c n)
        (pf_integration_head facts) (pf_base_head facts) f root) (\<lambda>rebased.
        give ((unpublished ?plan facts)\<lparr>po_integration_head := rebased, po_regate_required := True\<rparr>)) w = (x, w')" by simp
    then show ?thesis
    proof (cases rule: and_then_cases)
      case (stop e)
      then show ?thesis using moves [OF stop(1)] by (auto simp: moves_only_def intro: published_same)
    next
      case (go rebased w1)
      then show ?thesis using moves [OF go(1)] sha RebaseAndRegate
        by (auto intro: published_same simp: moves_only_def give_def outcome_true_def unpublished_def)
    qed
  next
    case Withhold
    then have "pp_sha ?plan = None" using pub by auto
    then show ?thesis using eq Withhold by (auto intro: published_same simp: give_def outcome_true_def unpublished_def)
  qed
qed

section \<open>Property\<close>

definition stage_proved :: "StageRequest \<Rightarrow> 'w GitWorld \<Rightarrow> string \<Rightarrow> bool" where
  "stage_proved req w sha \<longleftrightarrow>
     gate_proved (sr_campaign req) (sr_issue_number req) (sr_source_sha256 req) (gw_remote w) sha \<and>
     gw_branches w (''refs/heads/'' @ integration_branch (sr_campaign req) (sr_identity req)) = Some sha"

text \<open>What the action establishes, from the refs before and after.\<close>

definition stage_published :: "'w GitView \<Rightarrow> StageRequest \<Rightarrow> 'w GitWorld \<Rightarrow> (string + DJson) \<Rightarrow> 'w GitWorld \<Rightarrow> bool" where
  "stage_published v req w res w' \<longleftrightarrow>
     (let config = sr_config req;
          base = base_ref (cfg_base_branch config);
          prefix = local_state_prefix (sr_campaign req) (sr_issue_number req)
      in published base prefix (stage_proved req w) (gv_ancestor v) (gw_remote w) (gw_remote w') \<and>
         (\<forall>b. b \<noteq> ''refs/heads/'' @ integration_branch (sr_campaign req) (sr_identity req) \<longrightarrow> gw_branches w' b = gw_branches w b) \<and>
         (\<forall>j. res = Inr j \<longrightarrow>
            (\<exists>out. j = outcome_json (cfg_base_branch config) out \<and>
               outcome_true v (base_resolvable config w) base prefix (gw_remote w) (gw_remote w') out)))"

lemma stage_published_same:
  "gw_remote w' = gw_remote w \<Longrightarrow> gw_branches w' = gw_branches w \<Longrightarrow> stage_published v req w (Inl e) w'"
  by (simp add: stage_published_def Let_def published_same)

lemma stage_publish_local_law:
  assumes laws: "git_laws env v (cfg_checkout (sr_config req)) (cfg_remote (sr_config req))"
    and root: "starts_with (sr_workspace_root req) ''/''"
    and proofs: "\<And>g. g \<in> set proofs \<Longrightarrow>
      gate_proved (sr_campaign req) (sr_issue_number req) (sr_source_sha256 req) (gw_remote w) (gp_revision g)"
    and fetched: "\<And>b. gv_tracking v w (''refs/heads/'' @ b) = gw_remote w (''refs/heads/'' @ b)"
    and run: "stage_publish_local env renv (sr_config req) (sr_campaign req) (sr_identity req) (sr_issue_number req)
      (sr_workspace_root req) proofs w = (res, w')"
  shows "stage_published v req w res w'"
  using run unfolding stage_publish_local_def
proof (cases rule: and_then_cases)
  case (stop e)
  then show ?thesis using keeps_refs [OF keeps_witness_facts [OF git_lawsD(1) [OF laws]] stop(1)] by (simp add: stage_published_same)
next
  case (go triple w3)
  obtain facts fork gate where t: "triple = (facts, fork, gate)" by (cases triple) auto
  note w3 = keeps_refs [OF keeps_witness_facts [OF git_lawsD(1) [OF laws]] go(1)]
  note facts = witness_facts_law [OF laws go(1) [unfolded t]]
  have P: "stage_proved req w sha" if "sha = pf_integration_head facts \<and> pf_proven_head facts = Some sha" for sha
  proof -
    from that facts(3) obtain g where g: "gate = Some g" by auto
    show ?thesis unfolding stage_proved_def using that facts(1) facts(4) [OF g] proofs [of g] by simp
  qed
  have "and_then (carry_out env renv (sr_config req) (sr_campaign req) (sr_identity req) (sr_issue_number req) (sr_workspace_root req)
      facts fork gate) (\<lambda>out. give (outcome_json (cfg_base_branch (sr_config req)) out)) w3 = (res, w')" using go(2) t by simp
  then obtain x where carry: "carry_out env renv (sr_config req) (sr_campaign req) (sr_identity req) (sr_issue_number req)
      (sr_workspace_root req) facts fork gate w3 = (x, w')"
    and out: "\<And>j. res = Inr j \<Longrightarrow> \<exists>out. x = Inr out \<and> j = outcome_json (cfg_base_branch (sr_config req)) out"
    by (rule and_then_cases) (auto simp: give_def)
  have base: "pf_base_head facts = bh"
    if "base_resolvable (sr_config req) w" "gw_remote w3 (base_ref (cfg_base_branch (sr_config req))) = Some bh" for bh
    using facts(8) that w3 fetched by (simp add: base_ref_def)
  note law = carry_out_law [where K = "base_resolvable (sr_config req) w", OF laws facts(2,3,5,6) root facts(7) base carry]
  have "published (base_ref (cfg_base_branch (sr_config req))) (local_state_prefix (sr_campaign req) (sr_issue_number req))
      (stage_proved req w) (gv_ancestor v) (gw_remote w) (gw_remote w')"
    using published_weaken [OF law [THEN conjunct2, THEN conjunct1] P] w3 by simp
  then show ?thesis
    unfolding stage_published_def Let_def
    using law [unfolded w3 [THEN conjunct1] w3 [THEN conjunct2]] out by blast
qed

lemma stage_publish_law:
  assumes laws: "git_laws env v (cfg_checkout (sr_config req)) (cfg_remote (sr_config req))"
    and root: "starts_with (sr_workspace_root req) ''/''" and run: "stage_publish env renv req w = (res, w')"
  shows "stage_published v req w res w'"
  using run unfolding stage_publish_def
proof (cases rule: and_then_cases)
  case (stop e)
  from git_run [OF stop(1)] show ?thesis
    using git_lawsD(2) [OF laws] stop(2) unfolding fetch_law_def by (auto intro: stage_published_same)
next
  case (go fetched w1)
  have "success fetched" using go(1) by (rule git_ran) simp
  from git_success [OF go(1) this] have w1: "gw_remote w1 = gw_remote w" "gw_branches w1 = gw_branches w"
    "\<And>b. gv_tracking v w1 (''refs/heads/'' @ b) = gw_remote w (''refs/heads/'' @ b)"
    using git_lawsD(2) [OF laws] unfolding fetch_law_def by blast+
  from go(2) show ?thesis
  proof (cases rule: and_then_cases)
    case (stop e)
    then show ?thesis using keeps_refs [OF keeps_witnessed [OF git_lawsD(1) [OF laws]] stop(1)] w1 by (auto intro: stage_published_same)
  next
    case (go proofs w2)
    have w2: "unmoved v w1 w2" using keepsD [OF keeps_witnessed [OF git_lawsD(1) [OF laws]] go(1)] .
    have proved: "gate_proved (sr_campaign req) (sr_issue_number req) (sr_source_sha256 req) (gw_remote w2) (gp_revision g)"
      if "g \<in> set proofs" for g
      using go(1) that w2 claims_loop_proved [OF git_lawsD(1,7) [OF laws], of "sr_campaign req" "sr_issue_number req" "sr_source_sha256 req"]
      by (fastforce simp: unmoved_def witnessed_gate_proofs_def refuse_def split: option.splits)
    have "stage_published v req w2 res w'"
      using stage_publish_local_law [OF laws root proved _ go(2)] w1 w2 by (simp add: unmoved_def)
    moreover have "gw_remote w2 = gw_remote w" "gw_branches w2 = gw_branches w" using w1 w2 by (simp_all add: unmoved_def)
    moreover from this have "stage_proved req w2 = stage_proved req w" by (intro ext) (simp add: stage_proved_def)
    ultimately show ?thesis by (simp add: stage_published_def base_resolvable_def Let_def)
  qed
qed

text \<open>
  C37. The action moves the base branch only forward, only to the head of the integration line, and only
  when the remote already had the checkpoint ref of a gate for that head. The only other ref it writes
  is the receipt ref of such a revision, never over an existing one, and the only local branch it moves
  is the integration line. What it reports is true: a reported publication names the proven integration head and
  has its receipt on the remote; a reported fast-forward has moved the base branch there, from an ancestor; a
  publication reported as already there has left the base branch as it was, and that branch contains the head
  (when its name is plain and not shadowed by a local branch); any other outcome has left the remote alone, and a
  new gate is asked for exactly after a rebase. This holds for every brief that is accepted and for every command
  that fails.
\<close>

theorem publish_only_proven:
  assumes "stage_brief env brief w = (Inr req, w1)"
    and "git_laws env v (cfg_checkout (sr_config req)) (cfg_remote (sr_config req))"
    and "action_stage_publish env renv brief w = (res, w')"
  shows "published (base_ref (cfg_base_branch (sr_config req))) (local_state_prefix (sr_campaign req) (sr_issue_number req))
           (stage_proved req w) (gv_ancestor v) (gw_remote w) (gw_remote w') \<and>
         (\<forall>b. b \<noteq> ''refs/heads/'' @ integration_branch (sr_campaign req) (sr_identity req) \<longrightarrow> gw_branches w' b = gw_branches w b) \<and>
         (\<forall>j. res = Inr j \<longrightarrow>
            (\<exists>out. j = outcome_json (cfg_base_branch (sr_config req)) out \<and>
               outcome_true v (base_resolvable (sr_config req) w) (base_ref (cfg_base_branch (sr_config req)))
                 (local_state_prefix (sr_campaign req) (sr_issue_number req)) (gw_remote w) (gw_remote w') out))"
proof -
  have w1: "gw_remote w1 = gw_remote w" "gw_branches w1 = gw_branches w"
    using keeps_refs [OF keeps_stage_brief [OF git_lawsD(1) [OF assms(2)]] assms(1)] by blast+
  have run: "stage_publish env renv req w1 = (res, w')" using assms(1,3) by (simp add: action_stage_publish_def and_then_def)
  have P: "stage_proved req w1 = stage_proved req w" by (simp add: stage_proved_def w1 fun_eq_iff)
  show ?thesis
    using stage_publish_law [OF assms(2) stage_brief_root [OF assms(1)] run]
    by (simp add: stage_published_def Let_def w1 P base_resolvable_def)
qed

end
