(* ===== verification/Stage_Sample.thy ===== *)
theory Stage_Sample
  imports Stage_Publish
begin

text \<open>
  A repository in which publication goes through: Git commands as functions of the refs, a base branch
  one commit behind an integration head that a gate has proved, and the brief that asks for it.
\<close>

section \<open>Commands\<close>

definition clean :: "string \<Rightarrow> bool" where
  "clean s \<longleftrightarrow> list_all (\<lambda>c. 32 \<le> byte c \<and> byte c < 127) s"

definition sample_base :: string where
  "sample_base = replicate 40 (CHR ''2'')"

definition sample_line :: string where
  "sample_line = ''refs/heads/'' @ integration_branch ''c'' ''1''"

definition ok :: "string \<Rightarrow> 'w \<Rightarrow> (string + int option \<times> string \<times> string) \<times> 'w" where
  "ok out w = (Inr (Some 0, out, []), w)"

definition exit_one :: "'w \<Rightarrow> (string + int option \<times> string \<times> string) \<times> 'w" where
  "exit_one w = (Inr (Some 1, [], []), w)"

fun sample_run :: "string list \<Rightarrow> unit GitWorld \<Rightarrow> (string + int option \<times> string \<times> string) \<times> unit GitWorld" where
  "sample_run [c, a, b] w =
     (if c = ''push''
      then (case split_once (CHR '':'') b of
              None \<Rightarrow> exit_one w
            | Some (sha, r) \<Rightarrow>
                if sha = sample_head \<or> gw_remote w r = None then ok [] (w\<lparr>gw_remote := (gw_remote w)(r \<mapsto> sha)\<rparr>) else exit_one w)
      else if c = ''rev-parse'' \<and> b = sample_line @ ''^{commit}'' \<and> gw_branches w sample_line = Some sample_head
      then ok (sample_head @ [LF]) w
      else if c = ''rev-parse'' \<and> b = ''o/main^{commit}'' \<and> gw_remote w (base_ref ''main'') = Some sample_base
      then ok (sample_base @ [LF]) w
      else exit_one w)"
| "sample_run [c, a, b, d] w =
     (if c = ''ls-remote''
      then (case gw_remote w d of
              None \<Rightarrow> ok [] w
            | Some oid \<Rightarrow> if clean oid \<and> clean d then ok (oid @ TAB # d @ [LF]) w else exit_one w)
      else if c = ''merge-base'' \<and> d = sample_head then ok [] w
      else if c = ''fetch'' then ok [] w
      else exit_one w)"
| "sample_run args w = (if args = [''rev-parse'', ''--git-dir''] then ok [] w else exit_one w)"

definition sample_git :: "unit GitEnv" where
  "sample_git =
     \<lparr>ge_run = (\<lambda>_. sample_run), ge_create_dir_all = (\<lambda>_ u. (Inr (), u)), ge_remove_dir_all = (\<lambda>_ u. u),
      ge_is_dir = (\<lambda>_ _. True), ge_uuid = (\<lambda>_. []), ge_now = (\<lambda>_. ''t''), ge_debug = (\<lambda>s. s)\<rparr>"

section \<open>The commands obey the laws\<close>

text \<open>
  The head descends from everything, the remote-tracking branches are the remote's branches at all times, and every
  worktree is detached.
\<close>

definition sample_view :: "unit GitView" where
  "sample_view = \<lparr>gv_ancestor = (\<lambda>_ b. b = sample_head), gv_detached = (\<lambda>_ _. True), gv_tracking = gw_remote\<rparr>"

lemma sample_looks: "looks_law sample_git sample_view remote"
  by (auto simp: looks_law_def queries_def sample_git_def ok_def exit_one_def split: if_splits option.splits)

lemma sample_fetch: "fetch_law sample_git sample_view d ''o''"
  by (auto simp: fetch_law_def sample_git_def sample_view_def ok_def exit_one_def)

lemma sample_worktrees: "worktree_law sample_git sample_view d" "rebase_law sample_git sample_view"
  by (auto simp: worktree_law_def rebase_law_def sample_git_def sample_view_def exit_one_def)

lemma sample_push: "push_law sample_git sample_view d ''o''"
proof -
  have "split_once (CHR '':'') (sha @ CHR '':'' # r) = Some (sha, r)" if "is_full_oid sha" for sha r
    using that by (intro split_once_append) (auto simp: is_full_oid_def list_all_iff hex_char_def is_ascii_digit_def byte_def)
  then show ?thesis by (auto simp: push_law_def sample_git_def sample_view_def ok_def exit_one_def split: if_splits)
qed

lemma sample_update: "update_ref_law sample_git d"
  by (auto simp: update_ref_law_def sample_git_def exit_one_def)

lemma clean_text: "clean s \<Longrightarrow> list_all (\<lambda>c. byte c < 128) s" "clean s \<Longrightarrow> TAB \<notin> set s" "clean s \<Longrightarrow> LF \<notin> set s" "clean s \<Longrightarrow> CR \<notin> set s"
  by (auto simp: clean_def list_all_iff TAB_def byte_def)

lemma clean_row:
  assumes "clean oid" "clean r"
  shows "str_lines (from_utf8_lossy (oid @ TAB # r @ [LF])) = [oid @ TAB # r]" "split_once TAB (oid @ TAB # r) = Some (oid, r)"
proof -
  let ?l = "oid @ TAB # r"
  have "utf8 (?l @ [LF])"
    using clean_text [OF assms(1)] clean_text [OF assms(2)] by (intro ascii_utf8) (auto simp: list_all_iff TAB_def byte_def)
  then have lossy: "from_utf8_lossy (?l @ [LF]) = ?l @ [LF]" by (rule lossy_valid)
  have "line_text ?l" using clean_text(3) assms by (auto simp: line_text_def TAB_def)
  then have "read_line (?l @ [LF]) = (?l @ [LF], [])" using read_line_line [of ?l "[]"] by simp
  moreover have "strip_eol (?l @ [LF]) = ?l"
    using clean_text(4) assms by (intro strip_eol_line) (auto simp: TAB_def)
  ultimately show "str_lines (from_utf8_lossy (oid @ TAB # r @ [LF])) = [oid @ TAB # r]"
    using lossy by (simp add: str_lines.simps [of "oid @ TAB # r @ [LF]"] str_lines.simps [of "[]"])
  show "split_once TAB ?l = Some (oid, r)" by (rule split_once_append) (rule clean_text(2) [OF assms(1)])
qed

lemma sample_listing: "listing_law sample_git d ''o''"
  using clean_row
  by (auto simp: listing_law_def sample_git_def ok_def exit_one_def str_lines.simps [of "[]"] split: option.splits if_splits)

lemma trim_oid:
  assumes "list_all is_ascii_digit (c # cs)"
  shows "trim (from_utf8_lossy ((c # cs) @ [LF])) = c # cs"
proof -
  have "utf8 ((c # cs) @ [LF])" using assms by (intro ascii_utf8) (auto simp: list_all_iff is_ascii_digit_def byte_def)
  then have "from_utf8_lossy ((c # cs) @ [LF]) = (c # cs) @ [LF]" by (rule lossy_valid)
  moreover have "trim_start ((c # cs) @ [LF]) = (c # cs) @ [LF]" using assms by (simp add: trim_start_digit)
  moreover have "is_blank [LF]" by (simp add: is_blank_def blank_bytes.simps ws_prefix_def byte_def)
  ultimately show ?thesis using trim_end_digits [OF assms] unfolding trim_def by (simp del: append_Cons)
qed

lemma trim_heads:
  "trim (from_utf8_lossy (sample_head @ [LF])) = sample_head" "trim (from_utf8_lossy (sample_base @ [LF])) = sample_base"
proof -
  have "replicate 40 c = c # replicate 39 c" for c :: char by (simp add: eval_nat_numeral)
  moreover have "list_all is_ascii_digit (c # replicate 39 c)" if "is_ascii_digit c" for c
    using that by (simp add: list_all_iff)
  ultimately have "trim (from_utf8_lossy (replicate 40 c @ [LF])) = replicate 40 c" if "is_ascii_digit c" for c
    using trim_oid [of c "replicate 39 c"] that by metis
  then show "trim (from_utf8_lossy (sample_head @ [LF])) = sample_head" "trim (from_utf8_lossy (sample_base @ [LF])) = sample_base"
    by (simp_all add: sample_head_def sample_base_def is_ascii_digit_def byte_def)
qed

lemma sample_resolve: "resolve_law sample_git d"
  unfolding resolve_law_def
proof (intro allI impI, elim conjE)
  fix b w out err w'
  assume run: "ge_run sample_git d [''rev-parse'', ''--verify'', ''refs/heads/'' @ b @ ''^{commit}''] w = (Inr (Some 0, out, err), w')"
  then have "''refs/heads/'' @ b @ ''^{commit}'' = sample_line @ ''^{commit}''" "gw_branches w sample_line = Some sample_head"
    "out = sample_head @ [LF]"
    by (auto simp: sample_git_def ok_def exit_one_def split: if_splits)
  then have "''refs/heads/'' @ b = sample_line" by (simp add: sample_line_def)
  with \<open>gw_branches w sample_line = Some sample_head\<close> \<open>out = sample_head @ [LF]\<close>
  show "gw_branches w (''refs/heads/'' @ b) = Some (trim (from_utf8_lossy out))" by (simp only: trim_heads)
qed

lemma sample_tracking: "tracking_law sample_git sample_view d ''o''"
  unfolding tracking_law_def
proof (intro allI impI, elim conjE)
  fix b w out err w' h
  assume run: "ge_run sample_git d [''rev-parse'', ''--verify'', ''o'' @ ''/'' @ b @ ''^{commit}''] w = (Inr (Some 0, out, err), w')"
    and h: "gv_tracking sample_view w (''refs/heads/'' @ b) = Some h"
  have "''o'' @ ''/'' @ b @ ''^{commit}'' \<noteq> sample_line @ ''^{commit}''" by (simp add: sample_line_def)
  with run have "b @ ''^{commit}'' = ''main'' @ ''^{commit}''" "gw_remote w (base_ref ''main'') = Some sample_base" "out = sample_base @ [LF]"
    by (auto simp: sample_git_def ok_def exit_one_def split: if_splits)
  then show "trim (from_utf8_lossy out) = h" using h
    by (simp only: append_same_eq trim_heads) (simp add: sample_view_def base_ref_def)
qed

lemma sample_ancestors: "ancestor_law sample_git sample_view d"
  by (auto simp: ancestor_law_def sample_git_def sample_view_def ok_def exit_one_def split: if_splits)

lemma sample_laws: "git_laws sample_git sample_view d ''o''"
  using sample_looks sample_fetch sample_worktrees sample_push sample_update sample_listing sample_resolve sample_tracking sample_ancestors
  by (simp add: git_laws_def)

section \<open>The brief\<close>

definition sample_digest :: string where
  "sample_digest = ''sha256:'' @ replicate 64 (CHR ''a'')"

definition sample_ref :: string where
  "sample_ref = local_state_prefix ''c'' ''1'' @ ''/checkpoint/g-'' @ replicate 64 (CHR ''a'') @ ''/'' @ sample_head"

definition sample_config :: RepoConfig where
  "sample_config = \<lparr>cfg_checkout = ''/r'', cfg_base_branch = ''main'', cfg_remote = ''o''\<rparr>"

definition sample_brief :: DJson where
  "sample_brief = DObject
     [(''campaign'', DString ''c''), (''campaignIdentity'', DString ''1''),
      (''issue'', DObject [(''number'', DString ''1''), (''url'', DString ''u'')]),
      (''proofs'', DArray [DObject [(''ref'', DString sample_ref), (''revision'', DString sample_head), (''taskId'', DString ''g'')]]),
      (''repository'', DString ''a/b''),
      (''repositoryConfig'', DObject [(''baseBranch'', DString ''main''), (''checkout'', DString ''/r''),
         (''forge'', DString ''local''), (''remote'', DString ''o'')]),
      (''source'', DObject [(''sha256'', DString sample_digest)]), (''workspaceRoot'', DString ''/w'')]"

definition sample_req :: StageRequest where
  "sample_req = \<lparr>sr_campaign = ''c'', sr_identity = ''1'', sr_issue_number = ''1'', sr_config = sample_config,
     sr_source_sha256 = sample_digest, sr_workspace_root = ''/w'',
     sr_proofs = Some (DArray [DObject [(''ref'', DString sample_ref), (''revision'', DString sample_head), (''taskId'', DString ''g'')]])\<rparr>"

definition sample_renv :: ReceiptEnv where
  "sample_renv = \<lparr>re_valid_time = (\<lambda>_. True), re_render = (\<lambda>_. Some ''null'')\<rparr>"

definition sample_world :: "unit GitWorld" where
  "sample_world = \<lparr>gw_remote = [sample_ref \<mapsto> sample_head, base_ref ''main'' \<mapsto> sample_base], gw_branches = [sample_line \<mapsto> sample_head], gw_other = ()\<rparr>"

lemma sample_world_refs:
  "gw_remote sample_world sample_ref = Some sample_head" "gw_remote sample_world (base_ref ''main'') = Some sample_base"
  by (simp_all add: sample_world_def sample_ref_def base_ref_def local_state_prefix_def)

lemma clean_append [simp]: "clean (a @ b) \<longleftrightarrow> clean a \<and> clean b"
  by (simp add: clean_def)

lemma clean_hex: "list_all hex_char s \<Longrightarrow> clean s"
  by (auto simp: clean_def list_all_iff hex_char_def is_ascii_digit_def)

lemma clean_prefix [simp]: "clean (local_state_prefix c i)"
proof -
  have "set DIGITS \<subseteq> {c. 32 \<le> byte c \<and> byte c < 127}" by (simp add: DIGITS_def byte_def)
  then have "clean (hex bs)" for bs using hex_digits [of bs] unfolding clean_def list_all_iff by blast
  then have "clean (digest x)" for x by (simp add: digest_def)
  then have "clean (state_scope c i)" unfolding state_scope_def clean_def list_all_iff using in_set_takeD by metis
  then show ?thesis by (simp add: local_state_prefix_def) (simp add: clean_def byte_def)
qed

lemma required_clean: "clean s \<Longrightarrow> s \<noteq> [] \<Longrightarrow> required_string (Some (DString s)) context None = Inr s"
  by (auto simp: required_string_def Let_def clean_def list_all_iff list_ex_iff)

lemma clean_plain: "clean s \<Longrightarrow> \<not> list_ex (\<lambda>c. byte c < 32) s"
  by (auto simp: clean_def list_all_iff list_ex_iff)

lemma sample_head_texts: "clean sample_head" "sample_head \<noteq> []" "is_full_oid sample_head" "is_full_oid sample_base"
proof -
  have "list_all hex_char sample_head" using sample_head_id(1) by (simp add: is_object_id_def)
  then show "clean sample_head" by (rule clean_hex)
  show "sample_head \<noteq> []" by (simp add: sample_head_def)
  show "is_full_oid sample_head" by (rule is_object_id_full) (rule sample_head_id(1))
  show "is_full_oid sample_base" using sample_head_id(2) by (simp add: sample_base_def)
qed

lemma sample_texts: "clean sample_ref" "clean sample_digest" "sample_ref \<noteq> []" "sample_digest \<noteq> []"
proof -
  have "clean (replicate 64 (CHR ''a''))" "clean ''/checkpoint/g-''" "clean ''/''" "clean ''sha256:''"
    by (simp_all add: clean_def byte_def list_all_iff)
  then show "clean sample_ref" "clean sample_digest" using sample_head_texts(1) unfolding sample_ref_def sample_digest_def
    by (simp_all only: clean_append clean_prefix)
  show "sample_ref \<noteq> []" "sample_digest \<noteq> []" by (simp_all add: sample_ref_def sample_digest_def)
qed

lemma sample_brief_read: "stage_brief sample_git sample_brief w = (Inr sample_req, w)"
  using clean_plain [OF sample_texts(2), unfolded byte_def] sample_texts(4)
  by (simp add: stage_brief_def and_then_def lift_def give_def refuse_def sample_brief_def sample_req_def sample_config_def
      object_exact_def Let_def required_string_def is_component_def ascii_defs
      slug_char_def repository_name_def is_repository_def repo_config_def git_def sample_git_def ok_def success_def
      campaign_coordinates_def coordinate_or_def campaign_identity_def campaign_issue_def char_count_def utf8_tail_def)

section \<open>The run\<close>

lemma sample_lookup:
  "clean r \<Longrightarrow> gw_remote w r = None \<Longrightarrow> remote_ref_oid sample_git d ''o'' r w = (Inr None, w)"
  "clean r \<Longrightarrow> gw_remote w r = Some oid \<Longrightarrow> clean oid \<Longrightarrow> is_full_oid oid \<Longrightarrow>
     remote_ref_oid sample_git d ''o'' r w = (Inr (Some oid), w)"
  using clean_row [of oid r]
  by (simp_all add: remote_ref_oid_def and_then_def git_def sample_git_def ok_def success_def Let_def lift_def stdout_text_def
      listed_oid_def str_lines.simps [of "[]"])

lemma sample_claim:
  "witnessed_gate_proofs sample_git sample_config ''c'' ''1'' sample_digest (sr_proofs sample_req) sample_world =
     (Inr [\<lparr>gp_task_id = ''g'', gp_reference = sample_ref, gp_revision = sample_head\<rparr>], sample_world)"
proof -
  have "is_sha256_identity sample_digest"
    by (simp add: is_sha256_identity_def sample_digest_def list_all_iff hex_char_def byte_def)
  then have ref: "checkpoint_ref ''c'' ''1'' ''g'' sample_digest sample_head = Inr sample_ref"
    using sample_head_texts(3) by (simp add: checkpoint_ref_def sample_ref_def sample_digest_def)
  have task: "required_string (Some (DString ''g'')) ''proof.taskId'' (Some 80) = Inr ''g''" "is_task_id ''g''"
    by (simp_all add: required_string_def is_task_id_def task_char_def is_ascii_lowercase_def byte_def char_count_def utf8_tail_def)
  have "remote_ref_oid sample_git ''/r'' ''o'' sample_ref sample_world = (Inr (Some sample_head), sample_world)"
    by (rule sample_lookup(2)) (simp_all add: sample_texts sample_head_texts sample_world_refs)
  then show ?thesis
    using ref task required_clean [OF sample_texts(1,3)] required_clean [OF sample_head_texts(1,2)] sample_head_texts(3)
    by (simp add: witnessed_gate_proofs_def sample_req_def gate_claim_def and_then_def lift_def give_def refuse_def object_exact_def Let_def
        full_oid_def sample_config_def)
qed

definition stage_facts :: PublishFacts where
  "stage_facts = \<lparr>pf_base_branch = ''main'', pf_base_head = sample_base, pf_integration_head = sample_head,
     pf_proven_head = Some sample_head, pf_base_is_ancestor = True, pf_integration_is_ancestor = False,
     pf_base_paths = [], pf_integration_paths = []\<rparr>"

lemma sample_witnessed:
  "witness_facts sample_git sample_config ''c'' ''1'' [\<lparr>gp_task_id = ''g'', gp_reference = sample_ref, gp_revision = sample_head\<rparr>] sample_world
     = (Inr (stage_facts, None, Some \<lparr>gp_task_id = ''g'', gp_reference = sample_ref, gp_revision = sample_head\<rparr>), sample_world)"
proof -
  have branch: "local_branch_oid sample_git ''/r'' (integration_branch ''c'' ''1'') sample_world = (Inr (Some sample_head), sample_world)"
    using sample_head_texts(3)
    by (simp add: local_branch_oid_def and_then_def git_def sample_git_def sample_line_def sample_world_def ok_def Let_def success_def
        stdout_trimmed_def stdout_text_def trim_heads give_def)
  have base: "base_head_of sample_git sample_config sample_world = (Inr sample_base, sample_world)"
    using sample_head_texts(4) sample_world_refs(2)
    by (simp add: base_head_of_def and_then_def git_def sample_git_def sample_config_def ok_def success_def Let_def
        stdout_trimmed_def stdout_text_def trim_heads give_def sample_line_def)
  have anc: "is_ancestor sample_git ''/r'' sample_base sample_head sample_world = (Inr True, sample_world)"
    "is_ancestor sample_git ''/r'' sample_head sample_base sample_world = (Inr False, sample_world)"
    using sample_head_id(5)
    by (simp_all add: is_ancestor_def and_then_def git_def sample_git_def ok_def exit_one_def success_def Let_def give_def sample_base_def)
  show ?thesis
    using branch base anc
    by (simp add: witness_facts_def required_integration_revision_def and_then_def give_def fork_point_def fork_paths_def
        stage_facts_def Let_def sample_config_def)
qed

lemma sample_pushes:
  "git sample_git d [''push'', ''o'', sample_head @ '':'' @ r] False w =
     (Inr \<lparr>gout_status = 0, gout_stdout = [], gout_stderr = []\<rparr>, w\<lparr>gw_remote := (gw_remote w)(r \<mapsto> sample_head)\<rparr>)"
proof -
  have "CHR '':'' \<notin> set sample_head" by (simp add: sample_head_def)
  then show ?thesis by (simp add: git_def sample_git_def ok_def success_def Let_def)
qed

lemma sample_recorded:
  assumes "gw_remote w (receipt_name (local_state_prefix ''c'' ''1'') sample_head) = None"
  shows "\<exists>r j. record_publish_receipt sample_git sample_renv sample_config ''c'' ''1'' ''main'' sample_head
      \<lparr>gp_task_id = ''g'', gp_reference = sample_ref, gp_revision = sample_head\<rparr> w =
      (Inr (r, j), w\<lparr>gw_remote := (gw_remote w)(receipt_name (local_state_prefix ''c'' ''1'') sample_head \<mapsto> sample_head)\<rparr>)"
proof -
  let ?name = "receipt_name (local_state_prefix ''c'' ''1'') sample_head"
  have "clean ?name" using sample_head_texts(1) by (simp add: receipt_name_def) (simp add: clean_def byte_def)
  from sample_lookup(1) [OF this assms]
  have push: "push_receipt sample_git sample_config sample_head ?name w =
      (Inr (), w\<lparr>gw_remote := (gw_remote w)(?name \<mapsto> sample_head)\<rparr>)"
    using sample_pushes [of "''/r''" ?name w]
    by (simp add: push_receipt_def and_then_def sample_config_def success_def give_def)
  have "proof_names_revision sample_ref sample_head"
    using sample_head_id(1) by (simp add: proof_names_revision_iff sample_ref_def)
  then obtain receipt where "receipt_new (re_valid_time sample_renv) ''c'' ''main'' sample_head
      \<lparr>pr_task_id = ''g'', pr_reference = sample_ref\<rparr> MACHINE_ACTOR (ge_now sample_git (gw_other w)) = Inr receipt"
    using sample_head_id(1)
    by (simp add: receipt_new_def receipt_validate_def Let_def sample_renv_def MACHINE_ACTOR_def char_count_def ws_prefix_def byte_def utf8_tail_def)
  moreover have "receipt_json sample_renv receipt = Inr DNull"
    by (simp add: receipt_json_def sample_renv_def) code_simp
  ultimately show ?thesis
    using push sample_head_id(1)
    by (simp add: record_publish_receipt_def publish_receipt_ref_def and_then_def lift_def give_def)
qed

lemma sample_carried:
  "\<exists>out w'. carry_out sample_git sample_renv sample_config ''c'' ''1'' ''1'' ''/w'' stage_facts None
      (Some \<lparr>gp_task_id = ''g'', gp_reference = sample_ref, gp_revision = sample_head\<rparr>) sample_world = (Inr out, w') \<and>
    gw_remote w' (base_ref ''main'') = Some sample_head"
proof -
  let ?name = "receipt_name (local_state_prefix ''c'' ''1'') sample_head"
  let ?w = "sample_world\<lparr>gw_remote := (gw_remote sample_world)(base_ref ''main'' \<mapsto> sample_head)\<rparr>"
  have "clean (base_ref ''main'')" by (simp add: base_ref_def clean_def byte_def)
  from sample_lookup(2) [OF this, of ?w sample_head] sample_pushes [of "''/r''" "base_ref ''main''" sample_world]
  have ff: "fast_forward sample_git sample_config sample_head sample_world = (Inr (), ?w)"
    by (simp add: fast_forward_def and_then_def sample_config_def success_def give_def sample_head_texts)
  have "?name \<noteq> sample_ref" "?name \<noteq> base_ref ''main''"
    by (simp add: receipt_name_def sample_ref_def, rule receipt_not_branch)
  then have "gw_remote ?w ?name = None" by (simp add: sample_world_def)
  from sample_recorded [OF this] obtain r j where "record_publish_receipt sample_git sample_renv sample_config ''c'' ''1'' ''main'' sample_head
      \<lparr>gp_task_id = ''g'', gp_reference = sample_ref, gp_revision = sample_head\<rparr> ?w =
      (Inr (r, j), ?w\<lparr>gw_remote := (gw_remote ?w)(?name \<mapsto> sample_head)\<rparr>)" by blast
  with ff sample_head_id(5) receipt_not_branch [of "''c''" "''1''" sample_head "''main''"] show ?thesis
    by (simp add: carry_out_def decide_def publish_plan_def stage_facts_def Let_def sample_base_def and_then_def
        publish_and_record_def give_def sample_config_def)
qed

lemma sample_action:
  "\<exists>j w'. action_stage_publish sample_git sample_renv sample_brief sample_world = (Inr j, w') \<and>
     gw_remote w' (base_ref ''main'') = Some sample_head"
proof -
  have fetch: "git sample_git ''/r'' [''fetch'', ''--prune'', ''--no-tags'', ''o''] True w = (Inr \<lparr>gout_status = 0, gout_stdout = [], gout_stderr = []\<rparr>, w)" for w
    by (simp add: git_def sample_git_def ok_def success_def Let_def)
  obtain out w' where "carry_out sample_git sample_renv sample_config ''c'' ''1'' ''1'' ''/w'' stage_facts None
      (Some \<lparr>gp_task_id = ''g'', gp_reference = sample_ref, gp_revision = sample_head\<rparr>) sample_world = (Inr out, w')"
    "gw_remote w' (base_ref ''main'') = Some sample_head" using sample_carried by blast
  then show ?thesis
    using fetch sample_claim sample_witnessed
    by (simp add: action_stage_publish_def and_then_def sample_brief_read stage_publish_def)
      (simp add: sample_req_def stage_publish_local_def and_then_def give_def sample_config_def)
qed

theorem publish_only_proven_witness:
  "\<exists>j w'. action_stage_publish sample_git sample_renv sample_brief sample_world = (Inr j, w') \<and>
     gw_remote w' (base_ref ''main'') = Some sample_head \<and>
     published (base_ref ''main'') (local_state_prefix ''c'' ''1'') (stage_proved sample_req sample_world)
       (gv_ancestor sample_view) (gw_remote sample_world) (gw_remote w')"
proof -
  obtain j w' where run: "action_stage_publish sample_git sample_renv sample_brief sample_world = (Inr j, w')"
    "gw_remote w' (base_ref ''main'') = Some sample_head" using sample_action by blast
  have "git_laws sample_git sample_view (cfg_checkout (sr_config sample_req)) (cfg_remote (sr_config sample_req))"
    using sample_laws by (simp add: sample_req_def sample_config_def)
  from publish_only_proven [OF sample_brief_read this run(1)] run show ?thesis
    by (auto simp: sample_req_def sample_config_def)
qed

end
