(* ===== verification/Worklist_Tasks.thy ===== *)
theory Worklist_Tasks
  imports Driver_Brief
begin

text \<open>
  The tasks of a worklist and the campaign block beside them (\<open>spec-build-driver/src/actions.rs\<close>):
  every field is checked and the task is written out again with exactly the fields the driver knows. The \<open>Debug\<close>
  form of a string is the parameter \<open>debug\<close>.
\<close>

section \<open>Results\<close>

definition ok_then :: "string + 'a \<Rightarrow> ('a \<Rightarrow> string + 'b) \<Rightarrow> string + 'b" where
  "ok_then r f = (case r of Inl e \<Rightarrow> Inl e | Inr x \<Rightarrow> f x)"

lemma ok_then_Inr: "ok_then r f = Inr y \<longleftrightarrow> (\<exists>x. r = Inr x \<and> f x = Inr y)"
  by (cases r) (auto simp: ok_then_def)

lemma ok_then_simps [simp]: "ok_then (Inr x) f = f x" "ok_then (Inl e) f = Inl e"
  by (simp_all add: ok_then_def)

definition strings :: "string list \<Rightarrow> DJson" where
  "strings xs = DArray (map DString xs)"

definition MAX_CAMPAIGN_TASKS :: nat where
  "MAX_CAMPAIGN_TASKS = 128"

definition BRIEF_SENTINEL :: string where
  "BRIEF_SENTINEL = ''Read the file whose path is in the TALLY_BRIEF environment variable and execute the mission it contains. That brief is your complete instruction set.''"

definition DEFAULT_STEWARD_DIAGNOSIS_RUNTIME_MAX_SEC :: nat where
  "DEFAULT_STEWARD_DIAGNOSIS_RUNTIME_MAX_SEC = 1800"

section \<open>Tasks\<close>

definition argv_list :: "DJson option \<Rightarrow> string \<Rightarrow> string + string list" where
  "argv_list v context =
     ok_then (string_list v context True) (\<lambda>arguments.
       if arguments = [] \<or> hd arguments = [] then Inl (context @ '' requires a non-empty executable'') else Inr arguments)"

definition normalize_dependencies :: "DJson option \<Rightarrow> string \<Rightarrow> string list \<Rightarrow> string + string list" where
  "normalize_dependencies v context prior_ids =
     ok_then (string_list v (context @ ''.dependencies'') False) (\<lambda>dependencies.
       if \<not> distinct dependencies then Inl (context @ ''.dependencies contains duplicates'')
       else
         let missing = filter (\<lambda>d. d \<notin> set prior_ids) dependencies
         in if missing \<noteq> []
            then Inl (context @ ''.dependencies must reference earlier tasks; unavailable: '' @ join_text '', '' missing)
            else Inr dependencies)"

fun acceptance_items :: "(string \<Rightarrow> string) \<Rightarrow> string \<Rightarrow> nat \<Rightarrow> string list \<Rightarrow> DJson list \<Rightarrow> string + DJson list" where
  "acceptance_items debug context i seen [] = Inr []"
| "acceptance_items debug context i seen (v # vs) =
     ok_then (object_exact v [''id'', ''description'', ''argv''] (indexed context i)) (\<lambda>item.
     ok_then (required_string (map_of item ''id'') (indexed context i @ ''.id'') (Some 80)) (\<lambda>identifier.
       if \<not> is_component identifier then Inl (indexed context i @ ''.id is not a safe component'')
       else if identifier \<in> set seen then Inl (context @ '' repeats id '' @ debug identifier)
       else
         ok_then (required_string (map_of item ''description'') (indexed context i @ ''.description'') (Some 4000)) (\<lambda>description.
         ok_then (argv_list (map_of item ''argv'') (indexed context i @ ''.argv'')) (\<lambda>argv.
         ok_then (acceptance_items debug context (Suc i) (identifier # seen) vs) (\<lambda>normalized.
           Inr (json_object [(''id'', DString identifier), (''description'', DString description), (''argv'', strings argv)]
                # normalized))))))"

definition normalize_acceptance :: "(string \<Rightarrow> string) \<Rightarrow> DJson option \<Rightarrow> string \<Rightarrow> string + DJson" where
  "normalize_acceptance debug v context =
     (case Option.bind v Driver_Json.as_array of
        None \<Rightarrow> Inl (context @ '' must be a non-empty array'')
      | Some vs \<Rightarrow>
          if vs = [] then Inl (context @ '' must be a non-empty array'')
          else ok_then (acceptance_items debug context 0 [] vs) (\<lambda>items. Inr (DArray items)))"

definition task_identifier :: "(string \<times> DJson) list \<Rightarrow> string \<Rightarrow> string + string" where
  "task_identifier task context =
     ok_then (required_string (map_of task ''id'') (context @ ''.id'') (Some 80)) (\<lambda>identifier.
       if \<not> is_task_id identifier then Inl (context @ ''.id must match ^[a-z0-9](?:[a-z0-9-]*[a-z0-9])?$'')
       else Inr identifier)"

definition normalize_checkpoint :: "DJson \<Rightarrow> string \<Rightarrow> string list \<Rightarrow> string + DJson" where
  "normalize_checkpoint v context prior_ids =
     ok_then (object_exact v [''id'', ''kind'', ''title'', ''argv'', ''runtimeMaxSec'', ''dependencies''] context) (\<lambda>task.
     ok_then (task_identifier task context) (\<lambda>identifier.
     ok_then (required_string (map_of task ''title'') (context @ ''.title'') (Some 300)) (\<lambda>title.
     ok_then (argv_list (map_of task ''argv'') (context @ ''.argv'')) (\<lambda>argv.
     ok_then (positive_u64 (map_of task ''runtimeMaxSec'') (context @ ''.runtimeMaxSec'')) (\<lambda>runtime.
     ok_then (normalize_dependencies (map_of task ''dependencies'') context prior_ids) (\<lambda>dependencies.
       Inr (json_object
              [(''id'', DString identifier), (''kind'', DString ''checkpoint''), (''title'', DString title), (''argv'', strings argv),
               (''runtimeMaxSec'', json_usize (unat runtime)), (''dependencies'', strings dependencies)])))))))"

definition normalize_implementation :: "(string \<Rightarrow> string) \<Rightarrow> DJson \<Rightarrow> string \<Rightarrow> string list \<Rightarrow> bool \<Rightarrow> string + DJson" where
  "normalize_implementation debug v context prior_ids require_conflict_domains =
     ok_then (object_exact v [''id'', ''kind'', ''title'', ''goal'', ''deliveredBehaviors'', ''readFirst'', ''acceptanceCriteria'',
                              ''dependencies'', ''conflictDomains''] context) (\<lambda>task.
     ok_then (task_identifier task context) (\<lambda>identifier.
     ok_then (case map_of task ''readFirst'' of None \<Rightarrow> Inl (context @ ''.readFirst must be an object'') | Some j \<Rightarrow> Inr j) (\<lambda>read_first_value.
     ok_then (object_exact read_first_value [''specSections'', ''styleReferences''] (context @ ''.readFirst'')) (\<lambda>read_first.
     ok_then (required_string (map_of task ''title'') (context @ ''.title'') (Some 300)) (\<lambda>title.
     ok_then (required_string (map_of task ''goal'') (context @ ''.goal'') (Some 12000)) (\<lambda>goal.
     ok_then (string_list (map_of task ''deliveredBehaviors'') (context @ ''.deliveredBehaviors'') True) (\<lambda>behaviors.
     ok_then (string_list (map_of read_first ''specSections'') (context @ ''.readFirst.specSections'') True) (\<lambda>sections.
     ok_then (string_list (map_of read_first ''styleReferences'') (context @ ''.readFirst.styleReferences'') False) (\<lambda>references.
     ok_then (normalize_acceptance debug (map_of task ''acceptanceCriteria'') (context @ ''.acceptanceCriteria'')) (\<lambda>acceptance.
     ok_then (normalize_dependencies (map_of task ''dependencies'') context prior_ids) (\<lambda>dependencies.
     ok_then (normalize_paths (map_of task ''conflictDomains'') (context @ ''.conflictDomains'') require_conflict_domains) (\<lambda>domains.
       Inr (json_object
              ([(''id'', DString identifier), (''kind'', DString ''implementation''), (''title'', DString title), (''goal'', DString goal),
                (''deliveredBehaviors'', strings behaviors),
                (''readFirst'', json_object [(''specSections'', strings sections), (''styleReferences'', strings references)]),
                (''acceptanceCriteria'', acceptance), (''dependencies'', strings dependencies)]
               @ (case domains of None \<Rightarrow> [] | Some ds \<Rightarrow> [(''conflictDomains'', strings ds)])))))))))))))))"

definition normalize_task :: "(string \<Rightarrow> string) \<Rightarrow> DJson \<Rightarrow> nat \<Rightarrow> string list \<Rightarrow> bool \<Rightarrow> string + DJson" where
  "normalize_task debug v i prior_ids require_conflict_domains =
     (let context = indexed ''tasks'' i
      in case Driver_Json.as_object v of
           None \<Rightarrow> Inl (context @ '' must be an object'')
         | Some obj \<Rightarrow>
             (let kind = Option.bind (map_of obj ''kind'') as_string
              in if kind = Some ''checkpoint'' then normalize_checkpoint v context prior_ids
                 else if kind \<noteq> Some ''implementation'' then Inl (context @ ''.kind must equal implementation or checkpoint'')
                 else normalize_implementation debug v context prior_ids require_conflict_domains))"

section \<open>Reading a normalized task\<close>

definition task_id :: "DJson \<Rightarrow> string + string" where
  "task_id task =
     (case Option.bind (Option.bind (Driver_Json.as_object task) (\<lambda>m. map_of m ''id'')) as_string of
        None \<Rightarrow> Inl ''normalized task omitted id'' | Some s \<Rightarrow> Inr s)"

definition task_kind :: "DJson \<Rightarrow> string + string" where
  "task_kind task =
     (case Option.bind (Option.bind (Driver_Json.as_object task) (\<lambda>m. map_of m ''kind'')) as_string of
        None \<Rightarrow> Inl ''normalized task omitted kind'' | Some s \<Rightarrow> Inr s)"

definition task_dependencies :: "DJson \<Rightarrow> string + string list" where
  "task_dependencies task =
     string_list (Option.bind (Driver_Json.as_object task) (\<lambda>m. map_of m ''dependencies''))
       (''task '' @ (case task_id task of Inl _ \<Rightarrow> ''<unknown>'' | Inr s \<Rightarrow> s) @ '' dependencies'') False"

definition task_revision :: "(string \<times> DJson) list \<Rightarrow> string + string option" where
  "task_revision task =
     (case map_of task ''revision'' of
        None \<Rightarrow> Inr None
      | Some v \<Rightarrow>
          if v = DNull then Inr None
          else
            ok_then (required_string (Some v)
                       (''task '' @ (case Option.bind (map_of task ''id'') as_string of None \<Rightarrow> ''None'' | Some s \<Rightarrow> s) @ '' revision'') None) (\<lambda>revision.
              if \<not> is_sha256_identity revision then Inl ''task revision must be a lowercase SHA-256 identity''
              else Inr (Some revision)))"

definition task_domains :: "DJson \<Rightarrow> string list" where
  "task_domains task =
     (case Option.bind (Option.bind (Driver_Json.as_object task) (\<lambda>m. map_of m ''conflictDomains'')) Driver_Json.as_array of
        None \<Rightarrow> [] | Some vs \<Rightarrow> List.map_filter as_string vs)"

section \<open>A normalized task\<close>

lemma collect_results_length: "collect_results rs = Inr xs \<Longrightarrow> rs = map Inr xs"
  by (induction rs arbitrary: xs rule: collect_results.induct) (auto split: sum.splits)

lemma collect_results_Inr [simp]: "collect_results (map Inr xs) = Inr xs"
  by (induction xs) auto

lemma required_string_again:
  "required_string v context maximum = Inr s \<Longrightarrow> required_string (Some (DString s)) context' None = Inr s"
  by (auto simp: required_string_def Let_def elim!: as_string.elims split: option.splits if_splits Option.bind_splits)

lemma string_list_again:
  assumes "string_list v context nonempty = Inr xs"
  shows "string_list (Some (strings xs)) context' False = Inr xs"
proof -
  obtain vs where vs: "map (\<lambda>(i, v). required_string (Some v) (indexed context i) None) (enumerate 0 vs) = map Inr xs"
    using assms by (auto simp: string_list_def dest!: collect_results_length split: option.splits if_splits)
  then have "length vs = length xs" by (metis length_enumerate length_map)
  have "required_string (Some (DString x)) context'' None = Inr x" if "x \<in> set xs" for x context''
  proof -
    have "Inr x \<in> set (map (\<lambda>(i, v). required_string (Some v) (indexed context i) None) (enumerate 0 vs))"
      unfolding vs using that by simp
    then obtain i v where "required_string (Some v) (indexed context i) None = Inr x" by auto
    then show ?thesis by (rule required_string_again)
  qed
  then have "map (\<lambda>(i, v). required_string (Some v) (indexed context' i) None) (enumerate n (map DString xs)) = map Inr xs" for n
    by (induction xs arbitrary: n) auto
  then show ?thesis by (simp add: string_list_def strings_def)
qed

text \<open>
  What the scheduler reads back from a task that was written out: its name, its kind and its
  dependencies, all of which are among the names it was checked against.
\<close>

definition reads_back :: "DJson \<Rightarrow> string list \<Rightarrow> bool" where
  "reads_back task prior_ids \<longleftrightarrow>
     (case (task_id task, task_kind task, task_dependencies task) of
        (Inr i, Inr kind, Inr deps) \<Rightarrow>
          is_task_id i \<and> kind \<in> {''checkpoint'', ''implementation''} \<and> distinct deps \<and> set deps \<subseteq> set prior_ids
      | _ \<Rightarrow> False)"

lemma normalize_dependencies_Inr:
  "normalize_dependencies v context prior_ids = Inr deps \<Longrightarrow>
     distinct deps \<and> set deps \<subseteq> set prior_ids \<and> string_list (Some (strings deps)) context' False = Inr deps"
  by (auto simp: normalize_dependencies_def ok_then_Inr Let_def filter_empty_conv string_list_again split: if_splits)

lemma map_of_inserts: "map_of (fold (\<lambda>(k, v). btree_insert k v) entries acc) k = (map_of acc ++ map_of (rev entries)) k"
  by (induction entries arbitrary: acc) (auto simp: map_of_btree_insert map_add_def split: option.splits)

lemma reads_back_object:
  assumes "task = json_object entries" "map_of (rev entries) ''id'' = Some (DString i)" "is_task_id i"
    and "map_of (rev entries) ''dependencies'' = Some (strings deps)" "normalize_dependencies v context prior_ids = Inr deps"
    and "map_of (rev entries) ''kind'' = Some (DString kind)" "kind \<in> {''checkpoint'', ''implementation''}"
  shows "reads_back task prior_ids \<and> (\<exists>m. task = DObject m)"
  using assms(1-4,6,7) normalize_dependencies_Inr [OF assms(5)]
  by (auto simp: reads_back_def task_id_def task_kind_def task_dependencies_def json_object_def map_of_inserts)

lemma ok_thenE:
  assumes "ok_then r f = Inr y"
  obtains x where "r = Inr x" "f x = Inr y"
  using assms by (auto simp: ok_then_Inr)

lemma task_identifier_Inr: "task_identifier task context = Inr i \<Longrightarrow> is_task_id i"
  by (auto simp: task_identifier_def ok_then_Inr split: if_splits)

lemma checkpoint_reads_back:
  assumes "normalize_checkpoint v c prior_ids = Inr task"
  shows "reads_back task prior_ids \<and> (\<exists>m. task = DObject m)"
  using assms unfolding normalize_checkpoint_def
  by (elim ok_thenE) (rule reads_back_object, erule Inr_inject [symmetric], simp, erule task_identifier_Inr, simp, assumption, simp, simp)

lemma implementation_reads_back:
  assumes "normalize_implementation debug v c prior_ids needed = Inr task"
  shows "reads_back task prior_ids \<and> (\<exists>m. task = DObject m)"
  using assms unfolding normalize_implementation_def
proof (elim ok_thenE, goal_cases)
  case (1 _ i _ _ _ _ _ _ _ _ deps domains)
  show ?case
    by (rule reads_back_object [OF Inr_inject [OF 1(13), symmetric] _ task_identifier_Inr [OF 1(2)] _ 1(11)])
      (cases domains; simp)+
qed

lemma normalized_reads_back:
  assumes "normalize_task debug v i prior_ids needed = Inr task"
  shows "reads_back task prior_ids" "\<exists>m. task = DObject m"
  using assms checkpoint_reads_back implementation_reads_back unfolding normalize_task_def Let_def
  by (auto split: option.splits if_splits)

end
