(* ===== verification/Path_Glob.thy ===== *)
theory Path_Glob
  imports Text_Lines
begin

text \<open>
  Glob matching in the driver (\<open>spec-build-driver/src/actions.rs\<close>): the memoised matcher of one path
  component, in its case-sensitive and its case-insensitive form, and the memoised matcher of a whole
  path with \<open>**\<close>. The memo table is threaded through the recursion as the code does it. The two
  matchers are shown to decide what a pattern means: a pattern is a sequence of tokens, and matching is
  a relation between tokens and text.
\<close>

section \<open>Characters\<close>

text \<open>\<open>str::chars\<close> on UTF-8 bytes, as code points.\<close>

definition code_point :: "nat list \<Rightarrow> nat" where
  "code_point bs =
     (case bs of
        [a] \<Rightarrow> a
      | [a, b] \<Rightarrow> (a - 192) * 64 + (b - 128)
      | [a, b, c] \<Rightarrow> ((a - 224) * 64 + (b - 128)) * 64 + (c - 128)
      | [a, b, c, d] \<Rightarrow> (((a - 240) * 64 + (b - 128)) * 64 + (c - 128)) * 64 + (d - 128)
      | _ \<Rightarrow> 0)"

function chars :: "string \<Rightarrow> nat list" where
  "chars s =
     (if s = [] then []
      else let n = max 1 (utf8_scalar (map byte s))
           in code_point (map byte (take n s)) # chars (drop n s))"
  by pat_completeness auto
termination
  by (relation "measure length") auto

declare chars.simps [simp del]

section \<open>One component\<close>

type_synonym memo = "nat \<times> nat \<Rightarrow> bool option"

abbreviation "star \<equiv> 42 :: nat"
abbreviation "question \<equiv> 63 :: nat"
abbreviation "bracket \<equiv> 91 :: nat"
abbreviation "closer \<equiv> 93 :: nat"
abbreviation "dash \<equiv> 45 :: nat"

definition negator :: "nat \<Rightarrow> bool" where
  "negator c \<longleftrightarrow> c = 33 \<or> c = 94"

text \<open>The index of the bracket that closes the class opened at \<open>j\<close>, or the length of the pattern.\<close>

definition closing :: "nat list \<Rightarrow> nat \<Rightarrow> nat" where
  "closing p j =
     (let c0 = j + 1;
          c1 = (if c0 < length p \<and> negator (p ! c0) then c0 + 1 else c0);
          c2 = (if c1 < length p \<and> p ! c1 = closer then c1 + 1 else c1)
      in c2 + length (takeWhile (\<lambda>c. c \<noteq> closer) (drop c2 p)))"

text \<open>The loop over the class: ranges and single characters up to its end.\<close>

function class_loop :: "nat list \<Rightarrow> nat \<Rightarrow> nat \<Rightarrow> nat \<Rightarrow> bool \<Rightarrow> bool" where
  "class_loop p close x cursor included =
     (if cursor < close
      then if cursor + 2 < close \<and> p ! (cursor + 1) = dash
           then class_loop p close x (cursor + 3) (included \<or> p ! cursor \<le> x \<and> x \<le> p ! (cursor + 2))
           else class_loop p close x (cursor + 1) (included \<or> p ! cursor = x)
      else included)"
  by pat_completeness auto
termination
  by (relation "measure (\<lambda>(p, close, x, cursor, included). close - cursor)") auto

declare class_loop.simps [simp del]

definition class_matches :: "nat list \<Rightarrow> nat \<Rightarrow> nat \<Rightarrow> nat \<Rightarrow> bool" where
  "class_matches p j close x =
     (let negated = (j + 1 < close \<and> negator (p ! (j + 1)))
      in class_loop p close x (if negated then j + 2 else j + 1) False \<noteq> negated)"

lemma closing_gt: "j < closing p j"
  by (simp add: closing_def Let_def)

lemma closing_less:
  "closing p j < length p \<Longrightarrow> i < length t \<Longrightarrow>
     length p + length t - Suc (Suc (closing p j + i)) < length p + length t - (j + i)"
  using closing_gt [of j p] by linarith

function glob_matches :: "nat list \<Rightarrow> nat list \<Rightarrow> nat \<Rightarrow> nat \<Rightarrow> memo \<Rightarrow> bool \<times> memo" where
  "glob_matches t p i j memo =
     (case memo (i, j) of
        Some v \<Rightarrow> (v, memo)
      | None \<Rightarrow>
          (case (if length p \<le> j then (i = length t, memo)
                 else if p ! j = star
                 then (case glob_matches t p i (j + 1) memo of
                         (True, m) \<Rightarrow> (True, m)
                       | (False, m) \<Rightarrow> if i < length t then glob_matches t p (i + 1) j m else (False, m))
                 else if p ! j = question
                 then (if i < length t then glob_matches t p (i + 1) (j + 1) memo else (False, memo))
                 else if p ! j = bracket \<and> closing p j < length p
                 then (if i < length t \<and> class_matches p j (closing p j) (t ! i)
                       then glob_matches t p (i + 1) (closing p j + 1) memo else (False, memo))
                 else (if i < length t \<and> t ! i = p ! j then glob_matches t p (i + 1) (j + 1) memo else (False, memo))) of
             (r, m) \<Rightarrow> (r, m((i, j) \<mapsto> r))))"
  by pat_completeness auto
termination
  by (relation "measure (\<lambda>(t, p, i, j, m). (length p - j) + (length t - i))")
    (auto simp: closing_less)

declare glob_matches.simps [simp del]

definition case_sensitive_component_glob :: "string \<Rightarrow> string \<Rightarrow> bool" where
  "case_sensitive_component_glob s pattern = fst (glob_matches (chars s) (chars pattern) 0 0 (\<lambda>_. None))"

text \<open>\<open>str::to_lowercase\<close> follows the tables of the Unicode standard and is a parameter.\<close>

definition component_glob_matches :: "(string \<Rightarrow> string) \<Rightarrow> string \<Rightarrow> string \<Rightarrow> bool" where
  "component_glob_matches lower s pattern =
     fst (glob_matches (chars (lower s)) (chars (lower pattern)) 0 0 (\<lambda>_. None))"

section \<open>Whole paths\<close>

function path_matches ::
  "(string \<Rightarrow> string) \<Rightarrow> string list \<Rightarrow> string list \<Rightarrow> nat \<Rightarrow> nat \<Rightarrow> memo \<Rightarrow> bool \<times> memo" where
  "path_matches lower path pattern i j memo =
     (case memo (i, j) of
        Some v \<Rightarrow> (v, memo)
      | None \<Rightarrow>
          (case (if length pattern \<le> j then (i = length path, memo)
                 else if pattern ! j = ''**''
                 then (case path_matches lower path pattern i (j + 1) memo of
                         (True, m) \<Rightarrow> (True, m)
                       | (False, m) \<Rightarrow>
                           if i < length path then path_matches lower path pattern (i + 1) j m else (False, m))
                 else (if i < length path \<and> component_glob_matches lower (path ! i) (pattern ! j)
                       then path_matches lower path pattern (i + 1) (j + 1) memo else (False, memo))) of
             (r, m) \<Rightarrow> (r, m((i, j) \<mapsto> r))))"
  by pat_completeness auto
termination
  by (relation "measure (\<lambda>(l, t, p, i, j, m). (length p - j) + (length t - i))") auto

declare path_matches.simps [simp del]

definition path_glob_matches :: "(string \<Rightarrow> string) \<Rightarrow> string \<Rightarrow> string \<Rightarrow> bool" where
  "path_glob_matches lower path pattern =
     (let ps = split_on (CHR ''/'') path; qs = split_on (CHR ''/'') pattern
      in if length qs = 1 then component_glob_matches lower (last ps) (hd qs)
         else fst (path_matches lower ps qs 0 0 (\<lambda>_. None)))"

section \<open>What a pattern means\<close>

datatype glob_token = AnySeq | AnyOne | Class bool "(nat \<times> nat) list" | Lit nat

text \<open>The members of a class: \<open>a-b\<close> is a range, everything else stands for itself.\<close>

fun ranges :: "nat list \<Rightarrow> (nat \<times> nat) list" where
  "ranges (a # d # b # cs) = (if d = dash then (a, b) # ranges cs else (a, a) # ranges (d # b # cs))"
| "ranges cs = map (\<lambda>c. (c, c)) cs"

text \<open>
  A class after its opening bracket: an optional negation, then members up to the first closing bracket
  that is not the first member; no class when none closes it.
\<close>

definition class_of :: "nat list \<Rightarrow> (bool \<times> nat list \<times> nat list) option" where
  "class_of cs =
     (let neg = (cs \<noteq> [] \<and> negator (hd cs));
          body = (if neg then tl cs else cs);
          first = take 1 (takeWhile (\<lambda>c. c = closer) body);
          more = takeWhile (\<lambda>c. c \<noteq> closer) (drop (length first) body);
          after = drop (length first + length more) body
      in if after = [] then None else Some (neg, first @ more, tl after))"

lemma class_of_shorter: "class_of cs = Some (neg, body, after) \<Longrightarrow> length after < length cs"
  by (auto simp: class_of_def Let_def split: if_splits)

function tokens :: "nat list \<Rightarrow> glob_token list" where
  "tokens [] = []"
| "tokens (c # cs) =
     (if c = star then AnySeq # tokens cs
      else if c = question then AnyOne # tokens cs
      else if c = bracket
      then (case class_of cs of
              None \<Rightarrow> Lit c # tokens cs
            | Some (neg, body, after) \<Rightarrow> Class neg (ranges body) # tokens after)
      else Lit c # tokens cs)"
  by pat_completeness auto
termination
  by (relation "measure length") (auto dest: class_of_shorter)

inductive glob :: "glob_token list \<Rightarrow> nat list \<Rightarrow> bool" where
  empty: "glob [] []"
| seq: "glob ts w \<Longrightarrow> glob (AnySeq # ts) (u @ w)"
| one: "glob ts w \<Longrightarrow> glob (AnyOne # ts) (c # w)"
| cls: "glob ts w \<Longrightarrow> (\<exists>(a, b) \<in> set rs. a \<le> c \<and> c \<le> b) \<noteq> neg \<Longrightarrow> glob (Class neg rs # ts) (c # w)"
| lit: "glob ts w \<Longrightarrow> glob (Lit c # ts) (c # w)"

inductive_simps glob_simps [simp]:
  "glob [] w" "glob (AnyOne # ts) w" "glob (Class neg rs # ts) w" "glob (Lit c # ts) w"

lemma glob_seq: "glob (AnySeq # ts) w \<longleftrightarrow> glob ts w \<or> (\<exists>c w'. w = c # w' \<and> glob (AnySeq # ts) w')"
proof
  assume "glob (AnySeq # ts) w"
  then obtain u v where "w = u @ v" "glob ts v" by (auto elim: glob.cases)
  then show "glob ts w \<or> (\<exists>c w'. w = c # w' \<and> glob (AnySeq # ts) w')"
    by (cases u) (auto intro: glob.seq)
next
  assume "glob ts w \<or> (\<exists>c w'. w = c # w' \<and> glob (AnySeq # ts) w')"
  then show "glob (AnySeq # ts) w"
  proof (elim disjE exE conjE)
    assume "glob ts w"
    from glob.seq [OF this, of "[]"] show ?thesis by simp
  next
    fix c w'
    assume w: "w = c # w'" and "glob (AnySeq # ts) w'"
    then obtain u v where "w' = u @ v" "glob ts v" by (auto elim: glob.cases)
    with glob.seq [of ts v "c # u"] w show ?thesis by simp
  qed
qed

section \<open>The component matcher decides the relation\<close>

definition in_ranges :: "nat \<Rightarrow> (nat \<times> nat) list \<Rightarrow> bool" where
  "in_ranges x rs \<longleftrightarrow> (\<exists>(a, b) \<in> set rs. a \<le> x \<and> x \<le> b)"

lemma in_ranges_Cons [simp]: "in_ranges x [] \<longleftrightarrow> False" "in_ranges x ((a, b) # rs) \<longleftrightarrow> a \<le> x \<and> x \<le> b \<or> in_ranges x rs"
  by (auto simp: in_ranges_def)

lemma ranges_single: "\<not> (2 < length cs \<and> cs ! 1 = dash) \<Longrightarrow> cs \<noteq> [] \<Longrightarrow> ranges cs = (hd cs, hd cs) # ranges (tl cs)"
  by (cases cs rule: ranges.cases) auto

lemma class_loop_ranges:
  "close \<le> length p \<Longrightarrow>
     class_loop p close x cursor included \<longleftrightarrow> included \<or> in_ranges x (ranges (take (close - cursor) (drop cursor p)))"
proof (induction p close x cursor included rule: class_loop.induct)
  case (1 p close x cursor included)
  let ?b = "\<lambda>c. take (close - c) (drop c p)"
  show ?case
  proof (cases "cursor < close")
    case False
    then show ?thesis by (simp add: class_loop.simps [of p close x cursor])
  next
    case True
    have one: "?b c = p ! c # ?b (Suc c)" if "c < close" for c
      using that "1.prems" by (simp add: take_drop [symmetric] Cons_nth_drop_Suc [symmetric] Suc_diff_Suc take_Cons')
    show ?thesis
    proof (cases "cursor + 2 < close \<and> p ! (cursor + 1) = dash")
      case range: True
      then have "?b cursor = p ! cursor # dash # p ! (cursor + 2) # ?b (cursor + 3)"
        using one [of cursor] one [of "cursor + 1"] one [of "cursor + 2"] by (simp add: eval_nat_numeral)
      with True range "1.IH"(1) "1.prems" show ?thesis
        by (simp add: class_loop.simps [of p close x cursor])
    next
      case False
      have "\<not> (2 < length (?b cursor) \<and> ?b cursor ! 1 = dash)" using False "1.prems" by auto
      from ranges_single [OF this] True one [of cursor]
      have "ranges (?b cursor) = (p ! cursor, p ! cursor) # ranges (?b (cursor + 1))" by simp
      with True False "1.IH"(2) "1.prems" show ?thesis
        by (auto simp: class_loop.simps [of p close x cursor])
    qed
  qed
qed

lemma closing_class:
  assumes "j < length p"
  defines "cs \<equiv> drop (Suc j) p"
  shows "class_of cs = None \<longleftrightarrow> \<not> closing p j < length p"
    and "class_of cs = Some (neg, body, after) \<Longrightarrow> after = drop (closing p j + 1) p"
    and "class_of cs = Some (neg, body, after) \<Longrightarrow> class_matches p j (closing p j) x \<longleftrightarrow> in_ranges x (ranges body) \<noteq> neg"
proof -
  define n where "n = (if cs \<noteq> [] \<and> negator (hd cs) then 1 else 0 :: nat)"
  define first where "first = take 1 (takeWhile (\<lambda>c. c = closer) (drop n cs))"
  define more where "more = takeWhile (\<lambda>c. c \<noteq> closer) (drop (n + length first) cs)"
  let ?k = "n + length first + length more"
  have c0: "Suc j < length p \<longleftrightarrow> cs \<noteq> []" "cs \<noteq> [] \<Longrightarrow> hd cs = p ! Suc j" using assms by (auto simp: hd_drop_conv_nth)
  have neg: "(cs \<noteq> [] \<and> negator (hd cs)) = (n = 1)" "(if n = 1 then tl cs else cs) = drop n cs"
    by (auto simp: n_def drop_Suc)
  have cls: "class_of cs = (if drop ?k cs = [] then None else Some (n = 1, first @ more, tl (drop ?k cs)))"
    unfolding class_of_def Let_def neg first_def [symmetric] drop_drop
    by (simp add: more_def ac_simps)
  have f: "length first = (if n < length cs \<and> cs ! n = closer then 1 else 0)"
  proof (cases "n < length cs")
    case True
    then have "drop n cs = cs ! n # drop (Suc n) cs" by (simp add: Cons_nth_drop_Suc)
    then show ?thesis using True by (simp add: first_def)
  qed (simp add: first_def)
  have nth: "cs ! i = p ! (Suc j + i)" "drop i cs = drop (Suc j + i) p" "length cs = length p - Suc j" for i
    using assms by (simp_all add: add.commute)
  have c1: "(if j + 1 < length p \<and> negator (p ! (j + 1)) then j + 1 + 1 else j + 1) = Suc j + n"
    using c0 by (auto simp: n_def)
  have c2: "(if Suc j + n < length p \<and> p ! (Suc j + n) = closer then Suc j + n + 1 else Suc j + n) = Suc j + n + length first"
    using f nth by (auto simp: less_diff_conv add.commute)
  have close: "closing p j = Suc j + ?k"
    unfolding closing_def Let_def c1 c2 more_def nth(2) by (simp add: add.assoc)
  show "class_of cs = None \<longleftrightarrow> \<not> closing p j < length p" unfolding cls close using nth(3) assms(1) by auto
  assume some: "class_of cs = Some (neg, body, after)"
  then have v: "neg = (n = 1)" "body = first @ more" "after = tl (drop ?k cs)" "drop ?k cs \<noteq> []" by (auto simp: cls split: if_splits)
  show "after = drop (closing p j + 1) p" unfolding v(3) close nth(2) by (simp add: drop_Suc [symmetric] tl_drop)
  have lt: "closing p j < length p" using v(4) nth(3) unfolding close by simp
  have "first @ more = take (length first + length more) (drop n cs)"
  proof -
    have "first = take (length first) (drop n cs)" unfolding first_def by (metis take_take takeWhile_eq_take length_take min.commute)
    moreover have "more = take (length more) (drop (n + length first) cs)" unfolding more_def by (rule takeWhile_eq_take)
    ultimately show ?thesis by (metis add.commute drop_drop take_add)
  qed
  then have body: "body = take (closing p j - (Suc j + n)) (drop (Suc j + n) p)" unfolding v(2) close by (simp add: nth(2))
  have "(j + 1 < closing p j \<and> negator (p ! (j + 1))) = (n = 1)"
    using c0 lt unfolding close by (auto simp: n_def)
  then show "class_matches p j (closing p j) x \<longleftrightarrow> in_ranges x (ranges body) \<noteq> neg"
    unfolding class_matches_def Let_def v(1) body using lt
    by (auto simp: class_loop_ranges n_def split: if_splits)
qed

text \<open>A table is sound when every entry is the answer for the rest of the text and of the pattern.\<close>

definition sound :: "(nat \<Rightarrow> nat \<Rightarrow> bool) \<Rightarrow> memo \<Rightarrow> bool" where
  "sound answer memo \<longleftrightarrow> (\<forall>i j v. memo (i, j) = Some v \<longrightarrow> v = answer i j)"

lemma sound_empty [simp]: "sound answer (\<lambda>_. None)"
  by (simp add: sound_def)

lemma sound_insert: "sound answer memo \<Longrightarrow> r = answer i j \<Longrightarrow> sound answer (memo((i, j) \<mapsto> r))"
  by (auto simp: sound_def)

definition answer :: "nat list \<Rightarrow> nat list \<Rightarrow> nat \<Rightarrow> nat \<Rightarrow> bool" where
  "answer t p i j \<longleftrightarrow> glob (tokens (drop j p)) (drop i t)"

lemma answer_step:
  assumes "j < length p" "i \<le> length t"
  shows "answer t p i j \<longleftrightarrow>
    (if p ! j = star then answer t p i (j + 1) \<or> i < length t \<and> answer t p (i + 1) j
     else if p ! j = question then i < length t \<and> answer t p (i + 1) (j + 1)
     else if p ! j = bracket \<and> closing p j < length p
     then i < length t \<and> class_matches p j (closing p j) (t ! i) \<and> answer t p (i + 1) (closing p j + 1)
     else i < length t \<and> t ! i = p ! j \<and> answer t p (i + 1) (j + 1))"
proof -
  have p: "drop j p = p ! j # drop (Suc j) p" using assms(1) by (simp add: Cons_nth_drop_Suc)
  have t: "drop i t = c # w \<longleftrightarrow> i < length t \<and> c = t ! i \<and> w = drop (Suc i) t" for c w
  proof (cases "i < length t")
    case True
    then have "drop i t = t ! i # drop (Suc i) t" by (simp add: Cons_nth_drop_Suc)
    then show ?thesis using True by auto
  qed simp
  note cl = closing_class [OF assms(1)] and ans = answer_def
  show ?thesis
  proof (cases "p ! j = bracket")
    case True
    show ?thesis
    proof (cases "class_of (drop (Suc j) p)")
      case None
      then have "\<not> closing p j < length p" using cl(1) by simp
      then show ?thesis using True None by (auto simp: ans p t)
    next
      case (Some triple)
      obtain neg body after where tr: "triple = (neg, body, after)" by (cases triple) auto
      have "closing p j < length p" using cl(1) Some by simp
      then show ?thesis using True Some cl(2,3) [OF Some [unfolded tr]] tr
        by (auto simp: ans p t in_ranges_def)
    qed
  next
    case False
    then show ?thesis using glob_seq [of "tokens (drop (Suc j) p)" "drop i t"] by (auto simp: ans p t)
  qed
qed

lemma glob_matches_sound:
  "i \<le> length t \<Longrightarrow> sound (answer t p) memo \<Longrightarrow> glob_matches t p i j memo = (r, memo') \<Longrightarrow>
    r = answer t p i j \<and> sound (answer t p) memo'"
proof (induction "(length p - j) + (length t - i)" arbitrary: i j memo r memo' rule: less_induct)
  case less
  note run = less.prems(3) [unfolded glob_matches.simps [of t p i j memo]]
  show ?case
  proof (cases "memo (i, j)")
    case (Some v)
    then show ?thesis using run less.prems(2) by (auto simp: sound_def)
  next
    case None
    define body where "body = (if length p \<le> j then (i = length t, memo)
                 else if p ! j = star
                 then (case glob_matches t p i (j + 1) memo of
                         (True, m) \<Rightarrow> (True, m)
                       | (False, m) \<Rightarrow> if i < length t then glob_matches t p (i + 1) j m else (False, m))
                 else if p ! j = question
                 then (if i < length t then glob_matches t p (i + 1) (j + 1) memo else (False, memo))
                 else if p ! j = bracket \<and> closing p j < length p
                 then (if i < length t \<and> class_matches p j (closing p j) (t ! i)
                       then glob_matches t p (i + 1) (closing p j + 1) memo else (False, memo))
                 else (if i < length t \<and> t ! i = p ! j then glob_matches t p (i + 1) (j + 1) memo else (False, memo)))"
    obtain m where m: "body = (r, m)" "memo' = m((i, j) \<mapsto> r)"
      using run None unfolding body_def [symmetric] by (auto split: prod.splits)
    have IH: "fst (glob_matches t p i' j' memo1) = answer t p i' j' \<and> sound (answer t p) (snd (glob_matches t p i' j' memo1))"
      if "length p - j' + (length t - i') < length p - j + (length t - i)" "i' \<le> length t" "sound (answer t p) memo1" for i' j' memo1
      using less.hyps [OF that, of "fst (glob_matches t p i' j' memo1)" "snd (glob_matches t p i' j' memo1)"] by simp
    have "r = answer t p i j \<and> sound (answer t p) m"
    proof (cases "j < length p")
      case False
      then show ?thesis using m(1) less.prems(1,2) by (auto simp: body_def answer_def)
    next
      case True
      note step = answer_step [OF True less.prems(1)]
      have next_char: "i < length t \<Longrightarrow> length p - (j + 1) + (length t - (i + 1)) < length p - j + (length t - i)" by simp
      have next_class: "i < length t \<Longrightarrow> length p - (closing p j + 1) + (length t - (i + 1)) < length p - j + (length t - i)"
        using closing_gt [of j p] by linarith
      consider "p ! j = star" | "p ! j = question" | "p ! j = bracket" "closing p j < length p"
        | "p ! j \<noteq> star" "p ! j \<noteq> question" "\<not> (p ! j = bracket \<and> closing p j < length p)" by blast
      then show ?thesis
      proof cases
        case 1
        have a: "fst (glob_matches t p i (j + 1) memo) = answer t p i (j + 1)"
          "sound (answer t p) (snd (glob_matches t p i (j + 1) memo))"
          using IH [of "j + 1" i memo] True less.prems(1,2) by auto
        have b: "i < length t \<Longrightarrow> fst (glob_matches t p (i + 1) j (snd (glob_matches t p i (j + 1) memo))) = answer t p (i + 1) j \<and>
            sound (answer t p) (snd (glob_matches t p (i + 1) j (snd (glob_matches t p i (j + 1) memo))))"
          by (rule IH) (use True a(2) in auto)
        show ?thesis using m(1) a b True 1 step by (auto simp: body_def split: prod.splits bool.splits if_splits)
      next
        case 2
        then show ?thesis using m(1) IH [OF next_char, of memo] True step less.prems(2)
          by (auto simp: body_def split: if_splits)
      next
        case 3
        then show ?thesis using m(1) IH [OF next_class, of memo] True step less.prems(2)
          by (auto simp: body_def split: if_splits)
      next
        case 4
        then show ?thesis using m(1) IH [OF next_char, of memo] True step less.prems(2)
          by (auto simp: body_def split: if_splits)
      qed
    qed
    then show ?thesis using m(2) sound_insert by blast
  qed
qed

lemma component_glob_correct:
  "case_sensitive_component_glob s pattern \<longleftrightarrow> glob (tokens (chars pattern)) (chars s)"
  "component_glob_matches lower s pattern \<longleftrightarrow> glob (tokens (chars (lower pattern))) (chars (lower s))"
proof -
  have "fst (glob_matches t p 0 0 (\<lambda>_. None)) = glob (tokens p) t" for t p
    using glob_matches_sound [of 0 t p "\<lambda>_. None" 0] by (cases "glob_matches t p 0 0 (\<lambda>_. None)") (simp add: answer_def)
  then show "case_sensitive_component_glob s pattern \<longleftrightarrow> glob (tokens (chars pattern)) (chars s)"
    "component_glob_matches lower s pattern \<longleftrightarrow> glob (tokens (chars (lower pattern))) (chars (lower s))"
    by (simp_all add: case_sensitive_component_glob_def component_glob_matches_def)
qed

section \<open>The path matcher decides its relation\<close>

inductive path_glob :: "(string \<Rightarrow> string) \<Rightarrow> string list \<Rightarrow> string list \<Rightarrow> bool" for lower where
  none: "path_glob lower [] []"
| deep: "path_glob lower qs ps \<Longrightarrow> path_glob lower (''**'' # qs) (us @ ps)"
| component: "q \<noteq> ''**'' \<Longrightarrow> glob (tokens (chars (lower q))) (chars (lower c)) \<Longrightarrow> path_glob lower qs ps \<Longrightarrow>
     path_glob lower (q # qs) (c # ps)"

inductive_simps path_glob_Nil [simp]: "path_glob lower [] ps"
inductive_simps path_glob_Cons: "path_glob lower (q # qs) ps"

lemma path_glob_deep:
  "path_glob lower (''**'' # qs) ps \<longleftrightarrow> path_glob lower qs ps \<or> (\<exists>c ps'. ps = c # ps' \<and> path_glob lower (''**'' # qs) ps')"
proof -
  have *: "path_glob lower (''**'' # qs) xs \<longleftrightarrow> (\<exists>us vs. xs = us @ vs \<and> path_glob lower qs vs)" for xs
    by (auto simp: path_glob_Cons)
  show ?thesis unfolding * by (metis append_Cons append_Nil list.exhaust)
qed

definition path_answer :: "(string \<Rightarrow> string) \<Rightarrow> string list \<Rightarrow> string list \<Rightarrow> nat \<Rightarrow> nat \<Rightarrow> bool" where
  "path_answer lower ps qs i j \<longleftrightarrow> path_glob lower (drop j qs) (drop i ps)"

lemma path_answer_step:
  assumes "j < length qs" "i \<le> length ps"
  shows "path_answer lower ps qs i j \<longleftrightarrow>
    (if qs ! j = ''**'' then path_answer lower ps qs i (j + 1) \<or> i < length ps \<and> path_answer lower ps qs (i + 1) j
     else i < length ps \<and> component_glob_matches lower (ps ! i) (qs ! j) \<and> path_answer lower ps qs (i + 1) (j + 1))"
proof -
  have q: "drop j qs = qs ! j # drop (Suc j) qs" using assms(1) by (simp add: Cons_nth_drop_Suc)
  have p: "drop i ps = c # w \<longleftrightarrow> i < length ps \<and> c = ps ! i \<and> w = drop (Suc i) ps" for c w
  proof (cases "i < length ps")
    case True
    then have "drop i ps = ps ! i # drop (Suc i) ps" by (simp add: Cons_nth_drop_Suc)
    then show ?thesis using True by auto
  qed simp
  show ?thesis
  proof (cases "qs ! j = ''**''")
    case True
    then show ?thesis using path_glob_deep [of lower "drop (Suc j) qs" "drop i ps"] by (auto simp: path_answer_def q p)
  next
    case False
    then show ?thesis unfolding path_answer_def q path_glob_Cons component_glob_correct by (auto simp: p)
  qed
qed

lemma path_matches_sound:
  "i \<le> length ps \<Longrightarrow> sound (path_answer lower ps qs) memo \<Longrightarrow> path_matches lower ps qs i j memo = (r, memo') \<Longrightarrow>
     r = path_answer lower ps qs i j \<and> sound (path_answer lower ps qs) memo'"
proof (induction "(length qs - j) + (length ps - i)" arbitrary: i j memo r memo' rule: less_induct)
  case less
  let ?run = "path_matches lower ps qs" and ?sound = "sound (path_answer lower ps qs)"
  note run = less.prems(3) [unfolded path_matches.simps [of lower ps qs i j memo]]
  have IH: "fst (?run i' j' m) = path_answer lower ps qs i' j' \<and> ?sound (snd (?run i' j' m))"
    if "length qs - j' + (length ps - i') < length qs - j + (length ps - i)" "i' \<le> length ps" "?sound m" for i' j' m
    using less.hyps [OF that, of "fst (?run i' j' m)" "snd (?run i' j' m)"] by simp
  show ?case
  proof (cases "memo (i, j)")
    case (Some v)
    then show ?thesis using run less.prems(2) by (auto simp: sound_def)
  next
    case None
    define body where "body = (if length qs \<le> j then (i = length ps, memo)
                 else if qs ! j = ''**''
                 then (case ?run i (j + 1) memo of
                         (True, m) \<Rightarrow> (True, m)
                       | (False, m) \<Rightarrow> if i < length ps then ?run (i + 1) j m else (False, m))
                 else (if i < length ps \<and> component_glob_matches lower (ps ! i) (qs ! j)
                       then ?run (i + 1) (j + 1) memo else (False, memo)))"
    obtain m where m: "body = (r, m)" "memo' = m((i, j) \<mapsto> r)"
      using run None unfolding body_def [symmetric] by (auto split: prod.splits)
    have "r = path_answer lower ps qs i j \<and> ?sound m"
    proof (cases "j < length qs")
      case False
      then show ?thesis using m(1) less.prems(1,2) by (auto simp: body_def path_answer_def)
    next
      case True
      note step = path_answer_step [OF True less.prems(1), of lower]
      show ?thesis
      proof (cases "qs ! j = ''**''")
        case deep: True
        have a: "fst (?run i (j + 1) memo) = path_answer lower ps qs i (j + 1)" "?sound (snd (?run i (j + 1) memo))"
          using IH [of "j + 1" i memo] True less.prems(1,2) by auto
        have b: "i < length ps \<Longrightarrow> fst (?run (i + 1) j (snd (?run i (j + 1) memo))) = path_answer lower ps qs (i + 1) j \<and>
            ?sound (snd (?run (i + 1) j (snd (?run i (j + 1) memo))))"
          by (rule IH) (use True a(2) in auto)
        show ?thesis using m(1) a b True deep step by (auto simp: body_def split: prod.splits bool.splits if_splits)
      next
        case False
        then show ?thesis using m(1) IH [of "j + 1" "i + 1" memo] True step less.prems(2)
          by (auto simp: body_def split: if_splits)
      qed
    qed
    then show ?thesis using m(2) sound_insert by blast
  qed
qed

text \<open>A pattern of one component is about the name of the file, any other about the whole path.\<close>

definition names_path :: "(string \<Rightarrow> string) \<Rightarrow> string \<Rightarrow> string \<Rightarrow> bool" where
  "names_path lower pattern path \<longleftrightarrow>
     (let ps = split_on (CHR ''/'') path; qs = split_on (CHR ''/'') pattern
      in if length qs = 1 then glob (tokens (chars (lower pattern))) (chars (lower (last ps)))
         else path_glob lower qs ps)"

lemma split_on_not_Nil: "split_on c s \<noteq> []"
  by (induction s) (auto split: list.splits)

lemma split_on_single: "split_on c s = [x] \<Longrightarrow> x = s"
  by (induction s arbitrary: x) (auto simp: split_on_not_Nil split: if_splits list.splits)

lemma path_glob_correct: "path_glob_matches lower path pattern \<longleftrightarrow> names_path lower pattern path"
proof -
  let ?ps = "split_on (CHR ''/'') path" and ?qs = "split_on (CHR ''/'') pattern"
  have single: "hd ?qs = pattern" if "length ?qs = 1"
    using that split_on_single [of "CHR ''/''" pattern] by (cases ?qs) auto
  have "fst (path_matches lower ?ps ?qs 0 0 (\<lambda>_. None)) = path_glob lower ?qs ?ps"
    using path_matches_sound [of 0 ?ps lower ?qs "\<lambda>_. None" 0] by (cases "path_matches lower ?ps ?qs 0 0 (\<lambda>_. None)") (simp add: path_answer_def)
  then show ?thesis using single by (simp add: path_glob_matches_def names_path_def Let_def component_glob_correct)
qed

end
