(* ===== verification/Worklist.thy ===== *)
theory Worklist
  imports Worklist_Tasks Path_Glob
begin

text \<open>
  Reading a worklist (\<open>action_worklist\<close> of \<open>spec-build-driver/src/actions.rs\<close>): the one regular file of
  the base tree that the pattern names, its campaign block, its tasks in order, and the completion
  identity of each.
\<close>

section \<open>The campaign block\<close>

definition campaign_string :: "DJson option \<Rightarrow> string \<Rightarrow> nat option \<Rightarrow> string + string" where
  "campaign_string v context maximum =
     (let plain = Inl (context @ '' must be a non-empty string without control characters'')
      in case Option.bind v as_string of
           None \<Rightarrow> plain
         | Some s \<Rightarrow>
             if s = [] \<or> has_control s then plain
             else (case maximum of
                     None \<Rightarrow> Inr s
                   | Some m \<Rightarrow>
                       if char_count s > m then Inl (context @ '' exceeds '' @ show_nat m @ '' characters'') else Inr s))"

definition campaign_string_list :: "DJson option \<Rightarrow> string \<Rightarrow> bool \<Rightarrow> string + string list" where
  "campaign_string_list v context nonempty =
     (case Option.bind v Driver_Json.as_array of
        None \<Rightarrow> Inl (context @ '' must be '' @ (if nonempty then ''a non-empty'' else ''an'') @ '' array'')
      | Some vs \<Rightarrow>
          if nonempty \<and> vs = [] then Inl (context @ '' must be a non-empty array'')
          else collect_results (map (\<lambda>(i, v). campaign_string (Some v) (indexed context i) None) (enumerate 0 vs)))"

definition campaign_u64 :: "DJson option \<Rightarrow> string \<Rightarrow> string + u64" where
  "campaign_u64 v context =
     (case Option.bind v number_u64 of
        None \<Rightarrow> Inl (context @ '' must be a positive unsigned 64-bit integer'')
      | Some n \<Rightarrow> if n > 0 then Inr n else Inl (context @ '' must be a positive unsigned 64-bit integer''))"

text \<open>\<open>map.get(name).or(Some(fallback))\<close>.\<close>

definition get_or :: "(string \<times> DJson) list \<Rightarrow> string \<Rightarrow> DJson \<Rightarrow> DJson option" where
  "get_or m name fallback = (case map_of m name of None \<Rightarrow> Some fallback | Some v \<Rightarrow> Some v)"

text \<open>Present, not null and refused by the check, or fine.\<close>

definition unless_null :: "DJson option \<Rightarrow> (DJson \<Rightarrow> string + 'a) \<Rightarrow> string + unit" where
  "unless_null v f = (case v of None \<Rightarrow> Inr () | Some j \<Rightarrow> if j = DNull then Inr () else ok_then (f j) (\<lambda>_. Inr ()))"

definition validate_campaign_agent :: "DJson option \<Rightarrow> string \<Rightarrow> string + unit" where
  "validate_campaign_agent v context =
     ok_then (object_exact (case v of None \<Rightarrow> json_object [] | Some j \<Rightarrow> j)
                [''adapter'', ''argv'', ''model'', ''priority'', ''approvalPolicy'', ''sandboxPolicy'', ''diagnosisSandboxPolicy'', ''runtimeMaxSec'']
                context) (\<lambda>agent.
     ok_then (campaign_string (get_or agent ''adapter'' (DString ''codex'')) (context @ ''.adapter'') None) (\<lambda>_.
     ok_then (campaign_string_list (get_or agent ''argv'' (strings [BRIEF_SENTINEL])) (context @ ''.argv'') True) (\<lambda>_.
     ok_then (campaign_string (get_or agent ''priority'' (DString ''low'')) (context @ ''.priority'') None) (\<lambda>priority.
       if priority \<notin> {''interrupt'', ''high'', ''medium'', ''low''} then Inl (context @ ''.priority is invalid'')
       else
         ok_then (unless_null (map_of agent ''approvalPolicy'') (\<lambda>j. campaign_string (Some j) (context @ ''.approvalPolicy'') None)) (\<lambda>_.
         ok_then (unless_null (map_of agent ''sandboxPolicy'') (\<lambda>j. campaign_string (Some j) (context @ ''.sandboxPolicy'') None)) (\<lambda>_.
         ok_then (unless_null (map_of agent ''diagnosisSandboxPolicy'') (\<lambda>j. campaign_string (Some j) (context @ ''.diagnosisSandboxPolicy'') None)) (\<lambda>_.
         ok_then (unless_null (map_of agent ''model'') (\<lambda>j. campaign_string (Some j) (context @ ''.model'') (Some 128))) (\<lambda>_.
           unless_null (get_or agent ''runtimeMaxSec'' (DNumber ''14400'')) (\<lambda>j. campaign_u64 (Some j) (context @ ''.runtimeMaxSec''))))))))))"

fun double_star :: "string \<Rightarrow> bool" where
  "double_star (c # d # cs) \<longleftrightarrow> c = CHR ''*'' \<and> d = CHR ''*'' \<or> double_star (d # cs)"
| "double_star _ \<longleftrightarrow> False"

definition bad_pattern :: "string \<Rightarrow> bool" where
  "bad_pattern p \<longleftrightarrow>
     p = [] \<or> char_count p > 1024 \<or> starts_with p ''/'' \<or> ends_with p ''/'' \<or> CHR 0x00 \<in> set p \<or>
     ''..'' \<in> set (split_on (CHR ''/'') p) \<or>
     list_ex (\<lambda>piece. double_star piece \<and> piece \<noteq> ''**'') (split_on (CHR ''/'') p)"

fun forbid_patterns :: "string \<Rightarrow> nat \<Rightarrow> string list \<Rightarrow> DJson list \<Rightarrow> string + unit" where
  "forbid_patterns context i seen [] = Inr ()"
| "forbid_patterns context i seen (v # vs) =
     (case as_string v of
        None \<Rightarrow> Inl (indexed (context @ ''.forbidPaths'') i @ '' is invalid'')
      | Some p \<Rightarrow>
          if bad_pattern p \<or> p \<in> set seen then Inl (indexed (context @ ''.forbidPaths'') i @ '' is invalid'')
          else forbid_patterns context (Suc i) (p # seen) vs)"

definition gate_identifier :: "(string \<times> DJson) list \<Rightarrow> string \<Rightarrow> string + string" where
  "gate_identifier gate context =
     ok_then (required_string (map_of gate ''id'') (context @ ''.id'') (Some 80)) (\<lambda>identifier.
       if \<not> is_component identifier then Inl (context @ ''.id is not a safe component'') else Inr identifier)"

definition validate_command_gate :: "DJson \<Rightarrow> string \<Rightarrow> string + string" where
  "validate_command_gate v context =
     ok_then (object_exact v [''kind'', ''id'', ''preflightArgv'', ''argv'', ''runtimeMaxSec''] context) (\<lambda>gate.
     ok_then (gate_identifier gate context) (\<lambda>identifier.
     ok_then (campaign_string_list (map_of gate ''preflightArgv'') (context @ ''.preflightArgv'') True) (\<lambda>_.
     ok_then (campaign_string_list (map_of gate ''argv'') (context @ ''.argv'') True) (\<lambda>_.
     ok_then (campaign_u64 (get_or gate ''runtimeMaxSec'' (DNumber ''900'')) (context @ ''.runtimeMaxSec'')) (\<lambda>_.
       Inr identifier)))))"

definition validate_forbid_gate :: "DJson \<Rightarrow> string \<Rightarrow> string + string" where
  "validate_forbid_gate v context =
     ok_then (object_exact v [''kind'', ''id'', ''forbidPaths'', ''runtimeMaxSec''] context) (\<lambda>gate.
     ok_then (gate_identifier gate context) (\<lambda>identifier.
       case Option.bind (map_of gate ''forbidPaths'') Driver_Json.as_array of
         None \<Rightarrow> Inl (context @ ''.forbidPaths must be a non-empty array'')
       | Some patterns \<Rightarrow>
           if patterns = [] then Inl (context @ ''.forbidPaths must be a non-empty array'')
           else if length patterns > 128 then Inl (context @ ''.forbidPaths exceeds 128 entries'')
           else
             ok_then (forbid_patterns context 0 [] patterns) (\<lambda>_.
             ok_then (campaign_u64 (get_or gate ''runtimeMaxSec'' (DNumber ''900'')) (context @ ''.runtimeMaxSec'')) (\<lambda>_.
               Inr identifier))))"

definition validate_campaign_gate :: "DJson \<Rightarrow> string \<Rightarrow> string + string" where
  "validate_campaign_gate v context =
     (case Driver_Json.as_object v of
        None \<Rightarrow> Inl (context @ '' must be an object'')
      | Some obj \<Rightarrow>
          (let kind = Option.bind (map_of obj ''kind'') as_string
           in if kind = Some ''command'' then validate_command_gate v context
              else if kind = Some ''forbidPaths'' then validate_forbid_gate v context
              else Inl (context @ ''.kind must be command or forbidPaths'')))"

fun gates_loop :: "nat \<Rightarrow> string list \<Rightarrow> DJson list \<Rightarrow> string + unit" where
  "gates_loop i seen [] = Inr ()"
| "gates_loop i seen (g # gs) =
     ok_then (validate_campaign_gate g (indexed ''worklist.campaign.gates'' i)) (\<lambda>identifier.
       if identifier \<in> set seen then Inl ''worklist.campaign gate ids must be unique''
       else gates_loop (Suc i) (identifier # seen) gs)"

text \<open>\<open>Path::components\<close> without the current directory, and \<open>Path::file_stem\<close>.\<close>

definition path_parts :: "string \<Rightarrow> string list" where
  "path_parts p = filter (\<lambda>piece. piece \<noteq> [] \<and> piece \<noteq> ''.'') (split_on (CHR ''/'') p)"

definition file_stem :: "string \<Rightarrow> string option" where
  "file_stem p =
     (case path_parts p of
        [] \<Rightarrow> None
      | parts \<Rightarrow>
          (let name = last parts; before = butlast (split_on (CHR ''.'') name)
           in if name = ''..'' then None
              else if before = [] \<or> join_text ''.'' before = [] then Some name
              else Some (join_text ''.'' before)))"

text \<open>A count from one to the most tasks a campaign may have.\<close>

definition campaign_count :: "DJson option \<Rightarrow> nat option" where
  "campaign_count v =
     (case Option.bind v number_u64 of
        None \<Rightarrow> None
      | Some n \<Rightarrow> if 1 \<le> unat n \<and> unat n \<le> MAX_CAMPAIGN_TASKS then Some (unat n) else None)"

definition steward_present :: "DJson option \<Rightarrow> string + bool" where
  "steward_present v =
     (if v = None \<or> v = Some DNull then Inr False
      else
        ok_then (required_string v ''worklist.campaign.steward'' (Some 80)) (\<lambda>steward.
          if \<not> is_component steward then Inl ''worklist.campaign.steward must be null or a safe adapter name'' else Inr True))"

definition validate_worklist_campaign :: "DJson \<Rightarrow> string \<Rightarrow> nat \<Rightarrow> nat \<Rightarrow> string + unit" where
  "validate_worklist_campaign v source_path witnessed_max_tasks witnessed_max_parallel =
     ok_then (object_exact v [''name'', ''maxTasks'', ''maxParallel'', ''mergeMethod'', ''driverRuntimeMaxSec'', ''runtimeMaxSec'', ''agent'',
                              ''steward'', ''stewardArgv'', ''stewardRuntimeMaxSec'', ''gates''] ''worklist.campaign'') (\<lambda>campaign.
     ok_then (required_string (get_or campaign ''name'' (DString (case file_stem source_path of None \<Rightarrow> [] | Some s \<Rightarrow> s)))
                ''worklist.campaign.name'' (Some 80)) (\<lambda>name.
       if \<not> is_component name then Inl ''worklist.campaign.name must be a safe path component''
       else case campaign_count (get_or campaign ''maxTasks'' (DNumber ''64'')) of
         None \<Rightarrow> Inl (''worklist.campaign.maxTasks must be in 1..='' @ show_nat MAX_CAMPAIGN_TASKS)
       | Some max_tasks \<Rightarrow>
           (case Option.bind (campaign_count (get_or campaign ''maxParallel'' (DNumber ''1''))) (\<lambda>n. if n \<le> max_tasks then Some n else None) of
              None \<Rightarrow> Inl (''worklist.campaign.maxParallel must be in 1..='' @ show_nat MAX_CAMPAIGN_TASKS @ '' and not exceed maxTasks'')
            | Some max_parallel \<Rightarrow>
                ok_then (campaign_string (get_or campaign ''mergeMethod'' (DString ''squash'')) ''worklist.campaign.mergeMethod'' None) (\<lambda>method.
                  if method \<notin> {''merge'', ''squash''} then Inl ''worklist.campaign.mergeMethod must be merge or squash''
                  else
                    ok_then (campaign_u64 (get_or campaign ''driverRuntimeMaxSec'' (DNumber ''900'')) ''worklist.campaign.driverRuntimeMaxSec'') (\<lambda>_.
                    ok_then (unless_null (map_of campaign ''runtimeMaxSec'') (\<lambda>j. campaign_u64 (Some j) ''worklist.campaign.runtimeMaxSec'')) (\<lambda>_.
                    ok_then (validate_campaign_agent (map_of campaign ''agent'') ''worklist.campaign.agent'') (\<lambda>_.
                    ok_then (steward_present (map_of campaign ''steward'')) (\<lambda>present.
                    ok_then (campaign_string_list (get_or campaign ''stewardArgv'' (DArray [])) ''worklist.campaign.stewardArgv'' False) (\<lambda>steward_argv.
                      if \<not> present \<and> steward_argv \<noteq> [] then Inl ''worklist.campaign.stewardArgv requires a steward adapter''
                      else
                        ok_then (campaign_u64 (get_or campaign ''stewardRuntimeMaxSec'' (json_usize DEFAULT_STEWARD_DIAGNOSIS_RUNTIME_MAX_SEC))
                                   ''worklist.campaign.stewardRuntimeMaxSec'') (\<lambda>_.
                          case Option.bind (map_of campaign ''gates'') Driver_Json.as_array of
                            None \<Rightarrow> Inl ''worklist.campaign.gates must contain 1..=16 entries''
                          | Some gates \<Rightarrow>
                              if \<not> (1 \<le> length gates \<and> length gates \<le> 16) then Inl ''worklist.campaign.gates must contain 1..=16 entries''
                              else
                                ok_then (gates_loop 0 [] gates) (\<lambda>_.
                                  if max_tasks \<noteq> witnessed_max_tasks
                                  then Inl (''worklist campaign maxTasks disagrees with the witnessed brief: campaign='' @ show_nat max_tasks
                                            @ '' brief='' @ show_nat witnessed_max_tasks)
                                  else if max_parallel \<noteq> witnessed_max_parallel
                                  then Inl (''worklist campaign maxParallel disagrees with the witnessed brief: campaign='' @ show_nat max_parallel
                                            @ '' brief='' @ show_nat witnessed_max_parallel)
                                  else Inr ())))))))))))"

section \<open>Finding the file\<close>

definition wildcard :: "char \<Rightarrow> bool" where
  "wildcard c \<longleftrightarrow> c = CHR ''*'' \<or> c = CHR ''?'' \<or> c = CHR ''[''"

text \<open>The part of the tree that has to be listed: the components before the first wildcard.\<close>

definition tree_arguments :: "string \<Rightarrow> string list \<Rightarrow> string list" where
  "tree_arguments base_rev parts =
     (let literal = takeWhile (\<lambda>part. \<not> list_ex wildcard part) parts
      in [''ls-tree'', ''-r'', ''-z'', ''--full-tree'', base_rev]
         @ (if literal = [] then [] else [''--'', join_text ''/'' literal]))"

definition part_matches :: "string \<Rightarrow> string \<Rightarrow> bool" where
  "part_matches part candidate \<longleftrightarrow>
     (\<not> starts_with part ''.'' \<or> starts_with candidate ''.'') \<and> case_sensitive_component_glob candidate part"

definition MALFORMED :: string where
  "MALFORMED = ''remote base tree contains a malformed worklist candidate''"

text \<open>One entry of the listing: the path and object of a regular file that matches, nothing, or an error.\<close>

definition tree_entry :: "string list \<Rightarrow> string \<Rightarrow> string + (string \<times> string) option" where
  "tree_entry parts entry =
     (case split_once TAB entry of
        None \<Rightarrow> Inl MALFORMED
      | Some (metadata, path) \<Rightarrow>
          if \<not> utf8 metadata \<or> \<not> utf8 path then Inl MALFORMED
          else
            (case split_on (CHR '' '') metadata of
               [mode, kind, object] \<Rightarrow>
                 let path_pieces = split_on (CHR ''/'') path;
                     matched = length path_pieces = length parts
                       \<and> list_all (\<lambda>(part, candidate). part_matches part candidate) (zip parts path_pieces)
                 in if matched \<and> kind = ''blob'' \<and> (mode = ''100644'' \<or> mode = ''100755'')
                    then Inr (Some (path, object)) else Inr None
             | _ \<Rightarrow> Inl MALFORMED))"

definition tree_matches :: "string list \<Rightarrow> string \<Rightarrow> string + (string \<times> string) list" where
  "tree_matches parts tree =
     ok_then (collect_results (map (tree_entry parts) (filter (\<lambda>e. e \<noteq> []) (split_on (CHR 0x00) tree)))) (\<lambda>found.
       Inr (List.map_filter id found))"

section \<open>Completion identities\<close>

definition canonical_sha256 :: "DJson \<Rightarrow> string" where
  "canonical_sha256 v = ''sha256:'' @ digest (str_bytes (stringify v))"

definition admitted_entry :: "string \<times> DJson \<Rightarrow> string + string \<times> string" where
  "admitted_entry = (\<lambda>(task_id, v).
     if \<not> is_task_id task_id then Inl ''taskCompletionRevisions contains an unsafe task ID''
     else
       ok_then (required_string (Some v) (''taskCompletionRevisions.'' @ task_id) (Some 71)) (\<lambda>revision.
         if \<not> is_sha256_identity revision
         then Inl (''taskCompletionRevisions.'' @ task_id @ '' must be a lowercase SHA-256 identity'')
         else Inr (task_id, revision)))"

definition admitted_completion_revisions :: "DJson option \<Rightarrow> string + (string \<times> string) list option" where
  "admitted_completion_revisions v =
     (if v = None \<or> v = Some DNull then Inr None
      else
        case Option.bind v Driver_Json.as_object of
          None \<Rightarrow> Inl ''taskCompletionRevisions must be an object''
        | Some revisions \<Rightarrow>
            if length revisions > MAX_CAMPAIGN_TASKS then Inl ''taskCompletionRevisions exceeds 128 tasks''
            else ok_then (collect_results (map admitted_entry revisions)) (\<lambda>m. Inr (Some m)))"

definition file_task_completion_revision :: "string \<Rightarrow> (string \<times> DJson) list \<Rightarrow> DJson \<Rightarrow> string + string" where
  "file_task_completion_revision repository source task =
     (let source_repository = (case Option.bind (map_of source ''repository'') as_string of None \<Rightarrow> repository | Some r \<Rightarrow> r)
      in ok_then (required_string (map_of source ''path'') ''worklist source path'' None) (\<lambda>source_path.
           Inr (canonical_sha256 (json_object
             [(''contractVersion'', DNumber ''1''), (''repository'', DString repository),
              (''source'', json_object [(''repository'', DString source_repository), (''path'', DString source_path)]),
              (''task'', task)]))))"

text \<open>The text of \<open>Utf8Error\<close> for the first scalar that is not well-formed.\<close>

definition cut_short :: "nat list \<Rightarrow> bool" where
  "cut_short bs \<longleftrightarrow>
     (case bs of
        [b] \<Rightarrow> 194 \<le> b \<and> b \<le> 244
      | [b, c] \<Rightarrow> 224 \<le> b \<and> b \<le> 244 \<and> second_byte b c
      | [b, c, d] \<Rightarrow> 240 \<le> b \<and> b \<le> 244 \<and> second_byte b c \<and> utf8_tail d
      | _ \<Rightarrow> False)"

function utf8_error :: "nat \<Rightarrow> string \<Rightarrow> string" where
  "utf8_error i s =
     (let n = utf8_scalar (map byte s)
      in if n \<noteq> 0 \<and> s \<noteq> [] then utf8_error (i + n) (drop n s)
         else if cut_short (map byte s) then ''incomplete utf-8 byte sequence from index '' @ show_nat i
         else ''invalid utf-8 sequence of '' @ show_nat (lossy_skip (map byte s)) @ '' bytes from index '' @ show_nat i)"
  by pat_completeness auto
termination
  by (relation "measure (length \<circ> snd)") auto

declare utf8_error.simps [simp del]

section \<open>The tasks of the document\<close>

text \<open>\<open>expect\<close>: a panic is an error that carries the message.\<close>

definition expect :: "'a option \<Rightarrow> string \<Rightarrow> string + 'a" where
  "expect x message = (case x of None \<Rightarrow> Inl (''panic: '' @ message) | Some y \<Rightarrow> Inr y)"

fun worklist_tasks :: "(string \<Rightarrow> string) \<Rightarrow> bool \<Rightarrow> nat \<Rightarrow> string list \<Rightarrow> DJson list \<Rightarrow> string + DJson list" where
  "worklist_tasks debug needed i prior_ids [] = Inr []"
| "worklist_tasks debug needed i prior_ids (candidate # candidates) =
     ok_then (normalize_task debug candidate i prior_ids needed) (\<lambda>task.
     ok_then (expect (Option.bind (Option.bind (Driver_Json.as_object task) (\<lambda>m. map_of m ''id'')) as_string) ''normalized task has an ID'') (\<lambda>identifier.
       if identifier \<in> set prior_ids then Inl (''worklist repeats task id '' @ debug identifier)
       else
         ok_then (worklist_tasks debug needed (Suc i) (identifier # prior_ids) candidates) (\<lambda>tasks.
           Inr (task # tasks))))"

definition task_set_agrees :: "(string \<times> string) list option \<Rightarrow> DJson list \<Rightarrow> string + unit" where
  "task_set_agrees admitted tasks =
     (case admitted of
        None \<Rightarrow> Inr ()
      | Some m \<Rightarrow>
          ok_then (collect_results (map task_id tasks)) (\<lambda>projected.
            if set (map fst m) \<noteq> set projected
            then Inl ''taskCompletionRevisions must name exactly the projected tasks'' else Inr ()))"

definition stamp_revision :: "(string \<times> string) list option \<Rightarrow> string \<Rightarrow> (string \<times> DJson) list \<Rightarrow> DJson \<Rightarrow> string + DJson" where
  "stamp_revision admitted repository source task =
     ok_then (case admitted of
                Some m \<Rightarrow>
                  ok_then (task_id task) (\<lambda>i. expect (map_of m i) ''the admitted revision key set was checked'')
              | None \<Rightarrow> file_task_completion_revision repository source task) (\<lambda>revision.
     ok_then (expect (Driver_Json.as_object task) ''normalized task is an object'') (\<lambda>m.
       Inr (DObject (btree_insert ''revision'' (DString revision) m))))"

definition worklist_document :: "(string \<Rightarrow> string) \<Rightarrow> string \<Rightarrow> string \<Rightarrow> nat \<Rightarrow> nat \<Rightarrow> string + DJson list" where
  "worklist_document debug raw source_path max_tasks max_parallel =
     ok_then (if utf8 raw then Inr raw else Inl (''worklist is not valid JSON: '' @ utf8_error 0 raw)) (\<lambda>txt.
     ok_then (case parse txt of Inl e \<Rightarrow> Inl (''worklist is not valid JSON: '' @ e) | Inr j \<Rightarrow> Inr j) (\<lambda>document.
     ok_then (object_exact document [''schemaVersion'', ''tasks'', ''campaign''] ''worklist'') (\<lambda>obj.
       if Option.bind (map_of obj ''schemaVersion'') number_u64 \<noteq> Some 1 then Inl ''worklist.schemaVersion must equal 1''
       else
         ok_then (case map_of obj ''campaign'' of
                    None \<Rightarrow> Inr ()
                  | Some c \<Rightarrow> validate_worklist_campaign c source_path max_tasks max_parallel) (\<lambda>_.
           case Option.bind (map_of obj ''tasks'') Driver_Json.as_array of
             None \<Rightarrow> Inl ''worklist.tasks must be a non-empty array''
           | Some candidates \<Rightarrow>
               if candidates = [] then Inl ''worklist.tasks must be a non-empty array''
               else if length candidates > max_tasks
               then Inl (''worklist has '' @ show_nat (length candidates) @ '' tasks, exceeding maxTasks '' @ show_nat max_tasks)
               else worklist_tasks debug (max_parallel > 1) 0 [] candidates))))"

section \<open>The action\<close>

text \<open>
  \<open>PathBuf\<close>s are equal when their components are: repeated and trailing separators and \<open>.\<close> components do not
  count. A checkout is an absolute path.
\<close>

definition path_components :: "string \<Rightarrow> string list" where
  "path_components p = filter (\<lambda>c. c \<noteq> [] \<and> c \<noteq> ''.'') (split_on (CHR ''/'') p)"

definition same_repository :: "CampaignCoordinate \<Rightarrow> CampaignCoordinate \<Rightarrow> bool" where
  "same_repository l r \<longleftrightarrow>
     cc_repository l = cc_repository r \<and>
     path_components (cfg_checkout (cc_config l)) = path_components (cfg_checkout (cc_config r))"

definition optional_fields :: "DJson \<Rightarrow> string list \<Rightarrow> string list" where
  "optional_fields brief names =
     filter (\<lambda>k. is_some_and (\<lambda>m. map_of m k \<noteq> None) (Driver_Json.as_object brief)) names"

definition worklist_bounds :: "(string \<times> DJson) list \<Rightarrow> string + nat \<times> nat" where
  "worklist_bounds data =
     (case campaign_count (map_of data ''maxTasks'') of
        None \<Rightarrow> Inl ''maxTasks must be an integer from 1 through 128''
      | Some max_tasks \<Rightarrow>
          (case campaign_count (get_or data ''maxParallel'' (DNumber ''1'')) of
             None \<Rightarrow> Inl ''maxParallel must be an integer from 1 through 128''
           | Some max_parallel \<Rightarrow>
               if max_parallel > max_tasks then Inl ''maxParallel must not exceed maxTasks'' else Inr (max_tasks, max_parallel)))"

definition worklist_result ::
  "(string \<times> string) list option \<Rightarrow> string \<Rightarrow> (string \<times> DJson) list \<Rightarrow> DJson list \<Rightarrow> string + DJson" where
  "worklist_result admitted repository source tasks =
     ok_then (task_set_agrees admitted tasks) (\<lambda>_.
     ok_then (collect_results (map (stamp_revision admitted repository source) tasks)) (\<lambda>stamped.
       Inr (json_object
              [(''schemaVersion'', DNumber ''1''), (''repository'', DString repository), (''source'', DObject source),
               (''tasks'', DArray stamped)])))"

definition worklist_source :: "string \<Rightarrow> string \<Rightarrow> string \<Rightarrow> CampaignCoordinate \<Rightarrow> CampaignCoordinate \<Rightarrow> (string \<times> DJson) list" where
  "worklist_source source_path raw base_rev spec code =
     fold (\<lambda>(k, v). btree_insert k v)
       ([(''path'', DString source_path), (''sha256'', DString (''sha256:'' @ digest (str_bytes raw))), (''revision'', DString base_rev)]
        @ (if same_repository spec code then [] else [(''repository'', DString (cc_repository spec))])) []"

definition action_worklist :: "'w GitEnv \<Rightarrow> DJson \<Rightarrow> ('w GitWorld, DJson) act" where
  "action_worklist env brief =
     and_then (lift (object_exact brief
       ([''repository'', ''repositoryConfig'', ''worklist'', ''maxTasks'', ''maxParallel'', ''taskCompletionRevisions'']
        @ optional_fields brief [''specRepository'', ''issueRepository'']) ''worklist brief'')) (\<lambda>data.
     and_then (lift (admitted_completion_revisions (map_of data ''taskCompletionRevisions''))) (\<lambda>admitted.
     and_then (lift (repository_name (map_of data ''repository'') ''repository'')) (\<lambda>repository.
     and_then (repo_config env (map_of data ''repositoryConfig'')) (\<lambda>config.
     and_then (campaign_coordinates env data repository config) (\<lambda>(code, spec, issue).
     and_then (lift (required_string (map_of data ''worklist'') ''worklist'' None)) (\<lambda>pattern.
       if starts_with pattern ''/'' \<or> ''..'' \<in> set (split_on (CHR ''/'') pattern)
       then refuse (''worklist must be a relative pattern without '' @ [CHR 39] @ ''..'' @ [CHR 39])
       else
         and_then (lift (worklist_bounds data)) (\<lambda>(max_tasks, max_parallel).
         and_then (git env (cfg_checkout (cc_config spec)) [''fetch'', ''--prune'', ''--no-tags'', cfg_remote (cc_config spec)] True) (\<lambda>_.
         and_then (git env (cfg_checkout (cc_config spec))
                     [''rev-parse'', ''--verify'', cfg_remote (cc_config spec) @ ''/'' @ cfg_base_branch (cc_config spec) @ ''^{commit}''] True) (\<lambda>resolved.
         and_then (git env (cfg_checkout (cc_config spec)) (tree_arguments (stdout_trimmed resolved) (path_parts pattern)) True) (\<lambda>tree.
         and_then (lift (tree_matches (path_parts pattern) (gout_stdout tree))) (\<lambda>found.
           case found of
             [(source_path, source_object)] \<Rightarrow>
               and_then (git env (cfg_checkout (cc_config spec)) [''cat-file'', ''blob'', source_object] True) (\<lambda>blob.
               and_then (lift (worklist_document (ge_debug env) (gout_stdout blob) source_path max_tasks max_parallel)) (\<lambda>tasks.
                 lift (worklist_result admitted repository
                         (worklist_source source_path (gout_stdout blob) (stdout_trimmed resolved) spec code) tasks)))
           | _ \<Rightarrow> refuse (''worklist pattern '' @ ge_debug env pattern @ '' matched '' @ show_nat (length found)
                          @ '' regular files; expected exactly one''))))))))))))"

section \<open>What an accepted worklist looks like\<close>

text \<open>Names are new and safe, and a task depends on tasks before it.\<close>

fun ordered_from :: "string list \<Rightarrow> DJson list \<Rightarrow> bool" where
  "ordered_from prior_ids [] \<longleftrightarrow> True"
| "ordered_from prior_ids (task # tasks) \<longleftrightarrow>
     (case task_id task of
        Inl _ \<Rightarrow> False
      | Inr i \<Rightarrow> i \<notin> set prior_ids \<and> reads_back task prior_ids \<and> ordered_from (i # prior_ids) tasks)"

lemma expect_Inr [simp]: "expect x message = Inr y \<longleftrightarrow> x = Some y"
  by (auto simp: expect_def split: option.splits)

lemma worklist_tasks_ordered:
  "worklist_tasks debug needed i prior_ids candidates = Inr tasks \<Longrightarrow>
     ordered_from prior_ids tasks \<and> length tasks = length candidates"
proof (induction candidates arbitrary: i prior_ids tasks)
  case (Cons c cs)
  then obtain task name ts where c: "normalize_task debug c i prior_ids needed = Inr task"
    "task_id task = Inr name" "name \<notin> set prior_ids"
    "worklist_tasks debug needed (Suc i) (name # prior_ids) cs = Inr ts" "tasks = task # ts"
    by (auto simp: ok_then_Inr task_id_def split: if_splits)
  show ?case using normalized_reads_back(1) [OF c(1)] c Cons.IH [OF c(4)] by simp
qed simp

text \<open>\<open>expect\<close> does not panic there: a task that was normalized has its name.\<close>

lemma worklist_tasks_name:
  assumes "normalize_task debug c i prior_ids needed = Inr task"
  shows "\<exists>s. Option.bind (Option.bind (Driver_Json.as_object task) (\<lambda>m. map_of m ''id'')) as_string = Some s"
  using normalized_reads_back(1) [OF assms] by (auto simp: reads_back_def task_id_def split: option.splits)

lemma digest_identity: "is_sha256_identity (''sha256:'' @ digest m)"
proof -
  have "digest m = hex (fips_sha256 m)"
    using update_absorbs [OF absorbed_new, of m] by (simp add: digest_def new_sha_def finish_absorbed)
  then have d: "length (digest m) = 64" "set (digest m) \<subseteq> set DIGITS"
    using hex_digits [of "fips_sha256 m"] by (simp_all add: length_fips_sha256)
  have "list_all hex_char DIGITS" by (simp add: DIGITS_def hex_char_def is_ascii_digit_def byte_def)
  then have "list_all hex_char (digest m)" using d(2) by (auto simp: list_all_iff)
  then show ?thesis using d(1) by (simp add: is_sha256_identity_def)
qed

lemma identity_text: "is_sha256_identity r \<Longrightarrow> required_string (Some (DString r)) context None = Inr r"
proof -
  assume "is_sha256_identity r"
  then obtain h where h: "r = ''sha256:'' @ h" "list_all hex_char h" by (auto simp: is_sha256_identity_def starts_with_iff)
  then have "\<not> list_ex (\<lambda>c. byte c < 32) h" by (auto simp: list_ex_iff list_all_iff hex_char_def is_ascii_digit_def)
  then show ?thesis using h(1) by (simp add: required_string_def byte_def)
qed

lemma stamped:
  assumes "stamp_revision admitted repository source task = Inr task'"
    and "\<forall>m. admitted = Some m \<longrightarrow> (\<forall>r\<in>snd ` set m. is_sha256_identity r)"
  obtains m r where "task' = DObject m" "task_revision m = Inr (Some r)"
    "task_id task' = task_id task" "task_kind task' = task_kind task"
    "task_dependencies task' = task_dependencies task" "task_domains task' = task_domains task"
proof -
  from assms(1) obtain r m0 where r: "(case admitted of
                Some m \<Rightarrow>
                  ok_then (task_id task) (\<lambda>i. expect (map_of m i) ''the admitted revision key set was checked'')
              | None \<Rightarrow> file_task_completion_revision repository source task) = Inr r"
      "task = DObject m0" "task' = DObject (btree_insert ''revision'' (DString r) m0)"
    unfolding stamp_revision_def ok_then_Inr by (auto elim: Driver_Json.as_object.elims)
  have "is_sha256_identity r"
  proof (cases admitted)
    case None
    then show ?thesis using r(1) digest_identity
      by (auto simp: file_task_completion_revision_def canonical_sha256_def Let_def ok_then_Inr)
  next
    case (Some m)
    then have "r \<in> snd ` set m" using r(1) by (force simp: ok_then_Inr dest: map_of_SomeD)
    then show ?thesis using assms(2) Some by blast
  qed
  then have "task_revision (btree_insert ''revision'' (DString r) m0) = Inr (Some r)"
    by (simp add: task_revision_def map_of_btree_insert identity_text)
  then show ?thesis using r(2,3)
    by (intro that) (simp_all add: task_id_def task_kind_def task_dependencies_def task_domains_def map_of_btree_insert)
qed

lemma ordered_from_cong:
  "list_all2 (\<lambda>t t'. task_id t' = task_id t \<and> task_kind t' = task_kind t \<and> task_dependencies t' = task_dependencies t) tasks tasks' \<Longrightarrow>
     ordered_from prior_ids tasks \<Longrightarrow> ordered_from prior_ids tasks'"
  by (induction tasks tasks' arbitrary: prior_ids rule: list_all2_induct) (auto simp: reads_back_def split: sum.splits)

lemma ordered_from_ids:
  assumes "ordered_from prior_ids tasks"
  obtains ids where "map task_id tasks = map Inr ids" "distinct ids" "set ids \<inter> set prior_ids = {}" "list_all is_task_id ids"
    "\<And>i. i < length tasks \<Longrightarrow> \<exists>deps. task_dependencies (tasks ! i) = Inr deps \<and> distinct deps \<and> set deps \<subseteq> set prior_ids \<union> set (take i ids)"
  using assms
proof (induction tasks arbitrary: prior_ids thesis)
  case (Cons t ts)
  then obtain n where n: "task_id t = Inr n" "n \<notin> set prior_ids" "reads_back t prior_ids" "ordered_from (n # prior_ids) ts"
    by (auto split: sum.splits)
  obtain ids where ids: "map task_id ts = map Inr ids" "distinct ids" "set ids \<inter> set (n # prior_ids) = {}" "list_all is_task_id ids"
    "\<And>i. i < length ts \<Longrightarrow> \<exists>deps. task_dependencies (ts ! i) = Inr deps \<and> distinct deps \<and> set deps \<subseteq> set (n # prior_ids) \<union> set (take i ids)"
    using Cons.IH [OF _ n(4)] by blast
  have now: "is_task_id n" "\<exists>deps. task_dependencies t = Inr deps \<and> distinct deps \<and> set deps \<subseteq> set prior_ids"
    using n(1,3) by (auto simp: reads_back_def split: sum.splits)
  show ?case
  proof (rule Cons.prems(1) [of "n # ids"])
    fix i
    assume i: "i < length (t # ts)"
    show "\<exists>deps. task_dependencies ((t # ts) ! i) = Inr deps \<and> distinct deps \<and> set deps \<subseteq> set prior_ids \<union> set (take i (n # ids))"
    proof (cases i)
      case 0
      then show ?thesis using now(2) by simp
    next
      case (Suc j)
      then show ?thesis using ids(5) [of j] i by auto
    qed
  qed (use n ids now in auto)
qed simp

text \<open>The tasks of a result of the action.\<close>

definition result_tasks :: "DJson \<Rightarrow> DJson list" where
  "result_tasks out =
     (case Option.bind (Option.bind (Driver_Json.as_object out) (\<lambda>m. map_of m ''tasks'')) Driver_Json.as_array of
        None \<Rightarrow> [] | Some tasks \<Rightarrow> tasks)"

definition has_revision :: "DJson \<Rightarrow> bool" where
  "has_revision task \<longleftrightarrow>
     (case task of DObject m \<Rightarrow> (case task_revision m of Inr (Some r) \<Rightarrow> is_sha256_identity r | _ \<Rightarrow> False) | _ \<Rightarrow> False)"

lemma admitted_identities:
  assumes "admitted_completion_revisions v = Inr admitted" "admitted = Some m" "r \<in> snd ` set m"
  shows "is_sha256_identity r"
proof -
  obtain revisions where "map admitted_entry revisions = map Inr m"
    using assms(1,2) by (auto simp: admitted_completion_revisions_def ok_then_Inr dest!: collect_results_length split: if_splits option.splits)
  moreover obtain k where "(k, r) \<in> set m" using assms(3) by auto
  ultimately have "Inr (k, r) \<in> set (map admitted_entry revisions)" by simp
  then obtain e where "admitted_entry e = Inr (k, r)" by (metis (no_types, lifting) ex_map_conv)
  then show ?thesis by (auto simp: admitted_entry_def ok_then_Inr split: if_splits prod.splits)
qed

lemma task_revision_identity: "task_revision m = Inr (Some r) \<Longrightarrow> is_sha256_identity r"
  by (auto simp: task_revision_def ok_then_Inr split: option.splits if_splits)

lemma worklist_result_tasks:
  assumes "worklist_result admitted repository source tasks = Inr out"
    and ids: "\<forall>m. admitted = Some m \<longrightarrow> (\<forall>r\<in>snd ` set m. is_sha256_identity r)"
    and "ordered_from [] tasks"
  shows "ordered_from [] (result_tasks out) \<and> length (result_tasks out) = length tasks \<and> list_all has_revision (result_tasks out)"
proof -
  obtain stamps where st: "map (stamp_revision admitted repository source) tasks = map Inr stamps" "result_tasks out = stamps"
    using assms(1) by (auto simp: worklist_result_def ok_then_Inr result_tasks_def json_object_def dest!: collect_results_length)
  have each: "task_id t' = task_id t \<and> task_kind t' = task_kind t \<and> task_dependencies t' = task_dependencies t \<and> has_revision t'"
    if "stamp_revision admitted repository source t = Inr t'" for t t'
    by (rule stamped [OF that ids]) (simp add: has_revision_def task_revision_identity)
  have "list_all2 (\<lambda>t t'. stamp_revision admitted repository source t = Inr t') tasks stamps"
    using st(1) by (simp add: list_all2_conv_all_nth list_eq_iff_nth_eq)
  then have all: "list_all2 (\<lambda>t t'. task_id t' = task_id t \<and> task_kind t' = task_kind t \<and> task_dependencies t' = task_dependencies t \<and> has_revision t') tasks stamps"
    by (rule list_all2_mono) (rule each)
  then have "ordered_from [] stamps" using ordered_from_cong assms(3) by (metis (mono_tags, lifting) list_all2_mono)
  moreover have "length stamps = length tasks" using all by (simp add: list_all2_lengthD)
  moreover have "list_all has_revision stamps" using all by (auto simp: list_all2_conv_all_nth list_all_length)
  ultimately show ?thesis using st(2) by simp
qed

lemma worklist_document_tasks:
  assumes "worklist_document debug raw source_path max_tasks max_parallel = Inr tasks"
  shows "ordered_from [] tasks" "tasks \<noteq> []" "length tasks \<le> max_tasks"
  using assms unfolding worklist_document_def
  by (auto elim!: ok_thenE split: if_splits option.splits dest!: worklist_tasks_ordered)

lemma worklist_bounds_le: "worklist_bounds data = Inr (t, p) \<Longrightarrow> p \<le> t \<and> t \<le> MAX_CAMPAIGN_TASKS \<and> 1 \<le> p"
  by (auto simp: worklist_bounds_def campaign_count_def split: option.splits if_splits)

lemma action_worklist_parts:
  assumes "action_worklist env brief w = (Inr out, w')"
  obtains admitted repository source tasks v m debug raw path t p where
    "worklist_result admitted repository source tasks = Inr out" "admitted_completion_revisions v = Inr admitted"
    "worklist_document debug raw path t p = Inr tasks" "worklist_bounds m = Inr (t, p)"
  using assms unfolding action_worklist_def
  by (auto elim!: and_then_cases simp: lift_def refuse_def split: prod.splits if_splits list.splits)

lemma action_worklist_ordered:
  assumes "action_worklist env brief w = (Inr out, w')"
  shows "ordered_from [] (result_tasks out)" "list_all has_revision (result_tasks out)"
    "1 \<le> length (result_tasks out)" "length (result_tasks out) \<le> MAX_CAMPAIGN_TASKS"
proof -
  obtain admitted repository source tasks v m debug raw path t p where parts:
    "worklist_result admitted repository source tasks = Inr out" "admitted_completion_revisions v = Inr admitted"
    "worklist_document debug raw path t p = Inr tasks" "worklist_bounds m = Inr (t, p)"
    using action_worklist_parts [OF assms] .
  note doc = worklist_document_tasks [OF parts(3)]
  have r: "ordered_from [] (result_tasks out)" "length (result_tasks out) = length tasks" "list_all has_revision (result_tasks out)"
    using worklist_result_tasks [OF parts(1) _ doc(1)] admitted_identities [OF parts(2)] by blast+
  show "ordered_from [] (result_tasks out)" "list_all has_revision (result_tasks out)" using r by blast+
  show "1 \<le> length (result_tasks out)" using r(2) doc(2) by (simp add: Suc_le_eq)
  show "length (result_tasks out) \<le> MAX_CAMPAIGN_TASKS" using r(2) doc(3) worklist_bounds_le [OF parts(4)] by linarith
qed

text \<open>
  C12. A worklist the driver accepts has between one and 128 tasks. Their names are safe and distinct,
  every dependency is the name of an earlier task, so the graph has no cycle, and every task carries a
  completion revision in the form of a SHA-256 identity.
\<close>

theorem worklist_accepted:
  assumes "action_worklist env brief w = (Inr out, w')"
  shows "\<exists>ids. map task_id (result_tasks out) = map Inr ids \<and> distinct ids \<and> list_all is_task_id ids \<and>
           1 \<le> length ids \<and> length ids \<le> MAX_CAMPAIGN_TASKS \<and> list_all has_revision (result_tasks out) \<and>
           (\<forall>i<length ids. \<exists>deps. task_dependencies (result_tasks out ! i) = Inr deps \<and> set deps \<subseteq> set (take i ids))"
proof -
  note r = action_worklist_ordered [OF assms]
  obtain ids where ids: "map task_id (result_tasks out) = map Inr ids" "distinct ids" "list_all is_task_id ids"
    "\<And>i. i < length (result_tasks out) \<Longrightarrow> \<exists>deps. task_dependencies (result_tasks out ! i) = Inr deps \<and> distinct deps \<and> set deps \<subseteq> set [] \<union> set (take i ids)"
    using ordered_from_ids [OF r(1)] by metis
  have len: "length ids = length (result_tasks out)" using ids(1) by (metis length_map)
  show ?thesis using ids len r(2-4) by (intro exI [of _ ids]) force
qed

end
