(* ===== verification/Lane_Gates.thy ===== *)
theory Lane_Gates
  imports Driver_Brief Path_Glob "HOL-Library.Sublist"
begin

text \<open>
  The gates a lane has to pass (\<open>spec-build-driver/src/actions.rs\<close> and \<open>tally-core/src/campaign_protection.rs\<close>):
  the paths a lane changed in its history, the forbidden patterns, the protected set, and the declared
  conflict domains. \<open>str::to_lowercase\<close> is the parameter \<open>lower\<close>.
\<close>

section \<open>Paths a lane changed\<close>

text \<open>\<open>str::split_whitespace\<close>.\<close>

fun ws_break :: "string \<Rightarrow> string \<times> string" where
  "ws_break [] = ([], [])"
| "ws_break (c # cs) =
     (if ws_prefix (map byte (c # cs)) \<noteq> 0 then ([], c # cs)
      else case ws_break cs of (a, b) \<Rightarrow> (c # a, b))"

lemma ws_break_append: "fst (ws_break s) @ snd (ws_break s) = s"
  by (induction s) (auto split: prod.splits)

lemma trim_start_first: "trim_start s = c # cs \<Longrightarrow> ws_prefix (map byte (c # cs)) = 0"
  by (induction s rule: trim_start.induct) (metis (no_types, lifting) list.distinct(1) list.map_disc_iff trim_start.simps)

lemma trim_start_le: "length (trim_start s) \<le> length s"
proof (induction s rule: trim_start.induct)
  case (1 s)
  show ?case
  proof (cases "s = [] \<or> ws_prefix (map byte s) = 0")
    case True
    then show ?thesis by (simp add: trim_start.simps [of s])
  next
    case False
    then have "length (trim_start (drop (ws_prefix (map byte s)) s)) \<le> length s"
      using "1.IH" by (metis (no_types, lifting) False diff_le_self le_trans length_drop)
    then show ?thesis using False by (subst trim_start.simps) simp
  qed
qed

function split_whitespace :: "string \<Rightarrow> string list" where
  "split_whitespace s =
     (case trim_start s of [] \<Rightarrow> [] | c # cs \<Rightarrow> fst (ws_break (c # cs)) # split_whitespace (snd (ws_break (c # cs))))"
  by pat_completeness auto
termination
proof (relation "measure length", simp)
  fix s c cs
  assume s: "trim_start s = c # cs"
  have "snd (ws_break (c # cs)) = snd (ws_break cs)" using trim_start_first [OF s] by (auto split: prod.split)
  moreover have "length (snd (ws_break cs)) \<le> length cs" using ws_break_append [of cs] by (metis le_add2 length_append)
  ultimately show "(snd (ws_break (c # cs)), s) \<in> measure length"
    using trim_start_le [of s] s by simp
qed

declare split_whitespace.simps [simp del]

text \<open>The first entries of a list and how many more there are.\<close>

definition preview :: "nat \<Rightarrow> string \<Rightarrow> string \<Rightarrow> string list \<Rightarrow> string" where
  "preview n sep lead xs =
     join_text sep (take n xs) @ (if length xs > n then lead @ show_nat (length xs - n) @ '' more'' else [])"

definition reject_merge_commits :: "'w GitEnv \<Rightarrow> string \<Rightarrow> string \<Rightarrow> string \<Rightarrow> ('w GitWorld, unit) act" where
  "reject_merge_commits env worktree union_base head =
     and_then (git env worktree [''rev-list'', ''--merges'', ''--end-of-options'', union_base @ ''..'' @ head, ''--''] True) (\<lambda>out.
       let commits = split_whitespace (stdout_text out)
       in if commits = [] then give ()
          else refuse (''task lane history contains '' @ show_nat (length commits) @ '' merge commit(s) (''
                       @ preview 5 '', '' '', and '' commits @ ''); rebase instead of merging the base into your lane''))"

definition lane_union_base ::
  "'w GitEnv \<Rightarrow> string \<Rightarrow> string \<Rightarrow> string \<Rightarrow> string option \<Rightarrow> ('w GitWorld, string) act" where
  "lane_union_base env worktree base_rev head current_base =
     (case current_base of
        None \<Rightarrow> give base_rev
      | Some current \<Rightarrow>
          if current = base_rev then give base_rev
          else
            and_then (git env worktree [''merge-base'', ''--end-of-options'', head, current] False) (\<lambda>resolved.
              let fork = stdout_trimmed resolved
              in if \<not> success resolved \<or> \<not> is_full_oid fork \<or> fork = base_rev then give base_rev
                 else
                   and_then (git env worktree [''merge-base'', ''--is-ancestor'', base_rev, fork] False) (\<lambda>anc.
                     if \<not> success anc then give base_rev else give fork)))"

text \<open>The entries of NUL-separated output, decoded, distinct and in order.\<close>

definition listed_paths :: "string \<Rightarrow> string list" where
  "listed_paths out =
     map fst (fold (\<lambda>p. btree_insert p ()) (map from_utf8_lossy (filter (\<lambda>e. e \<noteq> []) (split_on (CHR 0x00) out))) [])"

definition changed_paths_in_history ::
  "'w GitEnv \<Rightarrow> string \<Rightarrow> string \<Rightarrow> string \<Rightarrow> bool \<Rightarrow> ('w GitWorld, string list) act" where
  "changed_paths_in_history env worktree union_base head include_deletions =
     (if \<not> is_full_oid union_base then refuse ''base revision must be a full Git object ID''
      else if \<not> is_full_oid head then refuse ''head revision must be a full Git object ID''
      else
        and_then (reject_merge_commits env worktree union_base head) (\<lambda>_.
        and_then (git env worktree [''log'', ''-m'', ''--format='', ''--name-only'', ''--no-renames'',
                    (if include_deletions then ''--diff-filter=ACDMTUXB'' else ''--diff-filter=ACMTUXB''),
                    ''-z'', ''--end-of-options'', union_base @ ''..'' @ head, ''--''] True) (\<lambda>changed.
        give (listed_paths (gout_stdout changed)))))"

section \<open>Forbidden paths\<close>

definition json_text :: "string \<Rightarrow> string" where
  "json_text s = stringify (DString s)"

definition violations :: "(string \<Rightarrow> string) \<Rightarrow> string list \<Rightarrow> string list \<Rightarrow> (string \<times> string list) list" where
  "violations lower changed patterns =
     filter (\<lambda>(path, matched). matched \<noteq> [])
       (map (\<lambda>path. (path, filter (path_glob_matches lower path) patterns)) changed)"

definition evaluate_forbid_paths ::
  "'w GitEnv \<Rightarrow> (string \<Rightarrow> string) \<Rightarrow> string \<Rightarrow> string \<Rightarrow> string \<Rightarrow> string \<Rightarrow> string list \<Rightarrow> ('w GitWorld, nat) act" where
  "evaluate_forbid_paths env lower worktree union_base head gate_id patterns =
     and_then (changed_paths_in_history env worktree union_base head False) (\<lambda>changed.
       let bad = violations lower changed patterns
       in if bad \<noteq> []
          then refuse (''forbidPaths gate '' @ [CHR 39] @ gate_id @ [CHR 39] @ '' rejected '' @ show_nat (length bad)
                 @ '' path(s) touched in lane history (a later removal does not clear this; the path must never appear in any lane commit): ''
                 @ preview 20 ''; '' ''; and ''
                     (map (\<lambda>(path, matched). json_text path @ '' (matched '' @ join_text '', '' (map json_text matched) @ '')'') bad))
          else give (length changed))"

section \<open>The protected set\<close>

datatype LaneProtection = GoverningSpec string

definition eq_ignore_ascii_case :: "string \<Rightarrow> string \<Rightarrow> bool" where
  "eq_ignore_ascii_case a b \<longleftrightarrow>
     map (\<lambda>c. if is_ascii_uppercase c then byte c + 32 else byte c) a
       = map (\<lambda>c. if is_ascii_uppercase c then byte c + 32 else byte c) b"

definition lane_protection :: "string \<Rightarrow> LaneProtection option" where
  "lane_protection path =
     (case split_on (CHR ''/'') path of
        root # identity # inner # _ \<Rightarrow>
          if eq_ignore_ascii_case root ''specs'' \<and> identity \<noteq> [] \<and> inner \<noteq> [] then Some (GoverningSpec identity) else None
      | _ \<Rightarrow> None)"

definition protected_lane_paths :: "string list \<Rightarrow> (string \<times> LaneProtection) list" where
  "protected_lane_paths paths =
     concat (map (\<lambda>p. case lane_protection p of None \<Rightarrow> [] | Some x \<Rightarrow> [(p, x)]) paths)"

definition protection_text :: "'w GitEnv \<Rightarrow> LaneProtection \<Rightarrow> string" where
  "protection_text env x =
     (case x of GoverningSpec identity \<Rightarrow>
        ''governing-spec-directory: the governing spec of identity '' @ ge_debug env identity)"

section \<open>Conflict domains\<close>

definition components :: "(string \<Rightarrow> string) \<Rightarrow> string \<Rightarrow> string list" where
  "components lower p = map lower (split_on (CHR ''/'') p)"

definition domains_overlap :: "(string \<Rightarrow> string) \<Rightarrow> string \<Rightarrow> string \<Rightarrow> bool" where
  "domains_overlap lower l r =
     (let width = min (length (components lower l)) (length (components lower r))
      in take width (components lower l) = take width (components lower r))"

record Ownership =
  ow_task_id :: string
  ow_domains_required :: bool
  ow_conflict_domains :: "string list option"
  ow_owned_paths :: "string list"
  ow_base_rev :: string
  ow_head :: string

definition protected_error :: "'w GitEnv \<Rightarrow> string \<Rightarrow> (string \<times> LaneProtection) list \<Rightarrow> string" where
  "protected_error env task_id bad =
     ''task '' @ ge_debug env task_id @ '' changed '' @ show_nat (length bad) @ '' path(s) in the protected set: ''
     @ preview 20 '', '' '', and '' (map (\<lambda>(p, x). json_text p @ '' ('' @ protection_text env x @ '')'') bad)
     @ ''; a declared conflictDomain does not grant a protected path -- these bytes move only by operator or coordinator hands. Hand the change to your final message and let the operator land it.''"

definition outside_error :: "'w GitEnv \<Rightarrow> string \<Rightarrow> string list \<Rightarrow> string list \<Rightarrow> string" where
  "outside_error env task_id outside domains =
     ''task '' @ ge_debug env task_id @ '' changed '' @ show_nat (length outside)
     @ '' path(s) outside its declared conflictDomains: '' @ preview 20 '', '' '', and '' (map json_text outside)
     @ ''; declared domains: '' @ join_text '', '' (map json_text domains)"

definition outside_paths :: "(string \<Rightarrow> string) \<Rightarrow> string list option \<Rightarrow> string list \<Rightarrow> string list" where
  "outside_paths lower domains changed =
     (case domains of
        None \<Rightarrow> []
      | Some ds \<Rightarrow> filter (\<lambda>path. \<not> list_ex (\<lambda>d. domains_overlap lower path d) ds) changed)"

definition enforce_conflict_domains ::
  "'w GitEnv \<Rightarrow> (string \<Rightarrow> string) \<Rightarrow> string \<Rightarrow> string \<Rightarrow> string \<Rightarrow> DJson option \<Rightarrow> string \<Rightarrow> bool \<Rightarrow> string option
     \<Rightarrow> ('w GitWorld, Ownership) act" where
  "enforce_conflict_domains env lower worktree base_rev head task expected_task_id domains_required current_base =
     (case Option.bind task Driver_Json.as_object of
        None \<Rightarrow> refuse ''task must be an object''
      | Some obj \<Rightarrow>
          and_then (lift (required_string (map_of obj ''id'') ''task.id'' None)) (\<lambda>task_id.
            if \<not> is_task_id task_id then refuse ''task.id is not safe''
            else if task_id \<noteq> expected_task_id then refuse ''task.id does not match workspace.taskId''
            else
              and_then (lift (normalize_paths (map_of obj ''conflictDomains'') ''task.conflictDomains'' domains_required)) (\<lambda>domains.
                if \<not> is_full_oid base_rev then refuse ''base revision must be a full Git object ID''
                else if \<not> is_full_oid head then refuse ''head revision must be a full Git object ID''
                else
                  and_then (lane_union_base env worktree base_rev head current_base) (\<lambda>union_base.
                  and_then (changed_paths_in_history env worktree union_base head True) (\<lambda>changed.
                    let bad = protected_lane_paths changed; outside = outside_paths lower domains changed
                    in if bad \<noteq> [] then refuse (protected_error env task_id bad)
                       else if outside \<noteq> []
                       then refuse (outside_error env task_id outside (case domains of None \<Rightarrow> [] | Some ds \<Rightarrow> ds))
                       else give \<lparr>ow_task_id = task_id, ow_domains_required = domains_required, ow_conflict_domains = domains,
                                  ow_owned_paths = changed, ow_base_rev = base_rev, ow_head = head\<rparr>)))))"

section \<open>What the gates establish\<close>

lemma violations_empty:
  "violations lower changed patterns = [] \<longleftrightarrow>
    \<not> (\<exists>path pattern. path \<in> set changed \<and> pattern \<in> set patterns \<and> names_path lower pattern path)"
  by (auto simp: violations_def filter_empty_conv path_glob_correct)

text \<open>
  C13. The gate on forbidden paths decides the declared meaning of its patterns: it accepts exactly when the
  history of the lane could be listed and no pattern names a path of it, in the sense of the relations
  \<open>glob\<close> and \<open>path_glob\<close>. The memo tables, the scan for the closing bracket and the loop over a
  class change nothing. On acceptance it reports the number of paths it looked at.
\<close>

theorem forbid_paths_exact:
  "evaluate_forbid_paths env lower worktree union_base head gate_id patterns w = (Inr n, w') \<longleftrightarrow>
     (\<exists>changed. changed_paths_in_history env worktree union_base head False w = (Inr changed, w') \<and> n = length changed \<and>
        \<not> (\<exists>path pattern. path \<in> set changed \<and> pattern \<in> set patterns \<and> names_path lower pattern path))"
  unfolding evaluate_forbid_paths_def violations_empty [symmetric]
  by (auto simp: and_then_def Let_def give_def refuse_def split: prod.splits sum.splits)

lemma enforced:
  assumes "enforce_conflict_domains env lower worktree base_rev head task expected needed current w = (Inr ow, w')"
  shows "protected_lane_paths (ow_owned_paths ow) = []"
    and "outside_paths lower (ow_conflict_domains ow) (ow_owned_paths ow) = []"
  using assms unfolding enforce_conflict_domains_def
  by (auto simp: Let_def give_def refuse_def lift_def elim!: and_then_cases split: option.splits if_splits)

lemma protected_none: "protected_lane_paths paths = [] \<Longrightarrow> p \<in> set paths \<Longrightarrow> lane_protection p = None"
  by (auto simp: protected_lane_paths_def split: option.splits)

text \<open>Two component lists overlap when one is a prefix of the other.\<close>

lemma overlap_prefix:
  "domains_overlap lower l r \<longleftrightarrow>
     prefix (components lower l) (components lower r) \<or> prefix (components lower r) (components lower l)"
proof -
  have "take (min (length xs) (length ys)) xs = take (min (length xs) (length ys)) ys \<longleftrightarrow> prefix xs ys \<or> prefix ys xs"
    for xs ys :: "string list"
  proof (cases "length xs \<le> length ys")
    case True
    then have "take (length xs) ys = xs \<longleftrightarrow> prefix xs ys" by (metis append_eq_conv_conj prefix_def take_is_prefix)
    moreover have "prefix ys xs \<Longrightarrow> xs = ys" using True by (auto simp: prefix_def)
    ultimately show ?thesis using True by (auto simp: min_def)
  next
    case False
    then have "take (length ys) xs = ys \<longleftrightarrow> prefix ys xs" by (metis append_eq_conv_conj prefix_def take_is_prefix)
    moreover have "\<not> prefix xs ys" using False prefix_length_le by blast
    ultimately show ?thesis using False by (auto simp: min_def)
  qed
  then show ?thesis by (simp add: domains_overlap_def Let_def)
qed

lemma inside_domain:
  assumes "outside_paths lower (Some ds) paths = []" "p \<in> set paths"
  obtains d where "d \<in> set ds" "domains_overlap lower p d"
  using assms by (auto simp: outside_paths_def filter_empty_conv list_ex_iff)

text \<open>
  A path in two domains that do not overlap lies above both: below one of them it would have to be
  below, or above, the other one as well.
\<close>

lemma two_domains:
  assumes "domains_overlap lower p a" "domains_overlap lower p b" "\<not> domains_overlap lower a b"
  shows "strict_prefix (components lower p) (components lower a)" "strict_prefix (components lower p) (components lower b)"
  using assms unfolding overlap_prefix strict_prefix_def
  by (metis prefix_order.trans prefix_same_cases)+

text \<open>
  Two lanes that both pass the ownership gate and whose declared domains do not overlap pairwise do not
  change the same path, unless it lies strictly above a domain of each (as \<open>src\<close> does for
  \<open>src/a\<close> and \<open>src/b\<close>). No path of an accepted lane is in the protected set.
\<close>

theorem lanes_disjoint:
  assumes "enforce_conflict_domains env lower worktree base head task task_id needed current w = (Inr own, w1)"
    and "enforce_conflict_domains env' lower worktree' base' head' task' task_id' needed' current' w2 = (Inr own', w3)"
    and "ow_conflict_domains own = Some ds" "ow_conflict_domains own' = Some ds'"
    and "\<forall>d\<in>set ds. \<forall>d'\<in>set ds'. \<not> domains_overlap lower d d'"
    and "path \<in> set (ow_owned_paths own)" "path \<in> set (ow_owned_paths own')"
  shows "lane_protection path = None \<and>
    (\<exists>d\<in>set ds. \<exists>d'\<in>set ds'. strict_prefix (components lower path) (components lower d) \<and>
                                strict_prefix (components lower path) (components lower d'))"
proof (intro conjI)
  note e1 = enforced [OF assms(1)] and e2 = enforced [OF assms(2)]
  show "lane_protection path = None" using protected_none [OF e1(1) assms(6)] .
  obtain d where d: "d \<in> set ds" "domains_overlap lower path d"
    using inside_domain e1(2) assms(3,6) by metis
  obtain d' where d': "d' \<in> set ds'" "domains_overlap lower path d'"
    using inside_domain e2(2) assms(4,7) by metis
  show "\<exists>d\<in>set ds. \<exists>d'\<in>set ds'. strict_prefix (components lower path) (components lower d) \<and>
                                strict_prefix (components lower path) (components lower d')"
    using two_domains [OF d(2) d'(2)] assms(5) d(1) d'(1) by blast
qed

end
