(* ===== verification/Attempts.thy ===== *)
theory Attempts
  imports Worklist_Tasks
begin

text \<open>
  Attempt receipts (\<open>spec-build-driver/src/actions.rs\<close>): the events of a campaign's log and the state the
  driver folds them into. Maps are the sorted lists of their entries; a count of receipts is far below
  the range of \<open>usize\<close>, since the log is at most 128 MiB, and is a natural number.
\<close>

section \<open>Events\<close>

datatype DiagnosisVerdict = Retry | Blocked | Transient

definition verdict_text :: "DiagnosisVerdict \<Rightarrow> string" where
  "verdict_text v = (case v of Retry \<Rightarrow> ''retry'' | Blocked \<Rightarrow> ''blocked'' | Transient \<Rightarrow> ''transient'')"

definition parse_verdict :: "DJson option \<Rightarrow> string \<Rightarrow> string + DiagnosisVerdict option" where
  "parse_verdict v context =
     (case v of
        None \<Rightarrow> Inr None
      | Some j \<Rightarrow>
          (if as_string j = Some ''retry'' then Inr (Some Retry)
           else if as_string j = Some ''blocked'' then Inr (Some Blocked)
           else if as_string j = Some ''transient'' then Inr (Some Transient)
           else Inl (context @ '' must be retry, blocked, or transient'')))"

record VisibleAttempt =
  va_task_id :: string
  va_attempt :: u64
  va_comment :: string
  va_text :: string
  va_input_epoch :: "string option"
  va_verdict :: "DiagnosisVerdict option"
  va_proposal :: "DJson option"

definition effective_verdict :: "VisibleAttempt \<Rightarrow> DiagnosisVerdict" where
  "effective_verdict a =
     (case va_verdict a of Some v \<Rightarrow> v | None \<Rightarrow> if va_attempt a = 2 then Blocked else Retry)"

definition blocks_task :: "VisibleAttempt \<Rightarrow> bool" where
  "blocks_task a \<longleftrightarrow> va_attempt a = 2 \<or> effective_verdict a = Blocked"

definition diagnosis_json :: "VisibleAttempt \<Rightarrow> DJson" where
  "diagnosis_json a =
     json_object
       ([(''taskId'', DString (va_task_id a)), (''attempt'', json_usize (unat (va_attempt a))), (''comment'', DString (va_comment a)),
         (''diagnosis'', DString (va_text a)), (''verdict'', DString (verdict_text (effective_verdict a)))]
        @ (case va_proposal a of None \<Rightarrow> [] | Some p \<Rightarrow> [(''proposal'', p)]))"

definition retry_json :: "VisibleAttempt \<Rightarrow> DJson" where
  "retry_json a =
     json_object
       [(''taskId'', DString (va_task_id a)), (''attempt'', json_usize (unat (va_attempt a))), (''comment'', DString (va_comment a)),
        (''reason'', DString (va_text a))]"

datatype WorkerOutcome = NeedsAuthority "string list" | Impossible string

definition outcome_class :: "WorkerOutcome \<Rightarrow> string" where
  "outcome_class out = (case out of NeedsAuthority _ \<Rightarrow> ''needs-authority'' | Impossible _ \<Rightarrow> ''impossible'')"

definition paths_json :: "WorkerOutcome \<Rightarrow> DJson" where
  "paths_json out = (case out of NeedsAuthority paths \<Rightarrow> strings paths | Impossible _ \<Rightarrow> DNull)"

definition reason_json :: "WorkerOutcome \<Rightarrow> DJson" where
  "reason_json out = (case out of NeedsAuthority _ \<Rightarrow> DNull | Impossible reason \<Rightarrow> DString reason)"

definition needs_authority :: "WorkerOutcome \<Rightarrow> bool" where
  "needs_authority out \<longleftrightarrow> (case out of NeedsAuthority _ \<Rightarrow> True | Impossible _ \<Rightarrow> False)"

record VisibleWorkerOutcome =
  vo_task_id :: string
  vo_task_revision :: string
  vo_task_uuid :: string
  vo_comment :: string
  vo_input_epoch :: "string option"
  vo_outcome :: WorkerOutcome

definition worker_outcome_json :: "VisibleWorkerOutcome \<Rightarrow> DJson" where
  "worker_outcome_json out =
     json_object
       [(''taskId'', DString (vo_task_id out)), (''taskRevision'', DString (vo_task_revision out)),
        (''taskUuid'', DString (vo_task_uuid out)), (''outcome'', DString (outcome_class (vo_outcome out))),
        (''comment'', DString (vo_comment out)), (''paths'', paths_json (vo_outcome out)),
        (''reason'', reason_json (vo_outcome out))]"

datatype AttemptEvent =
    DiagnosisEvent VisibleAttempt
  | RetryEvent VisibleAttempt
  | OutcomeEvent VisibleWorkerOutcome
  | EscalationEvent string
  | PardonEvent "string list option" string

section \<open>Folding the log\<close>

definition MAX_TASK_LIFETIME_ATTEMPTS :: nat where
  "MAX_TASK_LIFETIME_ATTEMPTS = 10"

record AttemptState =
  as_diagnoses :: "VisibleAttempt list"
  as_retries :: "VisibleAttempt list"
  as_outcomes :: "VisibleWorkerOutcome list"
  as_escalation :: "string option"
  as_lifetime_attempts :: "(string \<times> nat) list"
  as_lifetime_exhausted :: "string list"
  as_warnings :: "string list"

text \<open>The local variables of the fold.\<close>

record FoldState =
  fs_diagnoses :: "(string \<times> VisibleAttempt list) list"
  fs_retries :: "(string \<times> VisibleAttempt list) list"
  fs_outcomes :: "(string \<times> VisibleWorkerOutcome list) list"
  fs_diagnosis_counters :: "(string \<times> u64 list) list"
  fs_retry_counters :: "(string \<times> u64 list) list"
  fs_authority :: "string list"
  fs_escalations :: "(string \<times> string list \<times> string list) list"
  fs_lifetime :: "(string \<times> nat) list"
  fs_warnings :: "string list"

definition fold_start :: FoldState where
  "fold_start =
     \<lparr>fs_diagnoses = [], fs_retries = [], fs_outcomes = [], fs_diagnosis_counters = [], fs_retry_counters = [], fs_authority = [],
      fs_escalations = [], fs_lifetime = [], fs_warnings = []\<rparr>"

definition entry :: "string \<Rightarrow> (string \<times> 'a list) list \<Rightarrow> 'a list" where
  "entry k m = (case map_of m k of None \<Rightarrow> [] | Some xs \<Rightarrow> xs)"

definition push_at :: "string \<Rightarrow> 'a \<Rightarrow> (string \<times> 'a list) list \<Rightarrow> (string \<times> 'a list) list" where
  "push_at k x m = btree_insert k (entry k m @ [x]) m"

definition remove_at :: "string \<Rightarrow> (string \<times> 'a) list \<Rightarrow> (string \<times> 'a) list" where
  "remove_at k m = filter (\<lambda>(k', _). k' \<noteq> k) m"

definition rows :: "(string \<times> 'a list) list \<Rightarrow> nat" where
  "rows m = sum_list (map (\<lambda>(_, xs). length xs) m)"

definition quoted :: "string \<Rightarrow> string" where
  "quoted s = [CHR 39] @ s @ [CHR 39]"

definition warn :: "string \<Rightarrow> FoldState \<Rightarrow> FoldState" where
  "warn message s = s\<lparr>fs_warnings := fs_warnings s @ [message]\<rparr>"

definition belongs_to_current_epoch :: "string \<Rightarrow> string option \<Rightarrow> (string \<times> string) list \<Rightarrow> bool" where
  "belongs_to_current_epoch t receipt_epoch current_epochs \<longleftrightarrow>
     current_epochs = [] \<or> receipt_epoch = None \<or> map_of current_epochs t = receipt_epoch"

definition attempts_of :: "bool \<Rightarrow> FoldState \<Rightarrow> (string \<times> VisibleAttempt list) list" where
  "attempts_of diagnosis s = (if diagnosis then fs_diagnoses s else fs_retries s)"

definition keep_attempt ::
  "VisibleAttempt \<Rightarrow> bool \<Rightarrow> (string \<times> string option) list \<Rightarrow> (string \<times> string) list \<Rightarrow> FoldState \<Rightarrow> FoldState" where
  "keep_attempt receipt diagnosis task_revisions current_epochs s =
     (let kind = (if diagnosis then ''diagnosis'' else ''retry''); t = va_task_id receipt;
          s1 = s\<lparr>fs_lifetime := btree_insert t ((case map_of (fs_lifetime s) t of None \<Rightarrow> 0 | Some n \<Rightarrow> n) + 1) (fs_lifetime s)\<rparr>
      in if map_of task_revisions t = None
         then warn (''dropped machine '' @ kind @ '' for '' @ quoted t @ '': the worklist no longer names that task'') s1
         else if \<not> belongs_to_current_epoch t (va_input_epoch receipt) current_epochs then s1
         else
           let s2 = (if diagnosis then s1\<lparr>fs_diagnosis_counters := push_at t (va_attempt receipt) (fs_diagnosis_counters s1)\<rparr>
                     else s1\<lparr>fs_retry_counters := push_at t (va_attempt receipt) (fs_retry_counters s1)\<rparr>);
               kept = entry t (attempts_of diagnosis s2);
               expected = of_nat (length kept) + 1
           in if va_attempt receipt \<noteq> expected
              then warn (''dropped machine '' @ kind @ '' for '' @ quoted t @ '' attempt '' @ show_nat (unat (va_attempt receipt))
                         @ '': no attempt '' @ show_nat (unat expected) @ '' receipt precedes it'')
                     (if diagnosis then s2\<lparr>fs_diagnoses := btree_insert t kept (fs_diagnoses s2)\<rparr>
                      else s2\<lparr>fs_retries := btree_insert t kept (fs_retries s2)\<rparr>)
              else if diagnosis then s2\<lparr>fs_diagnoses := push_at t receipt (fs_diagnoses s2)\<rparr>
              else s2\<lparr>fs_retries := push_at t receipt (fs_retries s2)\<rparr>)"

definition keep_current_outcome :: "VisibleWorkerOutcome \<Rightarrow> (string \<times> string) list \<Rightarrow> FoldState \<Rightarrow> FoldState" where
  "keep_current_outcome receipt current_epochs s =
     (let t = vo_task_id receipt
      in if \<not> belongs_to_current_epoch t (vo_input_epoch receipt) current_epochs then s
         else
           s\<lparr>fs_authority := (if needs_authority (vo_outcome receipt) \<and> t \<notin> set (fs_authority s) then fs_authority s @ [t] else fs_authority s),
             fs_outcomes := push_at t receipt (fs_outcomes s)\<rparr>)"

definition keep_outcome ::
  "VisibleWorkerOutcome \<Rightarrow> (string \<times> string option) list \<Rightarrow> (string \<times> string) list \<Rightarrow> FoldState \<Rightarrow> FoldState" where
  "keep_outcome receipt task_revisions current_epochs s =
     (let t = vo_task_id receipt
      in case map_of task_revisions t of
           None \<Rightarrow> warn (''dropped worker outcome for '' @ quoted t @ '': the worklist no longer names that task'') s
         | Some expected_revision \<Rightarrow>
             (case expected_revision of
                Some revision \<Rightarrow>
                  if revision \<noteq> vo_task_revision receipt
                  then warn (''dropped worker outcome for '' @ quoted t @ '': receipt revision '' @ vo_task_revision receipt
                             @ '' does not match current revision '' @ revision) s
                  else keep_current_outcome receipt current_epochs s
              | None \<Rightarrow> keep_current_outcome receipt current_epochs s))"

definition exhausted :: "(string \<times> string option) list \<Rightarrow> (string \<times> nat) list \<Rightarrow> string list" where
  "exhausted task_revisions lifetime =
     map fst (filter (\<lambda>(t, n). map_of task_revisions t \<noteq> None \<and> n \<ge> MAX_TASK_LIFETIME_ATTEMPTS) lifetime)"

definition escalate :: "string \<Rightarrow> (string \<times> string option) list \<Rightarrow> FoldState \<Rightarrow> FoldState" where
  "escalate comment task_revisions s =
     (let contributors = map fst (filter (\<lambda>(_, ds). list_ex blocks_task ds) (fs_diagnoses s)) @ fs_authority s
                         @ exhausted task_revisions (fs_lifetime s)
      in if contributors \<noteq> [] then s\<lparr>fs_escalations := fs_escalations s @ [(comment, contributors, [])]\<rparr> else s)"

text \<open>
  A pardon erases what is visible and counted, for some tasks or for all; an escalation is gone once
  every task that contributed to it was pardoned. The lifetime count stays.
\<close>

definition pardon_task :: "string \<Rightarrow> FoldState \<Rightarrow> FoldState" where
  "pardon_task t s =
     s\<lparr>fs_diagnosis_counters := remove_at t (fs_diagnosis_counters s), fs_retry_counters := remove_at t (fs_retry_counters s),
       fs_diagnoses := remove_at t (fs_diagnoses s), fs_retries := remove_at t (fs_retries s),
       fs_outcomes := remove_at t (fs_outcomes s), fs_authority := removeAll t (fs_authority s)\<rparr>"

definition task_receipts :: "string \<Rightarrow> FoldState \<Rightarrow> nat" where
  "task_receipts t s =
     length (entry t (fs_diagnosis_counters s)) + length (entry t (fs_retry_counters s)) + length (entry t (fs_outcomes s))"

definition cover :: "string list \<Rightarrow> string \<times> string list \<times> string list \<Rightarrow> string \<times> string list \<times> string list" where
  "cover scope = (\<lambda>(comment, contributors, covered). (comment, contributors, covered @ filter (\<lambda>t. t \<in> set contributors) scope))"

definition fully_covered :: "string \<times> string list \<times> string list \<Rightarrow> bool" where
  "fully_covered = (\<lambda>(_, contributors, covered). contributors \<noteq> [] \<and> set contributors \<subseteq> set covered)"

definition pardon_step :: "string \<Rightarrow> nat \<times> FoldState \<Rightarrow> nat \<times> FoldState" where
  "pardon_step t = (\<lambda>(n, s). (n + task_receipts t s, pardon_task t s))"

definition pardon_scope :: "string list \<Rightarrow> FoldState \<Rightarrow> nat \<times> FoldState" where
  "pardon_scope tasks s =
     (let scope = sort (remdups tasks);
          (n, s1) = fold pardon_step scope (0, s);
          seen = map (cover scope) (fs_escalations s1)
      in (n + length (filter fully_covered seen), s1\<lparr>fs_escalations := filter (\<lambda>e. \<not> fully_covered e) seen\<rparr>))"

definition pardon_all :: "FoldState \<Rightarrow> nat \<times> FoldState" where
  "pardon_all s =
     (rows (fs_diagnosis_counters s) + rows (fs_retry_counters s) + rows (fs_outcomes s) + length (fs_escalations s),
      s\<lparr>fs_diagnosis_counters := [], fs_retry_counters := [], fs_diagnoses := [], fs_retries := [], fs_outcomes := [],
        fs_authority := [], fs_escalations := []\<rparr>)"

definition pardon :: "string list option \<Rightarrow> string \<Rightarrow> FoldState \<Rightarrow> FoldState" where
  "pardon tasks comment s =
     (let (n, s1) = (case tasks of Some ts \<Rightarrow> pardon_scope ts s | None \<Rightarrow> pardon_all s);
          scope = (case tasks of None \<Rightarrow> [] | Some ts \<Rightarrow> '' for task(s) '' @ join_text '', '' (map quoted (sort ts)))
      in if n \<noteq> 0
         then warn (''campaign pardon '' @ comment @ '' pardoned '' @ show_nat n @ '' earlier machine receipt(s)'' @ scope) s1
         else s1)"

definition fold_event :: "(string \<times> string option) list \<Rightarrow> (string \<times> string) list \<Rightarrow> AttemptEvent \<Rightarrow> FoldState \<Rightarrow> FoldState" where
  "fold_event task_revisions current_epochs event s =
     (case event of
        DiagnosisEvent receipt \<Rightarrow> keep_attempt receipt True task_revisions current_epochs s
      | RetryEvent receipt \<Rightarrow> keep_attempt receipt False task_revisions current_epochs s
      | OutcomeEvent receipt \<Rightarrow> keep_outcome receipt task_revisions current_epochs s
      | EscalationEvent comment \<Rightarrow> escalate comment task_revisions s
      | PardonEvent tasks comment \<Rightarrow> pardon tasks comment s)"

definition latch_warning :: "(string \<times> nat) list \<Rightarrow> string \<Rightarrow> string" where
  "latch_warning lifetime t =
     ''task '' @ t @ '' latched for human attention after '' @ show_nat (case map_of lifetime t of None \<Rightarrow> 0 | Some n \<Rightarrow> n)
     @ '' lifetime attempt receipts (hard limit '' @ show_nat MAX_TASK_LIFETIME_ATTEMPTS @ '')''"

definition attempt_state :: "(string \<times> string option) list \<Rightarrow> FoldState \<Rightarrow> string + AttemptState" where
  "attempt_state task_revisions s =
     (if length (fs_escalations s) > 1 then Inl ''multiple machine escalations claim this campaign''
      else
        let spent = exhausted task_revisions (fs_lifetime s)
        in Inr \<lparr>as_diagnoses = sort_key (\<lambda>a. (va_task_id a, va_attempt a)) (concat (map snd (fs_diagnoses s))),
                as_retries = sort_key (\<lambda>a. (va_task_id a, va_attempt a)) (concat (map snd (fs_retries s))),
                as_outcomes = concat (map snd (fs_outcomes s)),
                as_escalation = (case fs_escalations s of [] \<Rightarrow> None | (comment, _) # _ \<Rightarrow> Some comment),
                as_lifetime_attempts = fs_lifetime s, as_lifetime_exhausted = spent,
                as_warnings = fs_warnings s @ map (latch_warning (fs_lifetime s)) spent\<rparr>)"

definition fold_attempt_receipts ::
  "AttemptEvent list \<Rightarrow> (string \<times> string option) list \<Rightarrow> (string \<times> string) list \<Rightarrow> string + AttemptState" where
  "fold_attempt_receipts events task_revisions current_epochs =
     attempt_state task_revisions (fold (fold_event task_revisions current_epochs) events fold_start)"

fun observed_revision :: "AttemptEvent \<Rightarrow> (string \<times> string option) list \<Rightarrow> (string \<times> string option) list" where
  "observed_revision (DiagnosisEvent a) m = (if map_of m (va_task_id a) = None then btree_insert (va_task_id a) None m else m)"
| "observed_revision (RetryEvent a) m = (if map_of m (va_task_id a) = None then btree_insert (va_task_id a) None m else m)"
| "observed_revision (OutcomeEvent a) m = btree_insert (vo_task_id a) (Some (vo_task_revision a)) m"
| "observed_revision _ m = m"

definition attempt_state_all :: "AttemptEvent list \<Rightarrow> (string \<times> string) list \<Rightarrow> string + AttemptState" where
  "attempt_state_all events current_epochs =
     fold_attempt_receipts events (fold observed_revision events []) current_epochs"

section \<open>The lifetime count\<close>

fun attempt_for :: "string \<Rightarrow> AttemptEvent \<Rightarrow> bool" where
  "attempt_for t (DiagnosisEvent a) \<longleftrightarrow> va_task_id a = t"
| "attempt_for t (RetryEvent a) \<longleftrightarrow> va_task_id a = t"
| "attempt_for t _ \<longleftrightarrow> False"

definition lifetime :: "string \<Rightarrow> FoldState \<Rightarrow> nat" where
  "lifetime t s = (case map_of (fs_lifetime s) t of None \<Rightarrow> 0 | Some n \<Rightarrow> n)"

lemma warn_lifetime [simp]: "fs_lifetime (warn message s) = fs_lifetime s"
  by (simp add: warn_def)

lemma keep_attempt_lifetime:
  "fs_lifetime (keep_attempt receipt d revs epochs s) =
     btree_insert (va_task_id receipt) (lifetime (va_task_id receipt) s + 1) (fs_lifetime s)"
  by (simp add: keep_attempt_def Let_def lifetime_def)

lemma keep_outcome_lifetime [simp]: "fs_lifetime (keep_outcome receipt revs epochs s) = fs_lifetime s"
  by (simp add: keep_outcome_def keep_current_outcome_def Let_def split: option.splits)

lemma escalate_lifetime [simp]: "fs_lifetime (escalate comment revs s) = fs_lifetime s"
  by (simp add: escalate_def Let_def)

lemma pardon_scope_lifetime: "fs_lifetime (snd (pardon_scope ts s)) = fs_lifetime s"
proof -
  have same: "fs_lifetime (snd (fold pardon_step scope acc)) = fs_lifetime (snd acc)" for scope acc
    by (induction scope arbitrary: acc) (auto simp: pardon_task_def pardon_step_def split: prod.split)
  obtain n s1 where f: "fold pardon_step (sort (remdups ts)) (0, s) = (n, s1)" by fastforce
  then have "fs_lifetime s1 = fs_lifetime s" using same [of "sort (remdups ts)" "(0, s)"] by simp
  then show ?thesis by (simp add: pardon_scope_def Let_def f)
qed

lemma pardon_lifetime [simp]: "fs_lifetime (pardon tasks comment s) = fs_lifetime s"
proof -
  have "fs_lifetime s1 = fs_lifetime s" if "(case tasks of Some ts \<Rightarrow> pardon_scope ts s | None \<Rightarrow> pardon_all s) = (n, s1)" for n s1
    using that pardon_scope_lifetime [of _ s] by (cases tasks) (auto simp: pardon_all_def, metis snd_conv)
  then show ?thesis by (simp add: pardon_def Let_def split: prod.split)
qed

text \<open>Nothing but an attempt moves the count, and each moves it by one.\<close>

lemma fold_event_lifetime:
  assumes "sorted_wrt (<) (map fst (fs_lifetime s))"
  shows "sorted_wrt (<) (map fst (fs_lifetime (fold_event revs epochs e s)))"
    and "lifetime t (fold_event revs epochs e s) = lifetime t s + (if attempt_for t e then 1 else 0)"
  using assms btree_insert_sorted [of "fs_lifetime s"]
  by (cases e; auto simp: fold_event_def keep_attempt_lifetime map_of_btree_insert lifetime_def)+

lemma fold_lifetime:
  "sorted_wrt (<) (map fst (fs_lifetime s)) \<Longrightarrow>
     sorted_wrt (<) (map fst (fs_lifetime (fold (fold_event revs epochs) events s))) \<and>
     lifetime t (fold (fold_event revs epochs) events s) = lifetime t s + length (filter (attempt_for t) events)"
  by (induction events arbitrary: s) (auto simp: fold_event_lifetime)

text \<open>
  A task latches when its receipts of all time reach the limit: no pardon, no new epoch and no change of the
  worklist gives it another attempt.
\<close>

lemma exhausted_iff:
  assumes "fold_attempt_receipts events revs epochs = Inr st"
  shows "t \<in> set (as_lifetime_exhausted st) \<longleftrightarrow>
    map_of revs t \<noteq> None \<and> MAX_TASK_LIFETIME_ATTEMPTS \<le> length (filter (attempt_for t) events)"
proof -
  let ?s = "fold (fold_event revs epochs) events fold_start"
  have s: "sorted_wrt (<) (map fst (fs_lifetime ?s))" "lifetime t ?s = length (filter (attempt_for t) events)"
    using fold_lifetime [of fold_start revs epochs events t] by (simp_all add: fold_start_def lifetime_def)
  then have d: "distinct (map fst (fs_lifetime ?s))" using strict_sorted_iff by blast
  have "as_lifetime_exhausted st = exhausted revs (fs_lifetime ?s)"
    using assms by (auto simp: fold_attempt_receipts_def attempt_state_def Let_def split: if_splits)
  moreover have "(\<exists>n. (t, n) \<in> set (fs_lifetime ?s) \<and> MAX_TASK_LIFETIME_ATTEMPTS \<le> n) \<longleftrightarrow> MAX_TASK_LIFETIME_ATTEMPTS \<le> lifetime t ?s"
    unfolding lifetime_def map_of_eq_Some_iff [OF d, symmetric]
    by (auto simp: MAX_TASK_LIFETIME_ATTEMPTS_def split: option.splits)
  ultimately show ?thesis using s(2) by (force simp: exhausted_def)
qed

end
