(* ===== verification/Frontier.thy ===== *)
theory Frontier
  imports Worklist Lane_Gates Attempts
begin

text \<open>
  What a reconciliation dispatches next (the second half of \<open>action_reconcile\<close> in
  \<open>spec-build-driver/src/actions.rs\<close>): the tasks that remain, those a stuck task blocks, those that are
  ready, and the frontier, which is as many ready tasks as may run beside each other. The facts about
  finished tasks and the folded attempt receipts are its inputs.
\<close>

section \<open>Related tasks\<close>

definition task_conflicts :: "(string \<Rightarrow> string) \<Rightarrow> DJson \<Rightarrow> DJson list \<Rightarrow> bool" where
  "task_conflicts lower task selected \<longleftrightarrow>
     list_ex (\<lambda>l. list_ex (\<lambda>other. list_ex (\<lambda>r. domains_overlap lower l r) (task_domains other)) selected) (task_domains task)"

text \<open>One turn of the walk: names not seen before are noted and pushed on the stack.\<close>

definition note_name :: "string \<Rightarrow> string list \<times> string list \<Rightarrow> string list \<times> string list" where
  "note_name d = (\<lambda>(related, frontier). if d \<in> set related then (related, frontier) else (d # related, d # frontier))"

lemma note_names:
  "fold note_name ds (related, frontier) = (related', frontier') \<Longrightarrow> set related' = set related \<union> set ds"
  by (induction ds arbitrary: related frontier) (auto simp: note_name_def split: if_splits)

lemma note_known: "set ds \<subseteq> set related \<Longrightarrow> fold note_name ds (related, frontier) = (related, frontier)"
  by (induction ds) (auto simp: note_name_def)

definition all_names :: "(string \<times> string list) list \<Rightarrow> string list" where
  "all_names edges = concat (map snd edges)"

lemma entry_names: "set (entry k edges) \<subseteq> set (all_names edges)"
proof (cases "map_of edges k")
  case (Some xs)
  then have "(k, xs) \<in> set edges" by (rule map_of_SomeD)
  then show ?thesis using Some by (force simp: entry_def all_names_def)
qed (simp add: entry_def)

function walk :: "(string \<times> string list) list \<Rightarrow> string list \<Rightarrow> string list \<Rightarrow> string list" where
  "walk edges related [] = related"
| "walk edges related (current # frontier) =
     (case fold note_name (entry current edges) (related, frontier) of
        (related', frontier') \<Rightarrow> walk edges related' frontier')"
  by pat_completeness auto
termination
proof (relation "measures [\<lambda>(edges, related, _). card (set (all_names edges) - set related), \<lambda>(_, _, frontier). length frontier]",
    simp, goal_cases)
  case (1 edges related current frontier related' frontier')
  then have f: "fold note_name (entry current edges) (related, frontier) = (related', frontier')" by simp
  let ?left = "\<lambda>r. set (all_names edges) - set r"
  show ?case
  proof (cases "set (entry current edges) \<subseteq> set related")
    case True
    then show ?thesis using note_known [OF True] f by auto
  next
    case False
    then have "?left related' \<subset> ?left related" using note_names [OF f] entry_names [of current edges] by auto
    then have "card (?left related') < card (?left related)" by (intro psubset_card_mono) auto
    then show ?thesis by simp
  qed
qed

text \<open>The tasks that depend on a task directly.\<close>

definition dependents :: "(string \<times> string list) list \<Rightarrow> (string \<times> string list) list" where
  "dependents dependencies =
     map (\<lambda>c. (c, map fst (filter (\<lambda>(_, ds). c \<in> set ds) dependencies))) (remdups (all_names dependencies))"

definition task_edges :: "DJson list \<Rightarrow> string + (string \<times> string list) list" where
  "task_edges tasks =
     ok_then (collect_results (map (\<lambda>t. ok_then (task_id t) (\<lambda>i. ok_then (task_dependencies t) (\<lambda>ds. Inr (i, sort (remdups ds))))) tasks)) (\<lambda>es.
       Inr (fold (\<lambda>(i, ds). btree_insert i ds) es []))"

definition related_tasks :: "DJson list \<Rightarrow> string \<Rightarrow> string + string list" where
  "related_tasks tasks starting_task =
     ok_then (task_edges tasks) (\<lambda>dependencies.
       Inr (walk (dependents dependencies) (walk dependencies [starting_task] [starting_task]) [starting_task]))"

section \<open>Deferrals\<close>

definition ok_id :: "DJson \<Rightarrow> string option" where
  "ok_id task = (case task_id task of Inl _ \<Rightarrow> None | Inr i \<Rightarrow> Some i)"

definition waits :: "string list \<Rightarrow> string list \<Rightarrow> DJson \<Rightarrow> string option" where
  "waits related blocked_ids candidate =
     (case (task_id candidate, task_kind candidate) of
        (Inr i, Inr kind) \<Rightarrow>
          if kind \<noteq> ''checkpoint'' \<and> i \<notin> set related \<and> i \<notin> set blocked_ids then Some i else None
      | _ \<Rightarrow> None)"

definition deferral :: "DJson list \<Rightarrow> DJson list \<Rightarrow> string list \<Rightarrow> string list \<Rightarrow> DJson \<Rightarrow> string + (string \<times> string list) list" where
  "deferral tasks remaining completed_ids blocked_ids task =
     ok_then (task_id task) (\<lambda>i.
     ok_then (task_kind task) (\<lambda>kind.
       if kind \<noteq> ''checkpoint'' \<or> i \<in> set completed_ids then Inr []
       else
         ok_then (related_tasks tasks i) (\<lambda>related.
           let waiting = List.map_filter (waits related blocked_ids) remaining
           in Inr (if waiting \<noteq> [] then [(i, waiting)] else []))))"

definition checkpoint_deferrals :: "DJson list \<Rightarrow> DJson list \<Rightarrow> string list \<Rightarrow> string list \<Rightarrow> string + (string \<times> string list) list" where
  "checkpoint_deferrals tasks remaining completed_ids blocked_ids =
     ok_then (collect_results (map (deferral tasks remaining completed_ids blocked_ids) tasks)) (\<lambda>ds. Inr (concat ds))"

section \<open>Warnings\<close>

definition overlaps_between :: "(string \<Rightarrow> string) \<Rightarrow> DJson \<Rightarrow> DJson \<Rightarrow> (string \<times> string) list" where
  "overlaps_between lower task other =
     filter (\<lambda>(l, r). domains_overlap lower l r) (List.product (task_domains task) (task_domains other))"

text \<open>The first overlap of a task with the frontier, in the order of the loops.\<close>

fun first_overlap :: "(string \<Rightarrow> string) \<Rightarrow> DJson \<Rightarrow> DJson list \<Rightarrow> (DJson \<times> string \<times> string) option" where
  "first_overlap lower task [] = None"
| "first_overlap lower task (other # frontier) =
     (case overlaps_between lower task other of [] \<Rightarrow> first_overlap lower task frontier | (l, r) # _ \<Rightarrow> Some (other, l, r))"

fun overlap_examples :: "(string \<Rightarrow> string) \<Rightarrow> DJson list \<Rightarrow> string list \<Rightarrow> DJson list \<Rightarrow> string + string list" where
  "overlap_examples lower frontier examples [] = Inr examples"
| "overlap_examples lower frontier examples (task # blocked) =
     ok_then (case first_overlap lower task frontier of
                None \<Rightarrow> Inr examples
              | Some (other, l, r) \<Rightarrow>
                  ok_then (task_id task) (\<lambda>i.
                  ok_then (task_id other) (\<lambda>j.
                    Inr (examples @ [i @ '':'' @ json_text l @ '' overlaps '' @ j @ '':'' @ json_text r])))) (\<lambda>examples'.
       if length examples' = 8 then Inr examples' else overlap_examples lower frontier examples' blocked)"

definition parallelism_warnings :: "(string \<Rightarrow> string) \<Rightarrow> DJson list \<Rightarrow> DJson list \<Rightarrow> nat \<Rightarrow> string + string list" where
  "parallelism_warnings lower ready frontier max_parallel =
     (if length ready < max_parallel \<or> length frontier \<ge> max_parallel then Inr []
      else
        ok_then (collect_results (map task_id frontier)) (\<lambda>selected_ids.
          let blocked = filter (\<lambda>t. is_some_and (\<lambda>i. i \<notin> set selected_ids) (ok_id t)) ready
          in ok_then (overlap_examples lower frontier [] blocked) (\<lambda>examples.
             ok_then (collect_results (map task_id (take 12 blocked))) (\<lambda>ids.
               let blocked_text = join_text '', '' ids @ (if length blocked > 12 then '', and '' @ show_nat (length blocked - 12) @ '' more'' else []);
                   example_text = (if examples = [] then ''no overlap example available'' else join_text ''; '' examples)
               in Inr [''conflictDomains limited this ready frontier to '' @ show_nat (length frontier) @ '' of requested maxParallel ''
                       @ show_nat max_parallel @ ''; blocked tasks: '' @ blocked_text @ ''; overlaps: '' @ example_text]))))"

section \<open>Blocked and ready tasks\<close>

definition USIZE_MAX :: nat where
  "USIZE_MAX = 18446744073709551615"

definition task_order :: "DJson list \<Rightarrow> string + (string \<times> nat) list" where
  "task_order tasks =
     ok_then (collect_results (map task_id tasks)) (\<lambda>ids. Inr (fold (\<lambda>(n, i). btree_insert i n) (enumerate 0 ids) []))"

definition order_of :: "(string \<times> nat) list \<Rightarrow> string \<Rightarrow> nat" where
  "order_of order i = (case map_of order i of None \<Rightarrow> USIZE_MAX | Some n \<Rightarrow> n)"

definition comment_sequence :: "string \<Rightarrow> string + nat" where
  "comment_sequence comment =
     (let pieces = split_on (CHR ''/'') comment
      in case (if length pieces < 2 then None else parse_u64 (last pieces)) of
           Some n \<Rightarrow> if n > 0 then Inr (unat n) else Inl ''attempt receipt comment has no sequence''
         | None \<Rightarrow> Inl ''attempt receipt comment has no sequence'')"

definition sort_attempts :: "(string \<times> nat) list \<Rightarrow> AttemptState \<Rightarrow> AttemptState" where
  "sort_attempts order st =
     st\<lparr>as_diagnoses := sort_key (\<lambda>a. (order_of order (va_task_id a), va_attempt a)) (as_diagnoses st),
        as_retries := sort_key (\<lambda>a. (order_of order (va_task_id a), va_attempt a)) (as_retries st),
        as_outcomes := sort_key (\<lambda>out. (order_of order (vo_task_id out),
                                       (case comment_sequence (vo_comment out) of Inl _ \<Rightarrow> USIZE_MAX | Inr n \<Rightarrow> n))) (as_outcomes st)\<rparr>"

definition remaining_tasks :: "string list \<Rightarrow> DJson list \<Rightarrow> DJson list" where
  "remaining_tasks completed_ids tasks = filter (\<lambda>t. is_some_and (\<lambda>i. i \<notin> set completed_ids) (ok_id t)) tasks"

definition direct_blocked :: "string list \<Rightarrow> AttemptState \<Rightarrow> string list" where
  "direct_blocked completed_ids st =
     filter (\<lambda>i. i \<notin> set completed_ids)
       (map va_task_id (filter blocks_task (as_diagnoses st))
        @ map vo_task_id (filter (\<lambda>out. needs_authority (vo_outcome out)) (as_outcomes st))
        @ as_lifetime_exhausted st)"

definition roots_of :: "string list \<Rightarrow> (string \<times> string list) list \<Rightarrow> string \<Rightarrow> string list \<Rightarrow> string list" where
  "roots_of direct blocked_by i dependencies =
     sort (remdups ((if i \<in> set direct then [i] else []) @ concat (map (\<lambda>d. entry d blocked_by) dependencies)))"

text \<open>The loop over the tasks: who is blocked, and by which stuck tasks.\<close>

fun blocked_loop ::
  "string list \<Rightarrow> string list \<Rightarrow> (string \<times> nat) list \<Rightarrow> (string \<times> string list) list \<Rightarrow> DJson list \<Rightarrow> string + (string \<times> string list) list" where
  "blocked_loop direct completed_ids order blocked_by [] = Inr []"
| "blocked_loop direct completed_ids order blocked_by (task # tasks) =
     ok_then (task_id task) (\<lambda>i.
     ok_then (task_dependencies task) (\<lambda>dependencies.
       let roots = roots_of direct blocked_by i dependencies
       in ok_then (blocked_loop direct completed_ids order (btree_insert i roots blocked_by) tasks) (\<lambda>blocked.
            Inr ((if i \<notin> set completed_ids \<and> roots \<noteq> [] then [(i, sort_key (order_of order) roots)] else []) @ blocked))))"

definition is_ready :: "string list \<Rightarrow> string list \<Rightarrow> DJson \<Rightarrow> string + bool" where
  "is_ready completed_ids blocked_ids task =
     ok_then (task_id task) (\<lambda>i.
       if i \<in> set blocked_ids then Inr False
       else ok_then (task_dependencies task) (\<lambda>dependencies. Inr (list_all (\<lambda>d. d \<in> set completed_ids) dependencies)))"

definition ready_tasks :: "string list \<Rightarrow> string list \<Rightarrow> DJson list \<Rightarrow> string + DJson list" where
  "ready_tasks completed_ids blocked_ids remaining =
     ok_then (collect_results (map (is_ready completed_ids blocked_ids) remaining)) (\<lambda>flags.
       Inr (map fst (filter snd (zip remaining flags))))"

fun take_frontier :: "(string \<Rightarrow> string) \<Rightarrow> nat \<Rightarrow> DJson list \<Rightarrow> DJson list \<Rightarrow> DJson list" where
  "take_frontier lower max_parallel frontier [] = frontier"
| "take_frontier lower max_parallel frontier (task # ready) =
     (if length frontier = max_parallel then frontier
      else take_frontier lower max_parallel (if task_conflicts lower task frontier then frontier else frontier @ [task]) ready)"

section \<open>The plan\<close>

record Plan =
  pl_attempts :: AttemptState
  pl_remaining :: "DJson list"
  pl_blocked :: "(string \<times> string list) list"
  pl_ready :: "DJson list"
  pl_deferrals :: "(string \<times> string list) list"
  pl_frontier :: "DJson list"

definition plan :: "(string \<Rightarrow> string) \<Rightarrow> DJson list \<Rightarrow> string list \<Rightarrow> AttemptState \<Rightarrow> nat \<Rightarrow> string + Plan" where
  "plan lower tasks completed_ids st0 max_parallel =
     ok_then (task_order tasks) (\<lambda>order.
       let st = sort_attempts order st0; remaining = remaining_tasks completed_ids tasks
       in ok_then (blocked_loop (direct_blocked completed_ids st) completed_ids order [] tasks) (\<lambda>blocked.
          ok_then (ready_tasks completed_ids (map fst blocked) remaining) (\<lambda>ready0.
          ok_then (checkpoint_deferrals tasks remaining completed_ids (map fst blocked)) (\<lambda>deferrals.
            let ready = sort_key (\<lambda>t. is_some_and (\<lambda>i. i \<in> set (map fst deferrals)) (ok_id t)) ready0;
                frontier = take_frontier lower max_parallel [] ready
            in ok_then (parallelism_warnings lower ready frontier max_parallel) (\<lambda>warnings.
                 Inr \<lparr>pl_attempts = st\<lparr>as_warnings := as_warnings st @ warnings\<rparr>, pl_remaining = remaining, pl_blocked = blocked,
                      pl_ready = ready, pl_deferrals = deferrals, pl_frontier = frontier\<rparr>)))))"

definition quiescent :: "Plan \<Rightarrow> bool" where
  "quiescent p \<longleftrightarrow> pl_remaining p \<noteq> [] \<and> pl_frontier p = []"

definition complete :: "Plan \<Rightarrow> bool" where
  "complete p \<longleftrightarrow> pl_remaining p = []"

section \<open>Before and after the plan\<close>

definition completed_of :: "DJson list \<Rightarrow> string + string list" where
  "completed_of facts =
     collect_results (map (\<lambda>fact. expect (Option.bind (Option.bind (Driver_Json.as_object fact) (\<lambda>m. map_of m ''taskId'')) as_string)
                                    ''completion fact has taskId'') facts)"

definition task_revisions :: "DJson list \<Rightarrow> string + (string \<times> string option) list" where
  "task_revisions tasks =
     ok_then (collect_results (map (\<lambda>task.
                ok_then (task_id task) (\<lambda>i.
                ok_then (case Driver_Json.as_object task of None \<Rightarrow> Inl ''reconciled task must be an object'' | Some m \<Rightarrow> Inr m) (\<lambda>m.
                ok_then (task_revision m) (\<lambda>revision. Inr (i, revision))))) tasks)) (\<lambda>es.
       Inr (fold (\<lambda>(i, revision). btree_insert i revision) es []))"

definition id_lists_json :: "string \<Rightarrow> (string \<times> string list) list \<Rightarrow> DJson" where
  "id_lists_json field facts = DArray (map (\<lambda>(i, ids). json_object [(''taskId'', DString i), (field, strings ids)]) facts)"

definition reconciliation ::
  "string \<Rightarrow> string \<Rightarrow> DJson \<Rightarrow> string \<Rightarrow> DJson list \<Rightarrow> (string \<times> string) list \<Rightarrow> DJson list \<Rightarrow> DJson list \<Rightarrow> Plan \<Rightarrow> string + DJson" where
  "reconciliation campaign repository source base_rev tasks input_epochs merged checkpoints p =
     ok_then (collect_results (map task_id (pl_remaining p))) (\<lambda>remaining_ids.
       Inr (json_object
         [(''schemaVersion'', DNumber ''1''), (''campaign'', DString campaign), (''repository'', DString repository), (''source'', source),
          (''baseRevision'', DString base_rev), (''tasks'', DArray tasks),
          (''inputEpochs'', json_object (map (\<lambda>(i, epoch). (i, DString epoch)) input_epochs)),
          (''merged'', DArray merged), (''checkpoints'', DArray checkpoints), (''remaining'', strings remaining_ids),
          (''frontier'', DArray (pl_frontier p)),
          (''diagnoses'', DArray (map diagnosis_json (as_diagnoses (pl_attempts p)))),
          (''retries'', DArray (map retry_json (as_retries (pl_attempts p)))),
          (''outcomes'', DArray (map worker_outcome_json (as_outcomes (pl_attempts p)))),
          (''deferrals'', id_lists_json ''waitingOn'' (pl_deferrals p)), (''blocked'', id_lists_json ''blockedBy'' (pl_blocked p)),
          (''quiescent'', DBool (quiescent p)),
          (''escalation'', (case as_escalation (pl_attempts p) of None \<Rightarrow> DNull | Some comment \<Rightarrow> DString comment)),
          (''complete'', DBool (complete p)), (''warnings'', strings (as_warnings (pl_attempts p))), (''closingSummary'', DNull)]))"

end
