(* ===== verification/Frontier_Safety.thy ===== *)
theory Frontier_Safety
  imports Frontier
begin

text \<open>
  The plan of a reconciliation: the frontier is safe to run, nothing that could be added to it is left out,
  and it is empty only when every task that remains waits for a stuck one.
\<close>

section \<open>The frontier\<close>

definition apart :: "(string \<Rightarrow> string) \<Rightarrow> DJson \<Rightarrow> DJson \<Rightarrow> bool" where
  "apart lower a b \<longleftrightarrow> (\<forall>d\<in>set (task_domains a). \<forall>d'\<in>set (task_domains b). \<not> domains_overlap lower d d')"

lemma conflicts_iff: "task_conflicts lower t f \<longleftrightarrow> (\<exists>u\<in>set f. \<not> apart lower t u)"
  by (auto simp: task_conflicts_def apart_def list_ex_iff)

lemma apart_sym: "apart lower a b \<longleftrightarrow> apart lower b a"
  by (auto simp: apart_def overlap_prefix)

lemma take_frontier_props:
  assumes "sorted_wrt (apart lower) acc" "length acc \<le> m"
    and "f = take_frontier lower m acc ready"
  shows "sorted_wrt (apart lower) f \<and> length f \<le> m \<and> set acc \<subseteq> set f \<and> set f \<subseteq> set acc \<union> set ready \<and>
    (length f = m \<or> (\<forall>t\<in>set ready. t \<in> set f \<or> task_conflicts lower t f))"
  using assms(1,2) unfolding assms(3)
proof (induction ready arbitrary: acc)
  case (Cons t ready)
  show ?case
  proof (cases "length acc = m")
    case False
    show ?thesis
    proof (cases "task_conflicts lower t acc")
      case True
      then show ?thesis using Cons.IH [OF Cons.prems] False by (auto simp: conflicts_iff)
    next
      case free: False
      have "sorted_wrt (apart lower) (acc @ [t])" "length (acc @ [t]) \<le> m"
        using Cons.prems False free by (auto simp: sorted_wrt_append conflicts_iff apart_sym)
      from Cons.IH [OF this] show ?thesis using False free by auto
    qed
  qed (use Cons.prems in auto)
qed auto

section \<open>Ready tasks\<close>

lemma collect_results_map:
  "collect_results (map g xs) = Inr ys \<Longrightarrow> length ys = length xs \<and> (\<forall>i<length xs. g (xs ! i) = Inr (ys ! i))"
  by (drule collect_results_length) (metis length_map nth_map)

lemma collect_results_total:
  assumes "\<And>x. x \<in> set xs \<Longrightarrow> \<exists>y. g x = Inr y"
  shows "\<exists>ys. collect_results (map g xs) = Inr ys"
  using assms by (induction xs) (auto, metis collect_results.simps(3) sum.simps(6))

lemma ready_tasks_filter:
  assumes "ready_tasks completed blocked remaining = Inr ready"
  shows "ready = filter (\<lambda>t. is_ready completed blocked t = Inr True) remaining"
proof -
  from assms obtain flags where "collect_results (map (is_ready completed blocked) remaining) = Inr flags"
      "ready = map fst (filter snd (zip remaining flags))"
    by (auto simp: ready_tasks_def ok_then_Inr)
  moreover have "map (is_ready completed blocked) remaining = map Inr flags" using calculation(1) by (rule collect_results_length)
  then have "map fst (filter snd (zip remaining flags)) = filter (\<lambda>t. is_ready completed blocked t = Inr True) remaining"
    by (induction remaining arbitrary: flags) (auto simp: Cons_eq_map_conv)
  ultimately show ?thesis by simp
qed

lemma is_ready_True:
  "is_ready completed blocked t = Inr True \<longleftrightarrow>
     (\<exists>i deps. task_id t = Inr i \<and> i \<notin> set blocked \<and> task_dependencies t = Inr deps \<and> set deps \<subseteq> set completed)"
  by (auto simp: is_ready_def ok_then_Inr list_all_iff split: if_splits)

section \<open>Stuck tasks\<close>

text \<open>A task is stuck when it is blocked itself or depends on a stuck one.\<close>

inductive stuck :: "string set \<Rightarrow> DJson list \<Rightarrow> string \<Rightarrow> bool" for direct tasks where
  itself: "t \<in> set tasks \<Longrightarrow> task_id t = Inr i \<Longrightarrow> i \<in> direct \<Longrightarrow> stuck direct tasks i"
| depends: "t \<in> set tasks \<Longrightarrow> task_id t = Inr i \<Longrightarrow> task_dependencies t = Inr deps \<Longrightarrow> d \<in> set deps \<Longrightarrow> stuck direct tasks d
    \<Longrightarrow> stuck direct tasks i"

lemma roots_of_empty: "roots_of direct bb i deps = [] \<longleftrightarrow> i \<notin> set direct \<and> (\<forall>d\<in>set deps. entry d bb = [])"
  by (auto simp: roots_of_def)

lemma entry_insert: "entry k (btree_insert k' xs m) = (if k = k' then xs else entry k m)"
  by (simp add: entry_def map_of_btree_insert)

lemma reads_backD:
  assumes "ordered_from prior (t # ts)"
  obtains i kind deps where "task_id t = Inr i" "task_kind t = Inr kind" "task_dependencies t = Inr deps" "i \<notin> set prior"
    "set deps \<subseteq> set prior" "ordered_from (i # prior) ts"
  using assms by (auto simp: reads_back_def split: sum.splits)

lemma ordered_new: "ordered_from prior ts \<Longrightarrow> t \<in> set ts \<Longrightarrow> task_id t = Inr i \<Longrightarrow> i \<notin> set prior"
proof (induction ts arbitrary: prior)
  case (Cons u us)
  obtain n where n: "task_id u = Inr n" "n \<notin> set prior" "ordered_from (n # prior) us" using Cons.prems(1) by (elim reads_backD) auto
  show ?case
  proof (cases "t \<in> set us")
    case True
    then show ?thesis using Cons.IH [OF n(3) True Cons.prems(3)] by simp
  qed (use Cons.prems n in auto)
qed simp

text \<open>What the loop leaves behind: the roots of every task in terms of the final map.\<close>

definition names :: "DJson list \<Rightarrow> string set" where
  "names ts = {i. \<exists>t\<in>set ts. task_id t = Inr i}"

lemma blocked_loop_map:
  assumes "ordered_from prior ts"
  shows "\<exists>B blocked. blocked_loop direct completed order bb ts = Inr blocked \<and>
    (\<forall>j. j \<notin> names ts \<longrightarrow> entry j B = entry j bb) \<and>
    (\<forall>t i deps. t \<in> set ts \<longrightarrow> task_id t = Inr i \<longrightarrow> task_dependencies t = Inr deps \<longrightarrow> entry i B = roots_of direct B i deps) \<and>
    fst ` set blocked = {i \<in> names ts. i \<notin> set completed \<and> entry i B \<noteq> []}"
  using assms
proof (induction ts arbitrary: prior bb)
  case Nil
  then show ?case by (intro exI [of _ bb] exI [of _ "[]"]) (simp add: names_def)
next
  case (Cons t ts)
  obtain i kind deps where t: "task_id t = Inr i" "task_dependencies t = Inr deps" "i \<notin> set prior" "set deps \<subseteq> set prior"
      "ordered_from (i # prior) ts"
    using Cons.prems by (elim reads_backD) auto
  let ?roots = "roots_of direct bb i deps"
  from Cons.IH [OF t(5), of "btree_insert i ?roots bb"]
  obtain B blocked where IH: "blocked_loop direct completed order (btree_insert i ?roots bb) ts = Inr blocked"
    "\<forall>j. j \<notin> names ts \<longrightarrow> entry j B = entry j (btree_insert i ?roots bb)"
    "\<forall>t i deps. t \<in> set ts \<longrightarrow> task_id t = Inr i \<longrightarrow> task_dependencies t = Inr deps \<longrightarrow> entry i B = roots_of direct B i deps"
    "fst ` set blocked = {i \<in> names ts. i \<notin> set completed \<and> entry i B \<noteq> []}"
    by (elim exE conjE) (rule that)
  have fresh: "j \<notin> names ts" if "j = i \<or> j \<in> set prior" for j
    using that ordered_new [OF t(5)] by (auto simp: names_def)
  have i: "entry i B = ?roots" using IH(2) fresh by (simp add: entry_insert)
  have "entry d B = entry d bb" if "d \<in> set deps" for d
    using that IH(2) fresh [of d] t(3,4) by (auto simp: entry_insert)
  then have same: "map (\<lambda>d. entry d B) deps = map (\<lambda>d. entry d bb) deps" by simp
  have roots: "roots_of direct B i deps = ?roots" unfolding roots_of_def same ..
  have names: "names (t # ts) = insert i (names ts)" using t(1) by (auto simp: names_def)
  let ?out = "(if i \<notin> set completed \<and> ?roots \<noteq> [] then [(i, sort_key (order_of order) ?roots)] else []) @ blocked"
  have "blocked_loop direct completed order bb (t # ts) = Inr ?out" using t(1,2) IH(1) by (simp add: Let_def)
  moreover have "fst ` set ?out = {j \<in> names (t # ts). j \<notin> set completed \<and> entry j B \<noteq> []}"
    using IH(4) i by (auto simp: names)
  moreover have "entry j B = entry j bb" if "j \<notin> names (t # ts)" for j
    using that IH(2) by (simp add: names entry_insert)
  moreover have "entry i' B = roots_of direct B i' deps'"
    if "t' \<in> set (t # ts)" "task_id t' = Inr i'" "task_dependencies t' = Inr deps'" for t' i' deps'
  proof (cases "t' = t")
    case True
    then show ?thesis using that i roots t(1,2) by simp
  next
    case False
    then show ?thesis using that IH(3) by simp
  qed
  ultimately show ?case by (intro exI [of _ B] exI [of _ ?out]) blast
qed

lemma ordered_reads:
  "ordered_from prior ts \<Longrightarrow> t \<in> set ts \<Longrightarrow>
     \<exists>i kind deps. task_id t = Inr i \<and> task_kind t = Inr kind \<and> task_dependencies t = Inr deps \<and> set deps \<subseteq> set prior \<union> names ts"
proof (induction ts arbitrary: prior)
  case (Cons u us)
  obtain i kind deps where u: "task_id u = Inr i" "task_kind u = Inr kind" "task_dependencies u = Inr deps" "set deps \<subseteq> set prior"
      "ordered_from (i # prior) us"
    using Cons.prems(1) by (elim reads_backD) auto
  show ?case
  proof (cases "t = u")
    case False
    then have "t \<in> set us" using Cons.prems(2) by simp
    moreover have "names us \<subseteq> names (u # us)" "i \<in> names (u # us)" using u(1) by (auto simp: names_def)
    ultimately show ?thesis using Cons.IH [OF u(5)] by fastforce
  qed (use u in auto)
qed simp

lemma roots_stuck:
  assumes "ordered_from prior ts" "set ts \<subseteq> set tasks" "\<And>d. d \<in> set prior \<Longrightarrow> entry d B \<noteq> [] \<Longrightarrow> stuck (set direct) tasks d"
    and B: "\<And>t i deps. t \<in> set tasks \<Longrightarrow> task_id t = Inr i \<Longrightarrow> task_dependencies t = Inr deps \<Longrightarrow> entry i B = roots_of direct B i deps"
    and "i \<in> names ts" "entry i B \<noteq> []"
  shows "stuck (set direct) tasks i"
  using assms(1-3,5,6)
proof (induction ts arbitrary: prior)
  case (Cons t ts)
  obtain n kind deps where t: "task_id t = Inr n" "task_dependencies t = Inr deps" "set deps \<subseteq> set prior" "ordered_from (n # prior) ts"
    using Cons.prems(1) by (elim reads_backD) auto
  have t': "t \<in> set tasks" using Cons.prems(2) by simp
  have now: "stuck (set direct) tasks n" if ne: "entry n B \<noteq> []"
  proof (cases "n \<in> set direct")
    case False
    then obtain d where "d \<in> set deps" "entry d B \<noteq> []" using ne unfolding B [OF t' t(1,2)] roots_of_empty by blast
    then show ?thesis using stuck.depends [OF t' t(1,2)] Cons.prems(3) t(3) by blast
  qed (use stuck.itself [OF t' t(1)] in blast)
  show ?case
  proof (cases "i = n")
    case False
    then have "i \<in> names ts" using Cons.prems(4) t(1) by (auto simp: names_def)
    then show ?thesis using Cons.IH [OF t(4)] Cons.prems(2,3,5) now by auto
  qed (use now Cons.prems(5) in simp)
qed (simp add: names_def)

lemma stuck_roots:
  assumes "stuck (set direct) tasks i" "ordered_from [] tasks"
    and B: "\<And>t i deps. t \<in> set tasks \<Longrightarrow> task_id t = Inr i \<Longrightarrow> task_dependencies t = Inr deps \<Longrightarrow> entry i B = roots_of direct B i deps"
  shows "entry i B \<noteq> []"
  using assms(1)
proof induction
  case (itself t i)
  then obtain deps where "task_dependencies t = Inr deps" using ordered_reads [OF assms(2)] by blast
  then show ?case using B [OF itself(1,2)] itself(3) by (simp add: roots_of_empty)
next
  case (depends t i deps d)
  then show ?case using B [OF depends(1-3)] by (auto simp: roots_of_empty)
qed

lemma blocked_stuck:
  assumes "ordered_from [] tasks"
  shows "\<exists>blocked. blocked_loop direct completed order [] tasks = Inr blocked \<and>
    fst ` set blocked = {i \<in> names tasks. i \<notin> set completed \<and> stuck (set direct) tasks i}"
proof -
  from blocked_loop_map [OF assms, of direct completed order "[]"]
  obtain B blocked where B: "blocked_loop direct completed order [] tasks = Inr blocked"
    "\<forall>t i deps. t \<in> set tasks \<longrightarrow> task_id t = Inr i \<longrightarrow> task_dependencies t = Inr deps \<longrightarrow> entry i B = roots_of direct B i deps"
    "fst ` set blocked = {i \<in> names tasks. i \<notin> set completed \<and> entry i B \<noteq> []}"
    by (elim exE conjE) (rule that)
  have "entry i B \<noteq> [] \<longleftrightarrow> stuck (set direct) tasks i" if "i \<in> names tasks" for i
    using that stuck_roots [OF _ assms] roots_stuck [OF assms order_refl] B(2) by (metis empty_iff list.set(1))
  then show ?thesis using B(1,3) by auto
qed

section \<open>The plan\<close>

text \<open>
  A task the driver may dispatch: it is not done, everything it depends on is done, and it waits for no
  stuck task.
\<close>

definition eligible :: "DJson list \<Rightarrow> string list \<Rightarrow> AttemptState \<Rightarrow> DJson \<Rightarrow> bool" where
  "eligible tasks completed st t \<longleftrightarrow>
     (\<exists>i deps. task_id t = Inr i \<and> i \<notin> set completed \<and> task_dependencies t = Inr deps \<and> set deps \<subseteq> set completed \<and>
               \<not> stuck (set (direct_blocked completed st)) tasks i)"

lemma direct_blocked_sorted [simp]: "set (direct_blocked completed (sort_attempts order st)) = set (direct_blocked completed st)"
  by (auto simp: direct_blocked_def sort_attempts_def)

lemma ok_id_iff: "is_some_and P (ok_id t) \<longleftrightarrow> (\<exists>i. task_id t = Inr i \<and> P i)"
  by (cases "task_id t") (auto simp: ok_id_def)

lemma plan_parts:
  assumes "plan lower tasks completed st m = Inr p" "ordered_from [] tasks"
  shows "set (pl_ready p) = {t \<in> set tasks. eligible tasks completed st t}"
    and "pl_frontier p = take_frontier lower m [] (pl_ready p)"
    and "fst ` set (pl_blocked p) = {i \<in> names tasks. i \<notin> set completed \<and> stuck (set (direct_blocked completed st)) tasks i}"
    and "pl_remaining p = remaining_tasks completed tasks"
proof -
  obtain order blocked ready0 where parts:
    "blocked_loop (direct_blocked completed (sort_attempts order st)) completed order [] tasks = Inr blocked"
    "ready_tasks completed (map fst blocked) (remaining_tasks completed tasks) = Inr ready0"
    "set (pl_ready p) = set ready0"
    "pl_frontier p = take_frontier lower m [] (pl_ready p)" "pl_blocked p = blocked" "pl_remaining p = remaining_tasks completed tasks"
    using assms(1) unfolding plan_def Let_def by (elim ok_thenE) (rule that, assumption, assumption, auto)
  from parts(4,6) show "pl_frontier p = take_frontier lower m [] (pl_ready p)" "pl_remaining p = remaining_tasks completed tasks" .
  show fst: "fst ` set (pl_blocked p) = {i \<in> names tasks. i \<notin> set completed \<and> stuck (set (direct_blocked completed st)) tasks i}"
    using blocked_stuck [OF assms(2), of "direct_blocked completed (sort_attempts order st)" completed order] parts(1,5) by auto
  have "set ready0 = {t \<in> set tasks. is_some_and (\<lambda>i. i \<notin> set completed) (ok_id t) \<and> is_ready completed (map fst blocked) t = Inr True}"
    unfolding ready_tasks_filter [OF parts(2)] remaining_tasks_def by auto
  also have "\<dots> = {t \<in> set tasks. eligible tasks completed st t}"
    using fst parts(5) by (auto simp: eligible_def is_ready_True ok_id_iff names_def)
  finally show "set (pl_ready p) = {t \<in> set tasks. eligible tasks completed st t}" using parts(3) by simp
qed

subsection \<open>Planning always succeeds on an ordered worklist\<close>

lemma overlap_examples_total:
  assumes "\<And>t. t \<in> set frontier \<union> set blocked \<Longrightarrow> \<exists>i. task_id t = Inr i"
  shows "\<exists>out. overlap_examples lower frontier examples blocked = Inr out"
  using assms
proof (induction blocked arbitrary: examples)
  case (Cons t ts)
  have member: "other \<in> set fr" if "first_overlap lower t fr = Some (other, l, r)" for other l r fr
    using that by (induction fr) (auto split: list.splits)
  obtain i where i: "task_id t = Inr i" using Cons.prems by auto
  obtain examples' where "(case first_overlap lower t frontier of
                None \<Rightarrow> Inr examples
              | Some (other, l, r) \<Rightarrow>
                  ok_then (task_id t) (\<lambda>i.
                  ok_then (task_id other) (\<lambda>j.
                    Inr (examples @ [i @ '':'' @ json_text l @ '' overlaps '' @ j @ '':'' @ json_text r])))) = Inr examples'"
  proof (cases "first_overlap lower t frontier")
    case (Some triple)
    obtain other l r where tr: "triple = (other, l, r)" by (cases triple) auto
    then have "other \<in> set frontier" using member Some by simp
    then obtain j where "task_id other = Inr j" using Cons.prems by auto
    then show ?thesis using Some tr i that by simp
  qed (use that in simp)
  then show ?case using Cons.IH [of examples'] Cons.prems by auto
qed simp

lemma parallelism_warnings_total:
  assumes "\<And>t. t \<in> set ready \<union> set frontier \<Longrightarrow> \<exists>i. task_id t = Inr i"
  shows "\<exists>out. parallelism_warnings lower ready frontier m = Inr out"
proof -
  obtain ids where ids: "collect_results (map task_id frontier) = Inr ids"
    using collect_results_total [of frontier task_id] assms by auto
  let ?blocked = "filter (\<lambda>t. is_some_and (\<lambda>i. i \<notin> set ids) (ok_id t)) ready"
  obtain examples where "overlap_examples lower frontier [] ?blocked = Inr examples"
    using overlap_examples_total [of frontier ?blocked lower "[]"] assms by auto
  moreover have "\<exists>i. task_id t = Inr i" if "t \<in> set (take 12 ?blocked)" for t
    using in_set_takeD [OF that] assms by simp
  then obtain names where "collect_results (map task_id (take 12 ?blocked)) = Inr names"
    using collect_results_total [of "take 12 ?blocked" task_id] by blast
  ultimately show ?thesis using ids by (simp add: parallelism_warnings_def Let_def)
qed

lemma deferrals_total:
  assumes "ordered_from [] tasks"
  shows "\<exists>out. checkpoint_deferrals tasks remaining completed blocked = Inr out"
proof -
  have "\<exists>y. ok_then (task_id t) (\<lambda>i. ok_then (task_dependencies t) (\<lambda>ds. Inr (i, sort (remdups ds)))) = Inr y" if "t \<in> set tasks" for t
    using ordered_reads [OF assms that] by auto
  then obtain es where "task_edges tasks = Inr es"
    using collect_results_total [of tasks "\<lambda>t. ok_then (task_id t) (\<lambda>i. ok_then (task_dependencies t) (\<lambda>ds. Inr (i, sort (remdups ds))))"]
    by (auto simp: task_edges_def)
  then have "\<exists>y. deferral tasks remaining completed blocked t = Inr y" if "t \<in> set tasks" for t
    using ordered_reads [OF assms that] by (auto simp: deferral_def related_tasks_def Let_def)
  then show ?thesis using collect_results_total [of tasks "deferral tasks remaining completed blocked"]
    by (auto simp: checkpoint_deferrals_def)
qed

lemma plan_total:
  assumes "ordered_from [] tasks"
  shows "\<exists>p. plan lower tasks completed st m = Inr p"
proof -
  have reads: "\<exists>i deps. task_id t = Inr i \<and> task_dependencies t = Inr deps" if "t \<in> set tasks" for t
    using ordered_reads [OF assms that] by blast
  obtain order where order: "task_order tasks = Inr order"
    using collect_results_total [of tasks task_id] reads by (auto simp: task_order_def)
  obtain blocked where blocked: "blocked_loop (direct_blocked completed (sort_attempts order st)) completed order [] tasks = Inr blocked"
    using blocked_stuck [OF assms] by blast
  have rem: "set (remaining_tasks completed tasks) \<subseteq> set tasks" by (auto simp: remaining_tasks_def)
  have "\<exists>b. is_ready completed (map fst blocked) t = Inr b" if "t \<in> set tasks" for t
    using reads [OF that] by (auto simp: is_ready_def)
  then have "\<exists>b. is_ready completed (map fst blocked) t = Inr b" if "t \<in> set (remaining_tasks completed tasks)" for t
    using that rem by (simp add: subset_iff)
  then obtain flags where "collect_results (map (is_ready completed (map fst blocked)) (remaining_tasks completed tasks)) = Inr flags"
    by (metis collect_results_total)
  then obtain ready0 where ready: "ready_tasks completed (map fst blocked) (remaining_tasks completed tasks) = Inr ready0"
    by (simp add: ready_tasks_def)
  have "set ready0 \<subseteq> set tasks" unfolding ready_tasks_filter [OF ready] using rem by auto
  obtain deferrals where deferrals: "checkpoint_deferrals tasks (remaining_tasks completed tasks) completed (map fst blocked) = Inr deferrals"
    using deferrals_total [OF assms] by blast
  let ?ready = "sort_key (\<lambda>t. is_some_and (\<lambda>i. i \<in> set (map fst deferrals)) (ok_id t)) ready0"
  have "set (take_frontier lower m [] ?ready) \<subseteq> set ?ready"
    using take_frontier_props [of lower "[]" m _ ?ready] by simp
  then have "\<exists>out. parallelism_warnings lower ?ready (take_frontier lower m [] ?ready) m = Inr out"
    using \<open>set ready0 \<subseteq> set tasks\<close> reads by (intro parallelism_warnings_total) fastforce
  then show ?thesis using order blocked ready deferrals by (auto simp: plan_def Let_def)
qed

lemma take_frontier_nonempty: "ready \<noteq> [] \<Longrightarrow> 1 \<le> m \<Longrightarrow> take_frontier lower m [] ready \<noteq> []"
  using take_frontier_props [of lower "[]" m _ ready] by (cases ready) (auto simp: conflicts_iff)

text \<open>Among tasks in order, the first one that is neither done nor stuck is eligible.\<close>

lemma first_eligible:
  assumes "ordered_from prior ts" "set ts \<subseteq> set tasks" "\<And>d. d \<in> set prior \<Longrightarrow> d \<in> set completed \<or> stuck D tasks d"
    and "t \<in> set ts" "task_id t = Inr i" "i \<notin> set completed" "\<not> stuck D tasks i"
  shows "\<exists>u\<in>set ts. \<exists>j deps. task_id u = Inr j \<and> j \<notin> set completed \<and> task_dependencies u = Inr deps \<and> set deps \<subseteq> set completed \<and> \<not> stuck D tasks j"
  using assms
proof (induction ts arbitrary: prior)
  case (Cons u us)
  obtain n kind deps where u: "task_id u = Inr n" "task_dependencies u = Inr deps" "set deps \<subseteq> set prior" "ordered_from (n # prior) us"
    using Cons.prems(1) by (elim reads_backD) auto
  show ?case
  proof (cases "n \<in> set completed \<or> stuck D tasks n")
    case True
    then have "t \<in> set us" using Cons.prems(4-7) u(1) by auto
    moreover have "set us \<subseteq> set tasks" using Cons.prems(2) by simp
    moreover have "d \<in> set completed \<or> stuck D tasks d" if "d \<in> set (n # prior)" for d
      using that True Cons.prems(3) by auto
    ultimately have "\<exists>u\<in>set us. \<exists>j deps. task_id u = Inr j \<and> j \<notin> set completed \<and> task_dependencies u = Inr deps \<and>
        set deps \<subseteq> set completed \<and> \<not> stuck D tasks j"
      using Cons.IH [OF u(4) _ _ _ Cons.prems(5-7)] by blast
    then show ?thesis by simp
  next
    case False
    have "u \<in> set tasks" using Cons.prems(2) by simp
    then have "\<not> stuck D tasks d" if "d \<in> set deps" for d using stuck.depends u(1,2) that False by blast
    then have "set deps \<subseteq> set completed" using Cons.prems(3) u(3) by blast
    then show ?thesis using u(1,2) False by (intro bexI [of _ u]) auto
  qed
qed simp

lemma plan_frontier:
  assumes "plan lower tasks completed st m = Inr p" "ordered_from [] tasks"
  shows "length (pl_frontier p) \<le> m" "sorted_wrt (apart lower) (pl_frontier p)"
    and "t \<in> set (pl_frontier p) \<Longrightarrow> t \<in> set tasks \<and> eligible tasks completed st t"
    and "length (pl_frontier p) = m \<or>
      (\<forall>t\<in>set tasks. eligible tasks completed st t \<longrightarrow> t \<in> set (pl_frontier p) \<or> (\<exists>u\<in>set (pl_frontier p). \<not> apart lower t u))"
  using plan_parts(1,2) [OF assms] take_frontier_props [of lower "[]" m "pl_frontier p" "pl_ready p"]
  by (auto simp: conflicts_iff)

lemma revisions_named:
  assumes "task_revisions tasks = Inr revs" "t \<in> set tasks" "task_id t = Inr i"
  shows "map_of revs i \<noteq> None"
proof -
  define g where "g = (\<lambda>task. ok_then (task_id task) (\<lambda>i.
                ok_then (case Driver_Json.as_object task of None \<Rightarrow> Inl ''reconciled task must be an object'' | Some m \<Rightarrow> Inr m) (\<lambda>m.
                ok_then (task_revision m) (\<lambda>revision. Inr (i, revision)))))"
  obtain es where es: "map g tasks = map Inr es" "revs = fold (\<lambda>(i, revision). btree_insert i revision) es []"
    using assms(1) unfolding task_revisions_def g_def [symmetric] ok_then_Inr by (auto dest: collect_results_length)
  from assms(2) have "g t \<in> set (map Inr es)" unfolding es(1) [symmetric] by simp
  then obtain r where "(i, r) \<in> set es" using assms(3) by (auto simp: g_def ok_then_Inr)
  then have "map_of (rev es) i \<noteq> None" by (metis map_of_eq_None_iff image_eqI fst_conv set_rev)
  then show ?thesis unfolding es(2) by (simp add: map_of_inserts)
qed

section \<open>Properties\<close>

text \<open>
  C7. The frontier of a plan is safe and as large as it can be. It has at most \<open>maxParallel\<close> tasks, no two
  of which declare overlapping domains; each of them is not done, has all its dependencies done, and
  waits for no task that is blocked; and if there is room, every other task of which the same holds
  overlaps one that was taken.
\<close>

theorem frontier_sound:
  assumes "plan lower tasks completed st m = Inr p" "ordered_from [] tasks"
  shows "length (pl_frontier p) \<le> m \<and> sorted_wrt (apart lower) (pl_frontier p) \<and>
    (\<forall>t\<in>set (pl_frontier p). t \<in> set tasks \<and> eligible tasks completed st t) \<and>
    (length (pl_frontier p) = m \<or>
      (\<forall>t\<in>set tasks. eligible tasks completed st t \<longrightarrow> t \<in> set (pl_frontier p) \<or> (\<exists>u\<in>set (pl_frontier p). \<not> apart lower t u)))"
  using plan_frontier [OF assms] by blast

text \<open>
  C8. A campaign does not stall. Once the driver has accepted a worklist, planning it succeeds, and when the
  plan dispatches nothing every task that remains is stuck: it, or a task it depends on directly or
  through others, is blocked by a diagnosis, by a missing authority or by its lifetime limit.
\<close>

theorem plan_progress:
  assumes "action_worklist env brief w = (Inr out, w')" "1 \<le> m"
  shows "\<exists>p. plan lower (result_tasks out) completed st m = Inr p \<and>
    (pl_frontier p = [] \<longrightarrow>
      (\<forall>t\<in>set (pl_remaining p). \<exists>i. task_id t = Inr i \<and> stuck (set (direct_blocked completed st)) (result_tasks out) i))"
proof -
  let ?tasks = "result_tasks out"
  have ordered: "ordered_from [] ?tasks" using action_worklist_ordered(1) [OF assms(1)] .
  obtain p where p: "plan lower ?tasks completed st m = Inr p" using plan_total [OF ordered] by blast
  note parts = plan_parts [OF p ordered]
  have "\<exists>i. task_id t = Inr i \<and> stuck (set (direct_blocked completed st)) ?tasks i"
    if "pl_frontier p = []" "t \<in> set (pl_remaining p)" for t
  proof (rule ccontr)
    assume free: "\<not> (\<exists>i. task_id t = Inr i \<and> stuck (set (direct_blocked completed st)) ?tasks i)"
    from that(2) obtain i where t: "t \<in> set ?tasks" "task_id t = Inr i" "i \<notin> set completed"
      unfolding parts(4) remaining_tasks_def by (auto simp: ok_id_iff)
    from first_eligible [OF ordered order_refl _ t] free t(2)
    have "\<exists>u\<in>set ?tasks. eligible ?tasks completed st u" by (auto simp: eligible_def)
    then have "pl_ready p \<noteq> []" using parts(1) by force
    then show False using take_frontier_nonempty assms(2) that(1) parts(2) by metis
  qed
  then show ?thesis using p by blast
qed

text \<open>
  C9. The lifetime limit holds across everything. A task on the frontier has fewer than ten attempt
  receipts in the whole log of its campaign, whatever pardons, new input epochs and worklist
  changes the log went through.
\<close>

theorem exhausted_never_dispatched:
  assumes "fold_attempt_receipts events revs epochs = Inr st"
    and "plan lower tasks completed st m = Inr p" "ordered_from [] tasks"
    and "t \<in> set (pl_frontier p)" "task_id t = Inr i" "task_revisions tasks = Inr revs"
  shows "length (filter (attempt_for i) events) < MAX_TASK_LIFETIME_ATTEMPTS"
proof (rule ccontr)
  assume many: "\<not> ?thesis"
  have t: "t \<in> set tasks" "eligible tasks completed st t" using plan_frontier(3) [OF assms(2-4)] by blast+
  then have "i \<in> set (as_lifetime_exhausted st)"
    using exhausted_iff [OF assms(1)] revisions_named [OF assms(6) t(1) assms(5)] many by simp
  then have "stuck (set (direct_blocked completed st)) tasks i"
    using t assms(5) by (intro stuck.itself [of t]) (auto simp: direct_blocked_def eligible_def)
  then show False using t(2) assms(5) by (simp add: eligible_def)
qed

lemma string_list_strings: "string_list (Some v) context nonempty = Inr xs \<Longrightarrow> v = strings xs"
proof -
  assume "string_list (Some v) context nonempty = Inr xs"
  then obtain vs where v: "v = DArray vs"
      "map (\<lambda>(i, v). required_string (Some v) (indexed context i) None) (enumerate 0 vs) = map Inr xs"
    by (auto simp: string_list_def elim!: Driver_Json.as_array.elims dest!: collect_results_length split: option.splits if_splits)
  have "vs = map DString xs" if "map (\<lambda>(i, v). required_string (Some v) (indexed context i) None) (enumerate n vs) = map Inr xs" for n
    using that by (induction vs arbitrary: n xs) (auto simp: Cons_eq_map_conv dest: required_string_Some)
  then show ?thesis using v by (simp add: strings_def)
qed

lemma enforced_domains:
  assumes "enforce_conflict_domains env lower worktree base head (Some task) expected needed current w = (Inr own, w')"
    and "ow_conflict_domains own = Some ds"
  shows "ds = task_domains task"
proof -
  obtain m where m: "task = DObject m" "normalize_paths (map_of m ''conflictDomains'') ''task.conflictDomains'' needed = Inr (Some ds)"
    using assms unfolding enforce_conflict_domains_def
    by (auto elim!: and_then_cases Driver_Json.as_object.elims simp: lift_def refuse_def give_def Let_def split: if_splits option.splits)
  then obtain v where v: "map_of m ''conflictDomains'' = Some v" "string_list (Some v) ''task.conflictDomains'' needed = Inr ds"
    by (auto simp: normalize_paths_def split: option.splits sum.splits if_splits)
  have "List.map_filter as_string (map DString ds) = ds" by (induction ds) (simp_all add: List.map_filter_simps)
  then show ?thesis using string_list_strings [OF v(2)] v(1) m(1) by (simp add: task_domains_def strings_def)
qed

text \<open>
  C10. Tasks dispatched together do not touch each other's work. When two tasks of one frontier come back and
  both lanes pass the ownership gate with declared domains, a path that both changed lies strictly above
  a domain of each, as \<open>src\<close> does for \<open>src/a\<close> and \<open>src/b\<close>, and it is never in the
  protected set.
\<close>

theorem frontier_lanes_disjoint:
  assumes "plan lower tasks completed st m = Inr p" "ordered_from [] tasks"
    and "i < j" "j < length (pl_frontier p)"
    and "enforce_conflict_domains env lower worktree base head (Some (pl_frontier p ! i)) name needed current w = (Inr own, w1)"
    and "enforce_conflict_domains env lower worktree' base' head' (Some (pl_frontier p ! j)) name' needed' current' w2 = (Inr own', w3)"
    and "ow_conflict_domains own = Some ds" "ow_conflict_domains own' = Some ds'"
    and "path \<in> set (ow_owned_paths own)" "path \<in> set (ow_owned_paths own')"
  shows "lane_protection path = None \<and>
    (\<exists>d\<in>set ds. \<exists>d'\<in>set ds'. strict_prefix (components lower path) (components lower d) \<and>
                              strict_prefix (components lower path) (components lower d'))"
proof -
  have "apart lower (pl_frontier p ! i) (pl_frontier p ! j)"
    using plan_frontier(2) [OF assms(1,2)] assms(3,4) by (rule sorted_wrt_nth_less)
  then have "\<forall>d\<in>set ds. \<forall>d'\<in>set ds'. \<not> domains_overlap lower d d'"
    using enforced_domains [OF assms(5,7)] enforced_domains [OF assms(6,8)] by (simp add: apart_def)
  then show ?thesis by (rule lanes_disjoint [OF assms(5-8) _ assms(9,10)])
qed

end
