(* ===== verification/Worklist_Sample.thy ===== *)
theory Worklist_Sample
  imports Worklist Driver_Json_Roundtrip
begin

text \<open>A checkout whose base tree holds one worklist with two checkpoints, the second after the first.\<close>

definition listed_task :: "string \<Rightarrow> string list \<Rightarrow> DJson" where
  "listed_task name deps =
     DObject [(''argv'', strings [''t'']), (''dependencies'', strings deps), (''id'', DString name), (''kind'', DString ''checkpoint''),
              (''runtimeMaxSec'', DNumber ''9''), (''title'', DString ''t'')]"

definition listed_document :: DJson where
  "listed_document =
     DObject [(''schemaVersion'', DNumber ''1''), (''tasks'', DArray [listed_task ''a'' [], listed_task ''b'' [''a'']])]"

definition list_run :: "string list \<Rightarrow> unit GitWorld \<Rightarrow> (string + int option \<times> string \<times> string) \<times> unit GitWorld" where
  "list_run args w =
     (Inr (Some 0, (if hd args = ''cat-file'' then stringify listed_document
                    else if hd args = ''ls-tree'' then ''100644 blob 7'' @ [TAB] @ ''w'' @ [CHR 0x00]
                    else []), []), w)"

definition list_env :: "unit GitEnv" where
  "list_env =
     \<lparr>ge_run = (\<lambda>_. list_run), ge_create_dir_all = (\<lambda>_ u. (Inr (), u)), ge_remove_dir_all = (\<lambda>_ u. u),
      ge_is_dir = (\<lambda>_ _. True), ge_uuid = (\<lambda>_. []), ge_now = (\<lambda>_. ''t''), ge_debug = (\<lambda>s. s)\<rparr>"

definition list_world :: "unit GitWorld" where
  "list_world = \<lparr>gw_remote = (\<lambda>_. None), gw_branches = (\<lambda>_. None), gw_other = ()\<rparr>"

definition list_brief :: DJson where
  "list_brief = DObject
     [(''maxTasks'', DNumber ''3''), (''repository'', DString ''o/n''),
      (''repositoryConfig'', DObject [(''baseBranch'', DString ''main''), (''checkout'', DString ''/r''), (''forge'', DString ''local''),
                                     (''remote'', DString ''o'')]),
      (''worklist'', DString ''*'')]"

lemma list_glob: "part_matches ''*'' ''w''"
proof -
  have "chars ''w'' = [119]" "chars ''*'' = [42]"
    by (simp_all add: chars.simps code_point_def utf8_scalar_def byte_def)
  then show ?thesis using glob.seq [OF glob.empty, of "[119]"] by (simp add: part_matches_def component_glob_correct)
qed

lemma list_matches: "tree_matches (path_parts ''*'') (''100644 blob 7'' @ [TAB] @ ''w'' @ [CHR 0x00]) = Inr [(''w'', ''7'')]"
  using list_glob by (simp add: tree_matches_def tree_entry_def path_parts_def TAB_def ascii_bytes byte_def List.map_filter_simps)

lemma list_bounds: "campaign_count (Some (DNumber ''3'')) = Some 3" "campaign_count (Some (DNumber ''1'')) = Some 1"
  by code_simp+

lemma list_text: "utf8 (stringify listed_document)"
  by code_simp

lemma integer_number: "is_integer i \<Longrightarrow> is_number i"
  unfolding is_number_def
  by (rule exI [of _ "[]"], rule exI [of _ i], rule exI [of _ "[]"], rule exI [of _ "[]"]) (simp add: is_fraction_def is_exponent_def)

lemma list_numbers: "is_number ''9''" "is_number ''1''"
  by (simp_all add: integer_number is_integer_def digits_def is_ascii_digit_def byte_def)

lemma list_wf: "wf_djson listed_document"
  using list_numbers by (simp add: listed_document_def listed_task_def strings_def ascii_bytes byte_def)

lemma list_tasks:
  "worklist_tasks debug False 0 [] [listed_task ''a'' [], listed_task ''b'' [''a'']] = Inr [listed_task ''a'' [], listed_task ''b'' [''a'']]"
  by code_simp

lemma list_read:
  "worklist_document debug (stringify listed_document) ''w'' 3 1 = Inr [listed_task ''a'' [], listed_task ''b'' [''a'']]"
proof -
  have "parse (stringify listed_document) = Inr listed_document" by (rule parse_stringify_wf [OF list_wf])
  moreover have "number_u64 (DNumber ''1'') = Some 1" by code_simp
  ultimately show ?thesis using list_text list_tasks
    by (simp add: worklist_document_def object_exact_def listed_document_def)
qed

lemma list_stamped: "\<exists>out. worklist_result None ''o/n'' (worklist_source ''w'' raw base c c) [listed_task ''a'' [], listed_task ''b'' [''a'']] = Inr out"
  by (simp add: worklist_result_def task_set_agrees_def stamp_revision_def file_task_completion_revision_def worklist_source_def
      same_repository_def listed_task_def expect_def required_string_def byte_def Let_def)

lemma list_succeeds: "\<exists>out. action_worklist list_env list_brief list_world = (Inr out, list_world)"
proof -
  have "campaign_count (get_or m ''maxParallel'' (DNumber ''1'')) = Some 1" if "map_of m ''maxParallel'' = None" for m
    using that list_bounds by (simp add: get_or_def)
  then show ?thesis using list_bounds list_matches list_read list_stamped
    by (simp add: action_worklist_def list_brief_def and_then_def lift_def object_exact_def optional_fields_def
        admitted_completion_revisions_def repository_name_def required_string_def byte_def is_repository_def repo_config_def git_def
        list_env_def list_run_def give_def refuse_def campaign_coordinates_def coordinate_or_def worklist_bounds_def success_def
        stdout_trimmed_def stdout_text_def path_parts_def tree_arguments_def Let_def)
qed

text \<open>Both checkpoints are accepted, with their names, their order and their revisions.\<close>

theorem worklist_accepted_witness:
  "\<exists>out ids. action_worklist list_env list_brief list_world = (Inr out, list_world) \<and>
     map task_id (result_tasks out) = map Inr ids \<and> distinct ids \<and> list_all is_task_id ids \<and> 1 \<le> length ids \<and>
     list_all has_revision (result_tasks out)"
proof -
  obtain out where out: "action_worklist list_env list_brief list_world = (Inr out, list_world)" using list_succeeds by blast
  from worklist_accepted [OF out] show ?thesis using out by blast
qed

end
