(* ===== verification/Frontier_Sample.thy ===== *)
theory Frontier_Sample
  imports Frontier_Safety Worklist_Sample
begin

text \<open>
  Three small tasks and a checkout in which they are listed, planned and brought back: two of them may run
  side by side, the third waits for the first.
\<close>

section \<open>A plan\<close>

definition sample_task :: "string \<Rightarrow> string list \<Rightarrow> string list \<Rightarrow> DJson" where
  "sample_task name deps domains =
     DObject [(''conflictDomains'', strings domains), (''dependencies'', strings deps), (''id'', DString name),
              (''kind'', DString ''implementation'')]"

definition sample_tasks :: "DJson list" where
  "sample_tasks = [sample_task ''a'' [] [''s/a''], sample_task ''b'' [] [''s/b''], sample_task ''c'' [''a''] [''s/c'']]"

definition sample_retry :: VisibleAttempt where
  "sample_retry =
     \<lparr>va_task_id = ''a'', va_attempt = 1, va_comment = ''x/1'', va_text = ''again'', va_input_epoch = None, va_verdict = None,
      va_proposal = None\<rparr>"

definition sample_attempts :: AttemptState where
  "sample_attempts =
     \<lparr>as_diagnoses = [], as_retries = [sample_retry], as_outcomes = [], as_escalation = None, as_lifetime_attempts = [(''a'', 1)],
      as_lifetime_exhausted = [], as_warnings = []\<rparr>"

definition sample_plan :: Plan where
  "sample_plan =
     \<lparr>pl_attempts = sample_attempts, pl_remaining = sample_tasks, pl_blocked = [],
      pl_ready = [sample_task ''a'' [] [''s/a''], sample_task ''b'' [] [''s/b'']], pl_deferrals = [],
      pl_frontier = [sample_task ''a'' [] [''s/a''], sample_task ''b'' [] [''s/b'']]\<rparr>"

lemma sample_fold: "fold_attempt_receipts [RetryEvent sample_retry] [(''a'', None), (''b'', None), (''c'', None)] [] = Inr sample_attempts"
  by (simp add: fold_attempt_receipts_def fold_event_def keep_attempt_def attempt_state_def fold_start_def sample_retry_def
      belongs_to_current_epoch_def attempts_of_def entry_def push_at_def exhausted_def MAX_TASK_LIFETIME_ATTEMPTS_def
      sample_attempts_def Let_def)

lemma sample_ordered: "ordered_from [] sample_tasks"
  by code_simp

lemma sample_planned: "plan (\<lambda>s. s) sample_tasks [] sample_attempts 2 = Inr sample_plan"
  by code_simp

text \<open>The frontier of the sample is safe; the third task is not on it because the first is not done.\<close>

theorem frontier_sound_witness:
  "length (pl_frontier sample_plan) \<le> 2 \<and> sorted_wrt (apart (\<lambda>s. s)) (pl_frontier sample_plan) \<and>
    list_all (\<lambda>t. t \<in> set sample_tasks \<and> eligible sample_tasks [] sample_attempts t) (pl_frontier sample_plan)"
  using frontier_sound [OF sample_planned sample_ordered] by (simp add: list_all_iff)

theorem plan_progress_witness:
  "\<exists>out p. action_worklist list_env list_brief list_world = (Inr out, list_world) \<and>
    plan (\<lambda>s. s) (result_tasks out) [] sample_attempts 2 = Inr p \<and>
    (0 < length (pl_frontier p) \<or>
     list_all (\<lambda>t. \<exists>i. task_id t = Inr i \<and> stuck (set (direct_blocked [] sample_attempts)) (result_tasks out) i) (pl_remaining p))"
proof -
  obtain out where out: "action_worklist list_env list_brief list_world = (Inr out, list_world)" using list_succeeds by blast
  from plan_progress [OF out, of 2 "\<lambda>s. s" "[]" sample_attempts]
  obtain p where "plan (\<lambda>s. s) (result_tasks out) [] sample_attempts 2 = Inr p" "pl_frontier p = [] \<longrightarrow>
      (\<forall>t\<in>set (pl_remaining p). \<exists>i. task_id t = Inr i \<and> stuck (set (direct_blocked [] sample_attempts)) (result_tasks out) i)"
    by auto
  then show ?thesis using out by (auto simp: list_all_iff)
qed

theorem exhausted_never_dispatched_witness:
  "length (filter (attempt_for ''a'') [RetryEvent sample_retry]) < MAX_TASK_LIFETIME_ATTEMPTS"
proof -
  have "sample_task ''a'' [] [''s/a''] \<in> set (pl_frontier sample_plan)" by (simp add: sample_plan_def)
  moreover have "task_id (sample_task ''a'' [] [''s/a'']) = Inr ''a''" by (simp add: sample_task_def task_id_def)
  moreover have "task_revisions sample_tasks = Inr [(''a'', None), (''b'', None), (''c'', None)]" by code_simp
  ultimately show ?thesis by (rule exhausted_never_dispatched [OF sample_fold sample_planned sample_ordered])
qed

section \<open>Two lanes\<close>

text \<open>Both lanes changed the one path \<open>s\<close>, which is above the domains of both.\<close>

definition lane_run :: "string list \<Rightarrow> unit GitWorld \<Rightarrow> (string + int option \<times> string \<times> string) \<times> unit GitWorld" where
  "lane_run args w = (Inr (Some 0, (if hd args = ''log'' then ''s'' @ [CHR 0x00] else []), []), w)"

definition lane_env :: "unit GitEnv" where
  "lane_env =
     \<lparr>ge_run = (\<lambda>_. lane_run), ge_create_dir_all = (\<lambda>_ u. (Inr (), u)), ge_remove_dir_all = (\<lambda>_ u. u),
      ge_is_dir = (\<lambda>_ _. True), ge_uuid = (\<lambda>_. []), ge_now = (\<lambda>_. ''t''), ge_debug = (\<lambda>s. s)\<rparr>"

definition lane_world :: "unit GitWorld" where
  "lane_world = \<lparr>gw_remote = (\<lambda>_. None), gw_branches = (\<lambda>_. None), gw_other = ()\<rparr>"

definition lane_owner :: "string \<Rightarrow> string list \<Rightarrow> Ownership" where
  "lane_owner name domains =
     \<lparr>ow_task_id = name, ow_domains_required = True, ow_conflict_domains = Some domains, ow_owned_paths = [''s''],
      ow_base_rev = replicate 40 (CHR ''1''), ow_head = replicate 40 (CHR ''2'')\<rparr>"

lemma lane_paths: "listed_paths (''s'' @ [CHR 0x00]) = [''s'']" "split_whitespace [] = []"
  by code_simp+

lemma lane_oid: "is_full_oid (replicate 40 (CHR ''1''))" "is_full_oid (replicate 40 (CHR ''2''))"
  by code_simp+

lemma lane_history:
  "changed_paths_in_history lane_env worktree (replicate 40 (CHR ''1'')) (replicate 40 (CHR ''2'')) True w = (Inr [''s''], w)"
  using lane_paths
  by (simp add: changed_paths_in_history_def reject_merge_commits_def git_def lane_env_def lane_run_def and_then_def give_def Let_def
      stdout_text_def success_def lane_oid)

lemma lane_accepted:
  assumes "name = ''a'' \<and> domains = [''s/a''] \<or> name = ''b'' \<and> domains = [''s/b'']"
  shows "enforce_conflict_domains lane_env (\<lambda>s. s) worktree (replicate 40 (CHR ''1'')) (replicate 40 (CHR ''2''))
           (Some (sample_task name [] domains)) name True None w = (Inr (lane_owner name domains), w)"
  using assms lane_history
  by (auto simp: enforce_conflict_domains_def sample_task_def and_then_def lift_def lane_union_base_def give_def lane_oid Let_def
      required_string_def is_task_id_def task_char_def is_ascii_lowercase_def byte_def normalize_paths_def string_list_def strings_def
      bad_path_def ends_with_def protected_lane_paths_def lane_protection_def outside_paths_def domains_overlap_def components_def
      lane_owner_def)

theorem frontier_lanes_disjoint_witness:
  "lane_protection ''s'' = None \<and>
    (\<exists>d\<in>set [''s/a'']. \<exists>d'\<in>set [''s/b'']. strict_prefix (components (\<lambda>s. s) ''s'') (components (\<lambda>s. s) d) \<and>
                              strict_prefix (components (\<lambda>s. s) ''s'') (components (\<lambda>s. s) d'))"
proof (rule frontier_lanes_disjoint [OF sample_planned sample_ordered, of 0 1])
  show "enforce_conflict_domains lane_env (\<lambda>s. s) [] (replicate 40 (CHR ''1'')) (replicate 40 (CHR ''2''))
          (Some (pl_frontier sample_plan ! 0)) ''a'' True None lane_world = (Inr (lane_owner ''a'' [''s/a'']), lane_world)"
    using lane_accepted [of "''a''" "[''s/a'']"] by (simp add: sample_plan_def)
  show "enforce_conflict_domains lane_env (\<lambda>s. s) [] (replicate 40 (CHR ''1'')) (replicate 40 (CHR ''2''))
          (Some (pl_frontier sample_plan ! 1)) ''b'' True None lane_world = (Inr (lane_owner ''b'' [''s/b'']), lane_world)"
    using lane_accepted [of "''b''" "[''s/b'']"] by (simp add: sample_plan_def)
qed (simp_all add: sample_plan_def lane_owner_def)

end
