(* ===== verification/Attempt_Records.thy ===== *)
theory Attempt_Records
  imports Frontier Driver_Json_Roundtrip
begin

text \<open>
  The records of a campaign's log of attempt receipts (\<open>spec-build-driver/src/actions.rs\<close>,
  \<open>tally-core/src/attempt_receipts.rs\<close>): a record is a JSON object with its sequence number, the identity
  of the campaign, a stamp and the fields of its kind, and is validated into an event. UUIDs and RFC 3339
  times are parsed by third-party crates and are parameters, as is the JSON decoding of the authority file.
\<close>

section \<open>Parameters and constants\<close>

record AttemptReceiptAuthority =
  au_schema_version :: u32
  au_campaign :: string
  au_issue_number :: string
  au_arm_serial :: u64
  au_worklist_sha256 :: string

record LogEnv =
  le_debug :: "string \<Rightarrow> string"
  le_uuid :: "string \<Rightarrow> string option"
  le_rfc3339 :: "string \<Rightarrow> bool"
  le_authority :: "string \<Rightarrow> string + AttemptReceiptAuthority"
  le_utf8_error :: "string \<Rightarrow> string"

definition LEGACY_ATTEMPT_RECEIPT_SCHEMA_VERSION :: u64 where
  "LEGACY_ATTEMPT_RECEIPT_SCHEMA_VERSION = 1"

definition ATTEMPT_RECEIPT_SCHEMA_VERSION :: u64 where
  "ATTEMPT_RECEIPT_SCHEMA_VERSION = 2"

definition ATTEMPT_RECEIPT_MACHINE_ACTOR :: string where
  "ATTEMPT_RECEIPT_MACHINE_ACTOR = ''spec-build-driver''"

definition ATTEMPT_RECEIPT_AUTHORITY_SCHEMA_VERSION :: u32 where
  "ATTEMPT_RECEIPT_AUTHORITY_SCHEMA_VERSION = 1"

definition ATTEMPT_RECEIPT_AUTHORITY_FILE :: string where
  "ATTEMPT_RECEIPT_AUTHORITY_FILE = ''receipt-authority-v1.json''"

definition ATTEMPT_RECEIPTS_FILE :: string where
  "ATTEMPT_RECEIPTS_FILE = ''attempt-receipts-v1.jsonl''"

definition MAX_ATTEMPT_RECEIPT_AUTHORITY_BYTES :: nat where
  "MAX_ATTEMPT_RECEIPT_AUTHORITY_BYTES = 65536"

definition MAX_DIAGNOSIS_CHARS :: nat where
  "MAX_DIAGNOSIS_CHARS = 12000"

definition MAX_RETRY_CHARS :: nat where
  "MAX_RETRY_CHARS = 2000"

definition MAX_ATTEMPT_RECEIPTS_LOG_BYTES :: nat where
  "MAX_ATTEMPT_RECEIPTS_LOG_BYTES = 134217728"

section \<open>Text and proposals\<close>

fun crlf_to_lf :: "string \<Rightarrow> string" where
  "crlf_to_lf (c # d # cs) = (if c = CR \<and> d = LF then LF # crlf_to_lf cs else c # crlf_to_lf (d # cs))"
| "crlf_to_lf s = s"

definition required_text :: "DJson option \<Rightarrow> string \<Rightarrow> nat \<Rightarrow> string + string" where
  "required_text v context maximum =
     (case Option.bind v as_string of
        None \<Rightarrow> Inl (context @ '' must be non-empty text'')
      | Some s \<Rightarrow>
          if trim s = [] then Inl (context @ '' must be non-empty text'')
          else if char_count s > maximum then Inl (context @ '' exceeds '' @ show_nat maximum @ '' characters'')
          else if list_ex (\<lambda>c. byte c < 32 \<and> c \<noteq> LF \<and> c \<noteq> TAB \<and> c \<noteq> CR) s then Inl (context @ '' contains unsupported control characters'')
          else Inr (trim (map (\<lambda>c. if c = CR then LF else c) (crlf_to_lf s))))"

definition bounded_paths :: "DJson option \<Rightarrow> string \<Rightarrow> string \<Rightarrow> string + string list" where
  "bounded_paths v context message =
     ok_then (normalize_paths v (context @ ''.paths'') True) (\<lambda>found.
     ok_then (expect found ''required paths are present'') (\<lambda>paths.
       if length paths > 128 \<or> list_ex (\<lambda>p. char_count p > 4096) paths then Inl (context @ message) else Inr paths))"

definition check_argv :: "string \<Rightarrow> nat \<Rightarrow> DJson \<Rightarrow> string + unit" where
  "check_argv context i criterion =
     ok_then (expect (Option.bind (Option.bind (Driver_Json.as_object criterion) (\<lambda>m. map_of m ''argv'')) Driver_Json.as_array)
                ''normalized criterion argv is an array'') (\<lambda>argv.
       if length argv > 32 \<or> list_ex (\<lambda>a. is_some_and (\<lambda>s. char_count s > 4096) (as_string a)) argv
       then Inl (indexed (context @ ''.acceptanceCriteria'') i @ ''.argv exceeds the proposal bound'') else Inr ())"

definition normalize_diagnosis_proposal :: "LogEnv \<Rightarrow> DJson option \<Rightarrow> string \<Rightarrow> string + DJson option" where
  "normalize_diagnosis_proposal env v context =
     (case v of
        None \<Rightarrow> Inr None
      | Some j \<Rightarrow>
          if j = DNull then Inr None
          else
            ok_then (object_exact j [''kind'', ''paths'', ''goal'', ''acceptanceCriteria'', ''dependencies''] context) (\<lambda>proposal.
            ok_then (required_string (map_of proposal ''kind'') (context @ ''.kind'') None) (\<lambda>kind.
              if kind \<notin> {''amendment-task'', ''gate-set-fix''} then Inl (context @ ''.kind must be amendment-task or gate-set-fix'')
              else
                ok_then (bounded_paths (map_of proposal ''paths'') context ''.paths exceeds the proposal bound'') (\<lambda>paths.
                ok_then (required_text (map_of proposal ''goal'') (context @ ''.goal'') 12000) (\<lambda>goal.
                ok_then (normalize_acceptance (le_debug env) (map_of proposal ''acceptanceCriteria'') (context @ ''.acceptanceCriteria'')) (\<lambda>acceptance.
                ok_then (expect (Driver_Json.as_array acceptance) ''normalized acceptance criteria are an array'') (\<lambda>criteria.
                  if length criteria > 16 then Inl (context @ ''.acceptanceCriteria exceeds 16 entries'')
                  else
                    ok_then (collect_results (map (\<lambda>(i, c). check_argv context i c) (enumerate 0 criteria))) (\<lambda>_.
                    ok_then (string_list (map_of proposal ''dependencies'') (context @ ''.dependencies'') False) (\<lambda>dependencies.
                      if length dependencies > 128 \<or> list_ex (\<lambda>d. char_count d > 80 \<or> \<not> is_task_id d) dependencies \<or> \<not> distinct dependencies
                      then Inl (context @ ''.dependencies must contain at most 128 unique stable task IDs'')
                      else Inr (Some (json_object
                             [(''kind'', DString kind), (''paths'', strings paths), (''goal'', DString goal),
                              (''acceptanceCriteria'', acceptance), (''dependencies'', strings dependencies)])))))))))))"

section \<open>Records\<close>

definition validate_for :: "AttemptReceiptAuthority \<Rightarrow> string \<Rightarrow> string \<Rightarrow> string + unit" where
  "validate_for au campaign issue_number =
     (if au_schema_version au \<noteq> ATTEMPT_RECEIPT_AUTHORITY_SCHEMA_VERSION
      then Inl (''schemaVersion must equal '' @ show_nat (unat ATTEMPT_RECEIPT_AUTHORITY_SCHEMA_VERSION))
      else if au_campaign au \<noteq> campaign \<or> au_issue_number au \<noteq> issue_number
      then Inl ''campaign or issueNumber does not match the receipt log''
      else if au_arm_serial au = 0 then Inl ''armSerial must be a positive integer''
      else if \<not> is_sha256_identity (au_worklist_sha256 au) then Inl ''worklistSha256 must be a lowercase SHA-256 identity''
      else Inr ())"

definition validate_attempt_receipt_stamp ::
  "LogEnv \<Rightarrow> u64 option \<Rightarrow> string option \<Rightarrow> string option \<Rightarrow> string option \<Rightarrow> string + unit" where
  "validate_attempt_receipt_stamp env arm_serial worklist_sha256 written_at actor =
     (if arm_serial = None \<or> arm_serial = Some 0 then Inl ''armSerial must be a positive integer''
      else if \<not> is_some_and is_sha256_identity worklist_sha256 then Inl ''worklistSha256 must be a lowercase SHA-256 identity''
      else if \<not> is_some_and (le_rfc3339 env) written_at then Inl ''writtenAt must be an RFC3339 timestamp''
      else case actor of
        None \<Rightarrow> Inl ''actor must be non-empty text''
      | Some s \<Rightarrow>
          if s = [] \<or> char_count s > 128 \<or> list_ex (\<lambda>c. byte c < 32) s
          then Inl ''actor must be non-empty text of at most 128 characters without controls'' else Inr ())"

definition attempt_receipt_url :: "string \<Rightarrow> u64 \<Rightarrow> string" where
  "attempt_receipt_url campaign sequence = ''local://campaign/'' @ campaign @ ''/attempt-receipts/'' @ show_nat (unat sequence)"

definition kind_fields :: "string \<Rightarrow> string list option" where
  "kind_fields kind =
     (if kind = ''diagnosis'' then Some [''taskId'', ''attempt'', ''diagnosis'', ''verdict'', ''proposal'', ''redaction'']
      else if kind = ''retry'' then Some [''taskId'', ''attempt'', ''reason'', ''redaction'']
      else if kind = ''worker-outcome'' then Some [''taskId'', ''taskRevision'', ''taskUuid'', ''outcome'', ''paths'', ''reason'']
      else if kind = ''escalation'' then Some [''body'']
      else if kind = ''pardon'' then Some [''tasks'', ''reason'', ''actor'', ''nonce'']
      else None)"

definition receipt_fields :: "u64 \<Rightarrow> string \<Rightarrow> string list \<Rightarrow> string list" where
  "receipt_fields schema_version kind own =
     [''schemaVersion'', ''sequence'', ''kind'', ''campaign'', ''issueNumber'']
     @ (if schema_version = ATTEMPT_RECEIPT_SCHEMA_VERSION then [''armSerial'', ''worklistSha256'', ''writtenAt'', ''actor''] else [])
     @ own
     @ (if schema_version = ATTEMPT_RECEIPT_SCHEMA_VERSION \<and> kind \<in> {''diagnosis'', ''retry'', ''worker-outcome''} then [''inputEpoch''] else [])"

definition safe_task_id :: "(string \<times> DJson) list \<Rightarrow> string \<Rightarrow> string + string" where
  "safe_task_id m context =
     ok_then (required_string (map_of m ''taskId'') (context @ ''.taskId'') None) (\<lambda>t.
       if \<not> is_task_id t then Inl (context @ ''.taskId is unsafe'') else Inr t)"

definition input_epoch_of :: "(string \<times> DJson) list \<Rightarrow> string \<Rightarrow> string + string option" where
  "input_epoch_of m context =
     (case map_of m ''inputEpoch'' of
        None \<Rightarrow> Inr None
      | Some v \<Rightarrow>
          ok_then (required_string (Some v) (context @ ''.inputEpoch'') (Some 71)) (\<lambda>epoch.
            if \<not> is_sha256_identity epoch then Inl (context @ ''.inputEpoch must be a lowercase SHA-256 identity'') else Inr (Some epoch)))"

definition validate_attempt ::
  "LogEnv \<Rightarrow> (string \<times> DJson) list \<Rightarrow> string \<Rightarrow> string \<Rightarrow> string option \<Rightarrow> bool \<Rightarrow> string + AttemptEvent" where
  "validate_attempt env m context comment input_epoch diagnosis =
     ok_then (safe_task_id m context) (\<lambda>t.
       case Option.bind (map_of m ''attempt'') number_u64 of
         None \<Rightarrow> Inl (context @ ''.attempt must equal 1 or 2'')
       | Some attempt \<Rightarrow>
           if attempt \<noteq> 1 \<and> attempt \<noteq> 2 then Inl (context @ ''.attempt must equal 1 or 2'')
           else if Option.bind (map_of m ''redaction'') as_string \<notin> {Some ''conservative-v1'', Some ''conservative-v2''}
           then Inl (context @ ''.redaction is unsupported'')
           else
             let payload = (if diagnosis then ''diagnosis'' else ''reason'')
             in ok_then (if diagnosis then parse_verdict (map_of m ''verdict'') (context @ ''.verdict'') else Inr None) (\<lambda>verdict.
                ok_then (if diagnosis then normalize_diagnosis_proposal env (map_of m ''proposal'') (context @ ''.proposal'') else Inr None) (\<lambda>proposal.
                  if proposal \<noteq> None \<and> verdict \<noteq> Some Blocked
                  then Inl (context @ ''.proposal is allowed only with a blocked diagnosis verdict'')
                  else
                    ok_then (required_text (map_of m payload) (context @ ''.'' @ payload) (if diagnosis then MAX_DIAGNOSIS_CHARS else MAX_RETRY_CHARS)) (\<lambda>t_text.
                      let visible = \<lparr>va_task_id = t, va_attempt = attempt, va_comment = comment, va_text = t_text, va_input_epoch = input_epoch,
                                     va_verdict = verdict, va_proposal = proposal\<rparr>
                      in Inr (if diagnosis then DiagnosisEvent visible else RetryEvent visible)))))"

definition validate_outcome :: "LogEnv \<Rightarrow> (string \<times> DJson) list \<Rightarrow> string \<Rightarrow> string \<Rightarrow> string option \<Rightarrow> string + AttemptEvent" where
  "validate_outcome env m context comment input_epoch =
     ok_then (safe_task_id m context) (\<lambda>t.
     ok_then (required_string (map_of m ''taskRevision'') (context @ ''.taskRevision'') (Some 71)) (\<lambda>revision.
       if \<not> is_sha256_identity revision then Inl (context @ ''.taskRevision must be a lowercase SHA-256 identity'')
       else
         ok_then (required_string (map_of m ''taskUuid'') (context @ ''.taskUuid'') (Some 36)) (\<lambda>uuid.
           case le_uuid env uuid of
             None \<Rightarrow> Inl (context @ ''.taskUuid must be a UUID'')
           | Some canonical \<Rightarrow>
               if canonical \<noteq> uuid then Inl (context @ ''.taskUuid must use canonical UUID spelling'')
               else
                 let class = Option.bind (map_of m ''outcome'') as_string
                 in ok_then
                      (if class = Some ''needs-authority''
                       then if map_of m ''reason'' \<noteq> Some DNull then Inl (context @ ''.reason must be null for needs-authority'')
                            else ok_then (bounded_paths (map_of m ''paths'') context ''.paths exceeds the worker outcome bound'') (\<lambda>paths. Inr (NeedsAuthority paths))
                       else if class = Some ''impossible''
                       then if map_of m ''paths'' \<noteq> Some DNull then Inl (context @ ''.paths must be null for impossible'')
                            else ok_then (required_text (map_of m ''reason'') (context @ ''.reason'') 12000) (\<lambda>reason. Inr (Impossible reason))
                       else Inl (context @ ''.outcome must be needs-authority or impossible'')) (\<lambda>outcome.
                      Inr (OutcomeEvent \<lparr>vo_task_id = t, vo_task_revision = revision, vo_task_uuid = uuid, vo_comment = comment,
                                         vo_input_epoch = input_epoch, vo_outcome = outcome\<rparr>)))))"

definition when_present :: "DJson option \<Rightarrow> (DJson option \<Rightarrow> string + 'a) \<Rightarrow> string + unit" where
  "when_present v f = (if v = None then Inr () else ok_then (f v) (\<lambda>_. Inr ()))"

definition validate_pardon :: "LogEnv \<Rightarrow> (string \<times> DJson) list \<Rightarrow> string \<Rightarrow> string \<Rightarrow> string + AttemptEvent" where
  "validate_pardon env m context comment =
     (if map_of m ''tasks'' = None then Inl (context @ ''.tasks is required'')
      else
        ok_then (if map_of m ''tasks'' = Some DNull then Inr None
                 else ok_then (string_list (map_of m ''tasks'') (context @ ''.tasks'') True) (\<lambda>tasks.
                        if \<not> distinct tasks \<or> list_ex (\<lambda>t. \<not> is_task_id t) tasks
                        then Inl (context @ ''.tasks must contain unique safe task IDs'') else Inr (Some tasks))) (\<lambda>tasks.
        ok_then (when_present (map_of m ''reason'') (\<lambda>v. required_text v (context @ ''.reason'') 4000)) (\<lambda>_.
        ok_then (when_present (map_of m ''actor'') (\<lambda>v. required_string v (context @ ''.actor'') (Some 128))) (\<lambda>_.
        ok_then (when_present (map_of m ''nonce'') (\<lambda>v.
                   ok_then (required_string v (context @ ''.nonce'') (Some 36)) (\<lambda>nonce.
                     if le_uuid env nonce = None then Inl (context @ ''.nonce must be a UUID'') else Inr ()))) (\<lambda>_.
          Inr (PardonEvent tasks comment))))))"

definition validate_attempt_receipt :: "LogEnv \<Rightarrow> DJson \<Rightarrow> string \<Rightarrow> u64 \<Rightarrow> string \<Rightarrow> string \<Rightarrow> string + AttemptEvent" where
  "validate_attempt_receipt env candidate path expected_sequence campaign issue_number =
     (let context = ''attempt receipt '' @ show_nat (unat expected_sequence) @ '' in '' @ path;
          comment = attempt_receipt_url campaign expected_sequence
      in case Driver_Json.as_object candidate of
           None \<Rightarrow> Inl (context @ '' must be an object'')
         | Some obj \<Rightarrow>
             (let kind = (case Option.bind (map_of obj ''kind'') as_string of None \<Rightarrow> [] | Some k \<Rightarrow> k)
              in case Option.bind (map_of obj ''schemaVersion'') number_u64 of
                   None \<Rightarrow> Inl (context @ ''.schemaVersion is invalid'')
                 | Some schema_version \<Rightarrow>
                     if schema_version \<notin> {LEGACY_ATTEMPT_RECEIPT_SCHEMA_VERSION, ATTEMPT_RECEIPT_SCHEMA_VERSION}
                     then Inl (context @ ''.schemaVersion must equal '' @ show_nat (unat LEGACY_ATTEMPT_RECEIPT_SCHEMA_VERSION) @ '' or ''
                               @ show_nat (unat ATTEMPT_RECEIPT_SCHEMA_VERSION))
                     else case kind_fields kind of
                       None \<Rightarrow> Inl (context @ '' has unknown kind '' @ le_debug env kind)
                     | Some own \<Rightarrow>
                         ok_then (object_exact candidate (receipt_fields schema_version kind own) context) (\<lambda>m.
                           if Option.bind (map_of m ''sequence'') number_u64 \<noteq> Some expected_sequence
                              \<or> Option.bind (map_of m ''campaign'') as_string \<noteq> Some campaign
                              \<or> Option.bind (map_of m ''issueNumber'') as_string \<noteq> Some issue_number
                           then Inl (context @ '' has invalid identity or sequence'')
                           else
                             ok_then (if schema_version = ATTEMPT_RECEIPT_SCHEMA_VERSION
                                      then case validate_attempt_receipt_stamp env (Option.bind (map_of m ''armSerial'') number_u64)
                                                  (Option.bind (map_of m ''worklistSha256'') as_string) (Option.bind (map_of m ''writtenAt'') as_string)
                                                  (Option.bind (map_of m ''actor'') as_string) of
                                             Inl e \<Rightarrow> Inl (context @ '' has invalid stamp: '' @ e)
                                           | Inr _ \<Rightarrow> Inr ()
                                      else Inr ()) (\<lambda>_.
                             ok_then (input_epoch_of m context) (\<lambda>input_epoch.
                               if kind = ''diagnosis'' then validate_attempt env m context comment input_epoch True
                               else if kind = ''retry'' then validate_attempt env m context comment input_epoch False
                               else if kind = ''worker-outcome'' then validate_outcome env m context comment input_epoch
                               else if kind = ''escalation''
                               then ok_then (required_text (map_of m ''body'') (context @ ''.body'') 60000) (\<lambda>_. Inr (EscalationEvent comment))
                               else validate_pardon env m context comment)))))"

end
