(* ===== verification/Attempt_Log.thy ===== *)
theory Attempt_Log
  imports Attempt_Records
begin

text \<open>
  The log file of attempt receipts (\<open>spec-build-driver/src/actions.rs\<close>): where it lies, reading it, and
  appending to it. A reader ignores a torn last line, a writer cuts it off first, under the exclusive lock.
  A file is its kind, its link count and its content. Every system call on the way may fail: \<open>lo_fails\<close> says
  which calls of one operation do, \<open>lo_error\<close> gives the text of the error, and a failed write may leave the
  first \<open>lo_written\<close> bytes of its line. \<open>lo_now\<close> is the time of the operation as it is printed.
\<close>

section \<open>Files and calls\<close>

datatype LogCall =
    CreateParent | StatParent | ChmodParent | CreateLog | OpenLog | StatLog | ChmodLog | LockLog
  | OpenDirectory | SyncDirectory | StatLocked | SeekLog | ReadLog | TruncateLog | SyncTruncated
  | OpenAuthority | StatAuthority | ReadAuthority | StatEnd | WriteLog | SyncLog

record LogIo =
  lo_fails :: "LogCall \<Rightarrow> bool"
  lo_error :: "LogCall \<Rightarrow> string"
  lo_written :: nat
  lo_now :: string
  lo_real_parent :: bool

record LogFile =
  lf_regular :: bool
  lf_nlink :: nat
  lf_content :: string

record LogWorld =
  lw_log :: "LogFile option"
  lw_authority :: "LogFile option"

definition call :: "LogIo \<Rightarrow> LogCall \<Rightarrow> string \<Rightarrow> string + unit" where
  "call io c message = (if lo_fails io c then Inl (message @ lo_error io c) else Inr ())"

section \<open>Where the log lies\<close>

text \<open>
  \<open>Path::file_name\<close> and \<open>Path::parent\<close> of an absolute path: trailing separators and \<open>.\<close> components do not
  count. The path is read from its end.
\<close>

fun trim_reversed :: "string \<Rightarrow> string" where
  "trim_reversed (c # d # cs) =
     (if c = CHR ''/'' \<or> c = CHR ''.'' \<and> d = CHR ''/'' then trim_reversed (d # cs) else c # d # cs)"
| "trim_reversed s = s"

definition path_file_name :: "string \<Rightarrow> string option" where
  "path_file_name p =
     (let name = rev (takeWhile (\<lambda>c. c \<noteq> CHR ''/'') (trim_reversed (rev p)))
      in if name = [] \<or> name = ''..'' then None else Some name)"

definition path_parent :: "string \<Rightarrow> string option" where
  "path_parent p =
     (let r = trim_reversed (rev p)
      in if takeWhile (\<lambda>c. c \<noteq> CHR ''/'') r = [] then None
         else Some (rev (trim_reversed (dropWhile (\<lambda>c. c \<noteq> CHR ''/'') r))))"

definition receipts_source :: "DJson option \<Rightarrow> string + (string \<times> DJson) list" where
  "receipts_source v =
     (case v of
        None \<Rightarrow> Inl ''attemptReceipts must be an object''
      | Some j \<Rightarrow> object_exact j [''schemaVersion'', ''kind'', ''path'', ''inputEpochs''] ''attemptReceipts'')"

definition attempt_receipts_path :: "DJson option \<Rightarrow> string \<Rightarrow> string + string" where
  "attempt_receipts_path v campaign =
     ok_then (receipts_source v) (\<lambda>source.
       if Option.bind (map_of source ''schemaVersion'') number_u64 \<noteq> Some 1 \<or> Option.bind (map_of source ''kind'') as_string \<noteq> Some ''local-jsonl''
       then Inl ''attemptReceipts must use local-jsonl schema version 1''
       else
         ok_then (required_string (map_of source ''path'') ''attemptReceipts.path'' (Some 4096)) (\<lambda>path.
           if \<not> starts_with path ''/'' then Inl ''attemptReceipts.path must be absolute''
           else if path_file_name path = Some ATTEMPT_RECEIPTS_FILE
             \<and> Option.bind (path_parent path) path_file_name = Some campaign
             \<and> Option.bind (Option.bind (path_parent path) path_parent) path_file_name = Some ''attempt-receipts''
           then Inr path
           else Inl ''attemptReceipts.path does not name this campaign's attempt-receipts log''))"

definition input_epoch_entry :: "string \<times> DJson \<Rightarrow> string + string \<times> string" where
  "input_epoch_entry = (\<lambda>(t, epoch).
     if \<not> is_task_id t then Inl ''attemptReceipts.inputEpochs contains an unsafe task ID''
     else
       ok_then (required_string (Some epoch) (''attemptReceipts.inputEpochs.'' @ t) (Some 71)) (\<lambda>e.
         if \<not> is_sha256_identity e then Inl (''attemptReceipts.inputEpochs.'' @ t @ '' must be a lowercase SHA-256 identity'')
         else Inr (t, e)))"

definition attempt_receipt_input_epochs :: "DJson option \<Rightarrow> string + (string \<times> string) list" where
  "attempt_receipt_input_epochs v =
     ok_then (receipts_source v) (\<lambda>source.
       case map_of source ''inputEpochs'' of
         None \<Rightarrow> Inr []
       | Some j \<Rightarrow>
           (case Driver_Json.as_object j of
              None \<Rightarrow> Inl ''attemptReceipts.inputEpochs must be an object''
            | Some epochs \<Rightarrow>
                if length epochs > MAX_CAMPAIGN_TASKS then Inl ''attemptReceipts.inputEpochs exceeds 128 tasks''
                else collect_results (map input_epoch_entry epochs)))"

section \<open>Reading\<close>

fun log_records :: "LogEnv \<Rightarrow> string \<Rightarrow> string \<Rightarrow> string \<Rightarrow> nat \<Rightarrow> string list \<Rightarrow> string + (DJson \<times> AttemptEvent) list" where
  "log_records env path campaign issue_number i [] = Inr []"
| "log_records env path campaign issue_number i (line # lines) =
     (if line = [] then Inl (''attempt-receipts log '' @ path @ '' contains a blank record'')
      else case Driver_Json.parse line of
        Inl e \<Rightarrow> Inl (''attempt receipt '' @ show_nat (Suc i) @ '' in '' @ path @ '' is invalid JSON: '' @ e)
      | Inr candidate \<Rightarrow>
          ok_then (validate_attempt_receipt env candidate path (of_nat i + 1) campaign issue_number) (\<lambda>event.
          ok_then (log_records env path campaign issue_number (Suc i) lines) (\<lambda>later.
            Inr ((candidate, event) # later))))"

definition log_text :: "LogEnv \<Rightarrow> string \<Rightarrow> string \<Rightarrow> string + string" where
  "log_text env path raw =
     (let kept = take (complete_len raw) raw
      in if utf8 kept then Inr kept else Inl (''attempt-receipts log '' @ path @ '' is not UTF-8: '' @ le_utf8_error env kept))"

definition parse_log :: "LogEnv \<Rightarrow> string \<Rightarrow> string \<Rightarrow> string \<Rightarrow> string \<Rightarrow> string + (DJson \<times> AttemptEvent) list" where
  "parse_log env path campaign issue_number raw =
     ok_then (log_text env path raw) (\<lambda>t. log_records env path campaign issue_number 0 (str_lines t))"

definition bounded_log :: "LogFile \<Rightarrow> bool" where
  "bounded_log f \<longleftrightarrow> lf_regular f \<and> lf_nlink f = 1 \<and> length (lf_content f) \<le> MAX_ATTEMPT_RECEIPTS_LOG_BYTES"

definition bounded_check :: "string \<Rightarrow> LogFile \<Rightarrow> string + unit" where
  "bounded_check path f =
     (if bounded_log f then Inr () else Inl (''attempt-receipts log is not a bounded private regular file: '' @ path))"

definition read_attempt_receipts ::
  "LogEnv \<Rightarrow> LogIo \<Rightarrow> DJson option \<Rightarrow> string \<Rightarrow> string \<Rightarrow> LogWorld \<Rightarrow> string + AttemptEvent list" where
  "read_attempt_receipts env io v campaign issue_number w =
     ok_then (attempt_receipts_path v campaign) (\<lambda>path.
       let message = ''cannot read attempt-receipts log '' @ path @ '': ''
       in case lw_log w of
            None \<Rightarrow> Inr []
          | Some f \<Rightarrow>
              ok_then (call io OpenLog (''cannot open attempt-receipts log '' @ path @ '': '')) (\<lambda>_.
              ok_then (call io LockLog message) (\<lambda>_.
              ok_then (call io StatLocked message) (\<lambda>_.
              ok_then (bounded_check path f) (\<lambda>_.
              ok_then (call io ReadLog message) (\<lambda>_.
              ok_then (parse_log env path campaign issue_number (lf_content f)) (\<lambda>entries. Inr (map snd entries))))))))"

definition campaign_attempt_state ::
  "LogEnv \<Rightarrow> LogIo \<Rightarrow> DJson option \<Rightarrow> string \<Rightarrow> string \<Rightarrow> (string \<times> string option) list \<Rightarrow> (string \<times> string) list \<Rightarrow> LogWorld
     \<Rightarrow> string + AttemptState" where
  "campaign_attempt_state env io v campaign issue_number revisions current_epochs w =
     ok_then (read_attempt_receipts env io v campaign issue_number w) (\<lambda>events.
       fold_attempt_receipts events revisions current_epochs)"

definition campaign_attempt_state_all :: "LogEnv \<Rightarrow> LogIo \<Rightarrow> DJson option \<Rightarrow> string \<Rightarrow> string \<Rightarrow> LogWorld \<Rightarrow> string + AttemptState" where
  "campaign_attempt_state_all env io v campaign issue_number w =
     ok_then (attempt_receipt_input_epochs v) (\<lambda>current_epochs.
     ok_then (read_attempt_receipts env io v campaign issue_number w) (\<lambda>events.
       attempt_state_all events current_epochs))"

text \<open>Reading under the writer's lock, with the repair of a torn tail.\<close>

definition read_attempt_records_locked ::
  "LogEnv \<Rightarrow> LogIo \<Rightarrow> LogFile \<Rightarrow> string \<Rightarrow> string \<Rightarrow> string \<Rightarrow> bool \<Rightarrow> (string + (DJson \<times> AttemptEvent) list) \<times> LogFile" where
  "read_attempt_records_locked env io f path campaign issue_number repair_tail =
     (let raw = lf_content f;
          complete = complete_len raw;
          torn = (complete \<noteq> length raw \<and> repair_tail)
      in case ok_then (call io StatLocked (''cannot read attempt-receipts log '' @ path @ '': '')) (\<lambda>_.
              ok_then (bounded_check path f) (\<lambda>_.
              ok_then (call io SeekLog []) (\<lambda>_.
              ok_then (call io ReadLog []) (\<lambda>_.
              if torn then call io TruncateLog [] else Inr ())))) of
           Inl e \<Rightarrow> (Inl e, f)
         | Inr _ \<Rightarrow>
             (let f1 = (if torn then f\<lparr>lf_content := take complete raw\<rparr> else f)
              in (ok_then (if torn then call io SyncTruncated [] else Inr ()) (\<lambda>_. parse_log env path campaign issue_number raw), f1)))"

section \<open>Appending\<close>

definition prepare_attempt_receipts_parent :: "LogIo \<Rightarrow> string \<Rightarrow> string + unit" where
  "prepare_attempt_receipts_parent io path =
     (case path_parent path of
        None \<Rightarrow> Inl ''attemptReceipts.path has no parent''
      | Some parent \<Rightarrow>
          (let message = ''cannot prepare attempt-receipts directory '' @ parent @ '': ''
           in ok_then (call io CreateParent message) (\<lambda>_.
              ok_then (call io StatParent message) (\<lambda>_.
                if \<not> lo_real_parent io then Inl ''attempt-receipts parent must be a real directory''
                else call io ChmodParent message))))"

definition open_log :: "LogIo \<Rightarrow> string \<Rightarrow> LogFile option \<Rightarrow> string + LogFile \<times> bool" where
  "open_log io path existing =
     ok_then (call io CreateLog (''cannot create attempt-receipts log '' @ path @ '': '')) (\<lambda>_.
       case existing of
         None \<Rightarrow> Inr (\<lparr>lf_regular = True, lf_nlink = 1, lf_content = []\<rparr>, True)
       | Some f \<Rightarrow>
           ok_then (call io OpenLog (''cannot open attempt-receipts log '' @ path @ '': '')) (\<lambda>_. Inr (f, False)))"

definition secure_log :: "LogIo \<Rightarrow> string \<Rightarrow> LogFile \<Rightarrow> bool \<Rightarrow> string + unit" where
  "secure_log io path f created =
     ok_then (call io StatLog []) (\<lambda>_.
       if \<not> lf_regular f \<or> lf_nlink f \<noteq> 1 then Inl (''attempt-receipts log is not a private regular file: '' @ path)
       else
         ok_then (call io ChmodLog []) (\<lambda>_.
         ok_then (call io LockLog (''cannot lock attempt-receipts log '' @ path @ '': '')) (\<lambda>_.
           if created then ok_then (call io OpenDirectory []) (\<lambda>_. call io SyncDirectory []) else Inr ())))"

definition read_attempt_receipt_authority ::
  "LogEnv \<Rightarrow> LogIo \<Rightarrow> string \<Rightarrow> string \<Rightarrow> string \<Rightarrow> LogFile option \<Rightarrow> string + AttemptReceiptAuthority" where
  "read_attempt_receipt_authority env io receipt_path campaign issue_number published =
     (case path_parent receipt_path of
        None \<Rightarrow> Inl ''attemptReceipts.path has no parent''
      | Some parent \<Rightarrow>
          (let path = parent @ ''/'' @ ATTEMPT_RECEIPT_AUTHORITY_FILE;
               missing = ''cannot write a stamped attempt receipt without authority '' @ path @ '': ''
           in case published of
                None \<Rightarrow> Inl (missing @ lo_error io OpenAuthority)
              | Some f \<Rightarrow>
                  ok_then (call io OpenAuthority missing) (\<lambda>_.
                  ok_then (call io StatAuthority []) (\<lambda>_.
                    if \<not> lf_regular f \<or> lf_nlink f \<noteq> 1 \<or> length (lf_content f) > MAX_ATTEMPT_RECEIPT_AUTHORITY_BYTES
                    then Inl (''attempt receipt authority is not a bounded private regular file: '' @ path)
                    else
                      ok_then (call io ReadAuthority []) (\<lambda>_.
                        let raw = lf_content f
                        in if length raw > MAX_ATTEMPT_RECEIPT_AUTHORITY_BYTES
                           then Inl (''attempt receipt authority exceeds 64 KiB: '' @ path)
                           else
                             (case le_authority env raw of
                                Inl e \<Rightarrow> Inl (''attempt receipt authority '' @ path @ '' is invalid JSON: '' @ e)
                              | Inr au \<Rightarrow>
                                  (case validate_for au campaign issue_number of
                                     Inl e \<Rightarrow> Inl (''attempt receipt authority '' @ path @ '' is invalid: '' @ e)
                                   | Inr _ \<Rightarrow> Inr au)))))))"

definition record_with_comment :: "DJson \<Rightarrow> string \<Rightarrow> string + DJson" where
  "record_with_comment j campaign =
     (case Driver_Json.as_object j of
        None \<Rightarrow> Inl ''attempt receipt must be an object''
      | Some m \<Rightarrow>
          (case Option.bind (map_of m ''sequence'') number_u64 of
             None \<Rightarrow> Inl ''attempt receipt sequence is invalid''
           | Some sequence \<Rightarrow> Inr (DObject (btree_insert ''comment'' (DString (attempt_receipt_url campaign sequence)) m))))"

definition text_at :: "string \<Rightarrow> (string \<times> DJson) list \<Rightarrow> string option" where
  "text_at k m = Option.bind (map_of m k) as_string"

definition payload_kind :: "(string \<times> DJson) list \<Rightarrow> string" where
  "payload_kind m = (case text_at ''kind'' m of None \<Rightarrow> [] | Some k \<Rightarrow> k)"

text \<open>
  What the folded log says about a payload: it is refused, it repeats the receipt behind a comment, or it is
  new.
\<close>

definition attempt_admission :: "LogEnv \<Rightarrow> AttemptState \<Rightarrow> (string \<times> DJson) list \<Rightarrow> string + string option" where
  "attempt_admission env st m =
     (let kind = payload_kind m;
          active = (if kind = ''diagnosis'' then as_diagnoses st else as_retries st);
          t = text_at ''taskId'' m;
          attempt = Option.bind (map_of m ''attempt'') number_u64;
          shown = le_debug env (case t of None \<Rightarrow> [] | Some i \<Rightarrow> i)
      in case List.find (\<lambda>r. Some (va_task_id r) = t \<and> Some (va_attempt r) = attempt) active of
           Some receipt \<Rightarrow> Inr (Some (va_comment receipt))
         | None \<Rightarrow>
             if (case Option.bind t (map_of (as_lifetime_attempts st)) of None \<Rightarrow> 0 | Some n \<Rightarrow> n) \<ge> MAX_TASK_LIFETIME_ATTEMPTS
             then Inl (''task '' @ shown @ '' reached the hard lifetime limit of '' @ show_nat MAX_TASK_LIFETIME_ATTEMPTS @ '' attempt receipts'')
             else
               let spent = length (filter (\<lambda>r. Some (va_task_id r) = t) active)
               in if attempt \<noteq> Some (of_nat spent + 1)
                  then Inl (''task '' @ shown @ '' '' @ kind @ '' attempt '' @ show_nat (case attempt of None \<Rightarrow> 0 | Some n \<Rightarrow> unat n)
                            @ '' is not next after '' @ show_nat spent @ '' log receipts'')
                  else Inr None)"

definition admission :: "LogEnv \<Rightarrow> AttemptState \<Rightarrow> (string \<times> DJson) list \<Rightarrow> string + string option" where
  "admission env st m =
     (let kind = payload_kind m
      in if map_of m ''inputEpoch'' \<noteq> None then Inl ''attempt receipt inputEpoch is derived from attemptReceipts authority''
         else if kind = ''diagnosis'' \<or> kind = ''retry'' then attempt_admission env st m
         else if kind = ''worker-outcome''
         then Inr (map_option vo_comment (List.find (\<lambda>r. Some (vo_task_uuid r) = text_at ''taskUuid'' m) (as_outcomes st)))
         else if kind = ''escalation'' then Inr (as_escalation st)
         else Inr None)"

definition insert_entries :: "(string \<times> DJson) list \<Rightarrow> (string \<times> DJson) list \<Rightarrow> (string \<times> DJson) list" where
  "insert_entries es m = fold (\<lambda>(k, v). btree_insert k v) es m"

definition stamped :: "LogIo \<Rightarrow> AttemptReceiptAuthority \<Rightarrow> string \<Rightarrow> string \<Rightarrow> u64 \<Rightarrow> (string \<times> DJson) list" where
  "stamped io au campaign issue_number sequence =
     insert_entries
       [(''schemaVersion'', json_usize (unat ATTEMPT_RECEIPT_SCHEMA_VERSION)), (''sequence'', json_usize (unat sequence)),
        (''campaign'', DString campaign), (''issueNumber'', DString issue_number), (''armSerial'', json_usize (unat (au_arm_serial au))),
        (''worklistSha256'', DString (au_worklist_sha256 au)), (''writtenAt'', DString (lo_now io)),
        (''actor'', DString ATTEMPT_RECEIPT_MACHINE_ACTOR)] []"

definition with_epoch :: "LogEnv \<Rightarrow> (string \<times> string) list \<Rightarrow> (string \<times> DJson) list \<Rightarrow> (string \<times> DJson) list \<Rightarrow> string + (string \<times> DJson) list" where
  "with_epoch env input_epochs payload m =
     (if payload_kind payload \<in> {''diagnosis'', ''retry'', ''worker-outcome''}
      then case text_at ''taskId'' payload of
             None \<Rightarrow> Inl ''attempt receipt taskId is required''
           | Some t \<Rightarrow>
               (case map_of input_epochs t of
                  Some epoch \<Rightarrow> Inr (btree_insert ''inputEpoch'' (DString epoch) m)
                | None \<Rightarrow>
                    if input_epochs \<noteq> [] then Inl (''attemptReceipts.inputEpochs has no current epoch for task '' @ le_debug env t)
                    else Inr m)
      else Inr m)"

text \<open>The decision under the lock: an earlier record, or a new one that validates.\<close>

definition next_receipt ::
  "LogEnv \<Rightarrow> LogIo \<Rightarrow> (string \<times> string) list \<Rightarrow> string \<Rightarrow> string \<Rightarrow> string \<Rightarrow> DJson \<Rightarrow> LogFile option \<Rightarrow> (DJson \<times> AttemptEvent) list
     \<Rightarrow> string + bool \<times> DJson" where
  "next_receipt env io input_epochs path campaign issue_number payload published entries =
     ok_then (attempt_state_all (map snd entries) input_epochs) (\<lambda>st.
       case Driver_Json.as_object payload of
         None \<Rightarrow> Inl ''attempt receipt payload must be an object''
       | Some m \<Rightarrow>
           ok_then (admission env st m) (\<lambda>earlier.
             case earlier of
               Some comment \<Rightarrow>
                 ok_then (comment_sequence comment) (\<lambda>sequence.
                 ok_then (expect (if sequence - 1 < length entries then Some (fst (entries ! (sequence - 1))) else None) ''index out of bounds'') (\<lambda>found.
                   Inr (False, found)))
             | None \<Rightarrow>
                 ok_then (read_attempt_receipt_authority env io path campaign issue_number published) (\<lambda>au.
                 let sequence = of_nat (length entries) + 1
                 in ok_then (with_epoch env input_epochs m (insert_entries m (stamped io au campaign issue_number sequence))) (\<lambda>entry_fields.
                    ok_then (validate_attempt_receipt env (DObject entry_fields) path sequence campaign issue_number) (\<lambda>_.
                      Inr (True, DObject entry_fields))))))"

definition write_receipt :: "LogIo \<Rightarrow> string \<Rightarrow> DJson \<Rightarrow> LogFile \<Rightarrow> (string + unit) \<times> LogFile" where
  "write_receipt io path j f =
     (let line = stringify j @ [LF]
      in if lo_fails io StatEnd then (Inl (lo_error io StatEnd), f)
         else if length (lf_content f) + length line > MAX_ATTEMPT_RECEIPTS_LOG_BYTES then (Inl ''attempt-receipts log exceeds 128 MiB'', f)
         else if lo_fails io WriteLog
         then (Inl (''cannot append attempt-receipts log '' @ path @ '': '' @ lo_error io WriteLog), f\<lparr>lf_content := lf_content f @ take (lo_written io) line\<rparr>)
         else (call io SyncLog [], f\<lparr>lf_content := lf_content f @ line\<rparr>))"

definition append_locked ::
  "LogEnv \<Rightarrow> LogIo \<Rightarrow> (string \<times> string) list \<Rightarrow> string \<Rightarrow> string \<Rightarrow> string \<Rightarrow> DJson \<Rightarrow> LogFile option \<Rightarrow> LogFile
     \<Rightarrow> (string + bool \<times> DJson) \<times> LogFile" where
  "append_locked env io input_epochs path campaign issue_number payload published f =
     (case read_attempt_records_locked env io f path campaign issue_number True of
        (Inl e, f1) \<Rightarrow> (Inl e, f1)
      | (Inr entries, f1) \<Rightarrow>
          (case next_receipt env io input_epochs path campaign issue_number payload published entries of
             Inl e \<Rightarrow> (Inl e, f1)
           | Inr (fresh, found) \<Rightarrow>
               (case (if fresh then write_receipt io path found f1 else (Inr (), f1)) of
                  (Inl e, f2) \<Rightarrow> (Inl e, f2)
                | (Inr _, f2) \<Rightarrow> (ok_then (record_with_comment found campaign) (\<lambda>shown. Inr (fresh, shown)), f2))))"

definition append_attempt_receipt ::
  "LogEnv \<Rightarrow> LogIo \<Rightarrow> DJson option \<Rightarrow> string \<Rightarrow> string \<Rightarrow> DJson \<Rightarrow> LogWorld \<Rightarrow> (string + bool \<times> DJson) \<times> LogWorld" where
  "append_attempt_receipt env io v campaign issue_number payload w =
     (case ok_then (attempt_receipt_input_epochs v) (\<lambda>epochs.
           ok_then (attempt_receipts_path v campaign) (\<lambda>path.
           ok_then (prepare_attempt_receipts_parent io path) (\<lambda>_.
           ok_then (open_log io path (lw_log w)) (\<lambda>opened. Inr (epochs, path, opened))))) of
        Inl e \<Rightarrow> (Inl e, w)
      | Inr (input_epochs, path, f, created) \<Rightarrow>
          (case secure_log io path f created of
             Inl e \<Rightarrow> (Inl e, w\<lparr>lw_log := Some f\<rparr>)
           | Inr _ \<Rightarrow>
               (let (r, f1) = append_locked env io input_epochs path campaign issue_number payload (lw_authority w) f
                in (r, w\<lparr>lw_log := Some f1\<rparr>))))"

definition diagnosis_payload :: "string \<Rightarrow> u64 \<Rightarrow> string \<Rightarrow> DiagnosisVerdict \<Rightarrow> DJson option \<Rightarrow> DJson" where
  "diagnosis_payload t attempt diagnosis verdict proposal =
     json_object
       ([(''kind'', DString ''diagnosis''), (''taskId'', DString t), (''attempt'', json_usize (unat attempt)), (''diagnosis'', DString diagnosis),
         (''verdict'', DString (verdict_text verdict)), (''redaction'', DString ''conservative-v2'')]
        @ (case proposal of None \<Rightarrow> [] | Some p \<Rightarrow> [(''proposal'', p)]))"

definition record_diagnosis ::
  "LogEnv \<Rightarrow> LogIo \<Rightarrow> DJson option \<Rightarrow> string \<Rightarrow> string \<Rightarrow> string \<Rightarrow> u64 \<Rightarrow> string \<Rightarrow> DiagnosisVerdict \<Rightarrow> DJson option \<Rightarrow> LogWorld
     \<Rightarrow> (string + string) \<times> LogWorld" where
  "record_diagnosis env io v campaign issue_number t attempt diagnosis verdict proposal w =
     (let (r, w1) = append_attempt_receipt env io v campaign issue_number (diagnosis_payload t attempt diagnosis verdict proposal) w
      in (ok_then r (\<lambda>(_, receipt).
            expect (Option.bind (Option.bind (Driver_Json.as_object receipt) (\<lambda>m. map_of m ''comment'')) as_string)
              ''append receipt returns a comment''), w1))"

end
