(* ===== verification/Driver_Json_Lines.thy ===== *)
theory Driver_Json_Lines
  imports Driver_Json_Roundtrip
begin

text \<open>
  A well-formed value is printed on one line: the text is UTF-8 and holds no control character, since the
  printer escapes those of strings. A file with one value per line can thus be read back line by line.
\<close>

section \<open>UTF-8\<close>

lemma utf8_scalar_take:
  assumes "utf8_scalar bs \<noteq> 0"
  shows "utf8_scalar (take (utf8_scalar bs) bs @ cs) = utf8_scalar bs"
proof -
  consider "bs = []" | b where "bs = [b]" | b c where "bs = [b, c]" | b c d where "bs = [b, c, d]"
    | b c d e r where "bs = b # c # d # e # r"
    by (metis neq_Nil_conv)
  then show ?thesis
    using assms by cases (simp_all add: utf8_scalar_def numeral_2_eq_2 numeral_3_eq_3 split: if_split_asm, blast+)
qed

lemma utf8_scalar_high:
  assumes "bs \<noteq> []" "128 \<le> hd bs"
  shows "\<forall>c \<in> set (take (utf8_scalar bs) bs). 128 \<le> c"
  using assms by (cases bs) (auto simp: utf8_scalar_def utf8_tail_def split: list.splits if_splits)

lemma valid_utf8_both: "valid_utf8 bs \<Longrightarrow> valid_utf8 cs \<Longrightarrow> valid_utf8 (bs @ cs)"
proof (induction "length bs" arbitrary: bs rule: less_induct)
  case less
  let ?n = "utf8_scalar bs"
  show ?case
  proof (cases "bs = []")
    case False
    then have n: "?n \<noteq> 0" "valid_utf8 (drop ?n bs)" using less.prems(1) by (simp_all add: valid_utf8.simps [of bs] split: if_split_asm)
    have "utf8_scalar (bs @ cs) = ?n" using utf8_scalar_take [OF n(1), of "drop ?n bs @ cs"]
      by (simp only: append_assoc [symmetric] append_take_drop_id)
    moreover have "valid_utf8 (drop ?n bs @ cs)" using less.hyps [of "drop ?n bs"] n less.prems(2) False by simp
    ultimately show ?thesis using False n(1) utf8_scalar_le [of bs] by (simp add: valid_utf8.simps [of "bs @ cs"])
  qed (use less.prems in simp)
qed

lemma valid_utf8_ascii: "list_all (\<lambda>b. b < 128) as \<Longrightarrow> valid_utf8 (as @ bs) \<longleftrightarrow> valid_utf8 bs"
  by (induction as) (simp_all add: valid_utf8_append [of _ "[]", simplified])

lemma escape_byte_high:
  assumes "128 \<le> byte c"
  shows "escape_byte c = [c]"
proof -
  have "c \<noteq> d" if "byte d < 128" for d using assms that by auto
  then have "c \<noteq> CHR 34" "c \<noteq> CHR 92" "c \<noteq> CHR 8" "c \<noteq> CHR 12" "c \<noteq> CHR 10" "c \<noteq> CHR 13" "c \<noteq> CHR 9"
    by (simp_all add: byte_def)
  with assms show ?thesis by (simp add: escape_byte_def)
qed

lemma hex_digit_ascii: "n < 16 \<Longrightarrow> 32 \<le> byte (hex_digit n) \<and> byte (hex_digit n) < 128"
  by (simp add: hex_digit_def byte_def)

lemma escape_byte_ascii:
  assumes "byte c < 128"
  shows "list_all (\<lambda>b. 32 \<le> b \<and> b < 128) (map byte (escape_byte c))"
proof -
  have k: "byte (CHR 92) = 92" "byte (CHR 34) = 34" "byte (CHR ''b'') = 98" "byte (CHR ''f'') = 102" "byte (CHR ''n'') = 110"
    "byte (CHR ''r'') = 114" "byte (CHR ''t'') = 116" "byte (CHR ''u'') = 117" "byte (CHR ''0'') = 48"
    by (simp_all add: byte_def)
  have "byte c \<le> 31 \<Longrightarrow> byte c div 16 < 16 \<and> byte c mod 16 < 16" by simp
  then show ?thesis
    using assms hex_digit_ascii [of "byte c div 16"] hex_digit_ascii [of "byte c mod 16"]
    unfolding escape_byte_def by (simp add: k)
qed

lemma escape_high: "\<forall>c \<in> set s. 128 \<le> byte c \<Longrightarrow> concat (map escape_byte s) = s"
  by (induction s) (auto simp: escape_byte_high)

lemma utf8_escape: "utf8 s \<Longrightarrow> utf8 (concat (map escape_byte s))"
proof (induction "length s" arbitrary: s rule: less_induct)
  case less
  show ?case
  proof (cases s)
    case (Cons c cs)
    show ?thesis
    proof (cases "byte c < 128")
      case True
      then have "utf8 cs" using less.prems valid_utf8_ascii [of "[byte c]" "map byte cs"] by (simp add: Cons)
      then have "utf8 (concat (map escape_byte cs))" using less.hyps Cons by simp
      then show ?thesis using valid_utf8_ascii [of "map byte (escape_byte c)"] escape_byte_ascii [OF True] by (simp add: Cons list_all_iff)
    next
      case False
      define n where "n = utf8_scalar (map byte s)"
      have n: "n \<noteq> 0" "utf8 (drop n s)"
        using less.prems valid_utf8.simps [of "map byte s"] Cons by (simp_all add: n_def drop_map del: list.map split: if_split_asm)
      have high: "\<forall>d \<in> set (take n s). 128 \<le> byte d"
        using utf8_scalar_high [of "map byte s"] False Cons by (simp add: take_map del: list.map flip: n_def) (simp add: n_def)
      have "utf8 (concat (map escape_byte (drop n s)))" using less.hyps [of "drop n s"] n Cons by simp
      moreover have split: "concat (map escape_byte s) = take n s @ concat (map escape_byte (drop n s))"
        by (metis append_take_drop_id concat_append escape_high [OF high] map_append)
      moreover have le: "n \<le> length s" using utf8_scalar_le [of "map byte s"] by (simp add: n_def)
      moreover have "utf8_scalar (map byte (concat (map escape_byte s))) = n"
        using utf8_scalar_take [of "map byte s" "map byte (concat (map escape_byte (drop n s)))"] n(1)
        by (simp add: split take_map flip: n_def)
      ultimately show ?thesis using n(1) Cons
        by (subst valid_utf8.simps) (simp add: drop_map)
    qed
  qed simp
qed

section \<open>Printed values\<close>

text \<open>Text that fits on a line: UTF-8 without control characters.\<close>

definition printable :: "string \<Rightarrow> bool" where
  "printable s \<longleftrightarrow> utf8 s \<and> list_all (\<lambda>c. 32 \<le> byte c) s"

lemma printable_append: "printable s \<Longrightarrow> printable t \<Longrightarrow> printable (s @ t)"
  by (simp add: printable_def valid_utf8_both)

lemma printable_ascii: "list_all (\<lambda>c. 32 \<le> byte c \<and> byte c < 128) s \<Longrightarrow> printable s"
  by (simp add: printable_def list_all_iff ascii_utf8)

lemma printable_Cons: "32 \<le> byte c \<Longrightarrow> byte c < 128 \<Longrightarrow> printable s \<Longrightarrow> printable (c # s)"
  using printable_append [of "[c]" s] printable_ascii [of "[c]"] by simp

lemma printable_Nil: "printable []"
  by (simp add: printable_def)

lemma printable_marks:
  "32 \<le> byte (CHR 34) \<and> byte (CHR 34) < 128" "32 \<le> byte (CHR '','') \<and> byte (CHR '','') < 128" "32 \<le> byte (CHR '':'') \<and> byte (CHR '':'') < 128"
  "32 \<le> byte (CHR ''['') \<and> byte (CHR ''['') < 128" "32 \<le> byte (CHR '']'') \<and> byte (CHR '']'') < 128"
  "32 \<le> byte (CHR ''{'') \<and> byte (CHR ''{'') < 128" "32 \<le> byte (CHR ''}'') \<and> byte (CHR ''}'') < 128"
  by (simp_all add: byte_def)

lemmas printable_intros = printable_append printable_Cons printable_Nil printable_marks [THEN conjunct1] printable_marks [THEN conjunct2]

lemma printable_string: "utf8 s \<Longrightarrow> printable (write_string s)"
proof -
  assume u: "utf8 s"
  have "list_all (\<lambda>d. 32 \<le> byte d) (escape_byte c)" for c
    using escape_byte_ascii [of c] escape_byte_high [of c] by (cases "byte c < 128") (auto simp: list_all_iff)
  then have "printable (concat (map escape_byte s))" using utf8_escape [OF u] by (auto simp: printable_def list_all_iff)
  then show ?thesis unfolding write_string_def by (intro printable_intros)
qed

lemma printable_number: "is_number n \<Longrightarrow> printable n"
proof -
  assume "is_number n"
  have d: "list_all (\<lambda>c. 32 \<le> byte c \<and> byte c < 128) ds" if "list_all is_ascii_digit ds" for ds
    using that by (auto simp: list_all_iff is_ascii_digit_def)
  then have i: "is_integer ds \<Longrightarrow> list_all (\<lambda>c. 32 \<le> byte c \<and> byte c < 128) ds" for ds
    by (auto simp: is_integer_def digits_def byte_def)
  have f: "is_fraction ds \<Longrightarrow> list_all (\<lambda>c. 32 \<le> byte c \<and> byte c < 128) ds" for ds
    using d [of "tl ds"] by (cases ds) (auto simp: is_fraction_def digits_def byte_def)
  have e: "is_exponent ds \<Longrightarrow> list_all (\<lambda>c. 32 \<le> byte c \<and> byte c < 128) ds" for ds
    using d by (auto simp: is_exponent_def digits_def byte_def)
  have s: "s = [] \<or> s = ''-'' \<Longrightarrow> list_all (\<lambda>c. 32 \<le> byte c \<and> byte c < 128) s" for s
    by (auto simp: byte_def)
  show ?thesis using \<open>is_number n\<close> by (intro printable_ascii) (auto simp: is_number_def dest!: i f e s)
qed

lemma printable_literal: "printable ''null''" "printable ''true''" "printable ''false''"
  by (rule printable_ascii, simp add: byte_def)+

lemma printable_write:
  "wf_djson v \<Longrightarrow> printable (write_to v)"
  "\<forall>v \<in> set vs. wf_djson v \<Longrightarrow> printable (write_items vs)"
  "\<forall>e \<in> set es. utf8 (fst e) \<and> wf_djson (snd e) \<Longrightarrow> printable (write_entries es)"
proof (induction v and vs and es rule: write_to_write_items_write_entries.induct)
qed (auto simp: printable_number printable_literal intro!: printable_intros printable_string)

lemma printable_line: "printable l \<Longrightarrow> line_text l \<and> CR \<notin> set l \<and> utf8 l"
  by (auto simp: printable_def line_text_def list_all_iff byte_def)

end
