(* ===== verification/Attempt_Log_Safety.thy ===== *)
theory Attempt_Log_Safety
  imports Attempt_Log Driver_Json_Lines
begin

text \<open>
  What the log of attempt receipts promises: appending the line of a record extends what is read by exactly
  that record, and so a log that only grows by appends stays readable and within the lifetime limit,
  whatever calls fail on the way.
\<close>

section \<open>Lines and records\<close>

lemma str_lines_line: "line_text l \<Longrightarrow> CR \<notin> set l \<Longrightarrow> str_lines (l @ [LF]) = [l]"
  by (simp add: str_lines.simps [of "l @ [LF]"] str_lines.simps [of "[]"] strip_eol_line)

lemma log_records_length: "log_records env path c n i ls = Inr es \<Longrightarrow> length es = length ls"
  by (induction ls arbitrary: i es) (auto simp: ok_then_Inr split: if_splits sum.splits)

text \<open>The records of a log are what its lines parse to.\<close>

lemma log_records_parse: "log_records env path c n i ls = Inr es \<Longrightarrow> map Driver_Json.parse ls = map (\<lambda>e. Inr (fst e)) es"
  by (induction ls arbitrary: i es) (auto simp: ok_then_Inr split: if_splits sum.splits)

lemma log_records_append:
  "log_records env path c n i (ls @ ls') =
     ok_then (log_records env path c n i ls) (\<lambda>es.
     ok_then (log_records env path c n (i + length ls) ls') (\<lambda>es'. Inr (es @ es')))"
proof (induction ls arbitrary: i)
  case Nil
  then show ?case by (cases "log_records env path c n i ls'") simp_all
next
  case (Cons l ls)
  show ?case using Cons.IH [of "Suc i"] by (auto simp: ok_then_def split: sum.splits)
qed

lemma parse_log_unlines:
  "list_all line_text ls \<Longrightarrow> LF \<notin> set t \<Longrightarrow>
     parse_log env path c n (unlines ls @ t) =
       (if list_all utf8 ls then log_records env path c n 0 (str_lines (unlines ls))
        else Inl (''attempt-receipts log '' @ path @ '' is not UTF-8: '' @ le_utf8_error env (unlines ls)))"
  by (simp add: parse_log_def log_text_def complete_len_unlines utf8_unlines del: unlines_simps)

text \<open>A torn tail is not read; cutting it off changes nothing.\<close>

lemma parse_log_complete: "parse_log env path c n (take (complete_len raw) raw) = parse_log env path c n raw"
proof -
  obtain ls t where "raw = unlines ls @ t" "list_all line_text ls" "LF \<notin> set t" using complete_lines [of raw] by blast
  then show ?thesis
    using parse_log_unlines [of ls t env path c n] parse_log_unlines [of ls "[]" env path c n] take_complete [of t ls]
    by (simp only: append_Nil2 list.set empty_iff not_False_eq_True)
qed

text \<open>Appending the line of a record that validates with the next number appends exactly that record.\<close>

lemma parse_log_append:
  assumes "parse_log env path c n raw = Inr es" "complete_len raw = length raw" "wf_djson j"
    and "validate_attempt_receipt env j path (of_nat (length es) + 1) c n = Inr event"
  shows "parse_log env path c n (raw @ stringify j @ [LF]) = Inr (es @ [(j, event)])"
proof -
  obtain ls t where raw: "raw = unlines ls @ t" "list_all line_text ls" "LF \<notin> set t" using complete_lines [of raw] by blast
  then have t: "t = []" using assms(2) by (simp add: complete_len_unlines)
  note l = printable_line [OF printable_write(1) [OF assms(3)], folded stringify_def]
  have ls: "list_all utf8 ls" "log_records env path c n 0 (str_lines (unlines ls)) = Inr es"
    using assms(1) parse_log_unlines [OF raw(2,3)] unfolding raw(1) by (auto split: if_split_asm)
  have "stringify j \<noteq> []" using assms(3) by (auto simp: stringify_def elim: write_to_starts)
  then have "log_records env path c n (length es) [stringify j] = Inr [(j, event)]"
    using assms(4) parse_stringify_wf [OF assms(3)] by simp
  then have "log_records env path c n 0 (str_lines (unlines ls) @ [stringify j]) = Inr (es @ [(j, event)])"
    using ls(2) log_records_length [OF ls(2)] by (simp add: log_records_append)
  moreover have "str_lines (unlines (ls @ [stringify j])) = str_lines (unlines ls) @ [stringify j]"
    using str_lines_unlines_append [OF raw(2), of "stringify j @ [LF]"] str_lines_line l by simp
  ultimately show ?thesis
    using parse_log_unlines [of "ls @ [stringify j]" "[]" env path c n] raw(2) l ls(1) by (simp add: raw(1) t)
qed

text \<open>A part of the line that stops before its end is a torn tail.\<close>

lemma parse_log_torn:
  assumes "complete_len raw = length raw" "LF \<notin> set t"
  shows "parse_log env path c n (raw @ t) = parse_log env path c n raw" "take (complete_len (raw @ t)) (raw @ t) = raw"
proof -
  obtain ls u where raw: "raw = unlines ls @ u" "list_all line_text ls" "LF \<notin> set u" using complete_lines [of raw] by blast
  then have u: "u = []" using assms(1) by (simp add: complete_len_unlines)
  show "parse_log env path c n (raw @ t) = parse_log env path c n raw" "take (complete_len (raw @ t)) (raw @ t) = raw"
    using parse_log_unlines [OF raw(2) assms(2)] parse_log_unlines [OF raw(2), of "[]"] take_complete [OF assms(2), of ls]
    by (simp_all add: raw(1) u)
qed

section \<open>What a new record says\<close>

lemma map_of_insert_entries:
  "distinct (map fst es) \<Longrightarrow> map_of (insert_entries es m) k = (case map_of es k of Some v \<Rightarrow> Some v | None \<Rightarrow> map_of m k)"
proof (induction es arbitrary: m)
  case (Cons e es)
  obtain k' v where "e = (k', v)" by fastforce
  moreover have "map_of es k' = None" using Cons.prems calculation by (simp add: map_of_eq_None_iff)
  ultimately show ?case
    using Cons.IH [of "btree_insert k' v m"] Cons.prems
    by (cases "k = k'") (simp_all add: insert_entries_def map_of_btree_insert split: option.split)
qed (simp add: insert_entries_def)

lemma wf_insert_entries:
  "wf_djson (DObject m) \<Longrightarrow> \<forall>e \<in> set es. utf8 (fst e) \<and> wf_djson (snd e) \<Longrightarrow> wf_djson (DObject (insert_entries es m))"
proof (induction es arbitrary: m)
  case (Cons e es)
  obtain k v where e: "e = (k, v)" by fastforce
  have kv: "utf8 k" "wf_djson v" "\<forall>e \<in> set es. utf8 (fst e) \<and> wf_djson (snd e)" using Cons.prems(2) by (simp_all add: e)
  have "insert_entries (e # es) m = insert_entries es (btree_insert k v m)" by (simp add: insert_entries_def e)
  with Cons.IH [OF wf_object_insert [OF Cons.prems(1) kv(1,2)] kv(3)] show ?case by (simp only:)
qed (simp add: insert_entries_def)

lemma show_nat_number: "is_number (show_nat n)"
proof -
  have zero: "show_nat 0 = ''0''" by code_simp
  have "is_integer (show_nat n)"
  proof (induction n rule: less_induct)
    case (less n)
    show ?case
    proof (cases "n < 10")
      case True
      then have "byte (char_of (48 + n)) = 48 + n" by (simp add: byte_def)
      moreover have "byte (CHR ''0'') = 48" by (simp add: byte_def)
      ultimately have "n = 0 \<or> char_of (48 + n) \<noteq> CHR ''0''" by force
      then show ?thesis using True show_nat_digits [of _ n]
        by (auto simp: show_nat.simps [of n] is_integer_def digits_def list_all_iff)
    next
      case False
      then have "show_nat (n div 10) \<noteq> ''0''" using show_nat_inject [of "n div 10" 0] zero by simp
      then show ?thesis using less [of "n div 10"] False show_nat_digits [of _ n]
        by (auto simp: show_nat.simps [of n] is_integer_def digits_def list_all_iff)
    qed
  qed
  then show ?thesis unfolding is_number_def
    by (intro exI [of _ "[]"] exI [of _ "show_nat n"]) (simp add: is_fraction_def is_exponent_def)
qed

lemma identity_utf8: "is_sha256_identity s \<Longrightarrow> utf8 s"
proof -
  assume s: "is_sha256_identity s"
  have "list_all (\<lambda>c. byte c < 128) (drop 7 s)" using s by (auto simp: is_sha256_identity_def list_all_iff hex_char_def is_ascii_digit_def)
  moreover have "take 7 s = ''sha256:''" using s by (auto simp: is_sha256_identity_def starts_with_iff)
  ultimately have "list_all (\<lambda>c. byte c < 128) (take 7 s @ drop 7 s)" by (simp add: byte_def)
  then show ?thesis by (intro ascii_utf8) simp
qed

text \<open>The lifetime count the writer consults is the number of receipts in the log.\<close>

lemma lifetime_attempts_count:
  assumes "attempt_state_all events epochs = Inr st"
  shows "(case map_of (as_lifetime_attempts st) t of None \<Rightarrow> 0 | Some n \<Rightarrow> n) = length (filter (attempt_for t) events)"
  using assms fold_lifetime [of fold_start _ epochs events t]
  by (auto simp: attempt_state_all_def fold_attempt_receipts_def attempt_state_def Let_def lifetime_def fold_start_def split: if_splits)

lemma required_string_text: "required_string (map_of m k) context maximum = Inr s \<Longrightarrow> text_at k m = Some s"
  by (auto simp: required_string_def text_at_def Let_def split: option.splits if_splits)

lemma safe_task_id_text: "safe_task_id m ctx = Inr t \<Longrightarrow> text_at ''taskId'' m = Some t"
  by (auto simp: safe_task_id_def elim!: ok_thenE dest: required_string_text split: if_splits)

lemma validate_attempt_task:
  assumes "validate_attempt env m ctx comment epoch d = Inr event" "attempt_for t event"
  shows "text_at ''taskId'' m = Some t"
proof -
  from assms(1) obtain i where i: "safe_task_id m ctx = Inr i" "attempt_for t event \<longrightarrow> i = t"
    unfolding validate_attempt_def Let_def
    by (elim ok_thenE) (rule that, assumption, auto elim!: ok_thenE split: option.splits if_splits)
  with assms(2) show ?thesis using safe_task_id_text by blast
qed

lemma validate_outcome_other: "validate_outcome env m ctx comment epoch = Inr event \<Longrightarrow> \<not> attempt_for t event"
  unfolding validate_outcome_def Let_def
  by (elim ok_thenE) (auto elim!: ok_thenE split: option.splits if_splits)

lemma validate_pardon_other: "validate_pardon env m ctx comment = Inr event \<Longrightarrow> \<not> attempt_for t event"
  unfolding validate_pardon_def by (auto elim!: ok_thenE split: if_splits)

lemma object_exact_Inr: "object_exact (DObject m) ks context = Inr m' \<Longrightarrow> m' = m"
  by (simp add: object_exact_def Let_def split: if_split_asm)

text \<open>The parts of a validation that succeeds.\<close>

lemma validate_parts:
  assumes "validate_attempt_receipt env (DObject m) path k c n = Inr event"
  obtains ctx comment epoch where
    "if payload_kind m = ''diagnosis'' then validate_attempt env m ctx comment epoch True = Inr event
     else if payload_kind m = ''retry'' then validate_attempt env m ctx comment epoch False = Inr event
     else if payload_kind m = ''worker-outcome'' then validate_outcome env m ctx comment epoch = Inr event
     else if payload_kind m = ''escalation'' then event = EscalationEvent comment
     else validate_pardon env m ctx comment = Inr event"
  using assms unfolding validate_attempt_receipt_def Let_def payload_kind_def text_at_def
  by (auto elim!: ok_thenE dest!: object_exact_Inr split: option.splits if_split_asm)

lemma validate_attempt_kind:
  assumes "validate_attempt_receipt env (DObject m) path k c n = Inr event" "attempt_for t event"
  shows "(payload_kind m = ''diagnosis'' \<or> payload_kind m = ''retry'') \<and> text_at ''taskId'' m = Some t"
proof -
  obtain ctx comment epoch where
    "if payload_kind m = ''diagnosis'' then validate_attempt env m ctx comment epoch True = Inr event
     else if payload_kind m = ''retry'' then validate_attempt env m ctx comment epoch False = Inr event
     else if payload_kind m = ''worker-outcome'' then validate_outcome env m ctx comment epoch = Inr event
     else if payload_kind m = ''escalation'' then event = EscalationEvent comment
     else validate_pardon env m ctx comment = Inr event"
    using validate_parts [OF assms(1)] .
  with assms(2) show ?thesis
    by (auto dest: validate_outcome_other [of _ _ _ _ _ _ t] validate_pardon_other [of _ _ _ _ _ t] validate_attempt_task split: if_split_asm)
qed

lemma input_epochs_identities:
  assumes "attempt_receipt_input_epochs v = Inr epochs" "map_of epochs t = Some e"
  shows "utf8 e"
proof -
  have entry: "input_epoch_entry x = Inr y \<Longrightarrow> is_sha256_identity (snd y)" for x y
    by (auto simp: input_epoch_entry_def elim!: ok_thenE split: prod.splits if_splits)
  have "\<forall>y \<in> set ys. is_sha256_identity (snd y)" if "collect_results (map input_epoch_entry xs) = Inr ys" for xs ys
    using collect_results_length [OF that, THEN arg_cong [of _ _ set]] entry by (metis (no_types, lifting) imageE image_eqI list.set_map)
  then have "\<forall>y \<in> set epochs. is_sha256_identity (snd y)"
    using assms(1) by (fastforce simp: attempt_receipt_input_epochs_def elim!: ok_thenE split: option.splits if_splits)
  with assms(2) show ?thesis using identity_utf8 map_of_SomeD by fastforce
qed

lemma wf_stamped:
  assumes "utf8 c" "utf8 n" "utf8 (lo_now io)" "is_sha256_identity (au_worklist_sha256 au)"
  shows "wf_djson (DObject (stamped io au c n k))"
  unfolding stamped_def
proof (rule wf_insert_entries)
  have k: "utf8 ''schemaVersion''" "utf8 ''sequence''" "utf8 ''campaign''" "utf8 ''issueNumber''" "utf8 ''armSerial''"
    "utf8 ''worklistSha256''" "utf8 ''writtenAt''" "utf8 ''actor''" "utf8 ATTEMPT_RECEIPT_MACHINE_ACTOR"
    by (rule ascii_utf8, simp add: byte_def ATTEMPT_RECEIPT_MACHINE_ACTOR_def)+
  show "\<forall>e \<in> set [(''schemaVersion'', json_usize (unat ATTEMPT_RECEIPT_SCHEMA_VERSION)), (''sequence'', json_usize (unat k)),
        (''campaign'', DString c), (''issueNumber'', DString n), (''armSerial'', json_usize (unat (au_arm_serial au))),
        (''worklistSha256'', DString (au_worklist_sha256 au)), (''writtenAt'', DString (lo_now io)),
        (''actor'', DString ATTEMPT_RECEIPT_MACHINE_ACTOR)]. utf8 (fst e) \<and> wf_djson (snd e)"
    using k assms(1-3) identity_utf8 [OF assms(4)] by (simp only: list.set ball_simps fst_conv snd_conv json_usize_def wf_djson.simps show_nat_number simp_thms)
qed simp

text \<open>The identity fields come from the stamp, all others from the payload.\<close>

lemma stamped_keys: "map_of (stamped io au c n k) ''kind'' = None" "map_of (stamped io au c n k) ''taskId'' = None"
  by (simp_all add: stamped_def insert_entries_def map_of_btree_insert)

lemma read_authority_Inr:
  "read_attempt_receipt_authority env io path c n published = Inr au \<Longrightarrow> is_sha256_identity (au_worklist_sha256 au)"
  unfolding read_attempt_receipt_authority_def validate_for_def Let_def
  by (auto elim!: ok_thenE split: option.splits sum.splits if_split_asm)

lemma with_epoch_Inr:
  assumes "with_epoch env epochs payload m = Inr m'"
  shows "m' = m \<or> (\<exists>t e. map_of epochs t = Some e \<and> m' = btree_insert ''inputEpoch'' (DString e) m)"
  using assms by (auto simp: with_epoch_def split: option.splits if_split_asm)

lemma attempt_admission_fresh:
  assumes "attempt_state_all events epochs = Inr st" "admission env st m = Inr None"
    and "payload_kind m = ''diagnosis'' \<or> payload_kind m = ''retry''" "text_at ''taskId'' m = Some t"
  shows "length (filter (attempt_for t) events) < MAX_TASK_LIFETIME_ATTEMPTS"
proof -
  have "attempt_admission env st m = Inr None" using assms(2,3) by (auto simp: admission_def Let_def split: if_split_asm)
  then show ?thesis
    using assms(4) lifetime_attempts_count [OF assms(1), of t] by (simp add: attempt_admission_def Let_def split: option.split_asm if_split_asm)
qed

text \<open>A record carries a payload when it has every field of it.\<close>

definition carries :: "DJson \<Rightarrow> DJson \<Rightarrow> bool" where
  "carries payload j \<longleftrightarrow> (\<exists>m m'. payload = DObject m \<and> j = DObject m' \<and> map_of m \<subseteq>\<^sub>m map_of m')"

text \<open>What is known of a record about to be written.\<close>

lemma next_receipt_fresh:
  assumes "next_receipt env io epochs path c n payload published es = Inr (True, j)"
    and "attempt_receipt_input_epochs v = Inr epochs" "wf_djson payload" "utf8 c" "utf8 n" "utf8 (lo_now io)"
  obtains event where "wf_djson j" "carries payload j"
    "validate_attempt_receipt env j path (of_nat (length es) + 1) c n = Inr event"
    "\<And>t. attempt_for t event \<Longrightarrow> length (filter (attempt_for t) (map snd es)) < MAX_TASK_LIFETIME_ATTEMPTS"
proof -
  let ?k = "of_nat (length es) + 1 :: u64"
  from assms(1) obtain st m au m' event where st: "attempt_state_all (map snd es) epochs = Inr st"
    and m: "payload = DObject m" "admission env st m = Inr None"
    and au: "read_attempt_receipt_authority env io path c n published = Inr au"
    and m': "with_epoch env epochs m (insert_entries m (stamped io au c n ?k)) = Inr m'"
    and ev: "validate_attempt_receipt env (DObject m') path ?k c n = Inr event" "j = DObject m'"
    unfolding next_receipt_def Let_def by (cases payload) (auto elim!: ok_thenE split: option.split_asm)
  have sorted: "sorted_wrt (<) (map fst m)" and es: "\<forall>e \<in> set m. utf8 (fst e) \<and> wf_djson (snd e)"
    using assms(3) by (simp_all add: m)
  have wf: "wf_djson (DObject (insert_entries m (stamped io au c n ?k)))"
    by (rule wf_insert_entries [OF wf_stamped [OF assms(4-6) read_authority_Inr [OF au]] es])
  have e8: "utf8 ''inputEpoch''" by (rule ascii_utf8) (simp add: byte_def)
  have "wf_djson j"
    using with_epoch_Inr [OF m'] wf wf_object_insert [OF wf e8] input_epochs_identities [OF assms(2)] unfolding ev(2)
    by (metis wf_djson.simps(2))
  moreover have "map_of m' x = map_of m x" if "x = ''kind'' \<or> x = ''taskId''" for x
    using with_epoch_Inr [OF m'] that strict_sorted_iff [of "map fst m"] sorted stamped_keys
    by (auto simp: map_of_btree_insert map_of_insert_entries split: option.split)
  then have "payload_kind m' = payload_kind m" "text_at ''taskId'' m' = text_at ''taskId'' m"
    by (simp_all add: payload_kind_def text_at_def)
  moreover have "map_of m ''inputEpoch'' = None" using m(2) by (simp add: admission_def Let_def split: if_split_asm)
  then have "map_of m \<subseteq>\<^sub>m map_of m'"
    using with_epoch_Inr [OF m'] strict_sorted_iff [of "map fst m"] sorted
    by (auto simp: map_le_def map_of_btree_insert map_of_insert_entries split: option.split)
  then have "carries payload j" by (simp add: carries_def m ev(2))
  ultimately show thesis
    using ev st m validate_attempt_kind [OF ev(1)] attempt_admission_fresh [OF st m(2)] by (intro that) auto
qed

section \<open>Appending\<close>

definition attempts_in :: "string \<Rightarrow> (DJson \<times> AttemptEvent) list \<Rightarrow> nat" where
  "attempts_in t es = length (filter (attempt_for t) (map snd es))"

text \<open>A log that reads as the given entries and keeps the lifetime limit.\<close>

definition log_holds :: "LogEnv \<Rightarrow> string \<Rightarrow> string \<Rightarrow> string \<Rightarrow> (DJson \<times> AttemptEvent) list \<Rightarrow> LogFile \<Rightarrow> bool" where
  "log_holds env path c n es f \<longleftrightarrow>
     bounded_log f \<and> parse_log env path c n (lf_content f) = Inr es \<and> (\<forall>t. attempts_in t es \<le> MAX_TASK_LIFETIME_ATTEMPTS)"

lemma complete_len_take: "complete_len (take (complete_len raw) raw) = complete_len raw" "complete_len raw \<le> length raw"
proof -
  obtain ls t where raw: "raw = unlines ls @ t" "LF \<notin> set t" using complete_lines [of raw] by blast
  show "complete_len (take (complete_len raw) raw) = complete_len raw" "complete_len raw \<le> length raw"
    using complete_len_unlines [of "[]" ls] by (simp_all add: raw complete_len_unlines)
qed

lemma read_locked_holds:
  assumes "read_attempt_records_locked env io f path c n True = (r, f1)" "log_holds env path c n es f"
  shows "log_holds env path c n es f1"
    and "r = Inr es' \<Longrightarrow> es' = es \<and> complete_len (lf_content f1) = length (lf_content f1)"
proof -
  let ?raw = "lf_content f" and ?cut = "f\<lparr>lf_content := take (complete_len (lf_content f)) (lf_content f)\<rparr>"
  have cut: "log_holds env path c n es ?cut"
    using assms(2) complete_len_take(2) [of ?raw] by (simp add: log_holds_def bounded_log_def parse_log_complete)
  have f1: "f1 = f \<or> f1 = ?cut" using assms(1)
    by (auto simp: read_attempt_records_locked_def Let_def split: sum.splits if_splits)
  then show "log_holds env path c n es f1" using cut assms(2) by auto
  assume "r = Inr es'"
  then have "parse_log env path c n ?raw = Inr es'" "complete_len ?raw \<noteq> length ?raw \<longrightarrow> f1 = ?cut" "complete_len ?raw = length ?raw \<longrightarrow> f1 = f"
    using assms(1) by (auto simp: read_attempt_records_locked_def Let_def elim!: ok_thenE split: sum.splits if_splits)
  then show "es' = es \<and> complete_len (lf_content f1) = length (lf_content f1)"
    using assms(2) complete_len_take [of ?raw] by (cases "complete_len ?raw = length ?raw") (auto simp: log_holds_def)
qed

lemma write_holds:
  assumes "write_receipt io path j f = (r, f1)" "log_holds env path c n es f" "complete_len (lf_content f) = length (lf_content f)"
    and "wf_djson j" "validate_attempt_receipt env j path (of_nat (length es) + 1) c n = Inr event"
    and "\<And>t. attempt_for t event \<Longrightarrow> attempts_in t es < MAX_TASK_LIFETIME_ATTEMPTS"
  shows "log_holds env path c n es f1 \<and> r \<noteq> Inr () \<or> log_holds env path c n (es @ [(j, event)]) f1"
proof -
  let ?line = "stringify j @ [LF]" and ?raw = "lf_content f"
  have counts: "attempts_in t (es @ [(j, event)]) \<le> MAX_TASK_LIFETIME_ATTEMPTS" for t
    using assms(2) assms(6) [of t] by (auto simp: attempts_in_def log_holds_def)
  have all: "log_holds env path c n (es @ [(j, event)]) (f\<lparr>lf_content := ?raw @ ?line\<rparr>)"
    if "length ?raw + length ?line \<le> MAX_ATTEMPT_RECEIPTS_LOG_BYTES"
    using assms(2) that counts parse_log_append [OF _ assms(3-5)] by (simp add: log_holds_def bounded_log_def)
  have part: "log_holds env path c n es (f\<lparr>lf_content := ?raw @ take k (stringify j)\<rparr>)"
    if "length ?raw + length ?line \<le> MAX_ATTEMPT_RECEIPTS_LOG_BYTES" for k
  proof -
    have "LF \<notin> set (take k (stringify j))"
      using printable_line [OF printable_write(1) [OF assms(4)]] by (auto simp: line_text_def stringify_def dest: in_set_takeD)
    then show ?thesis using assms(2) that parse_log_torn(1) [OF assms(3)] by (simp add: log_holds_def bounded_log_def)
  qed
  have split: "take k ?line = take k (stringify j) \<or> take k ?line = ?line" for k
    by (cases "k \<le> length (stringify j)") auto
  show ?thesis using assms(1) all part assms(2) split [of "lo_written io"]
    by (auto simp: write_receipt_def call_def Let_def simp del: take_append split: if_splits)
qed

text \<open>
  What an append does to the entries: a success with \<open>True\<close> added the record it returns, a success with
  \<open>False\<close> returns a record that was there, and a failure added at most one record.
\<close>

definition appended :: "string \<Rightarrow> DJson \<Rightarrow> (string + bool \<times> DJson) \<Rightarrow> (DJson \<times> AttemptEvent) list \<Rightarrow> (DJson \<times> AttemptEvent) list \<Rightarrow> bool" where
  "appended c payload r es es' \<longleftrightarrow>
     (case r of
        Inl _ \<Rightarrow> es' = es \<or> (\<exists>j event. es' = es @ [(j, event)])
      | Inr (fresh, shown) \<Rightarrow>
          if fresh then \<exists>j event. es' = es @ [(j, event)] \<and> carries payload j \<and> record_with_comment j c = Inr shown
          else es' = es \<and> (\<exists>(j, _) \<in> set es. record_with_comment j c = Inr shown))"

lemma appended_nothing: "appended c payload (Inl e) es es"
  by (simp add: appended_def)

lemma next_receipt_repeat:
  "next_receipt env io epochs path c n payload published es = Inr (False, j) \<Longrightarrow> j \<in> fst ` set es"
  unfolding next_receipt_def Let_def expect_def
  by (auto elim!: ok_thenE split: option.split_asm if_split_asm)

lemma append_locked_holds:
  assumes "append_locked env io epochs path c n payload published f = (r, f1)" "log_holds env path c n es f"
    and inputs: "attempt_receipt_input_epochs v = Inr epochs" "wf_djson payload" "utf8 c" "utf8 n" "utf8 (lo_now io)"
  shows "\<exists>es'. log_holds env path c n es' f1 \<and> appended c payload r es es'"
proof -
  obtain r0 f0 where read: "read_attempt_records_locked env io f path c n True = (r0, f0)" by fastforce
  note f0 = read_locked_holds [OF read assms(2)]
  consider e where "r = Inl e" "f1 = f0"
    | j where "r0 = Inr es" "next_receipt env io epochs path c n payload published es = Inr (False, j)" "f1 = f0"
        "r = ok_then (record_with_comment j c) (\<lambda>shown. Inr (False, shown))"
    | j r1 where "r0 = Inr es" "next_receipt env io epochs path c n payload published es = Inr (True, j)"
        "write_receipt io path j f0 = (r1, f1)" "r = ok_then r1 (\<lambda>_. ok_then (record_with_comment j c) (\<lambda>shown. Inr (True, shown)))"
    using assms(1) f0(2) unfolding append_locked_def read
    by (cases r0) (auto split: sum.split_asm prod.split_asm if_split_asm, metis)
  then show ?thesis
  proof cases
    case 1
    then show ?thesis using f0(1) by (auto simp: appended_def)
  next
    case (2 j)
    then show ?thesis using f0(1) next_receipt_repeat [OF 2(2)]
      by (cases "record_with_comment j c") (auto simp: appended_def intro!: exI [of _ es])
  next
    case (3 j r1)
    obtain event where wf: "wf_djson j" and carried: "carries payload j" and new: "validate_attempt_receipt env j path (of_nat (length es) + 1) c n = Inr event"
      "\<And>t. attempt_for t event \<Longrightarrow> attempts_in t es < MAX_TASK_LIFETIME_ATTEMPTS"
      using next_receipt_fresh [OF 3(2) inputs] unfolding attempts_in_def by blast
    have "complete_len (lf_content f0) = length (lf_content f0)" using f0(2) 3(1) by blast
    from write_holds [OF 3(3) f0(1) this wf new] show ?thesis
      using 3(4) carried by (cases r1; cases "record_with_comment j c") (auto simp: appended_def)
  qed
qed

section \<open>Logs that grow by appends\<close>

definition reads_as :: "LogEnv \<Rightarrow> string \<Rightarrow> string \<Rightarrow> string \<Rightarrow> (DJson \<times> AttemptEvent) list \<Rightarrow> LogWorld \<Rightarrow> bool" where
  "reads_as env path c n es w \<longleftrightarrow> (case lw_log w of None \<Rightarrow> es = [] | Some f \<Rightarrow> log_holds env path c n es f)"

text \<open>The state before the first append, any append whatever its calls do, and any change of the authority file.\<close>

inductive log_reachable :: "LogEnv \<Rightarrow> string \<Rightarrow> string \<Rightarrow> string \<Rightarrow> LogWorld \<Rightarrow> bool" for env path c n where
  absent: "lw_log w = None \<Longrightarrow> log_reachable env path c n w"
| append: "log_reachable env path c n w \<Longrightarrow> attempt_receipts_path v c = Inr path \<Longrightarrow> wf_djson payload \<Longrightarrow> utf8 (lo_now io) \<Longrightarrow>
    append_attempt_receipt env io v c n payload w = (r, w') \<Longrightarrow> log_reachable env path c n w'"
| publish: "log_reachable env path c n w \<Longrightarrow> log_reachable env path c n (w\<lparr>lw_authority := au\<rparr>)"

lemma empty_log_holds: "log_holds env path c n [] \<lparr>lf_regular = True, lf_nlink = 1, lf_content = []\<rparr>"
  using parse_log_unlines [of "[]" "[]" env path c n]
  by (simp add: log_holds_def bounded_log_def attempts_in_def str_lines.simps [of "[]"])

lemma append_reads_as:
  assumes "append_attempt_receipt env io v c n payload w = (r, w')" "reads_as env path c n es w"
    and "attempt_receipts_path v c = Inr path" "wf_djson payload" "utf8 c" "utf8 n" "utf8 (lo_now io)"
  shows "\<exists>es'. reads_as env path c n es' w' \<and> appended c payload r es es'"
proof -
  let ?opened = "ok_then (attempt_receipt_input_epochs v) (\<lambda>epochs.
       ok_then (attempt_receipts_path v c) (\<lambda>path.
       ok_then (prepare_attempt_receipts_parent io path) (\<lambda>_.
       ok_then (open_log io path (lw_log w)) (\<lambda>opened. Inr (epochs, path, opened)))))"
  show ?thesis
  proof (cases ?opened)
    case (Inl e)
    then show ?thesis using assms(1,2) by (auto simp: append_attempt_receipt_def appended_def)
  next
    case (Inr x)
    then obtain epochs f created where x: "attempt_receipt_input_epochs v = Inr epochs"
      "open_log io path (lw_log w) = Inr (f, created)" "x = (epochs, path, f, created)"
      using assms(3) by (auto elim!: ok_thenE)
    have f: "log_holds env path c n es f"
      using x(2) assms(2) empty_log_holds [of env path c n]
      by (auto simp: open_log_def reads_as_def elim!: ok_thenE split: option.split_asm)
    obtain r1 f1 where locked: "append_locked env io epochs path c n payload (lw_authority w) f = (r1, f1)" by fastforce
    have step: "(\<exists>e. r = Inl e) \<and> w' = w\<lparr>lw_log := Some f\<rparr> \<or> r = r1 \<and> w' = w\<lparr>lw_log := Some f1\<rparr>"
      using assms(1) unfolding append_attempt_receipt_def Inr x(3) by (auto simp: locked split: sum.split_asm)
    from append_locked_holds [OF locked f x(1) assms(4-7)] show ?thesis
      using step f by (auto simp: reads_as_def intro: appended_nothing)
  qed
qed

lemma reachable_reads_as: "log_reachable env path c n w \<Longrightarrow> utf8 c \<Longrightarrow> utf8 n \<Longrightarrow> \<exists>es. reads_as env path c n es w"
proof (induction rule: log_reachable.induct)
  case (append w v payload io r w')
  then show ?case using append_reads_as by blast
qed (auto simp: reads_as_def split: option.split)

lemma reads_as_read:
  assumes "reads_as env path c n es w" "attempt_receipts_path v c = Inr path" "\<And>x. \<not> lo_fails io x"
  shows "read_attempt_receipts env io v c n w = Inr (map snd es)" "attempts_in t es \<le> MAX_TASK_LIFETIME_ATTEMPTS"
  using assms by (auto simp: reads_as_def read_attempt_receipts_def call_def bounded_check_def log_holds_def attempts_in_def Let_def
      split: option.split_asm)

text \<open>What the complete lines of the log file hold: the JSON value each of them parses to.\<close>

definition stored_records :: "LogWorld \<Rightarrow> (string + DJson) list" where
  "stored_records w =
     (case lw_log w of
        None \<Rightarrow> []
      | Some f \<Rightarrow> map Driver_Json.parse (str_lines (take (complete_len (lf_content f)) (lf_content f))))"

lemma reads_as_stored:
  assumes "reads_as env path c n es w"
  shows "stored_records w = map (\<lambda>e. Inr (fst e)) es"
proof (cases "lw_log w")
  case None
  then show ?thesis using assms by (simp add: reads_as_def stored_records_def)
next
  case (Some f)
  then have "parse_log env path c n (lf_content f) = Inr es" using assms by (simp add: reads_as_def log_holds_def)
  then show ?thesis
    by (auto simp: Some stored_records_def parse_log_def log_text_def Let_def elim!: ok_thenE
        split: if_split_asm dest: log_records_parse)
qed

text \<open>
  C11. The log of attempt receipts survives every failure. Take a log that grew from nothing by appends, of which
  any system call may have failed at any time, with torn lines left behind, and one more append to it. Before and
  after, every complete line of the file parses, a reader whose own calls succeed reads the log without error, one
  event for each line, and finds at most ten attempt receipts for any task. If the append reports a new receipt,
  exactly one record was added to the file, it has every field of the payload, and the receipt shown is that record
  with its comment; if it reports an
  earlier one, the records are unchanged and the one shown, with its comment, is among them; if it fails, at most
  one record was added.
\<close>

theorem attempt_log_survives:
  assumes "log_reachable env path c n w" "attempt_receipts_path v c = Inr path" "utf8 c" "utf8 n"
    and "wf_djson payload" "utf8 (lo_now io)" "append_attempt_receipt env io v c n payload w = (r, w')"
    and calm: "\<And>x. \<not> lo_fails reader x"
  shows "\<exists>es es'. stored_records w = map (\<lambda>e. Inr (fst e)) es \<and> read_attempt_receipts env reader v c n w = Inr (map snd es) \<and>
           stored_records w' = map (\<lambda>e. Inr (fst e)) es' \<and> read_attempt_receipts env reader v c n w' = Inr (map snd es') \<and>
           appended c payload r es es' \<and> (\<forall>t. attempts_in t es' \<le> 10)"
proof -
  obtain es where es: "reads_as env path c n es w" using reachable_reads_as [OF assms(1,3,4)] by blast
  obtain es' where es': "reads_as env path c n es' w'" "appended c payload r es es'"
    using append_reads_as [OF assms(7) es assms(2,5,3,4,6)] by blast
  have "attempts_in t es' \<le> 10" for t using reads_as_read(2) [OF es'(1) assms(2) calm, of t] by (simp add: MAX_TASK_LIFETIME_ATTEMPTS_def)
  then show ?thesis
    using reads_as_read(1) [OF es assms(2) calm] reads_as_read(1) [OF es'(1) assms(2) calm] es'(2)
      reads_as_stored [OF es] reads_as_stored [OF es'(1)] by blast
qed

end
