(* ===== verification/Attempt_Log_Sample.thy ===== *)
theory Attempt_Log_Sample
  imports Attempt_Log_Safety
begin

text \<open>A first retry receipt, written to a log that does not exist yet.\<close>

definition sample_identity :: string where
  "sample_identity = ''sha256:'' @ replicate 64 (CHR ''a'')"

definition sample_log_env :: LogEnv where
  "sample_log_env =
     \<lparr>le_debug = (\<lambda>s. s), le_uuid = Some, le_rfc3339 = (\<lambda>_. True),
      le_authority = (\<lambda>_. Inr \<lparr>au_schema_version = 1, au_campaign = ''demo'', au_issue_number = ''7'', au_arm_serial = 3,
                              au_worklist_sha256 = sample_identity\<rparr>),
      le_utf8_error = (\<lambda>s. s)\<rparr>"

definition sample_log_io :: LogIo where
  "sample_log_io = \<lparr>lo_fails = (\<lambda>_. False), lo_error = (\<lambda>_. []), lo_written = 0, lo_now = ''2026-08-15T10:11:12.345Z'', lo_real_parent = True\<rparr>"

definition sample_log_path :: string where
  "sample_log_path = ''/s/attempt-receipts/demo/attempt-receipts-v1.jsonl''"

definition sample_source :: "DJson option" where
  "sample_source = Some (DObject [(''kind'', DString ''local-jsonl''), (''path'', DString sample_log_path), (''schemaVersion'', DNumber ''1'')])"

definition sample_payload :: DJson where
  "sample_payload =
     DObject [(''attempt'', DNumber ''1''), (''kind'', DString ''retry''), (''reason'', DString ''flaky''),
              (''redaction'', DString ''conservative-v2''), (''taskId'', DString ''a'')]"

definition sample_world :: LogWorld where
  "sample_world = \<lparr>lw_log = None, lw_authority = Some \<lparr>lf_regular = True, lf_nlink = 1, lf_content = ''{}''\<rparr>\<rparr>"

lemma sample_path: "attempt_receipts_path sample_source ''demo'' = Inr sample_log_path"
  by code_simp

lemma sample_payload_wf: "wf_djson sample_payload"
proof -
  have "show_nat 1 = ''1''" by code_simp
  then have "is_number ''1''" using show_nat_number [of 1] by simp
  moreover have "utf8 ''attempt''" "utf8 ''kind''" "utf8 ''retry''" "utf8 ''reason''" "utf8 ''flaky''" "utf8 ''redaction''"
    "utf8 ''conservative-v2''" "utf8 ''taskId''" "utf8 ''a''"
    by (rule ascii_utf8, simp add: byte_def)+
  moreover have "sorted_wrt (<) [''attempt'', ''kind'', ''reason'', ''redaction'', ''taskId'']" by code_simp
  ultimately show ?thesis by (simp add: sample_payload_def del: sorted_wrt.simps)
qed

lemma sample_state: "attempt_state_all [] [] = Inr \<lparr>as_diagnoses = [], as_retries = [], as_outcomes = [], as_escalation = None,
    as_lifetime_attempts = [], as_lifetime_exhausted = [], as_warnings = []\<rparr>"
  by code_simp

definition sample_record :: DJson where
  "sample_record =
     DObject [(''actor'', DString ''spec-build-driver''), (''armSerial'', DNumber ''3''), (''attempt'', DNumber ''1''), (''campaign'', DString ''demo''),
              (''issueNumber'', DString ''7''), (''kind'', DString ''retry''), (''reason'', DString ''flaky''),
              (''redaction'', DString ''conservative-v2''), (''schemaVersion'', DNumber ''2''), (''sequence'', DNumber ''1''),
              (''taskId'', DString ''a''), (''worklistSha256'', DString sample_identity), (''writtenAt'', DString ''2026-08-15T10:11:12.345Z'')]"

lemma sample_authority:
  "read_attempt_receipt_authority sample_log_env sample_log_io sample_log_path ''demo'' ''7'' (lw_authority sample_world)
     = Inr \<lparr>au_schema_version = 1, au_campaign = ''demo'', au_issue_number = ''7'', au_arm_serial = 3, au_worklist_sha256 = sample_identity\<rparr>"
proof -
  have "path_parent sample_log_path = Some ''/s/attempt-receipts/demo''" by code_simp
  moreover have "is_sha256_identity sample_identity" by code_simp
  ultimately show ?thesis
    by (simp add: read_attempt_receipt_authority_def sample_world_def sample_log_env_def sample_log_io_def call_def validate_for_def
        MAX_ATTEMPT_RECEIPT_AUTHORITY_BYTES_def ATTEMPT_RECEIPT_AUTHORITY_SCHEMA_VERSION_def)
qed

definition sample_event :: AttemptEvent where
  "sample_event = RetryEvent \<lparr>va_task_id = ''a'', va_attempt = 1, va_comment = ''local://campaign/demo/attempt-receipts/1'', va_text = ''flaky'',
     va_input_epoch = None, va_verdict = None, va_proposal = None\<rparr>"

lemma sample_valid: "validate_attempt_receipt sample_log_env sample_record sample_log_path 1 ''demo'' ''7'' = Inr sample_event"
  by code_simp

lemma sample_next:
  "next_receipt sample_log_env sample_log_io [] sample_log_path ''demo'' ''7'' sample_payload (lw_authority sample_world) [] = Inr (True, sample_record)"
proof -
  let ?st = "\<lparr>as_diagnoses = [], as_retries = [], as_outcomes = [], as_escalation = None, as_lifetime_attempts = [],
    as_lifetime_exhausted = [], as_warnings = []\<rparr>"
    and ?au = "\<lparr>au_schema_version = 1, au_campaign = ''demo'', au_issue_number = ''7'', au_arm_serial = 3, au_worklist_sha256 = sample_identity\<rparr>"
  obtain m where m: "sample_payload = DObject m" by (simp add: sample_payload_def)
  then have "admission sample_log_env ?st m = Inr None"
    "map_sum (\<lambda>e. e) DObject (with_epoch sample_log_env [] m (insert_entries m (stamped sample_log_io ?au ''demo'' ''7'' 1))) = Inr sample_record"
    unfolding sample_payload_def DJson.inject by (hypsubst, code_simp)+
  then show ?thesis using sample_valid
    by (auto simp: next_receipt_def sample_state sample_authority m ok_then_def split: sum.splits)
qed

lemma sample_append:
  "fst (append_attempt_receipt sample_log_env sample_log_io sample_source ''demo'' ''7'' sample_payload sample_world)
     = ok_then (record_with_comment sample_record ''demo'') (\<lambda>shown. Inr (True, shown))"
proof -
  have "length (stringify sample_record @ [LF]) \<le> 1000" by code_simp
  then have "length (stringify sample_record @ [LF]) \<le> 134217728" by linarith
  moreover have "attempt_receipt_input_epochs sample_source = Inr []" by code_simp
  moreover have "parse_log sample_log_env sample_log_path ''demo'' ''7'' [] = Inr []" by code_simp
  moreover have "path_parent sample_log_path \<noteq> None" by code_simp
  moreover have "complete_len [] = 0" by code_simp
  ultimately show ?thesis using sample_next
    by (auto simp: append_attempt_receipt_def sample_path prepare_attempt_receipts_parent_def call_def sample_log_io_def open_log_def sample_world_def
        secure_log_def append_locked_def read_attempt_records_locked_def bounded_check_def bounded_log_def write_receipt_def
        MAX_ATTEMPT_RECEIPTS_LOG_BYTES_def Let_def split: option.split)
qed

lemma sample_shown: "\<exists>shown. record_with_comment sample_record ''demo'' = Inr shown"
proof -
  have "map_sum (\<lambda>e. e) (\<lambda>_. ()) (record_with_comment sample_record ''demo'') = Inr ()" by code_simp
  then show ?thesis by (cases "record_with_comment sample_record ''demo''") auto
qed

theorem attempt_log_survives_witness:
  "\<exists>es. stored_records (snd (append_attempt_receipt sample_log_env sample_log_io sample_source ''demo'' ''7'' sample_payload sample_world))
          = map (\<lambda>e. Inr (fst e)) es \<and>
        read_attempt_receipts sample_log_env sample_log_io sample_source ''demo'' ''7''
          (snd (append_attempt_receipt sample_log_env sample_log_io sample_source ''demo'' ''7'' sample_payload sample_world)) = Inr (map snd es) \<and>
        length es = 1 \<and> attempts_in ''a'' es \<le> 10"
proof -
  have "log_reachable sample_log_env sample_log_path ''demo'' ''7'' sample_world" by (rule absent) (simp add: sample_world_def)
  moreover have "utf8 ''demo''" "utf8 ''7''" "utf8 (lo_now sample_log_io)"
    by (rule ascii_utf8, simp add: byte_def sample_log_io_def)+
  moreover have "\<And>x. \<not> lo_fails sample_log_io x" by (simp add: sample_log_io_def)
  ultimately obtain es es' where es0: "stored_records (snd (append_attempt_receipt sample_log_env sample_log_io sample_source ''demo'' ''7'' sample_payload sample_world))
          = map (\<lambda>e. Inr (fst e)) es'" and es:
    "read_attempt_receipts sample_log_env sample_log_io sample_source ''demo'' ''7'' sample_world = Inr (map snd es)"
    "read_attempt_receipts sample_log_env sample_log_io sample_source ''demo'' ''7''
          (snd (append_attempt_receipt sample_log_env sample_log_io sample_source ''demo'' ''7'' sample_payload sample_world)) = Inr (map snd es')"
    "appended ''demo'' sample_payload (fst (append_attempt_receipt sample_log_env sample_log_io sample_source ''demo'' ''7'' sample_payload sample_world)) es es'"
    "\<forall>t. attempts_in t es' \<le> 10"
    using attempt_log_survives [OF _ sample_path _ _ sample_payload_wf _ surjective_pairing, of sample_log_env "''7''" sample_world sample_log_io sample_log_io]
    by blast
  have "es = []" using es(1) by (simp add: read_attempt_receipts_def sample_path sample_world_def)
  then have "length es' = 1" using es(3) sample_shown by (auto simp: sample_append appended_def)
  with es0 es(2,4) show ?thesis by blast
qed

end
