(* ===== verification/Spec2Isabelle.thy ===== *)
theory Spec2Isabelle
  imports Lease_Restart Completion Gate_Budget Witness_Theorems Attestation_Chain Sha256 Driver_Json_Roundtrip Campaign_Lifecycle Stage_Sample Frontier_Sample Attempt_Log_Sample
begin

text \<open>
  A verification library for \<open>tally\<close>, a job daemon that admits work against declared resource pools,
  runs it, and records what happened in append-only ledgers.

  \<^bold>\<open>The program.\<close> \<open>crates/tally-core\<close> is the daemon's library. A request for a job names pools
  (\<open>config.rs\<close>, \<open>poolset.rs\<close>), carries a provenance capsule (\<open>provenance.rs\<close>, with the task
  references of \<open>crates/tally-client\<close>), and is admitted, queued, promoted or preempted by the lease
  engine (\<open>lease.rs\<close>), which logs every decision and debits consumption windows. When the job ends,
  its gate manifest decides acceptance (\<open>completion.rs\<close>, budgets in \<open>gate_budget.rs\<close>), and the outcome
  becomes a record of the witness ledger (\<open>witness.rs\<close>), a hash-chained file that several processes
  append to and that is verified in full or incrementally; advisory attestations go to a second
  chain in the same module. \<open>crates/spec-build-driver\<close> is the helper that campaigns run inside work
  trees. It reads briefs with its own JSON code and SHA-256, accepts a worklist from the base tree of a
  repository, keeps a log of attempt receipts and folds it, plans which tasks run next, checks what a lane
  changed, and publishes an integrated line; the campaign as a whole is held by a durable lease
  (\<open>campaign_lease.rs\<close>) and published under the rules of \<open>campaign_publish.rs\<close>.

  \<^bold>\<open>Theories.\<close>
  \<^item> \<open>Tally_Prelude\<close>: fixed-width integers with Rust's checked and saturating operations, strings as
    UTF-8 bytes, iterator functions, decimal formatting.
  \<^item> \<open>Pool_Config\<close> (\<open>config.rs\<close>, \<open>poolset.rs\<close>): priorities, resource kinds, pool definitions and
    canonical pool sets.
  \<^item> \<open>Lease_Window\<close>, \<open>Lease_Queue\<close>, \<open>Lease_Engine\<close>, \<open>Lease_Yield\<close>, \<open>Lease_Ops\<close>, \<open>Lease_Replay\<close>
    (\<open>lease.rs\<close>): the data and one pool's accounts, the aged and braided queue, the engine record with
    admission, grants and promotion, yield demands, the public methods, and restart from the event
    log. The engine is explicit state; every append to the event log may fail, and the failure
    branches are those of the code. \<open>Lease_Safety\<close> proves the invariant and the limits for every
    engine reachable from a new one or from one rebuilt from the log,
    \<open>Lease_Promote\<close> that a release refines a greedy scheduler, \<open>Lease_Tickets\<close> what each operation does to
    the tickets, \<open>Lease_Preempt\<close> the yield and preemption rules, \<open>Lease_Restart\<close> that the epoch counter
    fences the calls of earlier starts; \<open>Lease_Samples\<close> holds the concrete engine of the examples.
  \<^item> \<open>Completion\<close>, \<open>Gate_Budget\<close>: the bounded reading and validation of gate manifests, the
    acceptance decision, runtime budgets.
  \<^item> \<open>Json_Value\<close>, \<open>Provenance\<close> (\<open>provenance.rs\<close>, parts of \<open>tally-client\<close> and \<open>taskdb.rs\<close>): JSON trees
    in insertion order, task references, node roles and keys, the orchestration capsule, admission
    origins.
  \<^item> \<open>Hash_Chain\<close>, \<open>Text_Lines\<close>: the contract of a hash-chained ledger as a locale, and line-oriented
    reading.
  \<^item> \<open>Witness_Record\<close>, \<open>Witness_Validate\<close>, \<open>Witness_Verify\<close>, \<open>Witness_Ledger\<close> (\<open>witness.rs\<close>): records
    and their validation, the full verification pass, the head scan, suffix verification and the
    ledger handle. \<open>Witness_Chain\<close> characterises verification by the hash chain, \<open>Witness_Safety\<close> is
    the transition system of many handles under system-call faults, \<open>Witness_Theorems\<close> states the
    properties, \<open>Witness_Samples\<close> instantiates the codec.
  \<^item> \<open>Attestation\<close>, \<open>Attestation_Chain\<close>: reading, verifying, repairing and appending to the attestation
    chain, the agreement of the incremental handle with a full read, and what a payload too deep for the parser
    does to the chain.
  \<^item> \<open>Sha256_Spec\<close>, \<open>Sha256\<close> (\<open>spec-build-driver/src/sha256.rs\<close>): the standard's hash function with its constants
    as roots of primes, and the driver's hasher, which computes it.
  \<^item> \<open>Driver_Json\<close>, \<open>Driver_Json_Roundtrip\<close> (\<open>json.rs\<close>): values, canonical text, the recursive-descent
    parser with its error positions, and the round trip.
  \<^item> \<open>Driver_Git\<close>, \<open>Driver_Brief\<close> (\<open>git.rs\<close>, the readers of \<open>actions.rs\<close>): running Git and decoding its output,
    checked fields, identifiers, paths and coordinates. An action is a function of the world that fails
    or succeeds and returns the world; \<open>and_then\<close> is the question mark operator.
  \<^item> \<open>Campaign_Refs\<close>, \<open>Campaign_Publish\<close>, \<open>Campaign_Lease\<close>, \<open>Campaign_Lifecycle\<close>: the names of refs and who
    reads them, the publication decision, the lease with its faults, and the lease as a transition
    system over many processes.
  \<^item> \<open>Stage_Publish\<close>, \<open>Stage_Sample\<close>: the action that publishes a line, what it may do to the remote, and a
    repository in which it goes through.
  \<^item> \<open>Path_Glob\<close>, \<open>Lane_Gates\<close> (\<open>actions.rs\<close>, \<open>campaign_protection.rs\<close>): the memoised matchers with the relations
    they decide, the paths a lane changed, forbidden paths, the protected set and conflict domains.
  \<^item> \<open>Worklist_Tasks\<close>, \<open>Worklist\<close>, \<open>Worklist_Sample\<close>: normalisation of tasks, the campaign block, and the whole
    worklist action; an accepted worklist is ordered.
  \<^item> \<open>Attempts\<close>: attempt receipts as events and their fold, with pardons, escalations and the count that
    no pardon resets.
  \<^item> \<open>Attempt_Records\<close>, \<open>Attempt_Log\<close>, \<open>Driver_Json_Lines\<close>, \<open>Attempt_Log_Safety\<close>, \<open>Attempt_Log_Sample\<close> (\<open>actions.rs\<close>,
    \<open>attempt_receipts.rs\<close>): the records of the receipt log and their validation, reading and appending with system
    calls that may fail, the one-line form of printed values, the log as a transition system, and a first append.
  \<^item> \<open>Frontier\<close>, \<open>Frontier_Safety\<close>, \<open>Frontier_Sample\<close>: the plan of a reconciliation, from finished tasks and
    folded attempts to the tasks dispatched next, and what holds of it together with the worklist, the
    receipts and the lane gates.

  \<^bold>\<open>Parameters.\<close> Code outside the repository is a parameter: the JSON text codec of \<open>serde_json\<close> and
  the derived decoders, the digest of the \<open>sha2\<close> crate, the clock rendering, the file system through
  fault values chosen per call, the run of a Git command, the \<open>Debug\<close> form of a string, Unicode case folding,
  and the parsers of UUIDs and RFC 3339 times.
  Laws about them are named hypotheses (\<open>codec_laws\<close> and \<open>depth_law\<close> of the JSON codec; \<open>git_laws\<close>, what the
  very commands the driver runs do to the refs, over a \<open>GitView\<close> of the history), and the \<open>_Samples\<close> and
  \<open>_Sample\<close> theories give instances that satisfy them.

  \<^bold>\<open>Bounds.\<close> Machine integers are words of their width, or natural numbers where the code only counts
  elements of a collection in memory. Every loop is a total function with a measure, except those
  over an external reader, which are partial functions with the value \<open>None\<close> for a run without end.

  \<^bold>\<open>Not modelled.\<close> Parts that are input and output for the most part: sockets, processes and files
  of the daemon (\<open>daemon/\<close>, \<open>executor/\<close>, \<open>storage.rs\<close>, \<open>journal.rs\<close>, \<open>watch.rs\<close>), its SQL
  database (\<open>taskdb.rs\<close> beyond the admission types) and the queries and views over it (\<open>query.rs\<close>,
  \<open>query_v2.rs\<close>, \<open>usage.rs\<close>, \<open>usage_rollup.rs\<close>, \<open>history.rs\<close>, \<open>durable_view.rs\<close>, \<open>pagination.rs\<close>,
  \<open>retention.rs\<close>), recovery after a restart of jobs that ran (\<open>recovery.rs\<close>), the wire format and adapters
  (\<open>wire.rs\<close>, \<open>adapters.rs\<close>), the command line (\<open>crates/tally\<close>), the flow engine, which embeds a JavaScript
  interpreter (\<open>crates/tally-flow\<close>), and the specification linter (\<open>crates/spec-lint\<close>). Of the
  driver, the discovery of finished tasks in Git, the integration, diagnosis and work tree actions are
  left out.
\<close>

end
